(* ===== verification/Prelude.thy ===== *)
theory Prelude
  imports Main "HOL-Library.Sublist"
begin

text \<open>
  Shared vocabulary of the development: Go's fixed-width integers, instants and durations, byte
  strings with the operations of package \<^verbatim>\<open>strings\<close> the sources call, and the generic lemmas on
  lists and maps that several components need.

  A Go string is a sequence of bytes, so it is a \<^typ>\<open>string\<close> (a \<^typ>\<open>char\<close> is one byte).
  A Go \<^verbatim>\<open>int64\<close> (\<^verbatim>\<open>int\<close> on the supported platforms, \<^verbatim>\<open>time.Duration\<close>) is an \<^typ>\<open>int\<close> whose
  wrap-around is written out with \<open>wrap64\<close> at each operation that can leave the range.
\<close>

named_theorems go_int \<open>fixed-width integer facts\<close>
named_theorems go_str \<open>facts about byte strings\<close>

section \<open>Fixed-width integers\<close>

definition wrap64 :: "int \<Rightarrow> int" where
  "wrap64 x = (x + 2 ^ 63) mod 2 ^ 64 - 2 ^ 63"

definition in64 :: "int \<Rightarrow> bool" where
  "in64 x \<longleftrightarrow> - (2 ^ 63) \<le> x \<and> x < 2 ^ 63"

lemma wrap64_id [go_int]: "in64 x \<Longrightarrow> wrap64 x = x"
  by (simp add: wrap64_def in64_def)

lemma in64_wrap64 [go_int, simp]: "in64 (wrap64 x)"
proof -
  have "0 \<le> (x + 2 ^ 63) mod 2 ^ 64" "(x + 2 ^ 63) mod 2 ^ 64 < 2 ^ 64"
    by simp_all
  then show ?thesis by (simp add: wrap64_def in64_def)
qed

section \<open>Instants and durations\<close>

text \<open>
  An instant is a number of nanoseconds since the Unix epoch, a duration a number of nanoseconds.
  \<^verbatim>\<open>Time.Sub\<close> saturates at the ends of the \<^verbatim>\<open>int64\<close> range.
\<close>

type_synonym instant = int
type_synonym duration = int

definition nanosecond :: duration where "nanosecond = 1"
definition millisecond :: duration where "millisecond = 1000000"
definition second :: duration where "second = 1000000000"
definition minute :: duration where "minute = 60 * second"
definition hour :: duration where "hour = 60 * minute"

lemmas duration_units = nanosecond_def millisecond_def second_def minute_def hour_def

definition time_sub :: "instant \<Rightarrow> instant \<Rightarrow> duration" where
  "time_sub t u = max (- (2 ^ 63)) (min (2 ^ 63 - 1) (t - u))"

lemma time_sub_exact [go_int]: "in64 (t - u) \<Longrightarrow> time_sub t u = t - u"
  by (simp add: time_sub_def in64_def)

lemma time_sub_gt:
  "in64 d \<Longrightarrow> d < 2 ^ 63 - 1 \<Longrightarrow> (time_sub t u > d) = (t - u > d)"
  by (auto simp: time_sub_def in64_def)

section \<open>Byte strings\<close>

text \<open>
  \<^verbatim>\<open>strings.HasPrefix\<close>, \<^verbatim>\<open>strings.HasSuffix\<close> and \<^verbatim>\<open>strings.Contains\<close> are the library's
  \<^const>\<open>prefix\<close>, \<^const>\<open>suffix\<close> and \<^const>\<open>sublist\<close>. \<^verbatim>\<open>strings.Index\<close> gives the least offset of an occurrence.
\<close>

fun str_index :: "'a list \<Rightarrow> 'a list \<Rightarrow> nat option" where
  "str_index s sub =
     (if prefix sub s then Some 0
      else case s of [] \<Rightarrow> None | _ # s' \<Rightarrow> map_option Suc (str_index s' sub))"

declare str_index.simps [simp del]

lemma str_index_Nil [simp]: "str_index [] sub = (if sub = [] then Some 0 else None)"
  by (subst str_index.simps) auto

lemma str_index_Cons [simp]:
  "str_index (c # s) sub = (if prefix sub (c # s) then Some 0 else map_option Suc (str_index s sub))"
  by (subst str_index.simps) auto

lemma str_index_SomeD:
  "str_index s sub = Some i \<Longrightarrow> i \<le> length s \<and> prefix sub (drop i s) \<and> (\<forall>j < i. \<not> prefix sub (drop j s))"
proof (induction s arbitrary: i)
  case Nil
  then show ?case by (auto split: if_splits)
next
  case (Cons c s)
  show ?case
  proof (cases "prefix sub (c # s)")
    case True
    with Cons.prems show ?thesis by simp
  next
    case False
    with Cons.prems obtain k where k: "str_index s sub = Some k" and i: "i = Suc k"
      by auto
    from Cons.IH [OF k] False i show ?thesis
      by (auto simp: less_Suc_eq_0_disj)
  qed
qed

lemma str_index_NoneD: "str_index s sub = None \<Longrightarrow> \<not> prefix sub (drop j s)"
proof (induction s arbitrary: j)
  case Nil
  then show ?case by (auto split: if_splits)
next
  case (Cons c s)
  then show ?case by (cases j) (auto split: if_splits)
qed

lemma str_index_Some_length:
  "str_index s sub = Some i \<Longrightarrow> i + length sub \<le> length s"
  by (drule str_index_SomeD) (auto dest!: prefix_length_le)

text \<open>\<^verbatim>\<open>strings.Split\<close> by a separator of one byte; the result is never empty.\<close>

fun str_split :: "'a \<Rightarrow> 'a list \<Rightarrow> 'a list list" where
  "str_split c [] = [[]]"
| "str_split c (x # xs) =
     (if x = c then [] # str_split c xs
      else case str_split c xs of [] \<Rightarrow> [[x]] | p # ps \<Rightarrow> (x # p) # ps)"

fun str_join :: "'a list \<Rightarrow> 'a list list \<Rightarrow> 'a list" where
  "str_join sep [] = []"
| "str_join sep [p] = p"
| "str_join sep (p # q # ps) = p @ sep @ str_join sep (q # ps)"

lemma str_split_neq_Nil [simp]: "str_split c s \<noteq> []"
  by (cases s) (auto split: list.splits)

lemma str_join_Cons: "ps \<noteq> [] \<Longrightarrow> str_join sep (p # ps) = p @ sep @ str_join sep ps"
  by (cases ps) auto

lemma str_join_split [go_str]: "str_join [c] (str_split c s) = s"
proof (induction s)
  case Nil
  show ?case by simp
next
  case (Cons x xs)
  show ?case
  proof (cases "x = c")
    case True
    with Cons show ?thesis by (simp add: str_join_Cons)
  next
    case False
    obtain p ps where ps: "str_split c xs = p # ps"
      by (cases "str_split c xs") auto
    with Cons False show ?thesis by (cases ps) auto
  qed
qed

lemma str_split_no_sep: "p \<in> set (str_split c s) \<Longrightarrow> c \<notin> set p"
  by (induction s arbitrary: p) (auto split: list.splits if_splits)

lemma str_split_single: "c \<notin> set s \<Longrightarrow> str_split c s = [s]"
  by (induction s) auto

lemma str_split_append: "c \<notin> set p \<Longrightarrow> str_split c (p @ c # s) = p # str_split c s"
  by (induction p) auto

lemma str_split_join:
  "ps \<noteq> [] \<Longrightarrow> (\<And>p. p \<in> set ps \<Longrightarrow> c \<notin> set p) \<Longrightarrow> str_split c (str_join [c] ps) = ps"
  by (induction "[c]" ps rule: str_join.induct) (auto simp: str_split_single str_split_append)

lemma str_join_chars: "c \<in> set (str_join sep ps) \<Longrightarrow> c \<in> set sep \<or> (\<exists>p \<in> set ps. c \<in> set p)"
  by (induction sep ps rule: str_join.induct) auto

lemma str_split_chars: "p \<in> set (str_split c s) \<Longrightarrow> x \<in> set p \<Longrightarrow> x \<in> set s"
proof -
  assume h: "p \<in> set (str_split c s)" "x \<in> set p"
  obtain a b where "str_split c s = a @ p # b" using split_list [OF h(1)] by blast
  then have "s = str_join [c] (a @ p # b)" using str_join_split [of c s] by simp
  moreover have "x \<in> set (str_join [c] (a @ p # b))"
  proof (induction a)
    case Nil
    show ?case using h(2) by (cases b) auto
  next
    case (Cons y ys)
    then show ?case by (simp add: str_join_Cons)
  qed
  ultimately show "x \<in> set s" by simp
qed

lemma str_split_eq_length: "length (str_split c s) = Suc (count_list s c)"
  by (induction s) (auto split: list.splits)

lemma str_split_ge2: "c \<in> set s \<Longrightarrow> \<exists>p q ps. str_split c s = p # q # ps"
proof -
  assume "c \<in> set s"
  then have "count_list s c \<noteq> 0" by (simp add: count_list_0_iff)
  then have "2 \<le> length (str_split c s)" by (simp add: str_split_eq_length)
  then show ?thesis
    by (metis Suc_le_length_iff numeral_2_eq_2)
qed

section \<open>Lists\<close>

lemma prefix_take_iff: "prefix p s \<longleftrightarrow> take (length p) s = p"
  by (metis append_eq_conv_conj prefix_def take_is_prefix)

lemma sublist_iff_prefix_drop: "sublist p s \<longleftrightarrow> (\<exists>i \<le> length s. prefix p (drop i s))"
proof
  assume "sublist p s"
  then obtain xs ys where "s = xs @ p @ ys" by (auto simp: sublist_def)
  then have "prefix p (drop (length xs) s)" "length xs \<le> length s" by auto
  then show "\<exists>i \<le> length s. prefix p (drop i s)" by blast
next
  assume "\<exists>i \<le> length s. prefix p (drop i s)"
  then obtain i where "prefix p (drop i s)" by blast
  then obtain ys where "drop i s = p @ ys" by (auto simp: prefix_def)
  then have "s = take i s @ p @ ys" by (metis append_take_drop_id)
  then show "sublist p s" by (auto simp: sublist_def)
qed

lemma suffix_iff_drop: "suffix p s \<longleftrightarrow> length p \<le> length s \<and> drop (length s - length p) s = p"
  by (auto simp: suffix_def) (metis append_take_drop_id)

lemma sorted_key_hd_le:
  "sorted (map f xs) \<Longrightarrow> x \<in> set xs \<Longrightarrow> xs = y # ys \<Longrightarrow> f y \<le> (f x :: 'b :: linorder)"
  by auto

section \<open>Reachable states and invariants\<close>

text \<open>A component under an arbitrary interleaving of its operations: the states reachable from an
  initial one by steps, and the interface every inductive invariant satisfies.\<close>

inductive reach :: "('s \<Rightarrow> bool) \<Rightarrow> ('s \<Rightarrow> 's \<Rightarrow> bool) \<Rightarrow> 's \<Rightarrow> bool"
  for init :: "'s \<Rightarrow> bool" and step :: "'s \<Rightarrow> 's \<Rightarrow> bool" where
  reach_init: "init s \<Longrightarrow> reach init step s"
| reach_step: "reach init step s \<Longrightarrow> step s t \<Longrightarrow> reach init step t"

locale invariant_system =
  fixes init :: "'s \<Rightarrow> bool" and step :: "'s \<Rightarrow> 's \<Rightarrow> bool" and inv :: "'s \<Rightarrow> bool"
  assumes inv_init: "init s \<Longrightarrow> inv s"
    and inv_step: "inv s \<Longrightarrow> step s t \<Longrightarrow> inv t"
begin

lemma reach_inv: "reach init step s \<Longrightarrow> inv s"
  by (induction rule: reach.induct) (auto intro: inv_init inv_step)

end

end
