(* ===== verification/Utf8.thy ===== *)
theory Utf8
  imports Prelude
begin

text \<open>
  Runes and UTF-8 as Go's packages \<^verbatim>\<open>unicode/utf8\<close>, \<^verbatim>\<open>unicode\<close> and \<^verbatim>\<open>strings\<close> define them: decoding
  of one rune with its error value, encoding, the forward decomposition of a byte string that
  \<^verbatim>\<open>range\<close> loops and \<^verbatim>\<open>strings.Map\<close> follow, \<^verbatim>\<open>ToLower\<close>, \<^verbatim>\<open>EqualFold\<close>, \<^verbatim>\<open>TrimSpace\<close> and
  \<^verbatim>\<open>ToValidUTF8\<close>. The lemmas are the round trip between runes and bytes and the fact that an
  encoded needle can only occur at a rune boundary.
\<close>

section \<open>Runes and their encoding\<close>

type_synonym rune = nat

definition runeError :: rune where "runeError = 65533"

definition valid_rune :: "rune \<Rightarrow> bool" where
  "valid_rune r \<longleftrightarrow> r < 1114112 \<and> \<not> (55296 \<le> r \<and> r < 57344)"

definition byte :: "nat \<Rightarrow> char" where "byte n = char_of n"

definition is_cont :: "char \<Rightarrow> bool" where
  "is_cont c \<longleftrightarrow> 128 \<le> (of_char c :: nat) \<and> of_char c < (192 :: nat)"

text \<open>\<^verbatim>\<open>utf8.RuneStart\<close>: every byte but a continuation byte.\<close>

definition runeStart :: "char \<Rightarrow> bool" where "runeStart c \<longleftrightarrow> \<not> is_cont c"

definition encode_rune :: "rune \<Rightarrow> string" where
  "encode_rune r0 =
     (let r = (if valid_rune r0 then r0 else runeError) in
      if r < 128 then [byte r]
      else if r < 2048 then [byte (192 + r div 64), byte (128 + r mod 64)]
      else if r < 65536 then
        [byte (224 + r div 4096), byte (128 + r div 64 mod 64), byte (128 + r mod 64)]
      else
        [byte (240 + r div 262144), byte (128 + r div 4096 mod 64),
         byte (128 + r div 64 mod 64), byte (128 + r mod 64)])"

text \<open>The range of the second byte depends on the first one, which excludes overlong forms,
  surrogates and values above the last code point.\<close>

definition snd_lo :: "nat \<Rightarrow> nat" where
  "snd_lo x = (if x = 224 then 160 else if x = 240 then 144 else 128)"

definition snd_hi :: "nat \<Rightarrow> nat" where
  "snd_hi x = (if x = 237 then 159 else if x = 244 then 143 else 191)"

fun decode_rune :: "string \<Rightarrow> rune \<times> nat" where
  "decode_rune [] = (runeError, 0)"
| "decode_rune (a # s) =
     (let x = of_char a in
      if x < 128 then (x, 1)
      else if x < 194 \<or> 244 < x then (runeError, 1)
      else if x < 224 then
        (case s of b # _ \<Rightarrow>
           if is_cont b then ((x - 192) * 64 + (of_char b - 128), 2) else (runeError, 1)
         | _ \<Rightarrow> (runeError, 1))
      else if x < 240 then
        (case s of b # c # _ \<Rightarrow>
           if snd_lo x \<le> of_char b \<and> of_char b \<le> snd_hi x \<and> is_cont c
           then ((x - 224) * 4096 + (of_char b - 128) * 64 + (of_char c - 128), 3)
           else (runeError, 1)
         | _ \<Rightarrow> (runeError, 1))
      else
        (case s of b # c # d # _ \<Rightarrow>
           if snd_lo x \<le> of_char b \<and> of_char b \<le> snd_hi x \<and> is_cont c \<and> is_cont d
           then ((x - 240) * 262144 + (of_char b - 128) * 4096 + (of_char c - 128) * 64
                   + (of_char d - 128), 4)
           else (runeError, 1)
         | _ \<Rightarrow> (runeError, 1)))"

lemma of_char_byte [simp]: "n < 256 \<Longrightarrow> of_char (byte n) = n"
  by (simp add: byte_def of_char_of)

lemma of_char_byte_cont [simp]: "of_char (byte (128 + n mod 64)) = 128 + n mod (64 :: nat)"
proof -
  have "n mod 64 < 64" by simp
  then show ?thesis by (intro of_char_byte) linarith
qed

lemma of_char_lt [simp]: "of_char (c :: char) < (256 :: nat)"
proof -
  have "of_char c = (of_char c :: nat) mod 256" by simp
  then show ?thesis by (metis mod_less_divisor zero_less_numeral)
qed

lemma byte_of_char [simp]: "byte (of_char c) = c"
  by (simp add: byte_def)

lemma is_contD:
  "is_cont c \<Longrightarrow> c = byte (128 + (of_char c - 128)) \<and> of_char c - 128 < (64 :: nat)"
  by (simp add: is_cont_def) linarith

lemma decode_rune_size:
  "decode_rune (a # s) = (r, n) \<Longrightarrow> 1 \<le> n \<and> n \<le> Suc (length s)"
  by (auto simp: Let_def split: if_splits list.splits)

lemma decode_rune_snd: "1 \<le> snd (decode_rune (a # s))"
  using decode_rune_size by (metis prod.collapse)

lemma encode_rune_neq_Nil [simp]: "encode_rune r \<noteq> []"
  by (simp add: encode_rune_def Let_def)

lemma length_encode_rune: "length (encode_rune r) \<le> 4"
  by (simp add: encode_rune_def Let_def)

text \<open>Decoding undoes encoding, whatever follows.\<close>

lemma decode_encode_rune:
  assumes "valid_rune r"
  shows "decode_rune (encode_rune r @ s) = (r, length (encode_rune r))"
proof -
  consider "r < 128" | "128 \<le> r" "r < 2048" | "2048 \<le> r" "r < 65536" | "65536 \<le> r" "r < 1114112"
    using assms unfolding valid_rune_def by linarith
  then show ?thesis
  proof cases
    case 1
    with assms show ?thesis by (simp add: encode_rune_def Let_def)
  next
    case 2
    have "2 \<le> r div 64" "r div 64 < 32" using 2 by auto
    with 2 assms show ?thesis by (simp add: encode_rune_def Let_def is_cont_def)
  next
    case 3
    have b: "r div 4096 < 16" using 3 by auto
    have d: "r div 64 = r div 4096 * 64 + r div 64 mod 64"
      using div_mult_mod_eq [of "r div 64" 64] by (simp add: div_mult2_eq [symmetric])
    have lo: "snd_lo (224 + r div 4096) \<le> 128 + r div 64 mod 64"
      using d 3 by (auto simp: snd_lo_def)
    have "\<not> (55296 \<le> r \<and> r < 57344)" using assms by (simp add: valid_rune_def)
    then have hi: "128 + r div 64 mod 64 \<le> snd_hi (224 + r div 4096)"
      using d b by (auto simp: snd_hi_def)
    have "r = r div 4096 * 4096 + r div 64 mod 64 * 64 + r mod 64"
      using d div_mult_mod_eq [of r 64] by linarith
    with 3 b lo hi assms show ?thesis by (simp add: encode_rune_def Let_def is_cont_def)
  next
    case 4
    have b: "r div 262144 \<le> 4" using 4 by auto
    have d: "r div 4096 = r div 262144 * 64 + r div 4096 mod 64"
      using div_mult_mod_eq [of "r div 4096" 64] by (simp add: div_mult2_eq [symmetric])
    have lo: "snd_lo (240 + r div 262144) \<le> 128 + r div 4096 mod 64"
      using d 4 by (auto simp: snd_lo_def)
    have hi: "128 + r div 4096 mod 64 \<le> snd_hi (240 + r div 262144)"
      using d 4 by (auto simp: snd_hi_def)
    have e: "r div 64 = r div 4096 * 64 + r div 64 mod 64"
      using div_mult_mod_eq [of "r div 64" 64] by (simp add: div_mult2_eq [symmetric])
    have "r = r div 262144 * 262144 + r div 4096 mod 64 * 4096 + r div 64 mod 64 * 64 + r mod 64"
      using d e div_mult_mod_eq [of r 64] by linarith
    with 4 b lo hi assms show ?thesis by (simp add: encode_rune_def Let_def is_cont_def)
  qed
qed

lemma base64_digit: "z < 64 \<Longrightarrow> (a * 64 + z) div 64 = a \<and> (a * 64 + z) mod 64 = (z :: nat)"
  by simp

text \<open>What decoding accepts is the encoding of the rune it returns.\<close>

lemma decode_rune_sound:
  assumes "decode_rune (a # s) = (r, n)"
  shows "valid_rune r \<and> (take n (a # s) = encode_rune r \<or> r = runeError \<and> n = 1)"
proof -
  define x :: nat where "x = of_char a"
  have a: "a = byte x" and x: "x < 256" by (simp_all add: x_def)
  consider (err) "r = runeError" "n = 1"
    | (one) "x < 128" "r = x" "n = 1"
    | (two) b t where "194 \<le> x" "x < 224" "s = b # t" "is_cont b" "n = 2"
        "r = (x - 192) * 64 + (of_char b - 128)"
    | (three) b c t where "224 \<le> x" "x < 240" "s = b # c # t" "snd_lo x \<le> of_char b"
        "of_char b \<le> snd_hi x" "is_cont c" "n = 3"
        "r = (x - 224) * 4096 + (of_char b - 128) * 64 + (of_char c - 128)"
    | (four) b c d t where "240 \<le> x" "x \<le> 244" "s = b # c # d # t" "snd_lo x \<le> of_char b"
        "of_char b \<le> snd_hi x" "is_cont c" "is_cont d" "n = 4"
        "r = (x - 240) * 262144 + (of_char b - 128) * 4096 + (of_char c - 128) * 64 + (of_char d - 128)"
    using assms by (auto simp: Let_def x_def split: if_splits list.splits)
  then show ?thesis
  proof cases
    case err
    then show ?thesis by (simp add: valid_rune_def runeError_def)
  next
    case one
    then show ?thesis by (simp add: a valid_rune_def encode_rune_def Let_def)
  next
    case two
    define y :: nat where "y = of_char b - 128"
    have b: "b = byte (128 + y)" "y < 64"
      using is_contD [OF two(4)] by (simp_all add: y_def)
    have v: "valid_rune r" "128 \<le> r" "r < 2048" using two(1,2,6) b(2)
      by (auto simp: valid_rune_def y_def [symmetric])
    have "192 + r div 64 = x" "r mod 64 = y" using two b(2) by (simp_all add: y_def [symmetric])
    with v two a b show ?thesis by (simp add: encode_rune_def Let_def)
  next
    case three
    define y :: nat where "y = of_char b - 128"
    define z :: nat where "z = of_char c - 128"
    have lo: "128 \<le> (of_char b :: nat)" and hi: "of_char b < (192 :: nat)"
      using three(4,5) by (auto simp: snd_lo_def snd_hi_def split: if_splits)
    have "is_cont b" using lo hi by (simp add: is_cont_def)
    then have b: "b = byte (128 + y)" "y < 64" and c: "c = byte (128 + z)" "z < 64"
      using three(6) by (auto simp: y_def z_def dest: is_contD)
    have r: "r = (x - 224) * 4096 + y * 64 + z" using three by (simp add: y_def z_def)
    have e: "x = 224 \<Longrightarrow> 32 \<le> y" "x = 237 \<Longrightarrow> y < 32"
      using three(4,5) lo by (auto simp: y_def snd_lo_def snd_hi_def)
    have "x = 237 \<or> x < 237 \<or> 237 < x" by auto
    then have v: "valid_rune r" "2048 \<le> r" "r < 65536"
      using three(1,2) b(2) c(2) e unfolding valid_rune_def r by (cases "x = 224"; linarith)+
    have "r = ((x - 224) * 64 + y) * 64 + z" by (simp add: r algebra_simps)
    then have q: "r div 64 = (x - 224) * 64 + y" "r mod 64 = z" using base64_digit c(2) by metis+
    then have "224 + r div 4096 = x" "r div 64 mod 64 = y" "r mod 64 = z"
      using three(1) b(2) base64_digit [of y "x - 224"] by (auto simp: div_mult2_eq [of r 64 64, simplified])
    with v three a b c show ?thesis by (simp add: encode_rune_def Let_def)
  next
    case four
    define y :: nat where "y = of_char b - 128"
    define z :: nat where "z = of_char c - 128"
    define w :: nat where "w = of_char d - 128"
    have lo: "128 \<le> (of_char b :: nat)" and hi: "of_char b < (192 :: nat)"
      using four(4,5) by (auto simp: snd_lo_def snd_hi_def split: if_splits)
    have "is_cont b" using lo hi by (simp add: is_cont_def)
    then have b: "b = byte (128 + y)" "y < 64" and c: "c = byte (128 + z)" "z < 64"
      and d: "d = byte (128 + w)" "w < 64"
      using four(6,7) by (auto simp: y_def z_def w_def dest: is_contD)
    have r: "r = (x - 240) * 262144 + y * 4096 + z * 64 + w" using four by (simp add: y_def z_def w_def)
    have e: "x = 240 \<Longrightarrow> 16 \<le> y" "x = 244 \<Longrightarrow> y < 16"
      using four(4,5) lo by (auto simp: y_def snd_lo_def snd_hi_def)
    have "x = 244 \<or> x < 244" using four(2) by auto
    then have v: "valid_rune r" "65536 \<le> r" "r < 1114112"
      using four(1,2) b(2) c(2) d(2) e unfolding valid_rune_def r by (cases "x = 240"; linarith)+
    have "r = (((x - 240) * 64 + y) * 64 + z) * 64 + w" by (simp add: r algebra_simps)
    then have q: "r div 64 = ((x - 240) * 64 + y) * 64 + z" "r mod 64 = w"
      using base64_digit d(2) by metis+
    have "r div 64 div 64 = (x - 240) * 64 + y" and z: "r div 64 mod 64 = z"
      using q(1) base64_digit c(2) by metis+
    then have q2: "r div 4096 = (x - 240) * 64 + y" by (simp add: div_mult2_eq [of r 64 64, simplified])
    with z have "240 + r div 262144 = x" "r div 4096 mod 64 = y" "r div 64 mod 64 = z" "r mod 64 = w"
      using four(1) b(2) q q2 base64_digit [of y "x - 240"]
      by (auto simp: div_mult2_eq [of r 4096 64, simplified])
    with v four a b c d show ?thesis by (simp add: encode_rune_def Let_def)
  qed
qed

text \<open>The first byte of an encoding starts a rune, the others continue it.\<close>

lemma encode_rune_shape:
  "\<exists>b bs. encode_rune r = b # bs \<and> \<not> is_cont b \<and> list_all is_cont bs"
proof -
  define q where "q = (if valid_rune r then r else runeError)"
  have "q < 1114112" by (auto simp: q_def valid_rune_def runeError_def)
  then have "q div 4096 < 16 \<or> 65536 \<le> q" "q div 262144 \<le> 4" "q div 64 < 32 \<or> 2048 \<le> q" by auto
  then show ?thesis
    by (auto simp: encode_rune_def q_def [symmetric] Let_def is_cont_def)
qed

declare decode_rune.simps(2) [simp del]

section \<open>Byte strings as runes\<close>

text \<open>The decomposition a \<^verbatim>\<open>range\<close> loop follows: each rune with the bytes it came from.\<close>

function decode_all :: "string \<Rightarrow> (rune \<times> string) list" where
  "decode_all [] = []"
| "decode_all (a # s) =
     (case decode_rune (a # s) of (r, n) \<Rightarrow> (r, take n (a # s)) # decode_all (drop n (a # s)))"
  by pat_completeness auto
termination
proof (relation "measure length")
  fix a s x y
  assume "(x, y) = decode_rune (a # s)"
  then have "1 \<le> y" using decode_rune_size by metis
  then show "(drop y (a # s), a # s) \<in> measure length" by simp
qed simp

definition runes :: "string \<Rightarrow> rune list" where
  "runes s = map fst (decode_all s)"

definition utf8_encode :: "rune list \<Rightarrow> string" where
  "utf8_encode rs = concat (map encode_rune rs)"

text \<open>\<^verbatim>\<open>utf8.ValidString\<close>: no chunk is a one-byte decoding error.\<close>

definition valid_utf8 :: "string \<Rightarrow> bool" where
  "valid_utf8 s \<longleftrightarrow> list_all (\<lambda>(r, b). \<not> (r = runeError \<and> length b = 1)) (decode_all s)"

lemma concat_decode_all [go_str]: "concat (map snd (decode_all s)) = s"
  by (induction s rule: decode_all.induct) (auto split: prod.splits)

lemma runes_valid: "list_all valid_rune (runes s)"
  by (induction s rule: decode_all.induct)
    (auto simp: runes_def split: prod.splits dest: decode_rune_sound)

lemma utf8_encode_Cons [simp]: "utf8_encode (r # rs) = encode_rune r @ utf8_encode rs"
  by (simp add: utf8_encode_def)

lemma utf8_encode_Nil [simp]: "utf8_encode [] = []"
  by (simp add: utf8_encode_def)

lemma utf8_encode_append [simp]: "utf8_encode (xs @ ys) = utf8_encode xs @ utf8_encode ys"
  by (simp add: utf8_encode_def)

lemma length_encode_rune_1: "length (encode_rune r) = 1 \<Longrightarrow> valid_rune r \<Longrightarrow> r < 128"
  by (auto simp: encode_rune_def Let_def split: if_splits)

lemma decode_all_encode:
  "list_all valid_rune rs \<Longrightarrow> decode_all (utf8_encode rs) = map (\<lambda>r. (r, encode_rune r)) rs"
proof (induction rs)
  case (Cons r rs)
  obtain b bs where e: "encode_rune r = b # bs" using encode_rune_shape by blast
  have "decode_rune (b # bs @ utf8_encode rs) = (r, length (encode_rune r))"
    using decode_encode_rune [of r "utf8_encode rs"] Cons.prems e by simp
  with Cons e show ?case by simp
qed simp

lemma runes_encode: "list_all valid_rune rs \<Longrightarrow> runes (utf8_encode rs) = rs"
  by (simp add: runes_def decode_all_encode comp_def)

lemma valid_utf8_encode: "list_all valid_rune rs \<Longrightarrow> valid_utf8 (utf8_encode rs)"
  using length_encode_rune_1 [of runeError]
  by (auto simp: valid_utf8_def decode_all_encode list_all_iff runeError_def valid_rune_def)

lemma valid_utf8_runes:
  "valid_utf8 s \<Longrightarrow> utf8_encode (runes s) = s"
proof (induction s rule: decode_all.induct)
  case 1
  show ?case by (simp add: runes_def)
next
  case (2 a s)
  obtain r n where d: "decode_rune (a # s) = (r, n)" by force
  have n: "1 \<le> n" using d decode_rune_size by blast
  have "\<not> (r = runeError \<and> n = 1)" and v: "valid_utf8 (drop n (a # s))"
    using "2.prems" n d by (auto simp: valid_utf8_def)
  then have "take n (a # s) = encode_rune r" using decode_rune_sound [OF d] by blast
  moreover have "utf8_encode (runes (drop n (a # s))) = drop n (a # s)"
    using "2.IH" [OF d [symmetric]] v by simp
  ultimately have "utf8_encode (runes (a # s)) = take n (a # s) @ drop n (a # s)"
    by (simp add: runes_def d)
  then show ?case by (simp only: append_take_drop_id)
qed

lemma valid_utf8_iff: "valid_utf8 s \<longleftrightarrow> (\<exists>rs. list_all valid_rune rs \<and> s = utf8_encode rs)"
  using valid_utf8_runes runes_valid valid_utf8_encode by metis

section \<open>Case mapping\<close>

text \<open>
  \<^verbatim>\<open>unicode.ToLower\<close>. Below 128 it is the ASCII rule; above, the simple lower-case mapping of
  Unicode 15 as ranges \<open>(first, last, stride, delta)\<close>, disjoint and in ascending order.
\<close>

definition lower_ranges :: "(nat \<times> nat \<times> nat \<times> int) list" where
  "lower_ranges =
    [(192, 214, 1, 32), (216, 222, 1, 32), (256, 302, 2, 1), (304, 304, 1, - 199), (306, 310, 2, 1),
     (313, 327, 2, 1), (330, 374, 2, 1), (376, 376, 1, - 121), (377, 381, 2, 1), (385, 385, 1, 210),
     (386, 388, 2, 1), (390, 390, 1, 206), (391, 391, 1, 1), (393, 394, 1, 205), (395, 395, 1, 1),
     (398, 398, 1, 79), (399, 399, 1, 202), (400, 400, 1, 203), (401, 401, 1, 1), (403, 403, 1,
     205), (404, 404, 1, 207), (406, 406, 1, 211), (407, 407, 1, 209), (408, 408, 1, 1), (412, 412,
     1, 211), (413, 413, 1, 213), (415, 415, 1, 214), (416, 420, 2, 1), (422, 422, 1, 218), (423,
     423, 1, 1), (425, 425, 1, 218), (428, 428, 1, 1), (430, 430, 1, 218), (431, 431, 1, 1), (433,
     434, 1, 217), (435, 437, 2, 1), (439, 439, 1, 219), (440, 440, 1, 1), (444, 444, 1, 1), (452,
     452, 1, 2), (453, 453, 1, 1), (455, 455, 1, 2), (456, 456, 1, 1), (458, 458, 1, 2), (459, 475,
     2, 1), (478, 494, 2, 1), (497, 497, 1, 2), (498, 500, 2, 1), (502, 502, 1, - 97), (503, 503, 1,
     - 56), (504, 542, 2, 1), (544, 544, 1, - 130), (546, 562, 2, 1), (570, 570, 1, 10795), (571,
     571, 1, 1), (573, 573, 1, - 163), (574, 574, 1, 10792), (577, 577, 1, 1), (579, 579, 1, - 195),
     (580, 580, 1, 69), (581, 581, 1, 71), (582, 590, 2, 1), (880, 882, 2, 1), (886, 886, 1, 1),
     (895, 895, 1, 116), (902, 902, 1, 38), (904, 906, 1, 37), (908, 908, 1, 64), (910, 911, 1, 63),
     (913, 929, 1, 32), (931, 939, 1, 32), (975, 975, 1, 8), (984, 1006, 2, 1), (1012, 1012, 1, -
     60), (1015, 1015, 1, 1), (1017, 1017, 1, - 7), (1018, 1018, 1, 1), (1021, 1023, 1, - 130),
     (1024, 1039, 1, 80), (1040, 1071, 1, 32), (1120, 1152, 2, 1), (1162, 1214, 2, 1), (1216, 1216,
     1, 15), (1217, 1229, 2, 1), (1232, 1326, 2, 1), (1329, 1366, 1, 48), (4256, 4293, 1, 7264),
     (4295, 4295, 1, 7264), (4301, 4301, 1, 7264), (5024, 5103, 1, 38864), (5104, 5109, 1, 8),
     (7312, 7354, 1, - 3008), (7357, 7359, 1, - 3008), (7680, 7828, 2, 1), (7838, 7838, 1, - 7615),
     (7840, 7934, 2, 1), (7944, 7951, 1, - 8), (7960, 7965, 1, - 8), (7976, 7983, 1, - 8), (7992,
     7999, 1, - 8), (8008, 8013, 1, - 8), (8025, 8031, 2, - 8), (8040, 8047, 1, - 8), (8072, 8079,
     1, - 8), (8088, 8095, 1, - 8), (8104, 8111, 1, - 8), (8120, 8121, 1, - 8), (8122, 8123, 1, -
     74), (8124, 8124, 1, - 9), (8136, 8139, 1, - 86), (8140, 8140, 1, - 9), (8152, 8153, 1, - 8),
     (8154, 8155, 1, - 100), (8168, 8169, 1, - 8), (8170, 8171, 1, - 112), (8172, 8172, 1, - 7),
     (8184, 8185, 1, - 128), (8186, 8187, 1, - 126), (8188, 8188, 1, - 9), (8486, 8486, 1, - 7517),
     (8490, 8490, 1, - 8383), (8491, 8491, 1, - 8262), (8498, 8498, 1, 28), (8544, 8559, 1, 16),
     (8579, 8579, 1, 1), (9398, 9423, 1, 26), (11264, 11311, 1, 48), (11360, 11360, 1, 1), (11362,
     11362, 1, - 10743), (11363, 11363, 1, - 3814), (11364, 11364, 1, - 10727), (11367, 11371, 2,
     1), (11373, 11373, 1, - 10780), (11374, 11374, 1, - 10749), (11375, 11375, 1, - 10783), (11376,
     11376, 1, - 10782), (11378, 11378, 1, 1), (11381, 11381, 1, 1), (11390, 11391, 1, - 10815),
     (11392, 11490, 2, 1), (11499, 11501, 2, 1), (11506, 11506, 1, 1), (42560, 42604, 2, 1), (42624,
     42650, 2, 1), (42786, 42798, 2, 1), (42802, 42862, 2, 1), (42873, 42875, 2, 1), (42877, 42877,
     1, - 35332), (42878, 42886, 2, 1), (42891, 42891, 1, 1), (42893, 42893, 1, - 42280), (42896,
     42898, 2, 1), (42902, 42920, 2, 1), (42922, 42922, 1, - 42308), (42923, 42923, 1, - 42319),
     (42924, 42924, 1, - 42315), (42925, 42925, 1, - 42305), (42926, 42926, 1, - 42308), (42928,
     42928, 1, - 42258), (42929, 42929, 1, - 42282), (42930, 42930, 1, - 42261), (42931, 42931, 1,
     928), (42932, 42946, 2, 1), (42948, 42948, 1, - 48), (42949, 42949, 1, - 42307), (42950, 42950,
     1, - 35384), (42951, 42953, 2, 1), (42960, 42960, 1, 1), (42966, 42968, 2, 1), (42997, 42997,
     1, 1), (65313, 65338, 1, 32), (66560, 66599, 1, 40), (66736, 66771, 1, 40), (66928, 66938, 1,
     39), (66940, 66954, 1, 39), (66956, 66962, 1, 39), (66964, 66965, 1, 39), (68736, 68786, 1,
     64), (71840, 71871, 1, 32), (93760, 93791, 1, 32), (125184, 125217, 1, 34)]"

definition in_range :: "rune \<Rightarrow> nat \<times> nat \<times> nat \<times> int \<Rightarrow> bool" where
  "in_range r x = (case x of (lo, hi, st, d) \<Rightarrow> lo \<le> r \<and> r \<le> hi \<and> (r - lo) mod st = 0)"

definition unicode_ToLower :: "rune \<Rightarrow> rune" where
  "unicode_ToLower r =
     (if r < 128 then (if 65 \<le> r \<and> r \<le> 90 then r + 32 else r)
      else case List.find (in_range r) lower_ranges of
             None \<Rightarrow> r | Some (lo, hi, st, d) \<Rightarrow> nat (int r + d))"

text \<open>The representative of a rune's simple-folding orbit (\<^verbatim>\<open>unicode.SimpleFold\<close>): its lower case,
  merged with the lower-case letters that share an orbit. The dotted capital I and the dotless small
  i are alone in their orbits.\<close>

definition fold_pairs :: "(rune \<times> rune) list" where
  "fold_pairs =
    [(383, 115), (953, 837), (956, 181), (963, 962), (976, 946), (977, 952), (981, 966), (982, 960),
     (1008, 954), (1009, 961), (1013, 949), (7296, 1074), (7297, 1076), (7298, 1086), (7299, 1089),
     (7300, 1090), (7301, 1090), (7302, 1098), (7303, 1123), (7835, 7777), (8126, 837), (42571,
     7304)]"

definition fold_rep :: "rune \<Rightarrow> rune" where
  "fold_rep r =
     (if r = 304 \<or> r = 305 then r
      else let l = unicode_ToLower r in case map_of fold_pairs l of None \<Rightarrow> l | Some q \<Rightarrow> q)"

definition equal_fold :: "string \<Rightarrow> string \<Rightarrow> bool" where
  "equal_fold s t \<longleftrightarrow> map fold_rep (runes s) = map fold_rep (runes t)"

text \<open>\<^verbatim>\<open>strings.ToLower\<close>: the mapping applied rune by rune; an invalid byte becomes U+FFFD.\<close>

definition to_lower :: "string \<Rightarrow> string" where
  "to_lower s = utf8_encode (map unicode_ToLower (runes s))"

text \<open>\<^verbatim>\<open>unicode.ToUpper\<close> and \<^verbatim>\<open>strings.ToUpper\<close>, by the same scheme.\<close>

definition upper_ranges :: "(nat \<times> nat \<times> nat \<times> int) list" where
  "upper_ranges =
    [(181, 181, 1, 743), (224, 246, 1, - 32), (248, 254, 1, - 32), (255, 255, 1, 121), (257, 303, 2,
     - 1), (305, 305, 1, - 232), (307, 311, 2, - 1), (314, 328, 2, - 1), (331, 375, 2, - 1), (378,
     382, 2, - 1), (383, 383, 1, - 300), (384, 384, 1, 195), (387, 389, 2, - 1), (392, 392, 1, - 1),
     (396, 396, 1, - 1), (402, 402, 1, - 1), (405, 405, 1, 97), (409, 409, 1, - 1), (410, 410, 1,
     163), (414, 414, 1, 130), (417, 421, 2, - 1), (424, 424, 1, - 1), (429, 429, 1, - 1), (432,
     432, 1, - 1), (436, 438, 2, - 1), (441, 441, 1, - 1), (445, 445, 1, - 1), (447, 447, 1, 56),
     (453, 453, 1, - 1), (454, 454, 1, - 2), (456, 456, 1, - 1), (457, 457, 1, - 2), (459, 459, 1, -
     1), (460, 460, 1, - 2), (462, 476, 2, - 1), (477, 477, 1, - 79), (479, 495, 2, - 1), (498, 498,
     1, - 1), (499, 499, 1, - 2), (501, 501, 1, - 1), (505, 543, 2, - 1), (547, 563, 2, - 1), (572,
     572, 1, - 1), (575, 576, 1, 10815), (578, 578, 1, - 1), (583, 591, 2, - 1), (592, 592, 1,
     10783), (593, 593, 1, 10780), (594, 594, 1, 10782), (595, 595, 1, - 210), (596, 596, 1, - 206),
     (598, 599, 1, - 205), (601, 601, 1, - 202), (603, 603, 1, - 203), (604, 604, 1, 42319), (608,
     608, 1, - 205), (609, 609, 1, 42315), (611, 611, 1, - 207), (613, 613, 1, 42280), (614, 614, 1,
     42308), (616, 616, 1, - 209), (617, 617, 1, - 211), (618, 618, 1, 42308), (619, 619, 1, 10743),
     (620, 620, 1, 42305), (623, 623, 1, - 211), (625, 625, 1, 10749), (626, 626, 1, - 213), (629,
     629, 1, - 214), (637, 637, 1, 10727), (640, 640, 1, - 218), (642, 642, 1, 42307), (643, 643, 1,
     - 218), (647, 647, 1, 42282), (648, 648, 1, - 218), (649, 649, 1, - 69), (650, 651, 1, - 217),
     (652, 652, 1, - 71), (658, 658, 1, - 219), (669, 669, 1, 42261), (670, 670, 1, 42258), (837,
     837, 1, 84), (881, 883, 2, - 1), (887, 887, 1, - 1), (891, 893, 1, 130), (940, 940, 1, - 38),
     (941, 943, 1, - 37), (945, 961, 1, - 32), (962, 962, 1, - 31), (963, 971, 1, - 32), (972, 972,
     1, - 64), (973, 974, 1, - 63), (976, 976, 1, - 62), (977, 977, 1, - 57), (981, 981, 1, - 47),
     (982, 982, 1, - 54), (983, 983, 1, - 8), (985, 1007, 2, - 1), (1008, 1008, 1, - 86), (1009,
     1009, 1, - 80), (1010, 1010, 1, 7), (1011, 1011, 1, - 116), (1013, 1013, 1, - 96), (1016, 1016,
     1, - 1), (1019, 1019, 1, - 1), (1072, 1103, 1, - 32), (1104, 1119, 1, - 80), (1121, 1153, 2, -
     1), (1163, 1215, 2, - 1), (1218, 1230, 2, - 1), (1231, 1231, 1, - 15), (1233, 1327, 2, - 1),
     (1377, 1414, 1, - 48), (4304, 4346, 1, 3008), (4349, 4351, 1, 3008), (5112, 5117, 1, - 8),
     (7296, 7296, 1, - 6254), (7297, 7297, 1, - 6253), (7298, 7298, 1, - 6244), (7299, 7300, 1, -
     6242), (7301, 7301, 1, - 6243), (7302, 7302, 1, - 6236), (7303, 7303, 1, - 6181), (7304, 7304,
     1, 35266), (7545, 7545, 1, 35332), (7549, 7549, 1, 3814), (7566, 7566, 1, 35384), (7681, 7829,
     2, - 1), (7835, 7835, 1, - 59), (7841, 7935, 2, - 1), (7936, 7943, 1, 8), (7952, 7957, 1, 8),
     (7968, 7975, 1, 8), (7984, 7991, 1, 8), (8000, 8005, 1, 8), (8017, 8023, 2, 8), (8032, 8039, 1,
     8), (8048, 8049, 1, 74), (8050, 8053, 1, 86), (8054, 8055, 1, 100), (8056, 8057, 1, 128),
     (8058, 8059, 1, 112), (8060, 8061, 1, 126), (8064, 8071, 1, 8), (8080, 8087, 1, 8), (8096,
     8103, 1, 8), (8112, 8113, 1, 8), (8115, 8115, 1, 9), (8126, 8126, 1, - 7205), (8131, 8131, 1,
     9), (8144, 8145, 1, 8), (8160, 8161, 1, 8), (8165, 8165, 1, 7), (8179, 8179, 1, 9), (8526,
     8526, 1, - 28), (8560, 8575, 1, - 16), (8580, 8580, 1, - 1), (9424, 9449, 1, - 26), (11312,
     11359, 1, - 48), (11361, 11361, 1, - 1), (11365, 11365, 1, - 10795), (11366, 11366, 1, -
     10792), (11368, 11372, 2, - 1), (11379, 11379, 1, - 1), (11382, 11382, 1, - 1), (11393, 11491,
     2, - 1), (11500, 11502, 2, - 1), (11507, 11507, 1, - 1), (11520, 11557, 1, - 7264), (11559,
     11559, 1, - 7264), (11565, 11565, 1, - 7264), (42561, 42605, 2, - 1), (42625, 42651, 2, - 1),
     (42787, 42799, 2, - 1), (42803, 42863, 2, - 1), (42874, 42876, 2, - 1), (42879, 42887, 2, - 1),
     (42892, 42892, 1, - 1), (42897, 42899, 2, - 1), (42900, 42900, 1, 48), (42903, 42921, 2, - 1),
     (42933, 42947, 2, - 1), (42952, 42954, 2, - 1), (42961, 42961, 1, - 1), (42967, 42969, 2, - 1),
     (42998, 42998, 1, - 1), (43859, 43859, 1, - 928), (43888, 43967, 1, - 38864), (65345, 65370, 1,
     - 32), (66600, 66639, 1, - 40), (66776, 66811, 1, - 40), (66967, 66977, 1, - 39), (66979,
     66993, 1, - 39), (66995, 67001, 1, - 39), (67003, 67004, 1, - 39), (68800, 68850, 1, - 64),
     (71872, 71903, 1, - 32), (93792, 93823, 1, - 32), (125218, 125251, 1, - 34)]"

definition unicode_ToUpper :: "rune \<Rightarrow> rune" where
  "unicode_ToUpper r =
     (if r < 128 then (if 97 \<le> r \<and> r \<le> 122 then r - 32 else r)
      else case List.find (in_range r) upper_ranges of
             None \<Rightarrow> r | Some (lo, hi, st, d) \<Rightarrow> nat (int r + d))"

definition to_upper :: "string \<Rightarrow> string" where
  "to_upper s = utf8_encode (map unicode_ToUpper (runes s))"

text \<open>The table maps a scalar value to a scalar value.\<close>

definition safe_range :: "nat \<times> nat \<times> nat \<times> int \<Rightarrow> bool" where
  "safe_range x = (case x of (lo, hi, st, d) \<Rightarrow>
     0 \<le> int lo + d \<and> (int hi + d < 55296 \<or> 57344 \<le> int lo + d \<and> int hi + d < 1114112))"

lemma lower_ranges_safe: "list_all safe_range lower_ranges"
  by (simp add: lower_ranges_def safe_range_def)

lemma valid_rune_ToLower: "valid_rune r \<Longrightarrow> valid_rune (unicode_ToLower r)"
proof (cases "List.find (in_range r) lower_ranges")
  case None
  moreover assume "valid_rune r"
  ultimately show ?thesis by (auto simp: unicode_ToLower_def valid_rune_def)
next
  case (Some x)
  obtain lo hi st d where x: "x = (lo, hi, st, d)" by (cases x)
  have "x \<in> set lower_ranges" "in_range r x"
    using Some by (auto simp: find_Some_iff)
  then have "safe_range x" "lo \<le> r" "r \<le> hi"
    using lower_ranges_safe by (auto simp: list_all_iff in_range_def x)
  then have "nat (int r + d) < 55296 \<or> 57344 \<le> nat (int r + d) \<and> nat (int r + d) < 1114112"
    by (auto simp: safe_range_def x)
  with Some x show ?thesis by (auto simp: unicode_ToLower_def valid_rune_def)
qed

lemma runes_to_lower: "runes (to_lower s) = map unicode_ToLower (runes s)"
proof -
  have "list_all valid_rune (map unicode_ToLower (runes s))"
    using runes_valid [of s] valid_rune_ToLower by (auto simp: list_all_iff)
  then show ?thesis by (simp add: to_lower_def runes_encode)
qed

lemma valid_utf8_to_lower: "valid_utf8 (to_lower s)"
  unfolding to_lower_def
  by (rule valid_utf8_encode) (use runes_valid [of s] valid_rune_ToLower in \<open>auto simp: list_all_iff\<close>)

lemma to_lower_Nil_iff [simp]: "to_lower s = [] \<longleftrightarrow> s = []"
  by (cases s) (auto simp: to_lower_def runes_def split: prod.splits)

section \<open>Occurrences start at rune boundaries\<close>

lemma prefix_utf8_encode:
  assumes "list_all valid_rune xs" and "list_all valid_rune ys"
  shows "prefix (utf8_encode xs) (utf8_encode ys) \<longleftrightarrow> prefix xs ys"
  using assms
proof (induction xs arbitrary: ys)
  case (Cons x xs)
  show ?case
  proof (cases ys)
    case Nil
    then show ?thesis by simp
  next
    case (Cons y zs)
    have vx: "valid_rune x" and vy: "valid_rune y" and vz: "list_all valid_rune zs"
      using Cons.prems Cons by auto
    show ?thesis
    proof
      assume "prefix (utf8_encode (x # xs)) (utf8_encode ys)"
      then obtain t where t: "encode_rune y @ utf8_encode zs = encode_rune x @ utf8_encode xs @ t"
        by (auto simp: prefix_def Cons)
      then have "decode_rune (encode_rune y @ utf8_encode zs)
                 = decode_rune (encode_rune x @ utf8_encode xs @ t)" by simp
      then have "y = x" using decode_encode_rune vx vy by (metis fst_conv)
      moreover from this t have "prefix (utf8_encode xs) (utf8_encode zs)" by (auto simp: prefix_def)
      ultimately show "prefix (x # xs) ys" using Cons.IH [OF _ vz] Cons.prems Cons by auto
    next
      assume "prefix (x # xs) ys"
      then show "prefix (utf8_encode (x # xs)) (utf8_encode ys)" by (auto simp: prefix_def)
    qed
  qed
qed simp

lemma encode_rune_inner_cont: "0 < i \<Longrightarrow> i < length (encode_rune r) \<Longrightarrow> is_cont (encode_rune r ! i)"
proof -
  assume i: "0 < i" "i < length (encode_rune r)"
  obtain b bs where e: "encode_rune r = b # bs" "list_all is_cont bs" using encode_rune_shape by blast
  with i show ?thesis by (auto simp: list_all_length nth_Cons split: nat.splits)
qed

text \<open>Dropping bytes up to one that starts a rune drops whole runes.\<close>

lemma drop_utf8_encode:
  assumes "i < length (utf8_encode ys)" and "\<not> is_cont (utf8_encode ys ! i)"
  shows "\<exists>k < length ys. drop i (utf8_encode ys) = utf8_encode (drop k ys)"
  using assms
proof (induction ys arbitrary: i)
  case (Cons y ys)
  show ?case
  proof (cases "i < length (encode_rune y)")
    case True
    have "i = 0"
      using True Cons.prems encode_rune_inner_cont [of i y] by (auto simp: nth_append)
    then show ?thesis by (intro exI [of _ 0]) simp
  next
    case False
    let ?j = "i - length (encode_rune y)"
    have "?j < length (utf8_encode ys)" "\<not> is_cont (utf8_encode ys ! ?j)"
      using False Cons.prems by (auto simp: nth_append)
    then obtain k where "k < length ys" "drop ?j (utf8_encode ys) = utf8_encode (drop k ys)"
      using Cons.IH by blast
    with False show ?thesis by (intro exI [of _ "Suc k"]) simp
  qed
qed simp

lemma drop_runes_byte_start:
  "k < length ys \<Longrightarrow> \<exists>i < length (utf8_encode ys).
     drop i (utf8_encode ys) = utf8_encode (drop k ys) \<and> \<not> is_cont (utf8_encode ys ! i)"
proof (induction ys arbitrary: k)
  case (Cons y ys)
  obtain b bs where e: "encode_rune y = b # bs" "\<not> is_cont b" using encode_rune_shape by blast
  show ?case
  proof (cases k)
    case 0
    with e show ?thesis by (intro exI [of _ 0]) simp
  next
    case (Suc j)
    with Cons obtain i where "i < length (utf8_encode ys)"
      "drop i (utf8_encode ys) = utf8_encode (drop j ys)" "\<not> is_cont (utf8_encode ys ! i)"
      by auto
    with Suc show ?thesis
      by (intro exI [of _ "length (encode_rune y) + i"]) (simp add: nth_append)
  qed
qed simp

text \<open>An encoded needle occurs in an encoded text exactly where its runes do.\<close>

lemma sublist_utf8_encode:
  assumes "list_all valid_rune xs" and "list_all valid_rune ys" and "xs \<noteq> []"
  shows "sublist (utf8_encode xs) (utf8_encode ys) \<longleftrightarrow> sublist xs ys"
proof
  assume "sublist (utf8_encode xs) (utf8_encode ys)"
  then obtain i where p: "prefix (utf8_encode xs) (drop i (utf8_encode ys))"
    by (auto simp: sublist_iff_prefix_drop)
  obtain x xs' where x: "xs = x # xs'" using assms(3) by (cases xs) auto
  obtain b bs where e: "encode_rune x = b # bs" "\<not> is_cont b" using encode_rune_shape by blast
  have "\<exists>t. drop i (utf8_encode ys) = b # t" using p by (auto simp: x e prefix_def)
  then have "i < length (utf8_encode ys)" "utf8_encode ys ! i = b"
    by (metis drop_eq_Nil2 list.distinct(1) not_le, metis drop_eq_Nil2 hd_drop_conv_nth list.distinct(1) list.sel(1) not_le)
  then obtain k where "drop i (utf8_encode ys) = utf8_encode (drop k ys)"
    using drop_utf8_encode e(2) by blast
  with p have "prefix (utf8_encode xs) (utf8_encode (drop k ys))" by simp
  moreover have "list_all valid_rune (drop k ys)"
    using assms(2) by (auto simp: list_all_iff dest: in_set_dropD)
  ultimately have "prefix xs (drop k ys)" using prefix_utf8_encode assms(1) by blast
  then show "sublist xs ys" by (metis append_take_drop_id prefix_def sublist_def)
next
  assume "sublist xs ys"
  then obtain as bs where "ys = as @ xs @ bs" by (auto simp: sublist_def)
  then show "sublist (utf8_encode xs) (utf8_encode ys)" by (auto simp: sublist_def)
qed

text \<open>Cutting a valid string where a rune starts leaves two valid strings.\<close>

lemma valid_utf8_append: "valid_utf8 s \<Longrightarrow> valid_utf8 t \<Longrightarrow> valid_utf8 (s @ t)"
  unfolding valid_utf8_iff by (metis list_all_append utf8_encode_append)

lemma valid_ellipsis: "valid_utf8 [CHR 0xE2, CHR 0x80, CHR 0xA6]"
  unfolding valid_utf8_iff
  by (intro exI [of _ "[8230]"])
    (simp add: valid_rune_def encode_rune_def byte_def char_of_def bit_Suc_0_iff)

lemma valid_utf8_cut:
  assumes "valid_utf8 s" "i < length s" "runeStart (s ! i)"
  shows "valid_utf8 (take i s)" "valid_utf8 (drop i s)"
proof -
  obtain rs where rs: "list_all valid_rune rs" "s = utf8_encode rs" using assms(1) valid_utf8_iff by blast
  with assms obtain k where k: "drop i s = utf8_encode (drop k rs)"
    using drop_utf8_encode [of i rs] by (auto simp: runeStart_def)
  have "s = utf8_encode (take k rs) @ utf8_encode (drop k rs)"
    by (metis rs(2) append_take_drop_id utf8_encode_append)
  then have "take i s = utf8_encode (take k rs)"
    using k by (metis append_same_eq append_take_drop_id)
  moreover have "list_all valid_rune (take k rs)" "list_all valid_rune (drop k rs)"
    using rs(1) by (auto simp: list_all_iff dest: in_set_takeD in_set_dropD)
  ultimately show "valid_utf8 (take i s)" "valid_utf8 (drop i s)"
    using k valid_utf8_iff by metis+
qed

section \<open>White space and repair\<close>

text \<open>\<^verbatim>\<open>unicode.IsSpace\<close> and \<^verbatim>\<open>strings.TrimSpace\<close>.\<close>

definition isSpace :: "rune \<Rightarrow> bool" where
  "isSpace r \<longleftrightarrow> (9 \<le> r \<and> r \<le> 13) \<or> r = 32 \<or> r = 133 \<or> r = 160 \<or> r = 5760
     \<or> (8192 \<le> r \<and> r \<le> 8202) \<or> r = 8232 \<or> r = 8233 \<or> r = 8239 \<or> r = 8287 \<or> r = 12288"

definition trim_space :: "string \<Rightarrow> string" where
  "trim_space s =
     concat (map snd (rev (dropWhile (isSpace \<circ> fst)
       (rev (dropWhile (isSpace \<circ> fst) (decode_all s))))))"

text \<open>\<^verbatim>\<open>strings.ToValidUTF8\<close> with the replacement U+FFFD: a run of invalid bytes becomes one
  replacement.\<close>

fun to_valid_chunks :: "bool \<Rightarrow> (rune \<times> string) list \<Rightarrow> rune list" where
  "to_valid_chunks bad [] = []"
| "to_valid_chunks bad ((r, b) # cs) =
     (if r = runeError \<and> length b = 1
      then (if bad then to_valid_chunks True cs else runeError # to_valid_chunks True cs)
      else r # to_valid_chunks False cs)"

definition to_valid_utf8 :: "string \<Rightarrow> string" where
  "to_valid_utf8 s = utf8_encode (to_valid_chunks False (decode_all s))"

lemma to_valid_chunks_valid:
  "list_all (valid_rune \<circ> fst) cs \<Longrightarrow> list_all valid_rune (to_valid_chunks b cs)"
  by (induction b cs rule: to_valid_chunks.induct) (auto simp: valid_rune_def runeError_def)

lemma valid_to_valid_utf8: "valid_utf8 (to_valid_utf8 s)"
  unfolding to_valid_utf8_def
  by (rule valid_utf8_encode, rule to_valid_chunks_valid)
     (use runes_valid [of s] in \<open>simp add: runes_def list_all_iff\<close>)

lemma to_valid_chunks_id:
  "list_all (\<lambda>(r, b). \<not> (r = runeError \<and> length b = 1)) cs \<Longrightarrow> to_valid_chunks x cs = map fst cs"
  by (induction x cs rule: to_valid_chunks.induct) auto

lemma to_valid_utf8_id: "valid_utf8 s \<Longrightarrow> to_valid_utf8 s = s"
  using valid_utf8_runes [of s]
  by (simp add: to_valid_utf8_def to_valid_chunks_id valid_utf8_def runes_def)

lemma to_valid_utf8_neq_Nil: "s \<noteq> [] \<Longrightarrow> to_valid_utf8 s \<noteq> []"
  by (cases s) (auto simp: to_valid_utf8_def split: prod.splits)

section \<open>ASCII\<close>

text \<open>On ASCII text the operations work byte by byte, which is how concrete instances evaluate.\<close>

definition ascii :: "string \<Rightarrow> bool" where
  "ascii s \<longleftrightarrow> list_all (\<lambda>c. of_char c < (128 :: nat)) s"

lemma decode_rune_ascii: "of_char a < (128 :: nat) \<Longrightarrow> decode_rune (a # s) = (of_char a, 1)"
  by (simp add: decode_rune.simps(2) Let_def)

lemma runes_ascii: "ascii s \<Longrightarrow> runes s = map of_char s"
  by (induction s) (auto simp: runes_def ascii_def decode_rune_ascii)

lemma valid_utf8_ascii: "ascii s \<Longrightarrow> valid_utf8 s"
  by (induction s) (auto simp: valid_utf8_def ascii_def decode_rune_ascii runeError_def)

definition ascii_lower :: "char \<Rightarrow> char" where
  "ascii_lower c = (if 65 \<le> (of_char c :: nat) \<and> of_char c \<le> (90 :: nat) then byte (of_char c + 32) else c)"

definition ascii_upper :: "char \<Rightarrow> char" where
  "ascii_upper c = (if 97 \<le> (of_char c :: nat) \<and> of_char c \<le> (122 :: nat) then byte (of_char c - 32) else c)"

lemma encode_ascii: "r < 128 \<Longrightarrow> encode_rune r = [byte r]"
  by (simp add: encode_rune_def valid_rune_def Let_def)

lemma to_lower_ascii: "ascii s \<Longrightarrow> to_lower s = map ascii_lower s"
  unfolding to_lower_def utf8_encode_def
  by (simp add: runes_ascii, induction s)
     (auto simp: ascii_def encode_ascii unicode_ToLower_def ascii_lower_def)

lemma to_upper_ascii: "ascii s \<Longrightarrow> to_upper s = map ascii_upper s"
  unfolding to_upper_def utf8_encode_def
  by (simp add: runes_ascii, induction s)
     (auto simp: ascii_def encode_ascii unicode_ToUpper_def ascii_upper_def)

lemma decode_all_ascii: "ascii s \<Longrightarrow> decode_all s = map (\<lambda>c. (of_char c, [c])) s"
  by (induction s) (auto simp: ascii_def decode_rune_ascii)

lemma trim_space_ascii:
  "ascii s \<Longrightarrow> trim_space s
     = rev (dropWhile (\<lambda>c. isSpace (of_char c)) (rev (dropWhile (\<lambda>c. isSpace (of_char c)) s)))"
  by (simp add: trim_space_def decode_all_ascii dropWhile_map rev_map concat_map_singleton comp_def)

lemmas ascii_eval = to_lower_ascii to_upper_ascii runes_ascii ascii_def ascii_lower_def ascii_upper_def byte_def char_of_def bit_Suc_0_iff

lemma ascii_in_encode:
  assumes "c \<in> set (encode_rune r)" and "of_char c < (128 :: nat)"
  shows "encode_rune r = [c] \<and> (valid_rune r \<longrightarrow> r = of_char c)"
proof -
  obtain b bs where e: "encode_rune r = b # bs" "list_all is_cont bs" using encode_rune_shape by blast
  have "c \<notin> set bs" using e(2) assms(2) by (auto simp: list_all_iff is_cont_def)
  then have "c = b" using assms(1) e(1) by auto
  define q where "q = (if valid_rune r then r else runeError)"
  have q: "valid_rune q" "encode_rune q = encode_rune r"
    by (auto simp: q_def encode_rune_def valid_rune_def runeError_def)
  have "decode_rune (encode_rune q) = (q, length (encode_rune q))"
    using decode_encode_rune [OF q(1), of "[]"] by simp
  then have "length (encode_rune r) = 1" "q = of_char c"
    using e \<open>c = b\<close> q(2) assms(2) by (simp_all add: decode_rune_ascii)
  with e \<open>c = b\<close> show ?thesis by (auto simp: q_def)
qed

lemma ascii_in_runes: "c \<in> set s \<Longrightarrow> of_char c < (128 :: nat) \<Longrightarrow> of_char c \<in> set (runes s)"
proof (induction s rule: decode_all.induct)
  case (2 a s)
  obtain r n where d: "decode_rune (a # s) = (r, n)" by force
  have "c \<in> set (take n (a # s)) \<or> c \<in> set (drop n (a # s))"
    using "2.prems"(1) by (metis UnE append_take_drop_id set_append)
  then show ?case
  proof
    assume c: "c \<in> set (take n (a # s))"
    from decode_rune_sound [OF d] have "r = of_char c"
    proof (elim conjE disjE)
      assume "valid_rune r" "take n (a # s) = encode_rune r"
      then show ?thesis using ascii_in_encode c "2.prems"(2) by metis
    next
      assume "r = runeError" "n = 1"
      with c have "c = a" by simp
      with d "2.prems"(2) show ?thesis by (simp add: decode_rune_ascii)
    qed
    then show ?thesis by (simp add: runes_def d)
  next
    assume "c \<in> set (drop n (a # s))"
    with "2.IH" [OF d [symmetric]] "2.prems"(2) show ?thesis by (simp add: runes_def d)
  qed
qed simp

lemma decode_rune_take4: "decode_rune (take 4 s) = decode_rune s"
proof (cases s)
  case (Cons a t)
  then show ?thesis
    by (cases t; cases "tl t"; cases "tl (tl t)"; cases "tl (tl (tl t))") (auto simp: decode_rune.simps(2) Let_def take_Cons')
qed simp

lemma runes_step: "s \<noteq> [] \<Longrightarrow> decode_rune s = (r, n) \<Longrightarrow> runes s = r # runes (drop n s)"
  by (cases s) (auto simp: runes_def)

text \<open>Punctuation that has a meaning in patterns is its own lower case, and nothing else lowers to it.\<close>

lemma ToLower_punct: "unicode_ToLower r = c \<Longrightarrow> c \<in> {37, 42, 92, 95} \<Longrightarrow> r = c"
proof (rule ccontr)
  assume eq: "unicode_ToLower r = c" and c: "c \<in> {37, 42, 92, 95}" and "r \<noteq> c"
  then have "\<not> r < 128" by (auto simp: unicode_ToLower_def split: if_splits)
  with eq \<open>r \<noteq> c\<close> obtain lo hi st d where f: "List.find (in_range r) lower_ranges = Some (lo, hi, st, d)"
      "nat (int r + d) = c"
    by (auto simp: unicode_ToLower_def split: option.splits)
  then have "(lo, hi, st, d) \<in> set lower_ranges" "in_range r (lo, hi, st, d)"
    by (auto simp: find_Some_iff)
  moreover have "list_all (\<lambda>(lo, hi, st, d). 95 < int lo + d) lower_ranges"
    by (simp add: lower_ranges_def)
  ultimately show False using f(2) c by (auto simp: list_all_iff in_range_def)
qed

end
