(* ===== verification/Strconv.thy ===== *)
theory Strconv
  imports Prelude
begin

text \<open>
  Decimal integers and base64 text as Go's \<^verbatim>\<open>strconv\<close>, \<^verbatim>\<open>fmt\<close> (verb \<^verbatim>\<open>%d\<close>) and
  \<^verbatim>\<open>encoding/base64\<close> (\<^verbatim>\<open>URLEncoding\<close>, with padding) read and write them, with their round trips.
\<close>

section \<open>Decimal integers\<close>

definition digit_char :: "nat \<Rightarrow> char" where "digit_char d = char_of (48 + d)"

definition is_digit :: "char \<Rightarrow> bool" where
  "is_digit c \<longleftrightarrow> 48 \<le> (of_char c :: nat) \<and> of_char c \<le> (57 :: nat)"

fun fmt_nat :: "nat \<Rightarrow> string" where
  "fmt_nat n = (if n < 10 then [digit_char n] else fmt_nat (n div 10) @ [digit_char (n mod 10)])"

declare fmt_nat.simps [simp del]

definition fmt_int :: "int \<Rightarrow> string" where
  "fmt_int x = (if x < 0 then CHR ''-'' # fmt_nat (nat (- x)) else fmt_nat (nat x))"

fun digits_value :: "nat \<Rightarrow> string \<Rightarrow> nat option" where
  "digits_value acc [] = Some acc"
| "digits_value acc (c # cs) =
     (if is_digit c then digits_value (10 * acc + (of_char c - 48)) cs else None)"

definition parse_nat :: "string \<Rightarrow> nat option" where
  "parse_nat s = (if s = [] then None else digits_value 0 s)"

text \<open>\<^verbatim>\<open>strconv.ParseInt(s, 10, 64)\<close> (and \<^verbatim>\<open>Atoi\<close>): an optional sign, then digits, then the range.\<close>

definition parse_int64 :: "string \<Rightarrow> int option" where
  "parse_int64 s =
     (case s of
        [] \<Rightarrow> None
      | c # cs \<Rightarrow>
          (let neg = (c = CHR ''-''); ds = (if c = CHR ''-'' \<or> c = CHR ''+'' then cs else s) in
           case parse_nat ds of
             None \<Rightarrow> None
           | Some v \<Rightarrow>
               if neg then (if v \<le> 2 ^ 63 then Some (- int v) else None)
               else (if v < 2 ^ 63 then Some (int v) else None)))"

lemma of_char_digit: "d < 10 \<Longrightarrow> of_char (digit_char d) = 48 + d"
  by (simp add: digit_char_def)

lemma is_digit_digit [simp]: "d < 10 \<Longrightarrow> is_digit (digit_char d)"
  by (simp add: is_digit_def of_char_digit)

lemma digits_value_append:
  "digits_value acc (s @ [c]) =
     (case digits_value acc s of None \<Rightarrow> None
      | Some v \<Rightarrow> if is_digit c then Some (10 * v + (of_char c - 48)) else None)"
  by (induction s arbitrary: acc) auto

lemma digits_value_fmt: "digits_value 0 (fmt_nat n) = Some n"
proof (induction n rule: fmt_nat.induct)
  case (1 n)
  show ?case
  proof (cases "n < 10")
    case True
    then show ?thesis by (simp add: fmt_nat.simps [of n] of_char_digit)
  next
    case False
    with 1 have "digits_value 0 (fmt_nat (n div 10)) = Some (n div 10)" by blast
    with False show ?thesis
      by (simp add: fmt_nat.simps [of n] digits_value_append of_char_digit)
  qed
qed

lemma fmt_nat_neq_Nil [simp]: "fmt_nat n \<noteq> []"
  by (subst fmt_nat.simps) simp

lemma fmt_nat_digits: "c \<in> set (fmt_nat n) \<Longrightarrow> is_digit c"
  by (induction n arbitrary: c rule: fmt_nat.induct) (subst (asm) (2) fmt_nat.simps, auto split: if_splits)

lemma parse_fmt_nat: "parse_nat (fmt_nat n) = Some n"
  by (simp add: parse_nat_def digits_value_fmt)

lemma fmt_nat_hd: "\<exists>c cs. fmt_nat n = c # cs \<and> is_digit c"
  by (metis fmt_nat_digits fmt_nat_neq_Nil list.exhaust list.set_intros(1))

lemma not_digit_sign [simp]: "\<not> is_digit (CHR ''-'')" "\<not> is_digit (CHR ''+'')" "\<not> is_digit (CHR '','')"
  "\<not> is_digit (CHR '':'')"
  by (simp_all add: is_digit_def)

lemma parse_fmt_int: "in64 x \<Longrightarrow> parse_int64 (fmt_int x) = Some x"
proof (cases "x < 0")
  case True
  assume "in64 x"
  with True show ?thesis
    by (simp add: fmt_int_def parse_int64_def parse_fmt_nat in64_def)
next
  case False
  assume "in64 x"
  then have "nat x < 2 ^ 63" using False by (simp add: in64_def)
  moreover obtain c cs where c: "fmt_nat (nat x) = c # cs" "is_digit c" using fmt_nat_hd by blast
  moreover have "c \<noteq> CHR ''-''" "c \<noteq> CHR ''+''" using c(2) by auto
  moreover have "parse_nat (c # cs) = Some (nat x)" using parse_fmt_nat c(1) by metis
  ultimately show ?thesis using False
    by (simp add: fmt_int_def parse_int64_def)
qed

lemma parse_int64_in64: "parse_int64 s = Some x \<Longrightarrow> in64 x"
  by (auto simp: parse_int64_def in64_def Let_def split: list.splits option.splits if_splits)

lemma fmt_int_chars: "c \<in> set (fmt_int x) \<Longrightarrow> is_digit c \<or> c = CHR ''-''"
  by (auto simp: fmt_int_def dest: fmt_nat_digits split: if_splits)

lemma fmt_nat_inj: "fmt_nat m = fmt_nat n \<longleftrightarrow> m = n"
  using parse_fmt_nat by (metis option.inject)

lemma fmt_nat_no_sign: "fmt_nat n \<noteq> CHR ''-'' # s"
  using fmt_nat_hd [of n] by auto

lemma fmt_int_inj: "fmt_int x = fmt_int y \<longleftrightarrow> x = y"
  using fmt_nat_no_sign fmt_nat_no_sign [symmetric]
  by (cases "x < 0"; cases "y < 0") (auto simp: fmt_int_def fmt_nat_inj)

section \<open>Base64, URL alphabet, with padding\<close>

definition b64_alphabet :: string where
  "b64_alphabet = ''ABCDEFGHIJKLMNOPQRSTUVWXYZabcdefghijklmnopqrstuvwxyz0123456789-_''"

definition b64_char :: "nat \<Rightarrow> char" where "b64_char k = b64_alphabet ! (k mod 64)"

fun find_from :: "nat \<Rightarrow> char \<Rightarrow> string \<Rightarrow> nat option" where
  "find_from k c [] = None"
| "find_from k c (x # xs) = (if x = c then Some k else find_from (Suc k) c xs)"

definition b64_value :: "char \<Rightarrow> nat option" where "b64_value c = find_from 0 c b64_alphabet"

definition b64_pad :: char where "b64_pad = CHR ''=''"

fun b64_encode :: "string \<Rightarrow> string" where
  "b64_encode [] = []"
| "b64_encode [a] =
     (let x = of_char a in [b64_char (x div 4), b64_char (x mod 4 * 16), b64_pad, b64_pad])"
| "b64_encode [a, b] =
     (let x = of_char a; y = of_char b in
      [b64_char (x div 4), b64_char (x mod 4 * 16 + y div 16), b64_char (y mod 16 * 4), b64_pad])"
| "b64_encode (a # b # c # s) =
     (let x = of_char a; y = of_char b; z = of_char c in
      b64_char (x div 4) # b64_char (x mod 4 * 16 + y div 16)
        # b64_char (y mod 16 * 4 + z div 64) # b64_char (z mod 64) # b64_encode s)"

text \<open>Decoding skips carriage returns and line feeds; what remains comes in groups of four, and
  padding may only end the last group.\<close>

fun b64_decode_quads :: "string \<Rightarrow> string option" where
  "b64_decode_quads [] = Some []"
| "b64_decode_quads (p # q # r # t # s) =
     (case (b64_value p, b64_value q) of
        (Some a, Some b) \<Rightarrow>
          (if r = b64_pad then
             (if t = b64_pad \<and> s = [] then Some [char_of (a * 4 + b div 16)] else None)
           else case b64_value r of
             None \<Rightarrow> None
           | Some c \<Rightarrow>
               (if t = b64_pad then
                  (if s = [] then Some [char_of (a * 4 + b div 16), char_of (b mod 16 * 16 + c div 4)]
                   else None)
                else case b64_value t of
                  None \<Rightarrow> None
                | Some d \<Rightarrow>
                    map_option (\<lambda>rest. char_of (a * 4 + b div 16) # char_of (b mod 16 * 16 + c div 4)
                                  # char_of (c mod 4 * 64 + d) # rest) (b64_decode_quads s)))
      | _ \<Rightarrow> None)"
| "b64_decode_quads _ = None"

definition b64_decode :: "string \<Rightarrow> string option" where
  "b64_decode s = b64_decode_quads (filter (\<lambda>c. c \<noteq> CHR 0x0A \<and> c \<noteq> CHR 0x0D) s)"

lemma b64_alphabet_ok:
  "list_all (\<lambda>k. find_from 0 (b64_alphabet ! k) b64_alphabet = Some k \<and> b64_alphabet ! k \<noteq> b64_pad
       \<and> b64_alphabet ! k \<noteq> CHR 0x0A \<and> b64_alphabet ! k \<noteq> CHR 0x0D) [0..<64]"
  by code_simp

lemma b64_char_props:
  assumes "k < 64"
  shows "b64_value (b64_char k) = Some k" "b64_char k \<noteq> b64_pad"
    "b64_char k \<noteq> CHR 0x0A" "b64_char k \<noteq> CHR 0x0D"
  using b64_alphabet_ok assms by (auto simp: list_all_iff b64_value_def b64_char_def)

lemma b64_value_char [simp]: "k < 64 \<Longrightarrow> b64_value (b64_char k) = Some k"
  by (rule b64_char_props)

lemma b64_char_not_pad [simp]: "k < 64 \<Longrightarrow> b64_char k \<noteq> b64_pad"
  by (rule b64_char_props)

lemma b64_split_byte:
  "of_char a div 4 < (64 :: nat)" "of_char a div 16 < (16 :: nat)" "of_char a div 64 < (4 :: nat)"
proof -
  have "of_char a < (256 :: nat)"
    by (metis mod_less_divisor of_char_mod_256 zero_less_numeral)
  then show "of_char a div 4 < (64 :: nat)" "of_char a div 16 < (16 :: nat)"
    "of_char a div 64 < (4 :: nat)" by (auto intro!: less_mult_imp_div_less)
qed

lemma b64_joins:
  "x div 4 * 4 + (x mod 4 * 16 + y div 16) div 16 = x" if "y div 16 < (16 :: nat)"
  using that by (simp add: div_add1_eq)

lemma b64_joins':
  "(x mod 4 * 16 + y div 16) mod 16 = y div 16" if "y div 16 < (16 :: nat)"
  using that by simp

lemma b64_small:
  "x mod 4 * 16 + y div 16 < 64" if "y div 16 < (16 :: nat)"
proof -
  have "x mod 4 \<le> 3" using mod_less_divisor [of 4 x] by linarith
  with that show ?thesis by linarith
qed

lemma b64_small':
  "y mod 16 * 4 + z div 64 < 64" if "z div 64 < (4 :: nat)"
proof -
  have "y mod 16 \<le> 15" using mod_less_divisor [of 16 y] by linarith
  with that show ?thesis by linarith
qed

lemma b64_rejoin: "y div 16 * 16 + (y mod 16 * 4 + z div 64) div 4 = (y :: nat)"
    "(y mod 16 * 4 + z div 64) mod 4 = z div 64" if "z div 64 < (4 :: nat)"
  using that by (simp_all add: div_add1_eq)

lemma b64_decode_encode_quads: "b64_decode_quads (b64_encode s) = Some s"
proof (induction s rule: b64_encode.induct)
  case (2 a)
  have "(of_char a :: nat) mod 4 * 16 < 64" using b64_small [of 0 "of_char a"] by simp
  with b64_split_byte [of a] b64_joins [of 0 "of_char a"] show ?case
    by (simp add: Let_def)
next
  case (3 a b)
  have "(of_char b :: nat) mod 16 * 4 < 64" using b64_small' [of 0 "of_char b"] by simp
  then show ?case
    using b64_split_byte [of a] b64_split_byte [of b] b64_small [of "of_char b" "of_char a"]
      b64_joins [of "of_char b" "of_char a"] b64_joins' [of "of_char b" "of_char a"]
      b64_rejoin [of 0 "of_char b"]
    by (simp add: Let_def)
next
  case (4 a b c s)
  then show ?case
    using b64_split_byte [of a] b64_split_byte [of b] b64_split_byte [of c]
      b64_small [of "of_char b" "of_char a"] b64_small' [of "of_char c" "of_char b"]
      b64_joins [of "of_char b" "of_char a"] b64_joins' [of "of_char b" "of_char a"]
      b64_rejoin [of "of_char c" "of_char b"]
    by (simp add: Let_def)
qed simp

lemma b64_encode_no_newline:
  "c \<in> set (b64_encode s) \<Longrightarrow> c \<noteq> CHR 0x0A \<and> c \<noteq> CHR 0x0D"
proof (induction s rule: b64_encode.induct)
  case (4 a b x s)
  have "b64_char k \<noteq> CHR 0x0A \<and> b64_char k \<noteq> CHR 0x0D" for k
    using b64_char_props(3,4) [of "k mod 64"] by (simp add: b64_char_def)
  with 4 show ?case by (auto simp: Let_def)
next
  case (2 a)
  have "b64_char k \<noteq> CHR 0x0A \<and> b64_char k \<noteq> CHR 0x0D" for k
    using b64_char_props(3,4) [of "k mod 64"] by (simp add: b64_char_def)
  with 2 show ?case by (auto simp: Let_def b64_pad_def)
next
  case (3 a b)
  have "b64_char k \<noteq> CHR 0x0A \<and> b64_char k \<noteq> CHR 0x0D" for k
    using b64_char_props(3,4) [of "k mod 64"] by (simp add: b64_char_def)
  with 3 show ?case by (auto simp: Let_def b64_pad_def)
qed simp

lemma b64_decode_encode: "b64_decode (b64_encode s) = Some s"
proof -
  have "filter (\<lambda>c. c \<noteq> CHR 0x0A \<and> c \<noteq> CHR 0x0D) (b64_encode s) = b64_encode s"
    using b64_encode_no_newline by (auto simp: filter_id_conv)
  then show ?thesis by (simp add: b64_decode_def b64_decode_encode_quads)
qed

end
