(* ===== verification/Filters.thy ===== *)
theory Filters
  imports Utf8 Strconv
begin

text \<open>
  Events, per-client filters and their matching: \<^verbatim>\<open>api/internal/model/srvlog.go\<close>, \<^verbatim>\<open>netlog.go\<close> and
  \<^verbatim>\<open>applog.go\<close>. The structs of the server and the network feed have the same fields, so one record
  serves both; their two \<^verbatim>\<open>Matches\<close> methods are translated separately. The field \<^verbatim>\<open>Exclude\<close> of a
  filter, which \<^verbatim>\<open>Matches\<close> ignores, is added by the record extension of the event store. The lemmas show that the
  wildcard matcher is glob matching and that the allocation-free search agrees with
  \<^verbatim>\<open>strings.Contains(strings.ToLower(s), needle)\<close>.
\<close>

section \<open>Events and filters\<close>

record syslog_event =
  ev_ID :: int
  ev_ReceivedAt :: instant
  ev_ReportedAt :: instant
  ev_Hostname :: string
  ev_FromhostIP :: string
  ev_Programname :: string
  ev_MsgID :: string
  ev_Severity :: int
  ev_SeverityLabel :: string
  ev_Facility :: int
  ev_FacilityLabel :: string
  ev_SyslogTag :: string
  ev_StructuredData :: "string option"
  ev_Message :: string
  ev_RawMessage :: "string option"
  ev_MutedBy :: "int option"

record syslog_filter =
  sf_Hostname :: string
  sf_FromhostIP :: string
  sf_Programname :: string
  sf_Severity :: "int option"
  sf_SeverityMax :: "int option"
  sf_Facility :: "int option"
  sf_SyslogTag :: string
  sf_MsgID :: string
  sf_Search :: string
  sf_From :: "instant option"
  sf_To :: "instant option"
  sf_searchLower :: string

type_synonym srvlog_event = syslog_event
type_synonym netlog_event = syslog_event
type_synonym srvlog_filter = syslog_filter
type_synonym netlog_filter = syslog_filter

definition empty_filter :: syslog_filter where
  "empty_filter =
     \<lparr>sf_Hostname = [], sf_FromhostIP = [], sf_Programname = [], sf_Severity = None,
      sf_SeverityMax = None, sf_Facility = None, sf_SyslogTag = [], sf_MsgID = [], sf_Search = [],
      sf_From = None, sf_To = None, sf_searchLower = []\<rparr>"

definition severity_labels :: "string list" where
  "severity_labels =
     [''emerg'', ''alert'', ''crit'', ''err'', ''warning'', ''notice'', ''info'', ''debug'']"

definition facility_labels :: "string list" where
  "facility_labels =
     [''kern'', ''user'', ''mail'', ''daemon'', ''auth'', ''syslog'', ''lpr'', ''news'', ''uucp'',
      ''cron'', ''authpriv'', ''ftp'', ''ntp'', ''security'', ''console'', ''clock'', ''local0'',
      ''local1'', ''local2'', ''local3'', ''local4'', ''local5'', ''local6'', ''local7'']"

definition SeverityLabel :: "int \<Rightarrow> string" where
  "SeverityLabel code =
     (if 0 \<le> code \<and> code < int (length severity_labels) then severity_labels ! nat code
      else ''unknown('' @ fmt_int code @ '')'')"

definition FacilityLabel :: "int \<Rightarrow> string" where
  "FacilityLabel code =
     (if 0 \<le> code \<and> code < int (length facility_labels) then facility_labels ! nat code
      else ''unknown('' @ fmt_int code @ '')'')"

section \<open>Wildcards\<close>

text \<open>The loop over the parts of the pattern, with the part's index and the position reached.\<close>

fun wildcard_scan :: "string \<Rightarrow> nat \<Rightarrow> nat \<Rightarrow> string list \<Rightarrow> bool" where
  "wildcard_scan lower pos i [] = True"
| "wildcard_scan lower pos i (part # ps) =
     (if part = [] then wildcard_scan lower pos (Suc i) ps
      else case str_index (drop pos lower) part of
             None \<Rightarrow> False
           | Some idx \<Rightarrow>
               (if i = 0 \<and> idx \<noteq> 0 then False
                else wildcard_scan lower (pos + idx + length part) (Suc i) ps))"

definition matchWildcard :: "string \<Rightarrow> string \<Rightarrow> bool" where
  "matchWildcard value pattern =
     (if pattern = ''*'' then True
      else if CHR ''*'' \<notin> set pattern then equal_fold value pattern
      else
        (let lower = to_lower value;
             parts = str_split (CHR ''*'') (to_lower pattern) in
         if \<not> wildcard_scan lower 0 0 parts then False
         else if last parts \<noteq> [] \<and> \<not> suffix (last parts) lower then False
         else True))"

definition matchField :: "string \<Rightarrow> string \<Rightarrow> bool" where
  "matchField value pattern =
     (if CHR ''*'' \<in> set pattern then matchWildcard value pattern else value = pattern)"

section \<open>Case-insensitive search\<close>

fun prefix_fold_loop :: "string \<Rightarrow> nat \<Rightarrow> rune list \<Rightarrow> bool" where
  "prefix_fold_loop s i [] = True"
| "prefix_fold_loop s i (pr # prs) =
     (if length s \<le> i then False
      else
        (case (if of_char (s ! i) < (128 :: nat) then (of_char (s ! i), 1)
               else decode_rune (take 4 (drop i s))) of
           (sr, sz) \<Rightarrow>
             if unicode_ToLower sr \<noteq> pr then False else prefix_fold_loop s (i + sz) prs))"

definition hasPrefixFold :: "string \<Rightarrow> string \<Rightarrow> bool" where
  "hasPrefixFold s prefixLower = prefix_fold_loop s 0 (runes prefixLower)"

definition containsFold :: "string \<Rightarrow> string \<Rightarrow> bool" where
  "containsFold s substrLower =
     (if substrLower = [] then True
      else list_ex (\<lambda>i. \<not> is_cont (s ! i) \<and> hasPrefixFold (drop i s) substrLower) [0..<length s])"

definition searchNeedle :: "string \<Rightarrow> string \<Rightarrow> string" where
  "searchNeedle search searchLower = (if searchLower \<noteq> [] then searchLower else to_lower search)"

section \<open>Matching of syslog events\<close>

definition srvlog_Matches :: "srvlog_filter \<Rightarrow> srvlog_event \<Rightarrow> bool" where
  "srvlog_Matches f e =
     (if sf_Hostname f \<noteq> [] \<and> \<not> matchField (ev_Hostname e) (sf_Hostname f) then False
      else if sf_FromhostIP f \<noteq> [] \<and> ev_FromhostIP e \<noteq> sf_FromhostIP f then False
      else if sf_Programname f \<noteq> [] \<and> ev_Programname e \<noteq> sf_Programname f then False
      else if (case sf_Severity f of None \<Rightarrow> False | Some v \<Rightarrow> ev_Severity e \<noteq> v) then False
      else if (case sf_SeverityMax f of None \<Rightarrow> False | Some v \<Rightarrow> ev_Severity e > v) then False
      else if (case sf_Facility f of None \<Rightarrow> False | Some v \<Rightarrow> ev_Facility e \<noteq> v) then False
      else if sf_SyslogTag f \<noteq> [] \<and> ev_SyslogTag e \<noteq> sf_SyslogTag f then False
      else if sf_MsgID f \<noteq> [] \<and> ev_MsgID e \<noteq> sf_MsgID f then False
      else if sf_Search f \<noteq> []
              \<and> \<not> containsFold (ev_Message e) (searchNeedle (sf_Search f) (sf_searchLower f)) then False
      else True)"

definition netlog_Matches :: "netlog_filter \<Rightarrow> netlog_event \<Rightarrow> bool" where
  "netlog_Matches f e =
     (if sf_Hostname f \<noteq> [] \<and> \<not> matchField (ev_Hostname e) (sf_Hostname f) then False
      else if sf_FromhostIP f \<noteq> [] \<and> ev_FromhostIP e \<noteq> sf_FromhostIP f then False
      else if sf_Programname f \<noteq> [] \<and> ev_Programname e \<noteq> sf_Programname f then False
      else if (case sf_Severity f of None \<Rightarrow> False | Some v \<Rightarrow> ev_Severity e \<noteq> v) then False
      else if (case sf_SeverityMax f of None \<Rightarrow> False | Some v \<Rightarrow> ev_Severity e > v) then False
      else if (case sf_Facility f of None \<Rightarrow> False | Some v \<Rightarrow> ev_Facility e \<noteq> v) then False
      else if sf_SyslogTag f \<noteq> [] \<and> ev_SyslogTag e \<noteq> sf_SyslogTag f then False
      else if sf_MsgID f \<noteq> [] \<and> ev_MsgID e \<noteq> sf_MsgID f then False
      else if sf_Search f \<noteq> []
              \<and> \<not> containsFold (ev_Message e) (searchNeedle (sf_Search f) (sf_searchLower f)) then False
      else True)"

section \<open>Application logs\<close>

record applog_event =
  al_ID :: int
  al_ReceivedAt :: instant
  al_Timestamp :: instant
  al_Level :: string
  al_Service :: string
  al_Component :: string
  al_Host :: string
  al_Msg :: string
  al_Source :: string
  al_Attrs :: string
  al_AttrsTruncated :: bool
  al_SourceIP :: "string option"
  al_APIKeyID :: "string option"

definition AttrsPreviewLimit :: nat where "AttrsPreviewLimit = 1024"

definition WithAttrsPreview :: "applog_event \<Rightarrow> nat \<Rightarrow> applog_event" where
  "WithAttrsPreview e maxBytes =
     (if length (al_Attrs e) \<le> maxBytes then e
      else e\<lparr>al_Attrs := [], al_AttrsTruncated := True\<rparr>)"

definition ValidAppLogLevels :: "(string \<times> int) list" where
  "ValidAppLogLevels = [(''DEBUG'', 0), (''INFO'', 1), (''WARN'', 2), (''ERROR'', 3), (''FATAL'', 4)]"

definition levelAliases :: "(string \<times> string) list" where
  "levelAliases =
     [(''TRACE'', ''DEBUG''), (''D'', ''DEBUG''), (''NOTICE'', ''INFO''), (''I'', ''INFO''),
      (''WARNING'', ''WARN''), (''W'', ''WARN''), (''ERR'', ''ERROR''), (''E'', ''ERROR''),
      (''CRITICAL'', ''FATAL''), (''CRIT'', ''FATAL''), (''EMERG'', ''FATAL''), (''ALERT'', ''FATAL''),
      (''SEVERE'', ''FATAL''), (''PANIC'', ''FATAL'')]"

text \<open>\<^verbatim>\<open>slices.Sort\<close> on strings compares bytes.\<close>

fun bytes_less_eq :: "string \<Rightarrow> string \<Rightarrow> bool" where
  "bytes_less_eq [] t = True"
| "bytes_less_eq (c # s) [] = False"
| "bytes_less_eq (c # s) (d # t) =
     (if c = d then bytes_less_eq s t else (of_char c :: nat) < of_char d)"

fun bytes_insort :: "string \<Rightarrow> string list \<Rightarrow> string list" where
  "bytes_insort x [] = [x]"
| "bytes_insort x (y # ys) = (if bytes_less_eq x y then x # y # ys else y # bytes_insort x ys)"

definition AppLogLevelAliasNames :: "string list" where
  "AppLogLevelAliasNames = foldr bytes_insort (map fst levelAliases) []"

definition NormalizeLevel :: "string \<Rightarrow> string option" where
  "NormalizeLevel level =
     (let upper = to_upper level in
      case map_of ValidAppLogLevels upper of
        Some _ \<Rightarrow> Some upper
      | None \<Rightarrow> map_of levelAliases upper)"

definition AppLogLevelRank :: "string \<Rightarrow> int" where
  "AppLogLevelRank level =
     (case map_of ValidAppLogLevels (to_upper level) of Some r \<Rightarrow> r | None \<Rightarrow> - 1)"

text \<open>The levels are collected from the map in some order and then sorted by rank; the ranks are
  distinct, so the outcome is the table filtered in rank order.\<close>

definition AppLogLevelsAtLeast :: "string \<Rightarrow> string list" where
  "AppLogLevelsAtLeast floor =
     (let minRank = AppLogLevelRank floor in
      if minRank < 0 then []
      else map fst (sort_key snd (filter (\<lambda>(name, rank). rank \<ge> minRank) ValidAppLogLevels)))"

record applog_filter =
  af_Service :: string
  af_Component :: string
  af_Host :: string
  af_Level :: string
  af_LevelExact :: string
  af_Search :: string
  af_From :: "instant option"
  af_To :: "instant option"
  af_levelMinRank :: "int option"
  af_searchLower :: string

definition applog_Matches :: "applog_filter \<Rightarrow> applog_event \<Rightarrow> bool" where
  "applog_Matches f e =
     (if af_Service f \<noteq> [] \<and> al_Service e \<noteq> af_Service f then False
      else if af_Component f \<noteq> [] \<and> al_Component e \<noteq> af_Component f then False
      else if af_Host f \<noteq> [] \<and> \<not> matchField (al_Host e) (af_Host f) then False
      else if af_LevelExact f \<noteq> [] \<and> \<not> equal_fold (al_Level e) (af_LevelExact f) then False
      else if af_Level f \<noteq> []
              \<and> (let minRank = (case af_levelMinRank f of None \<Rightarrow> AppLogLevelRank (af_Level f)
                               | Some r \<Rightarrow> r) in
                 minRank < 0 \<or> AppLogLevelRank (al_Level e) < minRank) then False
      else if af_Search f \<noteq> []
              \<and> (let needle = searchNeedle (af_Search f) (af_searchLower f) in
                 \<not> containsFold (al_Msg e) needle \<and> \<not> containsFold (al_Attrs e) needle) then False
      else True)"

section \<open>Wildcards are globs\<close>

text \<open>The reference: \<^verbatim>\<open>*\<close> stands for any sequence of bytes, every other byte for itself.\<close>

fun glob :: "string \<Rightarrow> string \<Rightarrow> bool" where
  "glob [] v = (v = [])"
| "glob (c # p) [] = (c = CHR ''*'' \<and> glob p [])"
| "glob (c # p) (d # v) =
     (if c = CHR ''*'' then glob p (d # v) \<or> glob (c # p) v else c = d \<and> glob p v)"

lemma glob_star: "glob (CHR ''*'' # p) v \<longleftrightarrow> (\<exists>i \<le> length v. glob p (drop i v))"
proof (induction v)
  case (Cons d v)
  have "(\<exists>i \<le> length (d # v). glob p (drop i (d # v)))
        \<longleftrightarrow> glob p (d # v) \<or> (\<exists>i \<le> length v. glob p (drop i v))"
    (is "?L \<longleftrightarrow> ?R")
  proof
    assume ?L
    then obtain i where "i \<le> length (d # v)" "glob p (drop i (d # v))" by blast
    then show ?R by (cases i) auto
  next
    assume ?R
    then show ?L
    proof
      assume "\<exists>i \<le> length v. glob p (drop i v)"
      then obtain i where "i \<le> length v" "glob p (drop i v)" by blast
      then show ?L by (intro exI [of _ "Suc i"]) simp
    qed (auto intro: exI [of _ 0])
  qed
  with Cons show ?case by simp
qed simp

lemma glob_literal: "CHR ''*'' \<notin> set p \<Longrightarrow> glob (p @ q) v \<longleftrightarrow> prefix p v \<and> glob q (drop (length p) v)"
proof (induction p arbitrary: v)
  case (Cons c p)
  then show ?case by (cases v) auto
qed simp

text \<open>The parts after the first, placed from left to right, the last one at the end.\<close>

fun placed :: "string list \<Rightarrow> string \<Rightarrow> bool" where
  "placed [] v = True"
| "placed [p] v = suffix p v"
| "placed (p # q # ps) v = (\<exists>i \<le> length v. prefix p (drop i v) \<and> placed (q # ps) (drop (i + length p) v))"

lemma glob_placed:
  assumes "ps \<noteq> []" and "\<forall>p \<in> set ps. CHR ''*'' \<notin> set p"
  shows "glob (CHR ''*'' # str_join ''*'' ps) v \<longleftrightarrow> placed ps v"
  using assms
proof (induction ps arbitrary: v rule: induct_list012)
  case (2 p)
  have "glob p w \<longleftrightarrow> w = p" for w
    using glob_literal [of p "[]" w] "2.prems" by (auto simp: prefix_def)
  moreover have "(\<exists>i \<le> length v. drop i v = p) \<longleftrightarrow> suffix p v"
    by (metis diff_le_self suffix_drop suffix_iff_drop)
  ultimately show ?case by (simp add: glob_star)
next
  case (3 p q ps)
  have "glob (str_join ''*'' (p # q # ps)) w \<longleftrightarrow> prefix p w \<and> placed (q # ps) (drop (length p) w)" for w
    using glob_literal [of p "CHR ''*'' # str_join ''*'' (q # ps)"] 3 by auto
  then show ?case by (auto simp: glob_star add.commute)
qed simp

lemma placed_drop: "placed ps (drop k v) \<Longrightarrow> placed ps v"
proof (induction ps arbitrary: k v rule: induct_list012)
  case (2 p)
  then show ?case by (auto simp: suffix_drop suffix_order.trans)
next
  case (3 p q ps)
  then obtain i where "prefix p (drop i (drop k v))" "placed (q # ps) (drop (i + length p) (drop k v))"
    by auto
  then have "prefix p (drop (i + k) v)" "placed (q # ps) (drop (i + k + length p) v)"
    by (simp_all add: add.commute add.left_commute)
  then show ?case
  proof (cases "i + k \<le> length v")
    case True
    then show ?thesis using \<open>prefix p (drop (i + k) v)\<close> \<open>placed (q # ps) (drop (i + k + length p) v)\<close> by auto
  next
    case False
    then have "p = []" "drop (i + k + length p) v = drop (length v) v"
      using \<open>prefix p (drop (i + k) v)\<close> by auto
    then show ?thesis using \<open>placed (q # ps) (drop (i + k + length p) v)\<close>
      by (auto intro!: exI [of _ "length v"])
  qed
qed simp

lemma placed_greedy:
  "placed (p # q # ps) v \<longleftrightarrow>
     (case str_index v p of None \<Rightarrow> False | Some i \<Rightarrow> placed (q # ps) (drop (i + length p) v))"
proof (cases "str_index v p")
  case None
  then show ?thesis using str_index_NoneD by auto
next
  case (Some i)
  note s = str_index_SomeD [OF Some]
  have "placed (q # ps) (drop (i + length p) v)" if "j \<le> length v" "prefix p (drop j v)" "placed (q # ps) (drop (j + length p) v)" for j
  proof -
    have "i \<le> j" using s that(2) by (meson not_le)
    then have "drop (j + length p) v = drop (j - i) (drop (i + length p) v)" by simp
    then show ?thesis using that(3) placed_drop by metis
  qed
  with Some s show ?thesis by auto
qed

lemma scan_placed:
  assumes "ps \<noteq> []" and "0 < i" and "pos \<le> length v"
  shows "wildcard_scan v pos i ps \<and> (last ps = [] \<or> suffix (last ps) v) \<longleftrightarrow> placed ps (drop pos v)"
  using assms
proof (induction ps arbitrary: i pos rule: induct_list012)
  case (2 p)
  show ?case
  proof (cases "p = []")
    case False
    have "(\<exists>k. str_index (drop pos v) p = Some k) \<and> suffix p v \<longleftrightarrow> suffix p (drop pos v)"
    proof
      assume a: "(\<exists>k. str_index (drop pos v) p = Some k) \<and> suffix p v"
      then have "length p \<le> length (drop pos v)" using str_index_Some_length by fastforce
      then show "suffix p (drop pos v)" using a suffix_drop suffix_length_suffix by blast
    next
      assume a: "suffix p (drop pos v)"
      then have "prefix p (drop (length (drop pos v) - length p) (drop pos v))"
        by (simp add: suffix_iff_drop)
      then have "str_index (drop pos v) p \<noteq> None" using str_index_NoneD by blast
      with a show "(\<exists>k. str_index (drop pos v) p = Some k) \<and> suffix p v"
        using suffix_drop suffix_order.trans by blast
    qed
    with False "2.prems" show ?thesis by (auto split: option.splits)
  qed simp
next
  case (3 p q ps)
  show ?case
  proof (cases "p = []")
    case True
    have "placed ([] # q # ps) (drop pos v) \<longleftrightarrow> placed (q # ps) (drop pos v)"
      using placed_drop by (auto intro: exI [of _ 0])
    with True 3 show ?thesis by simp
  next
    case False
    show ?thesis
    proof (cases "str_index (drop pos v) p")
      case None
      with False show ?thesis by (simp add: placed_greedy del: placed.simps)
    next
      case (Some k)
      then have "pos + k + length p \<le> length v" using str_index_Some_length [OF Some] "3.prems"(3) by simp
      with 3 False Some show ?thesis by (simp add: placed_greedy add.assoc add.commute add.left_commute del: placed.simps)
    qed
  qed
qed simp


lemma star_in_to_lower: "CHR ''*'' \<in> set s \<Longrightarrow> CHR ''*'' \<in> set (to_lower s)"
proof -
  assume "CHR ''*'' \<in> set s"
  then have "42 \<in> set (runes s)" using ascii_in_runes [of "CHR ''*''" s] by simp
  then have "set (encode_rune (unicode_ToLower 42)) \<subseteq> set (to_lower s)"
    by (auto simp: to_lower_def utf8_encode_def)
  moreover have "encode_rune (unicode_ToLower 42) = [CHR ''*'']"
    by (simp add: unicode_ToLower_def encode_ascii byte_def char_of_def bit_Suc_0_iff)
  ultimately show ?thesis by simp
qed

lemma wildcard_is_glob:
  assumes "CHR ''*'' \<in> set pattern"
  shows "matchWildcard value pattern \<longleftrightarrow> glob (to_lower pattern) (to_lower value)"
proof (cases "pattern = ''*''")
  case True
  then show ?thesis by (simp add: matchWildcard_def ascii_eval glob_star exI [of _ "length (to_lower value)"])
next
  case False
  let ?v = "to_lower value" and ?pat = "to_lower pattern"
  obtain p q ps where parts: "str_split (CHR ''*'') ?pat = p # q # ps"
    using str_split_ge2 star_in_to_lower assms by metis
  have nostar: "\<forall>x \<in> set (p # q # ps). CHR ''*'' \<notin> set x"
    using str_split_no_sep parts by metis
  have "?pat = p @ CHR ''*'' # str_join ''*'' (q # ps)"
    using str_join_split [of "CHR ''*''" ?pat] parts by simp
  then have "glob ?pat ?v \<longleftrightarrow> prefix p ?v \<and> placed (q # ps) (drop (length p) ?v)"
    using glob_literal [of p] glob_placed [of "q # ps"] nostar by auto
  also have "\<dots> \<longleftrightarrow> wildcard_scan ?v 0 0 (p # q # ps) \<and> (last (q # ps) = [] \<or> suffix (last (q # ps)) ?v)"
  proof (cases "p = []")
    case True
    then show ?thesis using scan_placed [of "q # ps" "Suc 0" 0 ?v] by simp
  next
    case p: False
    show ?thesis
    proof (cases "prefix p ?v")
      case True
      then have "str_index ?v p = Some 0" by (cases ?v) (auto simp: p)
      moreover have "length p \<le> length ?v" using True by (rule prefix_length_le)
      ultimately show ?thesis using True p scan_placed [of "q # ps" "Suc 0" "length p" ?v] by simp
    next
      case False
      then have "str_index ?v p \<noteq> Some 0" using str_index_SomeD by fastforce
      with False p show ?thesis by (auto split: option.splits)
    qed
  qed
  finally show ?thesis using False assms parts
    by (simp add: matchWildcard_def Let_def del: wildcard_scan.simps)
qed

text \<open>C8: With at least one star in the pattern, \<^verbatim>\<open>matchWildcard\<close> is exactly glob matching of the
  lower-cased pattern against the lower-cased value: the greedy left-to-right search with its two
  anchors never misses a match and never invents one.\<close>

theorem matchWildcard_glob:
  assumes "CHR ''*'' \<in> set pattern"
  shows "matchWildcard value pattern \<longleftrightarrow> glob (to_lower pattern) (to_lower value)"
  using assms by (rule wildcard_is_glob)

theorem matchWildcard_glob_witness:
  "CHR ''*'' \<in> set ''RTR-*-1'' \<and> matchWildcard ''rtr-osl-1'' ''RTR-*-1''
   \<and> glob (to_lower ''RTR-*-1'') (to_lower ''rtr-osl-1'')"
  using matchWildcard_glob [of "''RTR-*-1''" "''rtr-osl-1''"]
  by (simp add: ascii_eval)

section \<open>The search is a substring test on lower-cased text\<close>

lemma prefix_fold_loop_runes:
  "prefix_fold_loop s i prs \<longleftrightarrow> prefix prs (map unicode_ToLower (runes (drop i s)))"
proof (induction prs arbitrary: i)
  case (Cons pr prs)
  show ?case
  proof (cases "length s \<le> i")
    case True
    then show ?thesis by (simp add: runes_def)
  next
    case False
    then have d: "drop i s = s ! i # drop (Suc i) s" by (simp add: Cons_nth_drop_Suc)
    obtain r n where r: "decode_rune (drop i s) = (r, n)" by force
    have "(if of_char (s ! i) < (128 :: nat) then (of_char (s ! i), 1) else decode_rune (take 4 (drop i s))) = (r, n)"
      using r d decode_rune_ascii decode_rune_take4 by metis
    moreover have "runes (drop i s) = r # runes (drop (i + n) s)"
      using runes_step [OF _ r] False by (simp add: add.commute)
    ultimately show ?thesis using False Cons.IH [of "i + n"] by auto
  qed
qed simp

lemma hasPrefixFold_runes: "hasPrefixFold s p \<longleftrightarrow> prefix (runes p) (map unicode_ToLower (runes s))"
  by (simp add: hasPrefixFold_def prefix_fold_loop_runes)

lemma containsFold_sublist:
  assumes "valid_utf8 s"
  shows "containsFold s (to_lower search) \<longleftrightarrow> sublist (to_lower search) (to_lower s)"
proof (cases "search = []")
  case False
  define ys where "ys = runes s"
  define xs where "xs = map unicode_ToLower (runes search)"
  let ?low = "map unicode_ToLower"
  have s: "s = utf8_encode ys" and vy: "list_all valid_rune ys"
    using valid_utf8_runes [OF assms] runes_valid by (simp_all add: ys_def)
  have vx: "list_all valid_rune xs" and vl: "list_all valid_rune (?low ys)"
    using runes_valid [of search] vy valid_rune_ToLower by (auto simp: xs_def list_all_iff)
  have xs: "xs \<noteq> []" using False by (cases search) (auto simp: xs_def runes_def split: prod.splits)
  have hp: "hasPrefixFold (utf8_encode (drop k ys)) (to_lower search) \<longleftrightarrow> prefix xs (?low (drop k ys))" for k
  proof -
    have "list_all valid_rune (drop k ys)" using vy by (auto simp: list_all_iff dest: in_set_dropD)
    then show ?thesis by (simp add: hasPrefixFold_runes runes_to_lower runes_encode xs_def)
  qed
  have "containsFold s (to_lower search) \<longleftrightarrow>
      (\<exists>i < length s. \<not> is_cont (s ! i) \<and> hasPrefixFold (drop i s) (to_lower search))"
    using False by (auto simp: containsFold_def list_ex_iff)
  also have "\<dots> \<longleftrightarrow> (\<exists>k < length ys. prefix xs (?low (drop k ys)))"
    using drop_utf8_encode drop_runes_byte_start hp unfolding s by metis
  also have "\<dots> \<longleftrightarrow> sublist xs (?low ys)"
    using xs by (auto simp: sublist_iff_prefix_drop drop_map le_less)
  also have "\<dots> \<longleftrightarrow> sublist (to_lower search) (to_lower s)"
    using sublist_utf8_encode [OF vx vl xs] by (simp add: to_lower_def xs_def ys_def)
  finally show ?thesis .
qed (simp add: containsFold_def to_lower_def runes_def)

text \<open>For a valid UTF-8 text the allocation-free \<^verbatim>\<open>containsFold\<close>, given a needle lower-cased by
  \<^verbatim>\<open>strings.ToLower\<close>, decides whether the needle occurs in the lower-cased text.\<close>

lemma containsFold_correct:
  assumes "valid_utf8 s"
  shows "containsFold s (to_lower search) \<longleftrightarrow> sublist (to_lower search) (to_lower s)"
  using assms by (rule containsFold_sublist)


section \<open>Application log levels\<close>

lemmas level_tables = ValidAppLogLevels_def levelAliases_def

lemma levels_distinct: "distinct (map fst ValidAppLogLevels)"
  by (simp add: ValidAppLogLevels_def)

lemma map_of_levels: "map_of ValidAppLogLevels l = Some r \<Longrightarrow> 0 \<le> r \<and> l \<in> fst ` set ValidAppLogLevels"
  by (auto simp: ValidAppLogLevels_def split: if_splits)

lemma canonical_upper: "l \<in> fst ` set ValidAppLogLevels \<Longrightarrow> to_upper l = l"
  by (auto simp: ValidAppLogLevels_def ascii_eval)

lemma canonical_rank: "(l, r) \<in> set ValidAppLogLevels \<Longrightarrow> AppLogLevelRank l = r"
  by (auto simp: AppLogLevelRank_def ValidAppLogLevels_def ascii_eval)

lemma NormalizeLevel_canonical: "NormalizeLevel l = Some c \<Longrightarrow> c \<in> fst ` set ValidAppLogLevels"
  by (auto simp: NormalizeLevel_def level_tables Let_def split: option.splits if_splits)

text \<open>Level normalisation lands on a canonical level, is idempotent, and the level it returns is
  ranked, so an event or a filter that went through it is never excluded as unrecognised.\<close>

lemma NormalizeLevel_stable:
  assumes "NormalizeLevel l = Some c"
  shows "c \<in> fst ` set ValidAppLogLevels \<and> NormalizeLevel c = Some c \<and> 0 \<le> AppLogLevelRank c"
proof -
  have c: "c \<in> fst ` set ValidAppLogLevels" using assms by (rule NormalizeLevel_canonical)
  then obtain r where "(c, r) \<in> set ValidAppLogLevels" by auto
  then have r: "AppLogLevelRank c = r" "map_of ValidAppLogLevels c = Some r"
    using canonical_rank levels_distinct by auto
  then have "0 \<le> r" using map_of_levels by blast
  with c r canonical_upper [OF c] show ?thesis by (simp add: NormalizeLevel_def)
qed


definition level_filter :: "string \<Rightarrow> applog_filter" where
  "level_filter l =
     \<lparr>af_Service = [], af_Component = [], af_Host = [], af_Level = l, af_LevelExact = [],
      af_Search = [], af_From = None, af_To = None, af_levelMinRank = None, af_searchLower = []\<rparr>"

text \<open>For events with a canonical level (the only ones ingest stores), the live minimum-level
  filter and the list of levels handed to SQL as \<^verbatim>\<open>level = ANY(...)\<close> select the same events, an
  unrecognised floor selecting nothing in both.\<close>

lemma level_filter_agrees_with_sql:
  assumes "al_Level e \<in> fst ` set ValidAppLogLevels" and "floor \<noteq> []"
  shows "applog_Matches (level_filter floor) e \<longleftrightarrow> al_Level e \<in> set (AppLogLevelsAtLeast floor)"
proof -
  obtain r where r: "(al_Level e, r) \<in> set ValidAppLogLevels" using assms(1) by auto
  have rank: "AppLogLevelRank (al_Level e) = r" using r by (rule canonical_rank)
  have "(al_Level e, q) \<in> set ValidAppLogLevels \<longleftrightarrow> q = r" for q
    using r by (auto simp: ValidAppLogLevels_def)
  then have "al_Level e \<in> set (AppLogLevelsAtLeast floor)
      \<longleftrightarrow> 0 \<le> AppLogLevelRank floor \<and> AppLogLevelRank floor \<le> r"
    by (force simp: AppLogLevelsAtLeast_def Let_def image_iff)
  with rank assms(2) show ?thesis
    by (auto simp: applog_Matches_def level_filter_def Let_def)
qed

definition sample_event :: srvlog_event where
  "sample_event =
     \<lparr>ev_ID = 41, ev_ReceivedAt = 0, ev_ReportedAt = 0, ev_Hostname = ''rtr1'', ev_FromhostIP = ''10.0.0.9'',
      ev_Programname = ''rpd'', ev_MsgID = [], ev_Severity = 3, ev_SeverityLabel = ''err'',
      ev_Facility = 3, ev_FacilityLabel = ''daemon'', ev_SyslogTag = ''rpd:'', ev_StructuredData = None,
      ev_Message = ''link down'', ev_RawMessage = None, ev_MutedBy = None\<rparr>"

definition sample_applog :: applog_event where
  "sample_applog =
     \<lparr>al_ID = 7, al_ReceivedAt = 0, al_Timestamp = 0, al_Level = ''ERROR'', al_Service = ''api'',
      al_Component = [], al_Host = ''web1'', al_Msg = ''boom'', al_Source = [], al_Attrs = [],
      al_AttrsTruncated = False, al_SourceIP = None, al_APIKeyID = None\<rparr>"


end
