(* ===== verification/Broker.thy ===== *)
theory Broker
  imports Filters
begin

text \<open>
  The generic fan-out broker of \<^verbatim>\<open>api/internal/broker/broker.go\<close>. A subscription is a pointer; its
  channel lives in an explicit store, because the stream that reads it keeps the pointer after the
  broker has dropped it. Closing a closed channel and sending on a closed channel panic in Go: here
  those operations return \<^const>\<open>None\<close>, and that no operation panics is a theorem. Each operation
  runs under the broker's mutex, so a run of the broker is a sequence of whole operations.
\<close>

section \<open>State\<close>

definition subscriptionBufferSize :: nat where "subscriptionBufferSize = 512"
definition maxSubscribers :: nat where "maxSubscribers = 1000"
definition maxSubscribersPerClient :: nat where "maxSubscribersPerClient = 20"

lemmas broker_limits = subscriptionBufferSize_def maxSubscribers_def maxSubscribersPerClient_def

datatype broker_error = ErrTooManySubscribers | ErrTooManyClientSubscribers

record message =
  msg_ID :: int
  msg_Data :: string

record 'f subscription =
  sub_ch :: "message list"
  sub_closed :: bool
  sub_filter :: 'f
  sub_clientKey :: string

type_synonym sub_ptr = nat

text \<open>The metric callbacks are counters: the active gauge, broadcasts and drops.\<close>

record 'f broker =
  br_store :: "sub_ptr \<rightharpoonup> 'f subscription"
  br_next :: sub_ptr
  br_subscribers :: "sub_ptr list"
  br_byClient :: "string \<rightharpoonup> nat"
  br_active :: int
  br_broadcasts :: nat
  br_drops :: nat

definition New :: "'f broker" where
  "New = \<lparr>br_store = Map.empty, br_next = 0, br_subscribers = [], br_byClient = Map.empty,
          br_active = 0, br_broadcasts = 0, br_drops = 0\<rparr>"

section \<open>Operations\<close>

definition client_count :: "'f broker \<Rightarrow> string \<Rightarrow> nat" where
  "client_count b k = (case br_byClient b k of None \<Rightarrow> 0 | Some n \<Rightarrow> n)"

definition Subscribe :: "'f broker \<Rightarrow> 'f \<Rightarrow> string \<Rightarrow> (broker_error + sub_ptr) \<times> 'f broker" where
  "Subscribe b flt clientKey =
     (let sub = \<lparr>sub_ch = [], sub_closed = False, sub_filter = flt, sub_clientKey = clientKey\<rparr>;
          p = br_next b;
          b0 = b\<lparr>br_store := (br_store b)(p \<mapsto> sub), br_next := Suc p\<rparr> in
      if length (br_subscribers b) \<ge> maxSubscribers then (Inl ErrTooManySubscribers, b)
      else if clientKey \<noteq> [] \<and> client_count b clientKey \<ge> maxSubscribersPerClient
      then (Inl ErrTooManyClientSubscribers, b)
      else
        (let b1 = b0\<lparr>br_subscribers := br_subscribers b0 @ [p]\<rparr>;
             b2 = (if clientKey \<noteq> []
                   then b1\<lparr>br_byClient := (br_byClient b1)(clientKey \<mapsto> Suc (client_count b1 clientKey))\<rparr>
                   else b1) in
         (Inr p, b2\<lparr>br_active := br_active b2 + 1\<rparr>)))"

text \<open>Closing a channel; \<^const>\<open>None\<close> is the panic on a channel that is closed already.\<close>

definition close_chan :: "'f broker \<Rightarrow> sub_ptr \<Rightarrow> 'f broker option" where
  "close_chan b p =
     (case br_store b p of
        None \<Rightarrow> None
      | Some s \<Rightarrow> if sub_closed s then None
                  else Some (b\<lparr>br_store := (br_store b)(p \<mapsto> s\<lparr>sub_closed := True\<rparr>)\<rparr>))"

definition decClientLocked :: "'f broker \<Rightarrow> string \<Rightarrow> 'f broker" where
  "decClientLocked b clientKey =
     (if clientKey = [] then b
      else let n = client_count b clientKey in
        if n \<le> 1 then b\<lparr>br_byClient := (br_byClient b)(clientKey := None)\<rparr>
        else b\<lparr>br_byClient := (br_byClient b)(clientKey \<mapsto> n - 1)\<rparr>)"

definition Unsubscribe :: "'f broker \<Rightarrow> sub_ptr \<Rightarrow> 'f broker option" where
  "Unsubscribe b p =
     (if p \<notin> set (br_subscribers b) then Some b
      else
        (case close_chan (b\<lparr>br_subscribers := removeAll p (br_subscribers b)\<rparr>) p of
           None \<Rightarrow> None
         | Some b1 \<Rightarrow>
             (case br_store b1 p of
                None \<Rightarrow> None
              | Some s \<Rightarrow>
                  let b2 = decClientLocked b1 (sub_clientKey s) in
                  Some (b2\<lparr>br_active := br_active b2 - 1\<rparr>))))"

definition broker_Len :: "'f broker \<Rightarrow> nat" where
  "broker_Len b = length (br_subscribers b)"

fun close_all :: "'f broker \<Rightarrow> sub_ptr list \<Rightarrow> 'f broker option" where
  "close_all b [] = Some b"
| "close_all b (p # ps) =
     (case close_chan b p of
        None \<Rightarrow> None
      | Some b1 \<Rightarrow> close_all (b1\<lparr>br_subscribers := removeAll p (br_subscribers b1)\<rparr>) ps)"

definition Shutdown :: "'f broker \<Rightarrow> 'f broker option" where
  "Shutdown b = map_option (\<lambda>b1. b1\<lparr>br_byClient := Map.empty\<rparr>) (close_all b (br_subscribers b))"

text \<open>One subscriber's share of a broadcast: the non-blocking send, or a counted drop.\<close>

definition offer :: "('f \<Rightarrow> 'e \<Rightarrow> bool) \<Rightarrow> 'e \<Rightarrow> message \<Rightarrow> 'f broker \<Rightarrow> sub_ptr \<Rightarrow> 'f broker option" where
  "offer matches event msg b p =
     (case br_store b p of
        None \<Rightarrow> None
      | Some s \<Rightarrow>
          if \<not> matches (sub_filter s) event then Some b
          else if sub_closed s then None
          else if length (sub_ch s) < subscriptionBufferSize
          then Some (b\<lparr>br_store := (br_store b)(p \<mapsto> s\<lparr>sub_ch := sub_ch s @ [msg]\<rparr>)\<rparr>)
          else Some (b\<lparr>br_drops := Suc (br_drops b)\<rparr>))"

fun offer_all :: "('f \<Rightarrow> 'e \<Rightarrow> bool) \<Rightarrow> 'e \<Rightarrow> message \<Rightarrow> 'f broker \<Rightarrow> sub_ptr list \<Rightarrow> 'f broker option" where
  "offer_all matches event msg b [] = Some b"
| "offer_all matches event msg b (p # ps) =
     (case offer matches event msg b p of None \<Rightarrow> None | Some b1 \<Rightarrow> offer_all matches event msg b1 ps)"

text \<open>\<open>marshal\<close> is \<^verbatim>\<open>json.Marshal\<close> on the event type (an error drops the event), \<open>getID\<close> the
  identifier for the \<^verbatim>\<open>id:\<close> field.\<close>

definition Broadcast ::
    "('f \<Rightarrow> 'e \<Rightarrow> bool) \<Rightarrow> ('e \<Rightarrow> string option) \<Rightarrow> ('e \<Rightarrow> int) \<Rightarrow> 'f broker \<Rightarrow> 'e \<Rightarrow> 'f broker option" where
  "Broadcast matches marshal getID b event =
     (case marshal event of
        None \<Rightarrow> Some b
      | Some data \<Rightarrow>
          let msg = \<lparr>msg_ID = getID event, msg_Data = data\<rparr>;
              b1 = b\<lparr>br_broadcasts := Suc (br_broadcasts b)\<rparr> in
          offer_all matches event msg b1 (br_subscribers b1))"

text \<open>A stream taking the next message from its subscription: the message, whether the channel is
  closed and drained, or nothing yet.\<close>

datatype recv_result = Received message | ChanClosed | WouldBlock

definition recv_sub :: "'f broker \<Rightarrow> sub_ptr \<Rightarrow> recv_result \<times> 'f broker" where
  "recv_sub b p =
     (case br_store b p of
        None \<Rightarrow> (WouldBlock, b)
      | Some s \<Rightarrow>
          (case sub_ch s of
             m # ms \<Rightarrow> (Received m, b\<lparr>br_store := (br_store b)(p \<mapsto> s\<lparr>sub_ch := ms\<rparr>)\<rparr>)
           | [] \<Rightarrow> (if sub_closed s then ChanClosed else WouldBlock, b)))"

section \<open>Invariant\<close>

text \<open>How many subscribers carry a client key.\<close>

definition key_count :: "'f broker \<Rightarrow> string \<Rightarrow> nat" where
  "key_count b k = length (filter (\<lambda>p. map_option sub_clientKey (br_store b p) = Some k) (br_subscribers b))"

definition open_sub :: "'f broker \<Rightarrow> sub_ptr \<Rightarrow> bool" where
  "open_sub b p \<longleftrightarrow> (\<exists>s. br_store b p = Some s \<and> \<not> sub_closed s)"

definition broker_inv :: "'f broker \<Rightarrow> bool" where
  "broker_inv b \<longleftrightarrow>
     distinct (br_subscribers b)
     \<and> length (br_subscribers b) \<le> maxSubscribers
     \<and> (\<forall>p \<in> set (br_subscribers b). open_sub b p)
     \<and> (\<forall>p s. br_store b p = Some s \<longrightarrow> p < br_next b \<and> length (sub_ch s) \<le> subscriptionBufferSize)
     \<and> (\<forall>k. k \<noteq> [] \<longrightarrow> client_count b k = key_count b k \<and> key_count b k \<le> maxSubscribersPerClient)
     \<and> (\<forall>k n. br_byClient b k = Some n \<longrightarrow> 0 < n)"

lemma broker_inv_New: "broker_inv New"
  by (simp add: broker_inv_def New_def client_count_def key_count_def)

lemma key_count_cong:
  "br_subscribers b' = br_subscribers b \<Longrightarrow>
   (\<And>p. p \<in> set (br_subscribers b) \<Longrightarrow> map_option sub_clientKey (br_store b' p) = map_option sub_clientKey (br_store b p))
   \<Longrightarrow> key_count b' k = key_count b k"
  by (simp add: key_count_def cong: filter_cong)

lemma Subscribe_inv:
  assumes inv: "broker_inv b" and sub: "Subscribe b f k = (r, b')"
  shows "broker_inv b'"
proof (cases r)
  case (Inl e)
  with sub inv show ?thesis by (auto simp: Subscribe_def Let_def split: if_splits)
next
  case (Inr p)
  have p: "p = br_next b" and room: "length (br_subscribers b) < maxSubscribers"
    and cl: "k \<noteq> [] \<Longrightarrow> client_count b k < maxSubscribersPerClient"
    using sub Inr by (auto simp: Subscribe_def Let_def not_le split: if_splits)
  have fresh: "p \<notin> set (br_subscribers b)"
    using inv p by (auto simp: broker_inv_def open_sub_def)
  have st: "br_store b' = (br_store b)(p \<mapsto> \<lparr>sub_ch = [], sub_closed = False, sub_filter = f, sub_clientKey = k\<rparr>)"
    and subs: "br_subscribers b' = br_subscribers b @ [p]" and nx: "br_next b' = Suc p"
    and bc: "br_byClient b' = (if k \<noteq> [] then (br_byClient b)(k \<mapsto> Suc (client_count b k)) else br_byClient b)"
    using sub Inr p by (auto simp: Subscribe_def Let_def client_count_def split: if_splits)
  have kc: "key_count b' j = key_count b j + (if j = k then 1 else 0)" for j
  proof -
    have "filter (\<lambda>q. map_option sub_clientKey (br_store b' q) = Some j) (br_subscribers b)
        = filter (\<lambda>q. map_option sub_clientKey (br_store b q) = Some j) (br_subscribers b)"
      using fresh by (intro filter_cong) (auto simp: st)
    then show ?thesis by (simp add: key_count_def subs st)
  qed
  have "client_count b' j = client_count b j + (if j = k then 1 else 0)" if "j \<noteq> []" for j
    using that by (auto simp: client_count_def bc)
  with inv kc cl have counts: "\<forall>j. j \<noteq> [] \<longrightarrow> client_count b' j = key_count b' j \<and> key_count b' j \<le> maxSubscribersPerClient"
    by (force simp: broker_inv_def)
  from inv counts fresh room show ?thesis
    unfolding broker_inv_def open_sub_def
    by (auto simp: st subs nx bc p less_Suc_eq split: if_splits)
qed


text \<open>Removing one subscriber under the invariant never panics and keeps the counts.\<close>

lemma key_count_remove:
  assumes "distinct (br_subscribers b)" and "p \<in> set (br_subscribers b)" and "br_store b p = Some s"
    and "br_subscribers b' = removeAll p (br_subscribers b)"
    and "\<And>q. map_option sub_clientKey (br_store b' q) = map_option sub_clientKey (br_store b q)"
  shows "key_count b j = key_count b' j + (if j = sub_clientKey s then 1 else 0)"
proof -
  obtain xs ys where l: "br_subscribers b = xs @ p # ys" using split_list assms(2) by metis
  have "p \<notin> set xs" "p \<notin> set ys" using assms(1) l by auto
  then have "br_subscribers b' = xs @ ys" using assms(4) l by simp
  then show ?thesis using l assms(3,5) by (auto simp: key_count_def)
qed

lemma Unsubscribe_spec:
  assumes inv: "broker_inv b" and p: "p \<in> set (br_subscribers b)"
  shows "\<exists>s b'. br_store b p = Some s \<and> Unsubscribe b p = Some b'
    \<and> br_subscribers b' = removeAll p (br_subscribers b)
    \<and> br_store b' = (br_store b)(p \<mapsto> s\<lparr>sub_closed := True\<rparr>) \<and> br_next b' = br_next b
    \<and> br_byClient b' = br_byClient (decClientLocked b (sub_clientKey s))"
proof -
  obtain s where s: "br_store b p = Some s" "\<not> sub_closed s"
    using inv p by (auto simp: broker_inv_def open_sub_def)
  then show ?thesis using p
    by (auto simp: Unsubscribe_def close_chan_def decClientLocked_def Let_def client_count_def)
qed

lemma Unsubscribe_inv:
  assumes inv: "broker_inv b" and un: "Unsubscribe b p = Some b'"
  shows "broker_inv b'"
proof (cases "p \<in> set (br_subscribers b)")
  case False
  with un inv show ?thesis by (simp add: Unsubscribe_def)
next
  case True
  then obtain s where s: "br_store b p = Some s"
    and subs: "br_subscribers b' = removeAll p (br_subscribers b)"
    and st: "br_store b' = (br_store b)(p \<mapsto> s\<lparr>sub_closed := True\<rparr>)" and nx: "br_next b' = br_next b"
    and bc: "br_byClient b' = br_byClient (decClientLocked b (sub_clientKey s))"
    using Unsubscribe_spec [OF inv True] un by auto
  have d: "distinct (br_subscribers b)" using inv by (simp add: broker_inv_def)
  have kc: "key_count b j = key_count b' j + (if j = sub_clientKey s then 1 else 0)" for j
    by (rule key_count_remove [OF d True s subs]) (simp add: st s)
  have cc: "j \<noteq> [] \<Longrightarrow> client_count b j = key_count b j \<and> key_count b j \<le> maxSubscribersPerClient"
    and pos: "br_byClient b j = Some n \<Longrightarrow> 0 < n" for j n
    using inv by (auto simp: broker_inv_def)
  have "client_count b' j = (if j = sub_clientKey s then client_count b j - 1 else client_count b j)" if "j \<noteq> []" for j
    using that by (auto simp: client_count_def bc decClientLocked_def Let_def)
  then have counts: "\<forall>j. j \<noteq> [] \<longrightarrow> client_count b' j = key_count b' j \<and> key_count b' j \<le> maxSubscribersPerClient"
    using kc cc by (force split: if_splits)
  have "\<forall>k n. br_byClient b' k = Some n \<longrightarrow> 0 < n"
    using pos by (auto simp: bc decClientLocked_def Let_def split: if_splits)
  moreover have "length (removeAll p (br_subscribers b)) \<le> maxSubscribers"
    using inv by (auto simp: broker_inv_def intro: order_trans [OF length_removeAll_less_eq])
  moreover have "length (sub_ch s) \<le> subscriptionBufferSize"
    using inv s by (auto simp: broker_inv_def)
  ultimately show ?thesis using inv counts d
    unfolding broker_inv_def open_sub_def
    by (auto simp: st subs nx s distinct_removeAll)
qed


text \<open>What a broadcast does to one subscription, and which subscriptions lose the event.\<close>

definition deliver :: "('f \<Rightarrow> 'e \<Rightarrow> bool) \<Rightarrow> 'e \<Rightarrow> message \<Rightarrow> 'f subscription \<Rightarrow> 'f subscription" where
  "deliver matches e m s =
     (if matches (sub_filter s) e \<and> length (sub_ch s) < subscriptionBufferSize
      then s\<lparr>sub_ch := sub_ch s @ [m]\<rparr> else s)"

definition loses :: "('f \<Rightarrow> 'e \<Rightarrow> bool) \<Rightarrow> 'e \<Rightarrow> 'f broker \<Rightarrow> sub_ptr \<Rightarrow> bool" where
  "loses matches e b p \<longleftrightarrow> (\<exists>s. br_store b p = Some s \<and> matches (sub_filter s) e
     \<and> subscriptionBufferSize \<le> length (sub_ch s))"

lemma offer_spec:
  assumes "open_sub b p"
  shows "\<exists>b'. offer matches e m b p = Some b'
    \<and> br_store b' = (br_store b)(p := map_option (deliver matches e m) (br_store b p))
    \<and> br_subscribers b' = br_subscribers b \<and> br_next b' = br_next b \<and> br_byClient b' = br_byClient b
    \<and> br_active b' = br_active b \<and> br_broadcasts b' = br_broadcasts b
    \<and> br_drops b' = br_drops b + (if loses matches e b p then 1 else 0)"
  using assms by (auto simp: open_sub_def offer_def deliver_def loses_def fun_eq_iff)

lemma offer_all_spec:
  assumes "distinct ps" and "\<forall>p \<in> set ps. open_sub b p"
  shows "\<exists>b'. offer_all matches e m b ps = Some b'
    \<and> br_store b' = (\<lambda>p. if p \<in> set ps then map_option (deliver matches e m) (br_store b p) else br_store b p)
    \<and> br_subscribers b' = br_subscribers b \<and> br_next b' = br_next b \<and> br_byClient b' = br_byClient b
    \<and> br_active b' = br_active b \<and> br_broadcasts b' = br_broadcasts b
    \<and> br_drops b' = br_drops b + length (filter (loses matches e b) ps)"
  using assms
proof (induction ps arbitrary: b)
  case (Cons p ps)
  obtain b1 where b1: "offer matches e m b p = Some b1"
    "br_store b1 = (br_store b)(p := map_option (deliver matches e m) (br_store b p))"
    "br_subscribers b1 = br_subscribers b" "br_next b1 = br_next b" "br_byClient b1 = br_byClient b"
    "br_active b1 = br_active b" "br_broadcasts b1 = br_broadcasts b"
    "br_drops b1 = br_drops b + (if loses matches e b p then 1 else 0)"
    using offer_spec [of b p matches e m] Cons.prems(2) by auto
  have "\<forall>q \<in> set ps. open_sub b1 q" using Cons.prems b1(2) by (auto simp: open_sub_def)
  moreover have "loses matches e b1 q = loses matches e b q" if "q \<in> set ps" for q
    using Cons.prems(1) that by (auto simp: loses_def b1(2))
  then have "filter (loses matches e b1) ps = filter (loses matches e b) ps" by (rule filter_cong [OF refl])
  ultimately obtain b2 where "offer_all matches e m b1 ps = Some b2"
    "br_store b2 = (\<lambda>p. if p \<in> set ps then map_option (deliver matches e m) (br_store b1 p) else br_store b1 p)"
    "br_subscribers b2 = br_subscribers b" "br_next b2 = br_next b" "br_byClient b2 = br_byClient b"
    "br_active b2 = br_active b" "br_broadcasts b2 = br_broadcasts b"
    "br_drops b2 = br_drops b1 + length (filter (loses matches e b) ps)"
    using Cons.IH [of b1] Cons.prems(1) b1 by auto
  with b1 Cons.prems(1) show ?case by (auto simp: fun_eq_iff)
qed auto

lemma Broadcast_spec:
  assumes "broker_inv b" and "marshal e = Some d"
  shows "\<exists>b'. Broadcast matches marshal getID b e = Some b'
    \<and> br_store b' = (\<lambda>p. if p \<in> set (br_subscribers b)
         then map_option (deliver matches e \<lparr>msg_ID = getID e, msg_Data = d\<rparr>) (br_store b p) else br_store b p)
    \<and> br_subscribers b' = br_subscribers b \<and> br_next b' = br_next b \<and> br_byClient b' = br_byClient b
    \<and> br_active b' = br_active b
    \<and> br_drops b' = br_drops b + length (filter (loses matches e b) (br_subscribers b))"
proof -
  let ?b = "b\<lparr>br_broadcasts := Suc (br_broadcasts b)\<rparr>"
  have o: "\<forall>p \<in> set (br_subscribers b). open_sub ?b p" and d: "distinct (br_subscribers b)"
    using assms(1) by (auto simp: broker_inv_def open_sub_def)
  have "loses matches e ?b = loses matches e b" by (simp add: loses_def fun_eq_iff)
  then show ?thesis
    using offer_all_spec [OF d o, of matches e "\<lparr>msg_ID = getID e, msg_Data = d\<rparr>"] assms(2)
    by (auto simp: Broadcast_def Let_def cong: if_cong)
qed

lemma Broadcast_total: "broker_inv b \<Longrightarrow> \<exists>b'. Broadcast matches marshal getID b e = Some b'"
  using Broadcast_spec [of b marshal e] by (cases "marshal e") (simp add: Broadcast_def, blast)

lemma length_deliver: "length (sub_ch s) \<le> subscriptionBufferSize
    \<Longrightarrow> length (sub_ch (deliver matches e m s)) \<le> subscriptionBufferSize"
  by (simp add: deliver_def)

lemma deliver_keeps [simp]:
  "sub_clientKey (deliver matches e m s) = sub_clientKey s"
  "sub_closed (deliver matches e m s) = sub_closed s" "sub_filter (deliver matches e m s) = sub_filter s"
  by (simp_all add: deliver_def)

lemma broker_inv_same_subs:
  assumes inv: "broker_inv b" and same: "br_subscribers b' = br_subscribers b" "br_next b' = br_next b"
      "br_byClient b' = br_byClient b"
    and st: "\<And>p s'. br_store b' p = Some s' \<Longrightarrow> \<exists>s. br_store b p = Some s
        \<and> sub_clientKey s' = sub_clientKey s \<and> sub_closed s' = sub_closed s
        \<and> length (sub_ch s') \<le> subscriptionBufferSize"
    and dom: "\<And>p. br_store b' p = None \<Longrightarrow> br_store b p = None"
  shows "broker_inv b'"
proof -
  have "map_option sub_clientKey (br_store b' p) = map_option sub_clientKey (br_store b p)" for p
    using st [of p] dom [of p] by (cases "br_store b' p") auto
  then have "key_count b' k = key_count b k" for k by (simp add: key_count_def same(1))
  moreover have "client_count b' k = client_count b k" for k by (simp add: client_count_def same(3))
  moreover have "open_sub b' p \<longleftrightarrow> open_sub b p" for p
    using st [of p] dom [of p] by (cases "br_store b' p") (auto simp: open_sub_def)
  moreover have "br_store b' p = Some s \<Longrightarrow> p < br_next b \<and> length (sub_ch s) \<le> subscriptionBufferSize" for p s
    using st [of p s] inv by (auto simp: broker_inv_def)
  ultimately show ?thesis using inv same by (auto simp: broker_inv_def)
qed

lemma Broadcast_inv:
  assumes inv: "broker_inv b" and br: "Broadcast matches marshal getID b e = Some b'"
  shows "broker_inv b'"
proof (cases "marshal e")
  case None
  with br inv show ?thesis by (simp add: Broadcast_def)
next
  case (Some d)
  let ?m = "\<lparr>msg_ID = getID e, msg_Data = d\<rparr>"
  have st: "br_store b' = (\<lambda>p. if p \<in> set (br_subscribers b)
         then map_option (deliver matches e ?m) (br_store b p) else br_store b p)"
    and same: "br_subscribers b' = br_subscribers b" "br_next b' = br_next b" "br_byClient b' = br_byClient b"
    using Broadcast_spec [of b marshal e d matches getID, OF inv Some] br by auto
  have "br_store b p = Some s \<Longrightarrow> length (sub_ch s) \<le> subscriptionBufferSize" for p s
    using inv by (auto simp: broker_inv_def)
  then show ?thesis
    by (intro broker_inv_same_subs [OF inv same]) (auto simp: st length_deliver split: if_splits)
qed

lemma recv_sub_inv:
  assumes inv: "broker_inv b" and rc: "recv_sub b p = (r, b')"
  shows "broker_inv b'"
proof (cases "b' = b")
  case False
  then obtain s m ms where s: "br_store b p = Some s" "sub_ch s = m # ms"
    and b': "b' = b\<lparr>br_store := (br_store b)(p \<mapsto> s\<lparr>sub_ch := ms\<rparr>)\<rparr>"
    using rc by (auto simp: recv_sub_def split: option.splits list.splits if_splits)
  have "br_store b q = Some t \<Longrightarrow> length (sub_ch t) \<le> subscriptionBufferSize" for q t
    using inv by (auto simp: broker_inv_def)
  from this [of p s] this s show ?thesis
    by (intro broker_inv_same_subs [OF inv]) (auto simp: b' split: if_splits)
qed (use inv in simp)

lemma close_all_spec:
  assumes "distinct ps" and "\<forall>p \<in> set ps. open_sub b p"
  shows "\<exists>b'. close_all b ps = Some b'
    \<and> br_store b' = (\<lambda>p. if p \<in> set ps then map_option (\<lambda>s. s\<lparr>sub_closed := True\<rparr>) (br_store b p) else br_store b p)
    \<and> br_subscribers b' = filter (\<lambda>p. p \<notin> set ps) (br_subscribers b) \<and> br_next b' = br_next b
    \<and> br_byClient b' = br_byClient b"
  using assms
proof (induction ps arbitrary: b)
  case (Cons p ps)
  obtain s where s: "br_store b p = Some s" "\<not> sub_closed s" using Cons.prems by (auto simp: open_sub_def)
  define b1 where "b1 = b\<lparr>br_store := (br_store b)(p \<mapsto> s\<lparr>sub_closed := True\<rparr>),
      br_subscribers := removeAll p (br_subscribers b)\<rparr>"
  have o: "\<forall>q \<in> set ps. open_sub b1 q" using Cons.prems by (auto simp: open_sub_def b1_def)
  have "close_all b (p # ps) = close_all b1 ps" using s by (simp add: close_chan_def b1_def)
  with Cons.IH [OF _ o] Cons.prems(1) s show ?case
    by (auto simp: b1_def fun_eq_iff removeAll_filter_not_eq intro!: filter_cong)
qed auto

lemma Shutdown_spec:
  assumes "broker_inv b"
  shows "\<exists>b'. Shutdown b = Some b' \<and> br_subscribers b' = [] \<and> br_byClient b' = Map.empty \<and> br_next b' = br_next b
    \<and> br_store b' = (\<lambda>p. if p \<in> set (br_subscribers b) then map_option (\<lambda>s. s\<lparr>sub_closed := True\<rparr>) (br_store b p)
                      else br_store b p)"
  using close_all_spec [of "br_subscribers b" b] assms by (auto simp: Shutdown_def broker_inv_def)

lemma Shutdown_inv: "broker_inv b \<Longrightarrow> Shutdown b = Some b' \<Longrightarrow> broker_inv b'"
  using Shutdown_spec [of b]
  by (auto simp: broker_inv_def client_count_def key_count_def split: if_splits)


section \<open>Runs of the broker\<close>

inductive broker_step ::
    "('f \<Rightarrow> 'e \<Rightarrow> bool) \<Rightarrow> ('e \<Rightarrow> string option) \<Rightarrow> ('e \<Rightarrow> int) \<Rightarrow> 'f broker \<Rightarrow> 'f broker \<Rightarrow> bool"
  for matches :: "'f \<Rightarrow> 'e \<Rightarrow> bool" and marshal :: "'e \<Rightarrow> string option" and getID :: "'e \<Rightarrow> int" where
  step_subscribe: "Subscribe b f k = (r, b') \<Longrightarrow> broker_step matches marshal getID b b'"
| step_unsubscribe: "Unsubscribe b p = Some b' \<Longrightarrow> broker_step matches marshal getID b b'"
| step_broadcast: "Broadcast matches marshal getID b e = Some b' \<Longrightarrow> broker_step matches marshal getID b b'"
| step_recv: "recv_sub b p = (r, b') \<Longrightarrow> broker_step matches marshal getID b b'"
| step_shutdown: "Shutdown b = Some b' \<Longrightarrow> broker_step matches marshal getID b b'"

inductive_cases broker_stepE: "broker_step matches marshal getID b b'"

lemma broker_step_inv: "broker_inv b \<Longrightarrow> broker_step matches marshal getID b b' \<Longrightarrow> broker_inv b'"
  by (erule broker_stepE) (auto intro: Subscribe_inv Unsubscribe_inv Broadcast_inv recv_sub_inv Shutdown_inv)

interpretation broker_sys: invariant_system "\<lambda>b. b = New" "broker_step matches marshal getID" broker_inv
  for matches :: "'f \<Rightarrow> 'e \<Rightarrow> bool" and marshal and getID
  by unfold_locales (auto simp: broker_inv_New intro: broker_step_inv)

definition broker_reach ::
    "('f \<Rightarrow> 'e \<Rightarrow> bool) \<Rightarrow> ('e \<Rightarrow> string option) \<Rightarrow> ('e \<Rightarrow> int) \<Rightarrow> 'f broker \<Rightarrow> bool" where
  "broker_reach matches marshal getID = reach (\<lambda>b. b = New) (broker_step matches marshal getID)"

lemma broker_reach_inv: "broker_reach matches marshal getID b \<Longrightarrow> broker_inv b"
  unfolding broker_reach_def by (rule broker_sys.reach_inv)

lemma broker_reach_New: "broker_reach matches marshal getID New"
  by (simp add: broker_reach_def reach_init)

text \<open>C5: In every state the broker can reach, at most 1000 clients are subscribed, at most 20 of them
  under one client key, no client's queue holds more than 512 messages, and the per-key counter that
  enforces the second limit equals the number of that key's live subscriptions.\<close>

theorem broker_limits_hold:
  assumes "broker_reach matches marshal getID b"
  shows "length (br_subscribers b) \<le> 1000
    \<and> (\<forall>k. k \<noteq> [] \<longrightarrow> client_count b k = key_count b k \<and> key_count b k \<le> 20)
    \<and> (\<forall>p s. br_store b p = Some s \<longrightarrow> length (sub_ch s) \<le> 512)"
  using broker_reach_inv [OF assms] by (auto simp: broker_inv_def broker_limits)

text \<open>C11: No operation on a reachable broker panics: neither an unsubscribe, a shutdown nor a
  broadcast closes a closed channel or sends on one, whatever came before.\<close>

theorem broker_never_panics:
  assumes "broker_reach matches marshal getID b"
  shows "Unsubscribe b p \<noteq> None \<and> Shutdown b \<noteq> None \<and> Broadcast matches marshal getID b e \<noteq> None"
proof -
  have inv: "broker_inv b" using assms by (rule broker_reach_inv)
  have "Unsubscribe b p \<noteq> None"
    using Unsubscribe_spec [OF inv, of p] by (cases "p \<in> set (br_subscribers b)") (auto simp: Unsubscribe_def)
  moreover have "Broadcast matches marshal getID b e \<noteq> None"
    using Broadcast_spec [of b marshal e _ matches getID, OF inv] by (cases "marshal e") (auto simp: Broadcast_def)
  ultimately show ?thesis using Shutdown_spec [OF inv] by auto
qed

text \<open>A broadcast appends the event's message to the queue of exactly those subscribers whose filter
  matches and whose queue has room, leaves every other queue as it was, and counts one drop per
  matching subscriber with a full queue.\<close>

lemma Broadcast_delivers:
  assumes "broker_reach matches marshal getID b" and "marshal e = Some d"
  shows "\<exists>b'. Broadcast matches marshal getID b e = Some b'
    \<and> (\<forall>p s. br_store b p = Some s \<longrightarrow> (\<exists>s'. br_store b' p = Some s' \<and> sub_ch s' =
         (if p \<in> set (br_subscribers b) \<and> matches (sub_filter s) e \<and> length (sub_ch s) < 512
          then sub_ch s @ [\<lparr>msg_ID = getID e, msg_Data = d\<rparr>] else sub_ch s)))
    \<and> br_drops b' = br_drops b + length (filter (\<lambda>p. \<exists>s. br_store b p = Some s
         \<and> matches (sub_filter s) e \<and> 512 \<le> length (sub_ch s)) (br_subscribers b))"
proof -
  have inv: "broker_inv b" using assms(1) by (rule broker_reach_inv)
  have l: "loses matches e b = (\<lambda>p. \<exists>s. br_store b p = Some s \<and> matches (sub_filter s) e \<and> 512 \<le> length (sub_ch s))"
    by (simp add: loses_def broker_limits fun_eq_iff)
  show ?thesis
    using Broadcast_spec [of b marshal e d matches getID, OF inv assms(2)]
    by (auto simp: l deliver_def broker_limits)
qed

text \<open>A subscription is refused exactly when 1000 clients are connected (first) or the client key has
  its 20 connections; otherwise it succeeds with a fresh, open, empty queue under the given filter, and
  an empty client key is never refused for its own count.\<close>

lemma Subscribe_outcome:
  assumes "broker_reach matches marshal getID b"
  shows "case Subscribe b f k of
      (Inl ErrTooManySubscribers, b') \<Rightarrow> b' = b \<and> length (br_subscribers b) = 1000
    | (Inl ErrTooManyClientSubscribers, b') \<Rightarrow>
        b' = b \<and> length (br_subscribers b) < 1000 \<and> k \<noteq> [] \<and> key_count b k = 20
    | (Inr p, b') \<Rightarrow> p \<notin> set (br_subscribers b) \<and> br_subscribers b' = br_subscribers b @ [p]
        \<and> br_store b' p = Some \<lparr>sub_ch = [], sub_closed = False, sub_filter = f, sub_clientKey = k\<rparr>
        \<and> (\<forall>q \<in> set (br_subscribers b). br_store b' q = br_store b q)"
proof -
  have inv: "broker_inv b" using assms by (rule broker_reach_inv)
  have fresh: "br_next b \<notin> set (br_subscribers b)" and len: "length (br_subscribers b) \<le> 1000"
    and cc: "k \<noteq> [] \<Longrightarrow> client_count b k = key_count b k \<and> key_count b k \<le> 20"
    using inv by (auto simp: broker_inv_def open_sub_def broker_limits)
  show ?thesis
  proof (cases "length (br_subscribers b) \<ge> 1000 \<or> (k \<noteq> [] \<and> client_count b k \<ge> 20)")
    case True
    with len cc show ?thesis by (auto simp: Subscribe_def Let_def broker_limits)
  next
    case False
    with fresh show ?thesis by (auto simp: Subscribe_def Let_def broker_limits client_count_def)
  qed
qed


section \<open>A broker with one client\<close>

definition sample_marshal :: "srvlog_event \<Rightarrow> string option" where
  "sample_marshal e = Some (ev_Message e)"

definition sample_broker :: "srvlog_filter broker" where
  "sample_broker = snd (Subscribe New empty_filter ''ip:10.0.0.1'')"

lemma sample_broker_reach: "broker_reach srvlog_Matches sample_marshal ev_ID sample_broker"
  unfolding broker_reach_def sample_broker_def
  by (rule reach_step [OF reach_init], rule refl, rule step_subscribe, rule prod.collapse [symmetric])

lemmas sample_broker_eval = sample_broker_def Subscribe_def New_def Let_def broker_limits client_count_def

theorem broker_limits_hold_witness:
  "br_subscribers sample_broker = [0] \<and> key_count sample_broker ''ip:10.0.0.1'' = 1
   \<and> length (br_subscribers sample_broker) \<le> 1000
   \<and> client_count sample_broker ''ip:10.0.0.1'' = key_count sample_broker ''ip:10.0.0.1''"
  using broker_limits_hold [OF sample_broker_reach]
  by (simp add: sample_broker_eval key_count_def)

theorem broker_never_panics_witness:
  "Unsubscribe sample_broker 0 \<noteq> None \<and> Shutdown sample_broker \<noteq> None
   \<and> Broadcast srvlog_Matches sample_marshal ev_ID sample_broker sample_event \<noteq> None"
  by (rule broker_never_panics [OF sample_broker_reach])


end
