(* ===== verification/Notification.thy ===== *)
theory Notification
  imports Filters "HOL-Library.Word"
begin

text \<open>
  The data of the notification engine and the pure methods of a rule:
  \<^verbatim>\<open>api/internal/notification/notifier.go\<close>, \<^verbatim>\<open>rule.go\<close>, \<^verbatim>\<open>summary.go\<close>, with the report
  structures of \<^verbatim>\<open>api/internal/model\<close> that a payload carries. Pointers to events are options; a
  \<^verbatim>\<open>float64\<close> of a report is only carried, so it is its bit pattern. The lemmas show what a
  validated rule can hold and that grouping keys depend on the grouping fields only.
\<close>

section \<open>Reports a payload can carry\<close>

type_synonym float64 = "64 word"

record severity_count =
  sc_Severity :: int
  sc_Label :: string
  sc_Count :: int
  sc_Pct :: float64

record level_count =
  lc_Level :: string
  lc_Count :: int
  lc_Pct :: float64

record top_source =
  ts_Name :: string
  ts_Count :: int
  ts_Pct :: float64

record syslog_summary =
  ss_Total :: int
  ss_Trend :: float64
  ss_Errors :: int
  ss_Warnings :: int
  ss_SeverityBreakdown :: "severity_count list"
  ss_TopHosts :: "top_source list"

record applog_summary =
  as_Total :: int
  as_Trend :: float64
  as_Errors :: int
  as_Warnings :: int
  as_LevelBreakdown :: "level_count list"
  as_TopServices :: "top_source list"

record summary_schedule =
  sch_ID :: int
  sch_Name :: string
  sch_Enabled :: bool
  sch_Frequency :: string
  sch_DayOfWeek :: "int option"
  sch_DayOfMonth :: "int option"
  sch_TimeOfDay :: string
  sch_Timezone :: string
  sch_EventKinds :: "string list"
  sch_SeverityMax :: "int option"
  sch_Hostname :: string
  sch_TopN :: int
  sch_ChannelIDs :: "int list"
  sch_LastRunAt :: "instant option"
  sch_CreatedAt :: instant
  sch_UpdatedAt :: instant

record top_issue =
  ti_Kind :: string
  ti_Severity :: int
  ti_Label :: string
  ti_Source :: string
  ti_Program :: string
  ti_Message :: string
  ti_Count :: int

record summary_report =
  sr_Schedule :: summary_schedule
  sr_Period :: duration
  sr_PeriodLabel :: string
  sr_From :: instant
  sr_To :: instant
  sr_Srvlog :: "syslog_summary option"
  sr_Netlog :: "syslog_summary option"
  sr_AppLog :: "applog_summary option"
  sr_TopIssues :: "top_issue list"

record analysis_report =
  ar_ID :: int
  ar_Slug :: string
  ar_Feed :: string
  ar_PromptMode :: string
  ar_Hosts :: "string list"
  ar_Services :: "string list"
  ar_Model :: string
  ar_PeriodStart :: instant
  ar_PeriodEnd :: instant
  ar_Report :: string
  ar_PromptTokens :: int
  ar_CompletionTokens :: int
  ar_Status :: string
  ar_Error :: string
  ar_CreatedAt :: instant
  ar_StartedAt :: "instant option"
  ar_CompletedAt :: "instant option"
  ar_NotifyChannelIDs :: "int list"

section \<open>Channels, rules, payloads\<close>

type_synonym event_kind = string

definition EventKindSrvlog :: event_kind where "EventKindSrvlog = ''srvlog''"
definition EventKindNetlog :: event_kind where "EventKindNetlog = ''netlog''"
definition EventKindAppLog :: event_kind where "EventKindAppLog = ''applog''"
definition EventKindAnalysis :: event_kind where "EventKindAnalysis = ''analysis_report''"

lemmas event_kinds = EventKindSrvlog_def EventKindNetlog_def EventKindAppLog_def
  EventKindAnalysis_def

type_synonym channel_type = string

definition ChannelTypeSlack :: channel_type where "ChannelTypeSlack = ''slack''"
definition ChannelTypeWebhook :: channel_type where "ChannelTypeWebhook = ''webhook''"
definition ChannelTypeEmail :: channel_type where "ChannelTypeEmail = ''email''"
definition ChannelTypeNtfy :: channel_type where "ChannelTypeNtfy = ''ntfy''"

lemmas channel_types = ChannelTypeSlack_def ChannelTypeWebhook_def ChannelTypeEmail_def
  ChannelTypeNtfy_def

record channel =
  ch_ID :: int
  ch_Name :: string
  ch_Type :: channel_type
  ch_Config :: string
  ch_Enabled :: bool
  ch_CreatedAt :: instant
  ch_UpdatedAt :: instant

record rule =
  ru_ID :: int
  ru_Name :: string
  ru_Enabled :: bool
  ru_EventKind :: event_kind
  ru_Hostname :: string
  ru_Programname :: string
  ru_Severity :: "int option"
  ru_SeverityMax :: "int option"
  ru_Facility :: "int option"
  ru_SyslogTag :: string
  ru_MsgID :: string
  ru_Service :: string
  ru_Component :: string
  ru_Host :: string
  ru_Level :: string
  ru_Search :: string
  ru_ChannelIDs :: "int list"
  ru_GroupBy :: string
  ru_SilenceMS :: int
  ru_SilenceMaxMS :: int
  ru_CoalesceMS :: int
  ru_CreatedAt :: instant
  ru_UpdatedAt :: instant

definition zero_rule :: rule where
  "zero_rule =
     \<lparr>ru_ID = 0, ru_Name = [], ru_Enabled = False, ru_EventKind = [], ru_Hostname = [],
      ru_Programname = [], ru_Severity = None, ru_SeverityMax = None, ru_Facility = None,
      ru_SyslogTag = [], ru_MsgID = [], ru_Service = [], ru_Component = [], ru_Host = [],
      ru_Level = [], ru_Search = [], ru_ChannelIDs = [], ru_GroupBy = [], ru_SilenceMS = 0,
      ru_SilenceMaxMS = 0, ru_CoalesceMS = 0, ru_CreatedAt = 0, ru_UpdatedAt = 0\<rparr>"

record payload =
  pl_Kind :: event_kind
  pl_RuleName :: string
  pl_Timestamp :: instant
  pl_EventCount :: int
  pl_SrvlogEvent :: "srvlog_event option"
  pl_NetlogEvent :: "netlog_event option"
  pl_AppLogEvent :: "applog_event option"
  pl_IsDigest :: bool
  pl_GroupKey :: string
  pl_Window :: duration
  pl_SummaryReport :: "summary_report option"
  pl_AnalysisReport :: "analysis_report option"

definition zero_payload :: payload where
  "zero_payload =
     \<lparr>pl_Kind = [], pl_RuleName = [], pl_Timestamp = 0, pl_EventCount = 0, pl_SrvlogEvent = None,
      pl_NetlogEvent = None, pl_AppLogEvent = None, pl_IsDigest = False, pl_GroupKey = [],
      pl_Window = 0, pl_SummaryReport = None, pl_AnalysisReport = None\<rparr>"

text \<open>An \<^verbatim>\<open>error\<close> value is the text its \<^verbatim>\<open>Error\<close> method gives; \<^const>\<open>None\<close> is \<^verbatim>\<open>nil\<close>.\<close>

record send_result =
  res_Success :: bool
  res_StatusCode :: int
  res_Error :: "string option"
  res_Duration :: duration

definition zero_result :: send_result where
  "zero_result = \<lparr>res_Success = False, res_StatusCode = 0, res_Error = None, res_Duration = 0\<rparr>"

text \<open>The columns the engine leaves to the database (\<^verbatim>\<open>ID\<close>, \<^verbatim>\<open>CreatedAt\<close>) are zero in the rows it
  writes.\<close>

record log_entry =
  le_ID :: int
  le_CreatedAt :: instant
  le_RuleID :: int
  le_ChannelID :: int
  le_EventKind :: string
  le_EventID :: int
  le_Status :: string
  le_Reason :: "string option"
  le_EventCount :: int
  le_StatusCode :: "int option"
  le_DurationMS :: int
  le_Payload :: string

record config =
  cfg_Enabled :: bool
  cfg_RuleRefreshInterval :: duration
  cfg_DispatchWorkers :: int
  cfg_DispatchBuffer :: int
  cfg_SendTimeout :: duration
  cfg_DefaultSilence :: duration
  cfg_DefaultSilenceMax :: duration
  cfg_DefaultCoalesce :: duration

section \<open>Windows and validation\<close>

text \<open>The product of two durations wraps at 64 bits.\<close>

definition Silence :: "rule \<Rightarrow> duration" where
  "Silence r = wrap64 (ru_SilenceMS r * millisecond)"

definition SilenceMax :: "rule \<Rightarrow> duration" where
  "SilenceMax r = wrap64 (ru_SilenceMaxMS r * millisecond)"

definition Coalesce :: "rule \<Rightarrow> duration" where
  "Coalesce r = wrap64 (ru_CoalesceMS r * millisecond)"

datatype rule_error =
    NameRequired
  | NoApplogFields event_kind
  | SeverityBound string int
  | FacilityBound int
  | NoSyslogFields event_kind
  | LevelUnknown string
  | EventKindRequired
  | EventKindUnknown event_kind

definition validSeverityBound :: "string \<Rightarrow> int option \<Rightarrow> rule_error option" where
  "validSeverityBound label v =
     (case v of None \<Rightarrow> None
      | Some n \<Rightarrow> if n < 0 \<or> n > 7 then Some (SeverityBound label n) else None)"

text \<open>\<^const>\<open>None\<close> is the \<^verbatim>\<open>nil\<close> error.\<close>

definition rule_Validate :: "rule \<Rightarrow> rule_error option" where
  "rule_Validate r =
     (if ru_Name r = [] then Some NameRequired
      else if ru_EventKind r = EventKindSrvlog \<or> ru_EventKind r = EventKindNetlog then
        (if ru_Service r \<noteq> [] \<or> ru_Component r \<noteq> [] \<or> ru_Host r \<noteq> [] \<or> ru_Level r \<noteq> []
         then Some (NoApplogFields (ru_EventKind r))
         else case validSeverityBound ''severity'' (ru_Severity r) of
                Some err \<Rightarrow> Some err
              | None \<Rightarrow>
                  (case validSeverityBound ''severity_max'' (ru_SeverityMax r) of
                     Some err \<Rightarrow> Some err
                   | None \<Rightarrow>
                       (case ru_Facility r of
                          None \<Rightarrow> None
                        | Some f \<Rightarrow> if f < 0 \<or> f > 23 then Some (FacilityBound f) else None)))
      else if ru_EventKind r = EventKindAppLog then
        (if ru_Hostname r \<noteq> [] \<or> ru_Programname r \<noteq> [] \<or> ru_Severity r \<noteq> None
            \<or> ru_SeverityMax r \<noteq> None \<or> ru_Facility r \<noteq> None \<or> ru_SyslogTag r \<noteq> [] \<or> ru_MsgID r \<noteq> []
         then Some (NoSyslogFields (ru_EventKind r))
         else if ru_Level r \<noteq> [] \<and> map_of ValidAppLogLevels (ru_Level r) = None
         then Some (LevelUnknown (ru_Level r))
         else None)
      else if ru_EventKind r = [] then Some EventKindRequired
      else Some (EventKindUnknown (ru_EventKind r)))"

section \<open>Matching and grouping\<close>

definition rule_SrvlogFilter :: "rule \<Rightarrow> srvlog_filter" where
  "rule_SrvlogFilter r =
     empty_filter\<lparr>sf_Hostname := ru_Hostname r, sf_Programname := ru_Programname r,
       sf_Severity := ru_Severity r, sf_SeverityMax := ru_SeverityMax r,
       sf_Facility := ru_Facility r, sf_SyslogTag := ru_SyslogTag r, sf_MsgID := ru_MsgID r,
       sf_Search := ru_Search r\<rparr>"

definition rule_AppLogFilter :: "rule \<Rightarrow> applog_filter" where
  "rule_AppLogFilter r =
     \<lparr>af_Service = ru_Service r, af_Component = ru_Component r, af_Host = ru_Host r,
      af_Level = ru_Level r, af_LevelExact = [], af_Search = ru_Search r, af_From = None,
      af_To = None, af_levelMinRank = None, af_searchLower = []\<rparr>"

definition rule_NetlogFilter :: "rule \<Rightarrow> netlog_filter" where
  "rule_NetlogFilter r =
     empty_filter\<lparr>sf_Hostname := ru_Hostname r, sf_Programname := ru_Programname r,
       sf_Severity := ru_Severity r, sf_SeverityMax := ru_SeverityMax r,
       sf_Facility := ru_Facility r, sf_SyslogTag := ru_SyslogTag r, sf_MsgID := ru_MsgID r,
       sf_Search := ru_Search r\<rparr>"

definition MatchesSrvlog :: "rule \<Rightarrow> srvlog_event \<Rightarrow> bool" where
  "MatchesSrvlog r e = srvlog_Matches (rule_SrvlogFilter r) e"

definition MatchesNetlog :: "rule \<Rightarrow> netlog_event \<Rightarrow> bool" where
  "MatchesNetlog r e = netlog_Matches (rule_NetlogFilter r) e"

definition MatchesAppLog :: "rule \<Rightarrow> applog_event \<Rightarrow> bool" where
  "MatchesAppLog r e = applog_Matches (rule_AppLogFilter r) e"

definition groupByFields :: "rule \<Rightarrow> string \<Rightarrow> string list" where
  "groupByFields r defaultField =
     (let gb = trim_space (ru_GroupBy r) in
      if gb = [] then [defaultField]
      else (let fields = filter (\<lambda>f. f \<noteq> []) (map trim_space (str_split (CHR '','') gb)) in
            if fields = [] then [defaultField] else fields))"

definition srvlog_part :: "srvlog_event \<Rightarrow> string \<Rightarrow> string" where
  "srvlog_part e f =
     (if f = ''hostname'' then ev_Hostname e
      else if f = ''programname'' then ev_Programname e
      else if f = ''syslogtag'' then ev_SyslogTag e
      else if f = ''severity'' then ev_SeverityLabel e
      else ev_Hostname e)"

definition GroupKeyFromSrvlog :: "rule \<Rightarrow> srvlog_event \<Rightarrow> string" where
  "GroupKeyFromSrvlog r e =
     str_join ''|'' (map (srvlog_part e) (groupByFields r ''hostname''))"

definition netlog_part :: "netlog_event \<Rightarrow> string \<Rightarrow> string" where
  "netlog_part e f =
     (if f = ''hostname'' then ev_Hostname e
      else if f = ''programname'' then ev_Programname e
      else if f = ''syslogtag'' then ev_SyslogTag e
      else if f = ''severity'' then ev_SeverityLabel e
      else ev_Hostname e)"

definition GroupKeyFromNetlog :: "rule \<Rightarrow> netlog_event \<Rightarrow> string" where
  "GroupKeyFromNetlog r e =
     str_join ''|'' (map (netlog_part e) (groupByFields r ''hostname''))"

definition applog_part :: "applog_event \<Rightarrow> string \<Rightarrow> string" where
  "applog_part e f =
     (if f = ''host'' then al_Host e
      else if f = ''service'' then al_Service e
      else if f = ''component'' then al_Component e
      else if f = ''level'' then al_Level e
      else al_Host e)"

definition GroupKeyFromAppLog :: "rule \<Rightarrow> applog_event \<Rightarrow> string" where
  "GroupKeyFromAppLog r e =
     str_join ''|'' (map (applog_part e) (groupByFields r ''host''))"

section \<open>Properties of rules\<close>

lemma groupByFields_neq_Nil: "groupByFields r d \<noteq> []"
  by (simp add: groupByFields_def Let_def)

text \<open>Keys joined with a separator that occurs in no part are equal only for equal parts.\<close>

lemma str_join_map_eq_iff:
  assumes "fs \<noteq> []" "\<forall>f \<in> set fs. c \<notin> set (p f) \<and> c \<notin> set (q f)"
  shows "str_join [c] (map p fs) = str_join [c] (map q fs) \<longleftrightarrow> (\<forall>f \<in> set fs. p f = q f)"
proof
  assume eq: "str_join [c] (map p fs) = str_join [c] (map q fs)"
  have "str_split c (str_join [c] (map p fs)) = map p fs"
    "str_split c (str_join [c] (map q fs)) = map q fs"
    using assms by (auto intro!: str_split_join)
  with eq show "\<forall>f \<in> set fs. p f = q f" by simp
qed (auto intro: arg_cong [where f = "str_join [c]"])

text \<open>Two events of a feed are put into the same alert group exactly when they agree on every
  grouping field of the rule, as long as no field value holds the separator \<^verbatim>\<open>|\<close>.\<close>

lemma GroupKey_groups_exactly:
  assumes "\<forall>f \<in> set (groupByFields r ''hostname''). CHR ''|'' \<notin> set (srvlog_part e f) \<and> CHR ''|'' \<notin> set (srvlog_part e' f)"
    and "\<forall>f \<in> set (groupByFields r ''hostname''). CHR ''|'' \<notin> set (netlog_part n f) \<and> CHR ''|'' \<notin> set (netlog_part n' f)"
    and "\<forall>f \<in> set (groupByFields r ''host''). CHR ''|'' \<notin> set (applog_part a f) \<and> CHR ''|'' \<notin> set (applog_part a' f)"
  shows "(GroupKeyFromSrvlog r e = GroupKeyFromSrvlog r e')
           = (\<forall>f \<in> set (groupByFields r ''hostname''). srvlog_part e f = srvlog_part e' f)
      \<and> (GroupKeyFromNetlog r n = GroupKeyFromNetlog r n')
           = (\<forall>f \<in> set (groupByFields r ''hostname''). netlog_part n f = netlog_part n' f)
      \<and> (GroupKeyFromAppLog r a = GroupKeyFromAppLog r a')
           = (\<forall>f \<in> set (groupByFields r ''host''). applog_part a f = applog_part a' f)"
  unfolding GroupKeyFromSrvlog_def GroupKeyFromNetlog_def GroupKeyFromAppLog_def
  using assms [THEN str_join_map_eq_iff [OF groupByFields_neq_Nil]] by simp

definition sample_rule :: rule where
  "sample_rule =
     zero_rule\<lparr>ru_ID := 7, ru_Name := ''link'', ru_Enabled := True, ru_EventKind := ''srvlog'',
       ru_ChannelIDs := [1], ru_GroupBy := '' hostname , severity,'', ru_SilenceMS := 60000\<rparr>"

lemma sample_rule_fields:
  "groupByFields sample_rule ''hostname'' = [''hostname'', ''severity'']"
  "groupByFields sample_rule ''host'' = [''hostname'', ''severity'']"
  by (simp_all add: groupByFields_def sample_rule_def zero_rule_def Let_def trim_space_ascii isSpace_def
      ascii_def)


lemma validSeverityBound_None_iff:
  "validSeverityBound l v = None \<longleftrightarrow> (case v of None \<Rightarrow> True | Some n \<Rightarrow> 0 \<le> n \<and> n \<le> 7)"
  by (auto simp: validSeverityBound_def split: option.splits)

end
