(* ===== verification/Suppressor.thy ===== *)
theory Suppressor
  imports Notification "HOL-Library.AList"
begin

text \<open>
  The alert suppressor of \<^verbatim>\<open>api/internal/notification/suppressor.go\<close>: the first match of a
  fingerprint alerts at once (or after a coalesce window), further matches are counted and sent as
  digests with a growing silence window. Every operation holds the mutex while it changes the
  state, so it is a function from state to state and the flushes it hands to \<^verbatim>\<open>onFlush\<close>. A timer of
  \<^verbatim>\<open>time.AfterFunc\<close> is a pending callback with the instant it is due. The step relation lets
  records, expiring timers, the passing of time and the stop interleave in any order; a trace and a
  tally per fingerprint are carried along to state what happens to every event.
\<close>

section \<open>State\<close>

definition maxFingerprintsPerRule :: nat where "maxFingerprintsPerRule = 10000"
definition maxFingerprintsGlobal :: nat where "maxFingerprintsGlobal = 5 * maxFingerprintsPerRule"
definition maxRetainedMsgBytes :: nat where "maxRetainedMsgBytes = 4096"

datatype phase = phaseCoalesce | phaseSilence

datatype timer_fn = FlushInitial | FlushSilence

record timer =
  tm_due :: instant
  tm_fn :: timer_fn
  tm_ruleID :: int
  tm_groupKey :: string
  tm_key :: string

record fingerprint =
  fp_phase :: phase
  fp_first :: payload
  fp_last :: payload
  fp_count :: int
  fp_currentSilence :: duration
  fp_baseSilence :: duration
  fp_maxSilence :: duration
  fp_coalesce :: duration
  fp_timer :: timer

text \<open>\<^verbatim>\<open>sp_dropped\<close> is the metric of fingerprints refused at the caps, \<^verbatim>\<open>sp_timers\<close> the callbacks the
  runtime still has to run.\<close>

record suppressor =
  sp_fingerprints :: "(string \<times> fingerprint) list"
  sp_ruleFingerprintCount :: "(int \<times> int) list"
  sp_stopped :: bool
  sp_timers :: "timer list"
  sp_dropped :: nat

record flush =
  fl_ruleID :: int
  fl_groupKey :: string
  fl_payload :: payload

definition NewSuppressor :: suppressor where
  "NewSuppressor =
     \<lparr>sp_fingerprints = [], sp_ruleFingerprintCount = [], sp_stopped = False, sp_timers = [],
      sp_dropped = 0\<rparr>"

definition fingerprintKey :: "int \<Rightarrow> string \<Rightarrow> string" where
  "fingerprintKey ruleID groupKey = fmt_int ruleID @ '':'' @ groupKey"

definition rule_count :: "suppressor \<Rightarrow> int \<Rightarrow> int" where
  "rule_count s r = (case map_of (sp_ruleFingerprintCount s) r of None \<Rightarrow> 0 | Some n \<Rightarrow> n)"

section \<open>Operations\<close>

definition trimForDigest :: "payload \<Rightarrow> payload" where
  "trimForDigest p =
     (case pl_AppLogEvent p of
        None \<Rightarrow> p
      | Some ev \<Rightarrow>
          (if al_Attrs ev = [] \<and> length (al_Msg ev) \<le> maxRetainedMsgBytes then p
           else
             (let trimmed = WithAttrsPreview ev 0;
                  trimmed' = (if length (al_Msg trimmed) > maxRetainedMsgBytes
                              then trimmed\<lparr>al_Msg := take maxRetainedMsgBytes (al_Msg trimmed)\<rparr>
                              else trimmed) in
              p\<lparr>pl_AppLogEvent := Some trimmed'\<rparr>)))"

definition AfterFunc :: "instant \<Rightarrow> duration \<Rightarrow> timer_fn \<Rightarrow> int \<Rightarrow> string \<Rightarrow> string \<Rightarrow> timer" where
  "AfterFunc now d fn ruleID groupKey key =
     \<lparr>tm_due = now + d, tm_fn = fn, tm_ruleID = ruleID, tm_groupKey = groupKey, tm_key = key\<rparr>"

text \<open>Storing a fingerprint whose timer has just been armed.\<close>

definition put_fp :: "string \<Rightarrow> fingerprint \<Rightarrow> suppressor \<Rightarrow> suppressor" where
  "put_fp key fp s =
     s\<lparr>sp_fingerprints := AList.update key fp (sp_fingerprints s),
       sp_timers := fp_timer fp # sp_timers s\<rparr>"

definition set_rule_count :: "int \<Rightarrow> int \<Rightarrow> suppressor \<Rightarrow> suppressor" where
  "set_rule_count r n s =
     s\<lparr>sp_ruleFingerprintCount := AList.update r n (sp_ruleFingerprintCount s)\<rparr>"

definition Record ::
  "suppressor \<Rightarrow> instant \<Rightarrow> int \<Rightarrow> string \<Rightarrow> duration \<Rightarrow> duration \<Rightarrow> duration \<Rightarrow> payload
   \<Rightarrow> suppressor \<times> flush list" where
  "Record s now ruleID groupKey silence silenceMax coalesce p =
     (let key = fingerprintKey ruleID groupKey in
      if sp_stopped s then (s, [])
      else case map_of (sp_fingerprints s) key of
        Some fp \<Rightarrow>
          (let fp' = fp\<lparr>fp_count := fp_count fp + 1, fp_last := trimForDigest p\<rparr> in
           (s\<lparr>sp_fingerprints := AList.update key fp' (sp_fingerprints s)\<rparr>, []))
      | None \<Rightarrow>
          if rule_count s ruleID \<ge> int maxFingerprintsPerRule
             \<or> length (sp_fingerprints s) \<ge> maxFingerprintsGlobal
          then (s\<lparr>sp_dropped := sp_dropped s + 1\<rparr>, [])
          else if coalesce > 0 then
            (let fp = \<lparr>fp_phase = phaseCoalesce, fp_first = p, fp_last = trimForDigest p,
                       fp_count = 1, fp_currentSilence = silence, fp_baseSilence = silence,
                       fp_maxSilence = silenceMax, fp_coalesce = coalesce,
                       fp_timer = AfterFunc now coalesce FlushInitial ruleID groupKey key\<rparr> in
             (set_rule_count ruleID (rule_count s ruleID + 1) (put_fp key fp s), []))
          else
            (let fp = \<lparr>fp_phase = phaseSilence, fp_first = zero_payload, fp_last = trimForDigest p,
                       fp_count = 0, fp_currentSilence = silence, fp_baseSilence = silence,
                       fp_maxSilence = silenceMax, fp_coalesce = coalesce,
                       fp_timer = AfterFunc now silence FlushSilence ruleID groupKey key\<rparr>;
                 alert = p\<lparr>pl_EventCount := 1, pl_GroupKey := groupKey, pl_IsDigest := False\<rparr> in
             (set_rule_count ruleID (rule_count s ruleID + 1) (put_fp key fp s),
              [\<lparr>fl_ruleID = ruleID, fl_groupKey = groupKey, fl_payload = alert\<rparr>])))"

definition flushInitial ::
  "suppressor \<Rightarrow> instant \<Rightarrow> int \<Rightarrow> string \<Rightarrow> string \<Rightarrow> suppressor \<times> flush list" where
  "flushInitial s now ruleID groupKey key =
     (if sp_stopped s then (s, [])
      else case map_of (sp_fingerprints s) key of
        None \<Rightarrow> (s, [])
      | Some fp \<Rightarrow>
          (let alert = (fp_first fp)\<lparr>pl_EventCount := fp_count fp, pl_GroupKey := groupKey,
                                     pl_IsDigest := False\<rparr>;
               fp' = fp\<lparr>fp_first := zero_payload, fp_phase := phaseSilence, fp_count := 0,
                        fp_timer := AfterFunc now (fp_currentSilence fp) FlushSilence ruleID
                                      groupKey key\<rparr> in
           (put_fp key fp' s,
            [\<lparr>fl_ruleID = ruleID, fl_groupKey = groupKey, fl_payload = alert\<rparr>])))"

definition next_silence :: "fingerprint \<Rightarrow> duration" where
  "next_silence fp =
     (let nxt = wrap64 (fp_currentSilence fp + fp_baseSilence fp) in
      if fp_maxSilence fp > 0 \<and> nxt > fp_maxSilence fp then fp_maxSilence fp else nxt)"

definition flushSilence ::
  "suppressor \<Rightarrow> instant \<Rightarrow> int \<Rightarrow> string \<Rightarrow> string \<Rightarrow> suppressor \<times> flush list" where
  "flushSilence s now ruleID groupKey key =
     (if sp_stopped s then (s, [])
      else case map_of (sp_fingerprints s) key of
        None \<Rightarrow> (s, [])
      | Some fp \<Rightarrow>
          if fp_count fp = 0 then
            (let s1 = s\<lparr>sp_fingerprints := AList.delete key (sp_fingerprints s)\<rparr> in
             (if rule_count s1 ruleID > 0 then set_rule_count ruleID (rule_count s1 ruleID - 1) s1
              else s1, []))
          else
            (let digest = (fp_last fp)\<lparr>pl_EventCount := fp_count fp, pl_GroupKey := groupKey,
                                       pl_IsDigest := True, pl_Window := fp_currentSilence fp\<rparr>;
                 nxt = next_silence fp;
                 fp' = fp\<lparr>fp_currentSilence := nxt, fp_count := 0,
                          fp_timer := AfterFunc now nxt FlushSilence ruleID groupKey key\<rparr> in
             (put_fp key fp' s,
              [\<lparr>fl_ruleID = ruleID, fl_groupKey = groupKey, fl_payload = digest\<rparr>])))"

text \<open>\<^verbatim>\<open>timer.Stop\<close> cancels a callback unless the runtime has started it already, which is what
  \<^verbatim>\<open>started\<close> says of a timer.\<close>

definition Stop :: "(timer \<Rightarrow> bool) \<Rightarrow> suppressor \<Rightarrow> suppressor" where
  "Stop started s =
     s\<lparr>sp_stopped := True,
       sp_timers := filter (\<lambda>t. t \<notin> fp_timer ` snd ` set (sp_fingerprints s) \<or> started t) (sp_timers s),
       sp_fingerprints := [], sp_ruleFingerprintCount := []\<rparr>"

text \<open>The runtime runs the callback of a timer that is due.\<close>

definition fire :: "timer \<Rightarrow> suppressor \<Rightarrow> instant \<Rightarrow> suppressor \<times> flush list" where
  "fire t s now =
     (let s1 = s\<lparr>sp_timers := remove1 t (sp_timers s)\<rparr> in
      case tm_fn t of
        FlushInitial \<Rightarrow> flushInitial s1 now (tm_ruleID t) (tm_groupKey t) (tm_key t)
      | FlushSilence \<Rightarrow> flushSilence s1 now (tm_ruleID t) (tm_groupKey t) (tm_key t))"

section \<open>Interleavings\<close>

text \<open>The system around the suppressor: the clock, the flushes so far (newest first, with the instant
  and the fingerprint), and per fingerprint the events recorded and those refused at the caps.\<close>

record supp_sys =
  sy_supp :: suppressor
  sy_now :: instant
  sy_trace :: "(instant \<times> string \<times> payload) list"
  sy_recorded :: "string \<Rightarrow> nat"
  sy_refused :: "string \<Rightarrow> nat"

definition supp_init :: "supp_sys \<Rightarrow> bool" where
  "supp_init y \<longleftrightarrow> sy_supp y = NewSuppressor \<and> sy_trace y = [] \<and> sy_recorded y = (\<lambda>_. 0)
     \<and> sy_refused y = (\<lambda>_. 0)"

definition log_flushes :: "instant \<Rightarrow> flush list \<Rightarrow> (instant \<times> string \<times> payload) list" where
  "log_flushes now fls = map (\<lambda>f. (now, fingerprintKey (fl_ruleID f) (fl_groupKey f), fl_payload f)) fls"

definition apply_op :: "supp_sys \<Rightarrow> suppressor \<times> flush list \<Rightarrow> supp_sys" where
  "apply_op y r = y\<lparr>sy_supp := fst r, sy_trace := log_flushes (sy_now y) (snd r) @ sy_trace y\<rparr>"

definition record_event ::
  "supp_sys \<Rightarrow> int \<Rightarrow> string \<Rightarrow> duration \<Rightarrow> duration \<Rightarrow> duration \<Rightarrow> payload \<Rightarrow> supp_sys" where
  "record_event y ruleID groupKey silence silenceMax coalesce p =
     (let r = Record (sy_supp y) (sy_now y) ruleID groupKey silence silenceMax coalesce p;
          key = fingerprintKey ruleID groupKey in
      if sp_stopped (sy_supp y) then y
      else (apply_op y r)
             \<lparr>sy_recorded := (sy_recorded y)(key := sy_recorded y key + 1),
              sy_refused := (sy_refused y)
                (key := sy_refused y key + (sp_dropped (fst r) - sp_dropped (sy_supp y)))\<rparr>)"

text \<open>\<^verbatim>\<open>windows\<close> restricts the silence windows rules may carry.\<close>

inductive supp_step :: "(duration \<Rightarrow> duration \<Rightarrow> bool) \<Rightarrow> supp_sys \<Rightarrow> supp_sys \<Rightarrow> bool"
  for windows :: "duration \<Rightarrow> duration \<Rightarrow> bool" where
  step_tick: "sy_now y \<le> t \<Longrightarrow> supp_step windows y (y\<lparr>sy_now := t\<rparr>)"
| step_record: "windows silence silenceMax \<Longrightarrow>
    supp_step windows y (record_event y ruleID groupKey silence silenceMax coalesce p)"
| step_fire: "t \<in> set (sp_timers (sy_supp y)) \<Longrightarrow> tm_due t \<le> sy_now y \<Longrightarrow>
    supp_step windows y (apply_op y (fire t (sy_supp y) (sy_now y)))"
| step_stop: "supp_step windows y (y\<lparr>sy_supp := Stop started (sy_supp y)\<rparr>)"

definition supp_reach :: "(duration \<Rightarrow> duration \<Rightarrow> bool) \<Rightarrow> supp_sys \<Rightarrow> bool" where
  "supp_reach windows = reach supp_init (supp_step windows)"

section \<open>The structural invariant\<close>

lemma fingerprintKey_eq_iff [simp]:
  "fingerprintKey r g = fingerprintKey r' g' \<longleftrightarrow> r = r' \<and> g = g'"
proof
  assume eq: "fingerprintKey r g = fingerprintKey r' g'"
  have no: "CHR '':'' \<notin> set (fmt_int n)" for n
    by (auto dest: fmt_int_chars simp: is_digit_def)
  have "str_split CHR '':'' (fingerprintKey r g) = fmt_int r # str_split CHR '':'' g" for r g
    using no by (simp add: fingerprintKey_def str_split_append)
  with eq have "fmt_int r = fmt_int r'" by (metis list.inject)
  with eq show "r = r' \<and> g = g'" by (auto simp: fingerprintKey_def fmt_int_inj)
qed simp

definition timers_of :: "suppressor \<Rightarrow> string \<Rightarrow> timer list" where
  "timers_of s k = filter (\<lambda>t. tm_key t = k) (sp_timers s)"

definition live :: "suppressor \<Rightarrow> int \<Rightarrow> string set" where
  "live s r = {g. map_of (sp_fingerprints s) (fingerprintKey r g) \<noteq> None}"

fun phase_fn :: "phase \<Rightarrow> timer_fn" where
  "phase_fn phaseCoalesce = FlushInitial"
| "phase_fn phaseSilence = FlushSilence"

fun min_count :: "phase \<Rightarrow> int" where
  "min_count phaseCoalesce = 1"
| "min_count phaseSilence = 0"

text \<open>A fingerprint has exactly the one timer it points to, of the kind its phase calls for.\<close>

definition key_ok :: "suppressor \<Rightarrow> string \<Rightarrow> bool" where
  "key_ok s k =
     (case map_of (sp_fingerprints s) k of
        None \<Rightarrow> timers_of s k = []
      | Some fp \<Rightarrow> timers_of s k = [fp_timer fp] \<and> tm_fn (fp_timer fp) = phase_fn (fp_phase fp)
                   \<and> min_count (fp_phase fp) \<le> fp_count fp \<and> (\<exists>r g. k = fingerprintKey r g))"

definition supp_inv :: "suppressor \<Rightarrow> bool" where
  "supp_inv s \<longleftrightarrow>
     distinct (map fst (sp_fingerprints s))
   \<and> length (sp_fingerprints s) \<le> maxFingerprintsGlobal
   \<and> (\<forall>r. rule_count s r = int (card (live s r)) \<and> card (live s r) \<le> maxFingerprintsPerRule)
   \<and> (sp_stopped s \<longrightarrow> sp_fingerprints s = [])
   \<and> (\<not> sp_stopped s \<longrightarrow> (\<forall>k. key_ok s k)
        \<and> (\<forall>t \<in> set (sp_timers s). tm_key t = fingerprintKey (tm_ruleID t) (tm_groupKey t)))"

lemmas supp_fields = put_fp_def set_rule_count_def AfterFunc_def

lemma finite_live [simp]: "finite (live s r)"
proof -
  have "live s r \<subseteq> (\<lambda>g. fingerprintKey r g) -` dom (map_of (sp_fingerprints s))"
    by (auto simp: live_def)
  moreover have "inj (\<lambda>g. fingerprintKey r g)" by (auto intro: injI)
  ultimately show ?thesis
    by (meson finite_dom_map_of finite_subset finite_vimageI)
qed

lemma live_update:
  "sp_fingerprints t = AList.update (fingerprintKey r g) fp (sp_fingerprints s)
   \<Longrightarrow> live t r' = (if r' = r then insert g (live s r') else live s r')"
  by (auto simp: live_def update_conv')

lemma live_delete:
  "sp_fingerprints t = AList.delete (fingerprintKey r g) (sp_fingerprints s)
   \<Longrightarrow> live t r' = (if r' = r then live s r' - {g} else live s r')"
  by (auto simp: live_def delete_conv')

lemma length_update_new:
  "map_of xs k = None \<Longrightarrow> length (AList.update k v xs) = Suc (length xs)"
  by (induction xs) auto

lemma length_update_old:
  "map_of xs k = Some u \<Longrightarrow> length (AList.update k v xs) = length xs"
  by (induction xs) (auto split: if_splits)

lemma rule_count_set [simp]:
  "rule_count (set_rule_count r n s) r' = (if r' = r then n else rule_count s r')"
  by (auto simp: rule_count_def set_rule_count_def update_conv')

lemma supp_invD:
  assumes "supp_inv s"
  shows "distinct (map fst (sp_fingerprints s))" "length (sp_fingerprints s) \<le> maxFingerprintsGlobal"
    "rule_count s r = int (card (live s r))" "card (live s r) \<le> maxFingerprintsPerRule"
    "sp_stopped s \<Longrightarrow> sp_fingerprints s = []" "\<not> sp_stopped s \<Longrightarrow> key_ok s k"
    "\<not> sp_stopped s \<Longrightarrow> t \<in> set (sp_timers s) \<Longrightarrow> tm_key t = fingerprintKey (tm_ruleID t) (tm_groupKey t)"
  using assms unfolding supp_inv_def by auto

lemma supp_inv_new: "supp_inv NewSuppressor"
  by (simp add: supp_inv_def NewSuppressor_def rule_count_def live_def key_ok_def timers_of_def)

lemma supp_inv_stop: "supp_inv s \<Longrightarrow> supp_inv (Stop started s)"
  by (simp add: supp_inv_def Stop_def rule_count_def live_def)

text \<open>Storing a fresh fingerprint and replacing a fingerprint whose timer has just run.\<close>

lemma supp_inv_insert:
  assumes inv: "supp_inv s" and run: "\<not> sp_stopped s" and k: "k = fingerprintKey r g"
    and none: "map_of (sp_fingerprints s) k = None"
    and caps: "rule_count s r < int maxFingerprintsPerRule"
      "length (sp_fingerprints s) < maxFingerprintsGlobal"
    and fp: "tm_key (fp_timer fp) = k" "tm_ruleID (fp_timer fp) = r" "tm_groupKey (fp_timer fp) = g"
      "tm_fn (fp_timer fp) = phase_fn (fp_phase fp)" "min_count (fp_phase fp) \<le> fp_count fp"
  shows "supp_inv (set_rule_count r (rule_count s r + 1) (put_fp k fp s))" (is "supp_inv ?t")
proof -
  have fps: "sp_fingerprints ?t = AList.update k fp (sp_fingerprints s)"
    and tms: "sp_timers ?t = fp_timer fp # sp_timers s"
    and st: "\<not> sp_stopped ?t" using run by (simp_all add: supp_fields)
  have lv: "live ?t r' = (if r' = r then insert g (live s r') else live s r')" for r'
    using fps k by (intro live_update) simp
  have g: "g \<notin> live s r" using none k by (simp add: live_def)
  have rc: "rule_count ?t r' = (if r' = r then rule_count s r + 1 else rule_count s r')" for r'
    by (simp, simp add: rule_count_def put_fp_def)
  have "rule_count ?t r' = int (card (live ?t r')) \<and> card (live ?t r') \<le> maxFingerprintsPerRule" for r'
    unfolding rc lv using supp_invD(3,4) [OF inv, of r'] g caps(1) by auto
  moreover have "key_ok ?t k'" for k'
    using supp_invD(6) [OF inv run, of k'] none fp fps tms k
    by (auto simp: key_ok_def timers_of_def update_conv' split: option.splits)
  moreover have "length (sp_fingerprints ?t) \<le> maxFingerprintsGlobal"
    using caps(2) none by (simp add: fps length_update_new)
  moreover have "distinct (map fst (sp_fingerprints ?t))"
    unfolding fps by (rule distinct_update [OF supp_invD(1) [OF inv]])
  ultimately show ?thesis
    unfolding supp_inv_def using st tms fp k supp_invD(7) [OF inv run] by auto
qed

definition unarm :: "timer \<Rightarrow> suppressor \<Rightarrow> suppressor" where
  "unarm t s = s\<lparr>sp_timers := remove1 t (sp_timers s)\<rparr>"

lemma unarm_fields [simp]:
  "sp_fingerprints (unarm t s) = sp_fingerprints s" "sp_stopped (unarm t s) = sp_stopped s"
  "sp_ruleFingerprintCount (unarm t s) = sp_ruleFingerprintCount s"
  "rule_count (unarm t s) r = rule_count s r" "live (unarm t s) r = live s r"
  "sp_dropped (unarm t s) = sp_dropped s"
  by (simp_all add: unarm_def rule_count_def live_def)

lemma fired_timer:
  assumes inv: "supp_inv s" and run: "\<not> sp_stopped s" and t: "t \<in> set (sp_timers s)"
  obtains fp where "map_of (sp_fingerprints s) (tm_key t) = Some fp" "fp_timer fp = t"
    "tm_fn t = phase_fn (fp_phase fp)" "min_count (fp_phase fp) \<le> fp_count fp"
    "timers_of (unarm t s) k = (if k = tm_key t then [] else timers_of s k)"
proof -
  have mem: "t \<in> set (timers_of s (tm_key t))" using t by (simp add: timers_of_def)
  then obtain fp where fp: "map_of (sp_fingerprints s) (tm_key t) = Some fp"
      "timers_of s (tm_key t) = [fp_timer fp]" "tm_fn (fp_timer fp) = phase_fn (fp_phase fp)"
      "min_count (fp_phase fp) \<le> fp_count fp"
    using supp_invD(6) [OF inv run, of "tm_key t"] by (auto simp: key_ok_def split: option.splits)
  with mem have "fp_timer fp = t" by simp
  moreover have "timers_of (unarm t s) k = (if k = tm_key t then [] else timers_of s k)"
    using fp(2) \<open>fp_timer fp = t\<close>
    by (auto simp: timers_of_def unarm_def filter_remove1 remove1_idem)
  ultimately show ?thesis using that fp by blast
qed

lemma supp_inv_rearm:
  assumes inv: "supp_inv s" and run: "\<not> sp_stopped s" and t: "t \<in> set (sp_timers s)"
    and fp: "tm_key (fp_timer fp) = tm_key t" "tm_ruleID (fp_timer fp) = tm_ruleID t"
      "tm_groupKey (fp_timer fp) = tm_groupKey t"
      "tm_fn (fp_timer fp) = phase_fn (fp_phase fp)" "min_count (fp_phase fp) \<le> fp_count fp"
  shows "supp_inv (put_fp (tm_key t) fp (unarm t s))" (is "supp_inv ?t")
proof -
  note key = supp_invD(7) [OF inv run t]
  obtain old where old: "map_of (sp_fingerprints s) (tm_key t) = Some old"
    and tms: "\<And>k. timers_of (unarm t s) k = (if k = tm_key t then [] else timers_of s k)"
    using fired_timer [OF inv run t] by metis
  have fps: "sp_fingerprints ?t = AList.update (tm_key t) fp (sp_fingerprints s)"
    by (simp add: supp_fields)
  have lv: "live ?t r = live s r" for r
    using live_update [of ?t "tm_ruleID t" "tm_groupKey t" fp s r] fps key old
    by (auto simp: live_def)
  have rc: "rule_count ?t r = rule_count s r" for r by (simp add: rule_count_def put_fp_def unarm_def)
  have tm': "timers_of ?t k = (if k = tm_key t then [fp_timer fp] else timers_of s k)" for k
    using tms [of k] fp(1) by (auto simp: timers_of_def put_fp_def)
  have ex: "\<exists>r g. tm_key t = fingerprintKey r g" using key by blast
  have "key_ok ?t k" for k
    using supp_invD(6) [OF inv run, of k] fp(4,5) ex
    by (auto simp: key_ok_def tm' fps update_conv' split: option.splits)
  moreover have "length (sp_fingerprints ?t) \<le> maxFingerprintsGlobal"
    using old supp_invD(2) [OF inv] by (simp add: fps length_update_old)
  moreover have "distinct (map fst (sp_fingerprints ?t))"
    unfolding fps by (rule distinct_update [OF supp_invD(1) [OF inv]])
  moreover have "sp_stopped ?t = sp_stopped s" by (simp add: put_fp_def)
  moreover have "u \<in> set (sp_timers ?t) \<Longrightarrow> u = fp_timer fp \<or> u \<in> set (sp_timers s)" for u
    by (auto simp: put_fp_def unarm_def dest: notin_set_remove1 [rotated] set_remove1_subset [THEN subsetD])
  ultimately show ?thesis
    unfolding supp_inv_def lv rc
    using run fp key supp_invD(3,4,7) [OF inv] by metis
qed

lemma supp_inv_close:
  assumes inv: "supp_inv s" and run: "\<not> sp_stopped s" and t: "t \<in> set (sp_timers s)"
  shows "supp_inv (set_rule_count (tm_ruleID t) (rule_count s (tm_ruleID t) - 1)
           ((unarm t s)\<lparr>sp_fingerprints := AList.delete (tm_key t) (sp_fingerprints s)\<rparr>))"
    (is "supp_inv ?t") and "0 < rule_count s (tm_ruleID t)"
proof -
  note key = supp_invD(7) [OF inv run t]
  obtain old where old: "map_of (sp_fingerprints s) (tm_key t) = Some old"
    and tms: "\<And>k. timers_of (unarm t s) k = (if k = tm_key t then [] else timers_of s k)"
    using fired_timer [OF inv run t] by metis
  have fps: "sp_fingerprints ?t = AList.delete (tm_key t) (sp_fingerprints s)"
    by (simp add: set_rule_count_def)
  have lv: "live ?t r = (if r = tm_ruleID t then live s r - {tm_groupKey t} else live s r)" for r
    using live_delete [of ?t "tm_ruleID t" "tm_groupKey t" s r] fps key by simp
  have g: "tm_groupKey t \<in> live s (tm_ruleID t)" using old key by (simp add: live_def)
  then have pos: "0 < card (live s (tm_ruleID t))" by (auto simp: card_gt_0_iff)
  then show "0 < rule_count s (tm_ruleID t)" using supp_invD(3) [OF inv] by simp
  have rc: "rule_count ?t r = (if r = tm_ruleID t then rule_count s r - 1 else rule_count s r)" for r
    by (simp, simp add: rule_count_def unarm_def)
  have "rule_count ?t r = int (card (live ?t r)) \<and> card (live ?t r) \<le> maxFingerprintsPerRule" for r
    unfolding rc lv using supp_invD(3,4) [OF inv, of r] g pos by (auto simp: of_nat_diff)
  moreover have "timers_of ?t k = timers_of (unarm t s) k" for k
    by (simp add: timers_of_def set_rule_count_def)
  then have "key_ok ?t k" for k
    using supp_invD(6) [OF inv run, of k] tms [of k]
    by (auto simp: key_ok_def fps delete_conv' split: option.splits)
  moreover have "length (sp_fingerprints ?t) \<le> maxFingerprintsGlobal"
    using supp_invD(2) [OF inv] length_delete_le [of "tm_key t" "sp_fingerprints s"] by (simp add: fps)
  moreover have "distinct (map fst (sp_fingerprints ?t))"
    unfolding fps by (rule distinct_delete [OF supp_invD(1) [OF inv]])
  moreover have "sp_stopped ?t = sp_stopped s" by (simp add: set_rule_count_def)
  moreover have "u \<in> set (sp_timers ?t) \<Longrightarrow> u \<in> set (sp_timers s)" for u
    by (auto simp: set_rule_count_def unarm_def dest: set_remove1_subset [THEN subsetD])
  ultimately show "supp_inv ?t"
    unfolding supp_inv_def using run supp_invD(7) [OF inv run] by metis
qed

lemma supp_inv_accumulate:
  assumes inv: "supp_inv s" and run: "\<not> sp_stopped s"
    and old: "map_of (sp_fingerprints s) k = Some old"
    and fp: "fp_timer fp = fp_timer old" "fp_phase fp = fp_phase old" "fp_count old \<le> fp_count fp"
  shows "supp_inv (s\<lparr>sp_fingerprints := AList.update k fp (sp_fingerprints s)\<rparr>)" (is "supp_inv ?t")
proof -
  have lv: "live ?t r = live s r" for r using old by (auto simp: live_def update_conv')
  have rc: "rule_count ?t r = rule_count s r" for r by (simp add: rule_count_def)
  have tm: "timers_of ?t k' = timers_of s k'" for k' by (simp add: timers_of_def)
  have "key_ok ?t k'" for k'
    using supp_invD(6) [OF inv run, of k'] fp old
    by (auto simp: key_ok_def tm update_conv' split: option.splits)
  with supp_invD [OF inv] old run show ?thesis
    unfolding supp_inv_def lv rc by (auto simp: length_update_old distinct_update)
qed

lemma supp_inv_Record:
  assumes inv: "supp_inv s"
  shows "supp_inv (fst (Record s now r g sil silm co p))"
proof (cases "sp_stopped s")
  case True
  then show ?thesis using inv by (simp add: Record_def)
next
  case False
  let ?k = "fingerprintKey r g"
  show ?thesis
  proof (cases "map_of (sp_fingerprints s) ?k")
    case (Some fp)
    then show ?thesis
      using False supp_inv_accumulate [OF inv False Some] by (simp add: Record_def Let_def)
  next
    case None
    have drop: "supp_inv (s\<lparr>sp_dropped := n\<rparr>)" for n
    proof -
      have "rule_count (s\<lparr>sp_dropped := n\<rparr>) = rule_count s" "live (s\<lparr>sp_dropped := n\<rparr>) = live s"
        "timers_of (s\<lparr>sp_dropped := n\<rparr>) = timers_of s"
        by (auto simp: fun_eq_iff rule_count_def live_def timers_of_def)
      moreover from this(3) have "key_ok (s\<lparr>sp_dropped := n\<rparr>) = key_ok s"
        by (simp add: fun_eq_iff key_ok_def split: option.split)
      ultimately show ?thesis using inv by (simp add: supp_inv_def)
    qed
    show ?thesis
      using None False drop supp_inv_insert [OF inv False refl None]
      by (simp add: Record_def Let_def AfterFunc_def)
  qed
qed

lemma fire_stopped: "sp_stopped s \<Longrightarrow> fire t s now = (unarm t s, [])"
  by (simp add: fire_def unarm_def flushInitial_def flushSilence_def Let_def split: timer_fn.split)

text \<open>What a due timer does, by the phase of its fingerprint.\<close>

lemma fire_cases:
  assumes inv: "supp_inv s" and run: "\<not> sp_stopped s" and t: "t \<in> set (sp_timers s)"
  obtains (initial) fp where "map_of (sp_fingerprints s) (tm_key t) = Some fp"
      "fp_timer fp = t" "fp_phase fp = phaseCoalesce" "1 \<le> fp_count fp"
      "fire t s now =
         (put_fp (tm_key t) (fp\<lparr>fp_first := zero_payload, fp_phase := phaseSilence, fp_count := 0,
            fp_timer := AfterFunc now (fp_currentSilence fp) FlushSilence (tm_ruleID t)
                          (tm_groupKey t) (tm_key t)\<rparr>) (unarm t s),
          [\<lparr>fl_ruleID = tm_ruleID t, fl_groupKey = tm_groupKey t,
            fl_payload = (fp_first fp)\<lparr>pl_EventCount := fp_count fp, pl_GroupKey := tm_groupKey t,
                                       pl_IsDigest := False\<rparr>\<rparr>])"
    | (close) fp where "map_of (sp_fingerprints s) (tm_key t) = Some fp"
      "fp_timer fp = t" "fp_phase fp = phaseSilence" "fp_count fp = 0"
      "fire t s now =
         (set_rule_count (tm_ruleID t) (rule_count s (tm_ruleID t) - 1)
           ((unarm t s)\<lparr>sp_fingerprints := AList.delete (tm_key t) (sp_fingerprints s)\<rparr>), [])"
    | (digest) fp where "map_of (sp_fingerprints s) (tm_key t) = Some fp"
      "fp_timer fp = t" "fp_phase fp = phaseSilence" "1 \<le> fp_count fp"
      "fire t s now =
         (put_fp (tm_key t) (fp\<lparr>fp_currentSilence := next_silence fp, fp_count := 0,
            fp_timer := AfterFunc now (next_silence fp) FlushSilence (tm_ruleID t)
                          (tm_groupKey t) (tm_key t)\<rparr>) (unarm t s),
          [\<lparr>fl_ruleID = tm_ruleID t, fl_groupKey = tm_groupKey t,
            fl_payload = (fp_last fp)\<lparr>pl_EventCount := fp_count fp, pl_GroupKey := tm_groupKey t,
                                      pl_IsDigest := True, pl_Window := fp_currentSilence fp\<rparr>\<rparr>])"
proof -
  obtain fp where fp: "map_of (sp_fingerprints s) (tm_key t) = Some fp" "fp_timer fp = t"
      "tm_fn t = phase_fn (fp_phase fp)" "min_count (fp_phase fp) \<le> fp_count fp"
    using fired_timer [OF inv run t] by metis
  have pos: "0 < rule_count s (tm_ruleID t)" by (rule supp_inv_close(2) [OF inv run t])
  have rc: "rule_count (s\<lparr>sp_timers := x, sp_fingerprints := y\<rparr>) r = rule_count s r" for x y r
    by (simp add: rule_count_def)
  show ?thesis
  proof (cases "fp_phase fp")
    case phaseCoalesce
    show ?thesis
      by (rule initial [OF fp(1,2) phaseCoalesce])
        (use fp phaseCoalesce run in \<open>simp_all add: fire_def flushInitial_def Let_def unarm_def\<close>)
  next
    case phaseSilence
    show ?thesis
    proof (cases "fp_count fp = 0")
      case True
      show ?thesis
        by (rule that(2) [OF fp(1,2) phaseSilence True])
          (use fp phaseSilence run True pos in
            \<open>simp add: fire_def flushSilence_def Let_def unarm_def rc\<close>)
    next
      case False
      show ?thesis
        by (rule digest [OF fp(1,2) phaseSilence])
          (use fp phaseSilence run False in
            \<open>simp_all add: fire_def flushSilence_def Let_def unarm_def\<close>)
    qed
  qed
qed

lemma supp_inv_fire:
  assumes inv: "supp_inv s" and t: "t \<in> set (sp_timers s)"
  shows "supp_inv (fst (fire t s now))"
proof (cases "sp_stopped s")
  case True
  with inv show ?thesis
    by (simp add: fire_stopped supp_inv_def)
next
  case False
  note rearm = supp_inv_rearm [OF inv False t]
  from inv False t show ?thesis
  proof (cases rule: fire_cases [where now = now])
    case (initial fp)
    then show ?thesis by (simp add: rearm AfterFunc_def)
  next
    case (close fp)
    then show ?thesis using supp_inv_close(1) [OF inv False t] by simp
  next
    case (digest fp)
    then show ?thesis by (simp add: rearm AfterFunc_def)
  qed
qed

section \<open>Every event is accounted for\<close>

definition pending :: "suppressor \<Rightarrow> string \<Rightarrow> int" where
  "pending s k = (case map_of (sp_fingerprints s) k of None \<Rightarrow> 0 | Some fp \<Rightarrow> fp_count fp)"

definition emitted :: "(instant \<times> string \<times> payload) list \<Rightarrow> string \<Rightarrow> int" where
  "emitted tr k = sum_list (map (\<lambda>(_, k', p). if k' = k then pl_EventCount p else 0) tr)"

definition accounted :: "supp_sys \<Rightarrow> bool" where
  "accounted y \<longleftrightarrow>
     supp_inv (sy_supp y)
   \<and> (\<forall>(t, k, p) \<in> set (sy_trace y). 1 \<le> pl_EventCount p)
   \<and> (\<not> sp_stopped (sy_supp y) \<longrightarrow>
        (\<forall>k. int (sy_recorded y k) = emitted (sy_trace y) k + pending (sy_supp y) k + int (sy_refused y k)))"

lemma emitted_simps [simp]:
  "emitted [] k = 0"
  "emitted ((t, k', p) # tr) k = (if k' = k then pl_EventCount p else 0) + emitted tr k"
  by (simp_all add: emitted_def)

lemma pending_put_fp [simp]:
  "pending (put_fp k' fp s) k = (if k = k' then fp_count fp else pending s k)"
  by (simp add: pending_def put_fp_def update_conv')

lemma pending_simps [simp]:
  "pending (set_rule_count r n s) = pending s" "pending (unarm t s) = pending s"
  "pending (s\<lparr>sp_dropped := d\<rparr>) = pending s"
  by (simp_all add: fun_eq_iff pending_def set_rule_count_def unarm_def)

text \<open>What \<^const>\<open>Record\<close> does to the count of each fingerprint.\<close>

lemma Record_accounts:
  assumes "\<not> sp_stopped s"
  shows "let (s', fls) = Record s now r g sil silm co p in
         emitted (log_flushes now fls) k + pending s' k + int (sp_dropped s' - sp_dropped s)
           = pending s k + (if k = fingerprintKey r g then 1 else int (sp_dropped s' - sp_dropped s))
       \<and> (\<forall>f \<in> set fls. 1 \<le> pl_EventCount (fl_payload f)) \<and> sp_stopped s' = sp_stopped s"
proof (cases "map_of (sp_fingerprints s) (fingerprintKey r g)")
  case None
  then show ?thesis
    using assms by (auto simp: Record_def Let_def log_flushes_def, auto simp: pending_def supp_fields)
next
  case (Some fp)
  then show ?thesis
    using assms by (auto simp: Record_def Let_def log_flushes_def pending_def update_conv')
qed

lemma accounted_record:
  assumes "accounted y"
  shows "accounted (record_event y r g sil silm co p)"
proof (cases "sp_stopped (sy_supp y)")
  case True
  with assms show ?thesis by (simp add: record_event_def)
next
  case False
  obtain s' fls where R: "Record (sy_supp y) (sy_now y) r g sil silm co p = (s', fls)" by force
  let ?d = "int (sp_dropped s' - sp_dropped (sy_supp y))" and ?fl = "log_flushes (sy_now y) fls"
  note acc = Record_accounts [OF False, of "sy_now y" r g sil silm co p, unfolded R Let_def, simplified]
  have "supp_inv s'"
    using supp_inv_Record [of "sy_supp y" "sy_now y" r g sil silm co p] assms R
    by (simp add: accounted_def)
  moreover have "emitted (?fl @ sy_trace y) k = emitted ?fl k + emitted (sy_trace y) k" for k
    by (simp add: emitted_def)
  moreover have "emitted ?fl k
      = pending (sy_supp y) k - pending s' k + (if k = fingerprintKey r g then 1 - ?d else 0)" for k
    using acc [of k] by (simp split: if_splits)
  moreover have "\<forall>(t, k, p) \<in> set ?fl. 1 \<le> pl_EventCount p" "\<not> sp_stopped s'"
    using acc False by (auto simp: log_flushes_def)
  ultimately show ?thesis
    using assms False
    by (auto simp: accounted_def record_event_def R apply_op_def Let_def)
qed

lemma accounted_fire:
  assumes acc: "accounted y" and t: "t \<in> set (sp_timers (sy_supp y))"
  shows "accounted (apply_op y (fire t (sy_supp y) (sy_now y)))"
proof (cases "sp_stopped (sy_supp y)")
  case True
  with acc supp_inv_fire [OF _ t] show ?thesis
    by (auto simp: accounted_def apply_op_def fire_stopped log_flushes_def)
next
  case False
  have inv: "supp_inv (sy_supp y)" using acc by (simp add: accounted_def)
  note key = supp_invD(7) [OF inv False t]
  note inv' = supp_inv_fire [OF inv t, of "sy_now y"]
  from inv False t show ?thesis
  proof (cases rule: fire_cases [where now = "sy_now y"])
    case (initial fp)
    then have "pending (sy_supp y) (tm_key t) = fp_count fp" by (simp add: pending_def)
    with initial acc inv' key False show ?thesis
      by (auto simp: accounted_def apply_op_def log_flushes_def)
  next
    case (close fp)
    then have "pending (fst (fire t (sy_supp y) (sy_now y))) = pending (sy_supp y)"
      by (auto simp: fun_eq_iff pending_def delete_conv' set_rule_count_def)
    with close acc inv' show ?thesis
      by (auto simp: accounted_def apply_op_def log_flushes_def set_rule_count_def)
  next
    case (digest fp)
    then have "pending (sy_supp y) (tm_key t) = fp_count fp" by (simp add: pending_def)
    with digest acc inv' key False show ?thesis
      by (auto simp: accounted_def apply_op_def log_flushes_def)
  qed
qed

interpretation supp_acc: invariant_system supp_init "supp_step windows" accounted for windows
proof
  show "accounted y" if "supp_init y" for y
    using that supp_inv_new
    by (simp add: accounted_def supp_init_def pending_def NewSuppressor_def)
next
  show "accounted y'" if "accounted y" "supp_step windows y y'" for y y'
    using that(2,1)
  proof (cases rule: supp_step.cases)
    case (step_stop started)
    then show ?thesis using that supp_inv_stop by (simp add: accounted_def Stop_def)
  next
    case (step_tick t)
    then show ?thesis using that by (simp add: accounted_def)
  qed (use that(1) in \<open>simp_all add: accounted_record accounted_fire\<close>)
qed

section \<open>Time: the silence windows hold\<close>

text \<open>In a trace, newest first, two flushes of one fingerprint are at least \<^verbatim>\<open>gap\<close> apart.\<close>

fun spaced :: "duration \<Rightarrow> (instant \<times> string \<times> payload) list \<Rightarrow> bool" where
  "spaced gap [] = True"
| "spaced gap ((t, k, p) # tr) = ((\<forall>(t', k', p') \<in> set tr. k' = k \<longrightarrow> t' + gap \<le> t) \<and> spaced gap tr)"

definition silence_windows :: "duration \<Rightarrow> duration \<Rightarrow> duration \<Rightarrow> bool" where
  "silence_windows gap silence silenceMax \<longleftrightarrow>
     0 < gap \<and> gap \<le> silence \<and> gap \<le> silenceMax \<and> silence < 2 ^ 62 \<and> silenceMax < 2 ^ 62"

definition window_ok :: "duration \<Rightarrow> fingerprint \<Rightarrow> bool" where
  "window_ok gap fp \<longleftrightarrow> silence_windows gap (fp_baseSilence fp) (fp_maxSilence fp)
     \<and> gap \<le> fp_currentSilence fp \<and> fp_currentSilence fp \<le> max (fp_baseSilence fp) (fp_maxSilence fp)"

text \<open>How long ago a fingerprint can have flushed: a silent one flushed at least \<^verbatim>\<open>gap\<close> before its timer
  is due, one that is clean or coalescing at least \<^verbatim>\<open>gap\<close> before now.\<close>

definition quiet_since :: "duration \<Rightarrow> supp_sys \<Rightarrow> string \<Rightarrow> instant \<Rightarrow> bool" where
  "quiet_since gap y k t =
     (case map_of (sp_fingerprints (sy_supp y)) k of
        None \<Rightarrow> t + gap \<le> sy_now y
      | Some fp \<Rightarrow> (case fp_phase fp of phaseCoalesce \<Rightarrow> t + gap \<le> sy_now y
                    | phaseSilence \<Rightarrow> t + gap \<le> tm_due (fp_timer fp)))"

definition timer_in_window :: "instant \<Rightarrow> fingerprint \<Rightarrow> bool" where
  "timer_in_window now fp \<longleftrightarrow> tm_due (fp_timer fp) \<le> now +
     (case fp_phase fp of phaseCoalesce \<Rightarrow> fp_coalesce fp | phaseSilence \<Rightarrow> fp_currentSilence fp)"

definition timed :: "duration \<Rightarrow> supp_sys \<Rightarrow> bool" where
  "timed gap y \<longleftrightarrow>
     supp_inv (sy_supp y) \<and> spaced gap (sy_trace y)
   \<and> (\<forall>(t, k, p) \<in> set (sy_trace y). t \<le> sy_now y)
   \<and> (\<not> sp_stopped (sy_supp y) \<longrightarrow> (\<forall>(t, k, p) \<in> set (sy_trace y). quiet_since gap y k t))
   \<and> (\<forall>k fp. map_of (sp_fingerprints (sy_supp y)) k = Some fp \<longrightarrow>
        window_ok gap fp \<and> timer_in_window (sy_now y) fp)"

lemma next_silence_exact:
  "window_ok gap fp \<Longrightarrow>
   next_silence fp = min (fp_maxSilence fp) (fp_currentSilence fp + fp_baseSilence fp)"
proof -
  assume ok: "window_ok gap fp"
  then have "in64 (fp_currentSilence fp + fp_baseSilence fp)"
    unfolding window_ok_def silence_windows_def in64_def by (auto simp: max_def split: if_splits)
  with ok show ?thesis
    by (auto simp: next_silence_def Let_def wrap64_id window_ok_def silence_windows_def)
qed

lemma next_silence_window: "window_ok gap fp \<Longrightarrow>
  gap \<le> next_silence fp \<and> next_silence fp \<le> max (fp_baseSilence fp) (fp_maxSilence fp)"
  using next_silence_exact [of gap fp] by (auto simp: window_ok_def silence_windows_def)

lemma quiet_since_other:
  "map_of (sp_fingerprints (sy_supp y')) k = map_of (sp_fingerprints (sy_supp y)) k
   \<Longrightarrow> sy_now y' = sy_now y \<Longrightarrow> quiet_since gap y' k t = quiet_since gap y k t"
  by (simp add: quiet_since_def split: option.split phase.split)

lemma timed_init: "supp_init y \<Longrightarrow> timed gap y"
  using supp_inv_new by (simp add: timed_def supp_init_def, simp add: NewSuppressor_def)

lemma timed_tick:
  assumes "timed gap y" "sy_now y \<le> t"
  shows "timed gap (y\<lparr>sy_now := t\<rparr>)"
  using assms unfolding timed_def
  by (fastforce simp: quiet_since_def timer_in_window_def split: option.splits phase.splits)

lemma timed_stop: "timed gap y \<Longrightarrow> timed gap (y\<lparr>sy_supp := Stop started (sy_supp y)\<rparr>)"
  using supp_inv_stop by (simp add: timed_def Stop_def)

text \<open>A fingerprint that flushes now and stays silent for a full window.\<close>

lemma timed_flush:
  assumes y: "timed gap y" "\<not> sp_stopped (sy_supp y)"
    and quiet: "\<And>t p. (t, k, p) \<in> set (sy_trace y) \<Longrightarrow> t + gap \<le> sy_now y"
    and s': "supp_inv s'" "\<not> sp_stopped s'"
      "map_of (sp_fingerprints s') = (map_of (sp_fingerprints (sy_supp y)))(k \<mapsto> fp)"
    and fp: "fp_phase fp = phaseSilence" "window_ok gap fp"
      "tm_due (fp_timer fp) = sy_now y + fp_currentSilence fp"
    and y': "sy_supp y' = s'" "sy_now y' = sy_now y" "sy_trace y' = (sy_now y, k, p) # sy_trace y"
  shows "timed gap y'"
proof -
  have "quiet_since gap y' k' t" if "(t, k', q) \<in> set (sy_trace y')" for t k' q
  proof (cases "k' = k")
    case True
    then have "t \<le> sy_now y" using that y y' by (auto simp: timed_def)
    with True show ?thesis using s'(3) fp y' by (simp add: quiet_since_def window_ok_def)
  next
    case False
    then have "quiet_since gap y k' t" using that y y' by (auto simp: timed_def)
    then show ?thesis using False s'(3) y' quiet_since_other [of y' k' y] by simp
  qed
  moreover have "spaced gap (sy_trace y')"
    using y quiet y' by (auto simp: timed_def)
  moreover have "\<forall>(t, k, p) \<in> set (sy_trace y'). t \<le> sy_now y'"
    using y y' by (auto simp: timed_def)
  moreover have "\<forall>k fp. map_of (sp_fingerprints s') k = Some fp \<longrightarrow>
      window_ok gap fp \<and> timer_in_window (sy_now y') fp"
    using y s'(3) fp y' by (auto simp: timed_def timer_in_window_def)
  ultimately show ?thesis using s'(1) y'(1) unfolding timed_def by blast
qed

text \<open>A step that flushes nothing and touches one fingerprint.\<close>

lemma timed_no_flush:
  assumes y: "timed gap y" "\<not> sp_stopped (sy_supp y)"
    and s': "supp_inv s'" "map_of (sp_fingerprints s') = (map_of (sp_fingerprints (sy_supp y)))(k := v)"
    and y': "sy_supp y' = s'" "sy_now y' = sy_now y" "sy_trace y' = sy_trace y"
    and v: "\<And>t p. (t, k, p) \<in> set (sy_trace y) \<Longrightarrow> quiet_since gap y' k t"
    and fp: "\<And>fp. v = Some fp \<Longrightarrow> window_ok gap fp \<and> timer_in_window (sy_now y) fp"
  shows "timed gap y'"
proof -
  have "quiet_since gap y' k' t" if "(t, k', p) \<in> set (sy_trace y)" for t k' p
  proof (cases "k' = k")
    case True
    with v that show ?thesis by blast
  next
    case False
    moreover have "quiet_since gap y k' t" using y that by (auto simp: timed_def)
    ultimately show ?thesis using s'(2) y' quiet_since_other [of y' k' y] by simp
  qed
  moreover have "\<forall>k fp. map_of (sp_fingerprints s') k = Some fp \<longrightarrow>
      window_ok gap fp \<and> timer_in_window (sy_now y') fp"
    using y s'(2) fp y' by (auto simp: timed_def)
  ultimately show ?thesis using y s'(1) y' by (auto simp: timed_def)
qed

text \<open>What recording an event of a new fingerprint does.\<close>

definition new_fp :: "phase \<Rightarrow> payload \<Rightarrow> payload \<Rightarrow> int \<Rightarrow> duration \<Rightarrow> duration \<Rightarrow> duration \<Rightarrow> timer \<Rightarrow> fingerprint" where
  "new_fp ph fpl lpl n sil silm co t =
     \<lparr>fp_phase = ph, fp_first = fpl, fp_last = lpl, fp_count = n, fp_currentSilence = sil,
      fp_baseSilence = sil, fp_maxSilence = silm, fp_coalesce = co, fp_timer = t\<rparr>"

lemma Record_new_cases:
  assumes "\<not> sp_stopped s" "map_of (sp_fingerprints s) (fingerprintKey r g) = None"
  obtains (refused) "Record s now r g sil silm co p = (s\<lparr>sp_dropped := sp_dropped s + 1\<rparr>, [])"
      "rule_count s r \<ge> int maxFingerprintsPerRule \<or> length (sp_fingerprints s) \<ge> maxFingerprintsGlobal"
    | (coalesce) "0 < co" "Record s now r g sil silm co p =
        (set_rule_count r (rule_count s r + 1) (put_fp (fingerprintKey r g)
           (new_fp phaseCoalesce p (trimForDigest p) 1 sil silm co
              (AfterFunc now co FlushInitial r g (fingerprintKey r g))) s), [])"
    | (alert) "co \<le> 0" "Record s now r g sil silm co p =
        (set_rule_count r (rule_count s r + 1) (put_fp (fingerprintKey r g)
           (new_fp phaseSilence zero_payload (trimForDigest p) 0 sil silm co
              (AfterFunc now sil FlushSilence r g (fingerprintKey r g))) s),
         [\<lparr>fl_ruleID = r, fl_groupKey = g, fl_payload =
             p\<lparr>pl_EventCount := 1, pl_GroupKey := g, pl_IsDigest := False\<rparr>\<rparr>])"
proof (cases "rule_count s r \<ge> int maxFingerprintsPerRule \<or> length (sp_fingerprints s) \<ge> maxFingerprintsGlobal")
  case True
  show thesis by (rule refused [OF _ True]) (use assms True in \<open>simp add: Record_def Let_def\<close>)
next
  case full: False
  show thesis
  proof (cases "0 < co")
    case True
    show thesis
      by (rule coalesce [OF True]) (use assms full True in \<open>simp add: Record_def Let_def new_fp_def\<close>)
  next
    case False
    then show thesis
      by (intro alert) (use assms full in \<open>simp_all add: Record_def Let_def new_fp_def\<close>)
  qed
qed

lemma timed_record:
  assumes y: "timed gap y" and w: "silence_windows gap sil silm"
  shows "timed gap (record_event y r g sil silm co p)" (is "timed gap ?y")
proof (cases "sp_stopped (sy_supp y)")
  case True
  with y show ?thesis by (simp add: record_event_def)
next
  case False
  let ?s = "sy_supp y" and ?k = "fingerprintKey r g"
  let ?R = "Record ?s (sy_now y) r g sil silm co p"
  have inv': "supp_inv (fst ?R)" using y by (intro supp_inv_Record) (simp add: timed_def)
  have y': "sy_supp ?y = fst ?R" "sy_now ?y = sy_now y"
    "sy_trace ?y = log_flushes (sy_now y) (snd ?R) @ sy_trace y"
    using False by (simp_all add: record_event_def apply_op_def Let_def)
  have quiet: "quiet_since gap y k t" if "(t, k, q) \<in> set (sy_trace y)" for t k q
    using y False that by (auto simp: timed_def)
  show ?thesis
  proof (cases "map_of (sp_fingerprints ?s) ?k")
    case (Some fp)
    let ?fp = "fp\<lparr>fp_count := fp_count fp + 1, fp_last := trimForDigest p\<rparr>"
    have R: "?R = (?s\<lparr>sp_fingerprints := AList.update ?k ?fp (sp_fingerprints ?s)\<rparr>, [])"
      using False Some by (simp add: Record_def Let_def)
    have ok: "window_ok gap fp \<and> timer_in_window (sy_now y) fp"
      using y Some by (simp add: timed_def)
    show ?thesis
    proof (rule timed_no_flush [OF y False inv' _ y'(1,2), where k = ?k and v = "Some ?fp"])
      show "map_of (sp_fingerprints (fst ?R)) = (map_of (sp_fingerprints ?s))(?k := Some ?fp)"
        by (simp add: R update_conv')
      show "quiet_since gap ?y ?k t" if "(t, ?k, q) \<in> set (sy_trace y)" for t q
        using quiet [OF that] Some y'(1,2) R
        by (simp add: quiet_since_def update_conv' split: phase.splits)
    qed (use ok R y'(3) in
        \<open>auto simp: log_flushes_def window_ok_def timer_in_window_def split: phase.splits\<close>)
  next
    case None
    have quietk: "t + gap \<le> sy_now y" if "(t, ?k, q) \<in> set (sy_trace y)" for t q
      using quiet [OF that] None by (simp add: quiet_since_def)
    have win: "window_ok gap (new_fp ph a b n sil silm co u)" for ph a b n u
      using w by (simp add: new_fp_def window_ok_def silence_windows_def)
    from False None show ?thesis
    proof (cases rule: Record_new_cases [where now = "sy_now y" and sil = sil and silm = silm
          and co = co and p = p])
      case refused
      show ?thesis
        by (rule timed_no_flush [OF y False inv' _ y'(1,2), where k = ?k and v = None])
          (use refused None quietk y' in \<open>auto simp: log_flushes_def quiet_since_def fun_eq_iff\<close>)
    next
      case coalesce
      show ?thesis
        by (rule timed_no_flush [OF y False inv' _ y'(1,2), where k = ?k and v = "Some
              (new_fp phaseCoalesce p (trimForDigest p) 1 sil silm co
                (AfterFunc (sy_now y) co FlushInitial r g ?k))"])
          (use coalesce quietk y' win in \<open>auto simp: log_flushes_def quiet_since_def update_conv'
              timer_in_window_def supp_fields new_fp_def\<close>)
    next
      case alert
      show ?thesis
        by (rule timed_flush [OF y False quietk inv' _ _ _ _ _ y'(1,2), where fp =
              "new_fp phaseSilence zero_payload (trimForDigest p) 0 sil silm co
                 (AfterFunc (sy_now y) sil FlushSilence r g ?k)"])
          (use alert y'(3) False win in \<open>auto simp: log_flushes_def update_conv' supp_fields new_fp_def\<close>)
    qed
  qed
qed

lemma timed_fire:
  assumes y: "timed gap y" and t: "t \<in> set (sp_timers (sy_supp y))" and due: "tm_due t \<le> sy_now y"
  shows "timed gap (apply_op y (fire t (sy_supp y) (sy_now y)))" (is "timed gap ?y")
proof (cases "sp_stopped (sy_supp y)")
  case True
  with y supp_inv_fire [OF _ t] show ?thesis
    by (auto simp: timed_def apply_op_def fire_stopped log_flushes_def)
next
  case False
  let ?s = "sy_supp y" and ?F = "fire t (sy_supp y) (sy_now y)"
  have inv: "supp_inv ?s" using y by (simp add: timed_def)
  note key = supp_invD(7) [OF inv False t] and inv' = supp_inv_fire [OF inv t, of "sy_now y"]
  have quiet: "quiet_since gap y k u" if "(u, k, q) \<in> set (sy_trace y)" for u k q
    using y False that by (auto simp: timed_def)
  have y': "sy_supp ?y = fst ?F" "sy_now ?y = sy_now y"
    "sy_trace ?y = log_flushes (sy_now y) (snd ?F) @ sy_trace y"
    by (simp_all add: apply_op_def)
  from inv False t show ?thesis
  proof (cases rule: fire_cases [where now = "sy_now y"])
    case (initial fp)
    then have ok: "window_ok gap fp" using y by (simp add: timed_def)
    have q: "u + gap \<le> sy_now y" if "(u, tm_key t, q) \<in> set (sy_trace y)" for u q
      using quiet [OF that] initial by (simp add: quiet_since_def)
    show ?thesis
      by (rule timed_flush [OF y False q inv' _ _ _ _ _ y'(1,2), where fp =
            "fp\<lparr>fp_first := zero_payload, fp_phase := phaseSilence, fp_count := 0,
               fp_timer := AfterFunc (sy_now y) (fp_currentSilence fp) FlushSilence (tm_ruleID t)
                             (tm_groupKey t) (tm_key t)\<rparr>"])
        (use initial ok key False y'(3) in
          \<open>auto simp: log_flushes_def put_fp_def update_conv' AfterFunc_def window_ok_def\<close>)
  next
    case (close fp)
    have q: "u + gap \<le> sy_now y" if "(u, tm_key t, q) \<in> set (sy_trace y)" for u q
      using quiet [OF that] close due by (simp add: quiet_since_def)
    show ?thesis
      by (rule timed_no_flush [OF y False inv' _ y'(1,2), where k = "tm_key t" and v = None])
        (use close q y' in \<open>auto simp: log_flushes_def quiet_since_def set_rule_count_def
           delete_conv'\<close>)
  next
    case (digest fp)
    then have ok: "window_ok gap fp" using y by (simp add: timed_def)
    have q: "u + gap \<le> sy_now y" if "(u, tm_key t, q) \<in> set (sy_trace y)" for u q
      using quiet [OF that] digest due by (simp add: quiet_since_def)
    show ?thesis
      by (rule timed_flush [OF y False q inv' _ _ _ _ _ y'(1,2), where fp =
            "fp\<lparr>fp_currentSilence := next_silence fp, fp_count := 0,
               fp_timer := AfterFunc (sy_now y) (next_silence fp) FlushSilence (tm_ruleID t)
                             (tm_groupKey t) (tm_key t)\<rparr>"])
        (use digest ok key False y'(3) next_silence_window [OF ok] in
          \<open>auto simp: log_flushes_def put_fp_def update_conv' AfterFunc_def window_ok_def\<close>)
  qed
qed

interpretation supp_time: invariant_system supp_init "supp_step (silence_windows gap)" "timed gap" for gap
proof
  show "timed gap y'" if "timed gap y" "supp_step (silence_windows gap) y y'" for y y'
    using that(2,1) by (cases rule: supp_step.cases) (auto intro: timed_tick timed_record timed_fire timed_stop)
qed (rule timed_init)

section \<open>Properties\<close>

text \<open>A suppressor that has alerted once for a router and counted one more event.\<close>

definition sample_sys0 :: supp_sys where
  "sample_sys0 = \<lparr>sy_supp = NewSuppressor, sy_now = 0, sy_trace = [], sy_recorded = (\<lambda>_. 0),
                  sy_refused = (\<lambda>_. 0)\<rparr>"

definition sample_sys :: supp_sys where
  "sample_sys =
     (let p = zero_payload\<lparr>pl_SrvlogEvent := Some sample_event\<rparr>;
          y = record_event sample_sys0 7 ''rtr1'' (60 * second) (600 * second) 0 p in
      record_event (y\<lparr>sy_now := 5\<rparr>) 7 ''rtr1'' (60 * second) (600 * second) 0 p)"

lemma sample_windows: "silence_windows (60 * second) (60 * second) (600 * second)"
  by (simp add: silence_windows_def duration_units)

lemma sample_sys_reach:
  assumes "windows (60 * second) (600 * second)"
  shows "supp_reach windows sample_sys"
proof -
  let ?p = "zero_payload\<lparr>pl_SrvlogEvent := Some sample_event\<rparr>"
  let ?r = "\<lambda>y. record_event y 7 ''rtr1'' (60 * second) (600 * second) 0 ?p"
  have "reach supp_init (supp_step windows) sample_sys0"
    by (rule reach_init) (simp add: supp_init_def sample_sys0_def)
  then have "reach supp_init (supp_step windows) (?r sample_sys0)"
    by (rule reach_step) (intro step_record assms)
  then have "reach supp_init (supp_step windows) ((?r sample_sys0)\<lparr>sy_now := 5\<rparr>)"
    by (rule reach_step, intro step_tick)
      (simp add: record_event_def apply_op_def sample_sys0_def NewSuppressor_def Let_def)
  then have "reach supp_init (supp_step windows) (?r ((?r sample_sys0)\<lparr>sy_now := 5\<rparr>))"
    by (rule reach_step) (intro step_record assms)
  then show ?thesis by (simp add: supp_reach_def sample_sys_def Let_def)
qed

lemma sample_sys_eval:
  "\<not> sp_stopped (sy_supp sample_sys)" "sy_now sample_sys = 5"
  "\<exists>fp. sp_fingerprints (sy_supp sample_sys) = [(fingerprintKey 7 ''rtr1'', fp)] \<and> fp_count fp = 1"
  "sy_recorded sample_sys (fingerprintKey 7 ''rtr1'') = 2"
  "sy_refused sample_sys (fingerprintKey 7 ''rtr1'') = 0"
  "map fst (sy_trace sample_sys) = [0]"
  by (simp_all add: sample_sys_def sample_sys0_def record_event_def apply_op_def Record_def Let_def
      NewSuppressor_def rule_count_def maxFingerprintsPerRule_def maxFingerprintsGlobal_def
      log_flushes_def supp_fields)

text \<open>Whatever rules, group keys and events come in and however timers and the stop interleave,
  the suppressor tracks at most 10000 fingerprints per rule and 50000 in all, its counter per rule is
  exact, and while it runs every fingerprint has exactly one armed timer, of the kind its phase calls
  for.\<close>

lemma suppressor_bounded:
  assumes "supp_reach windows y"
  shows "length (sp_fingerprints (sy_supp y)) \<le> 50000
       \<and> rule_count (sy_supp y) r = int (card {g. map_of (sp_fingerprints (sy_supp y)) (fingerprintKey r g) \<noteq> None})
       \<and> rule_count (sy_supp y) r \<le> 10000
       \<and> (\<not> sp_stopped (sy_supp y) \<longrightarrow>
            (case map_of (sp_fingerprints (sy_supp y)) k of
               None \<Rightarrow> filter (\<lambda>t. tm_key t = k) (sp_timers (sy_supp y)) = []
             | Some fp \<Rightarrow> filter (\<lambda>t. tm_key t = k) (sp_timers (sy_supp y)) = [fp_timer fp]
                 \<and> tm_fn (fp_timer fp) = (case fp_phase fp of phaseCoalesce \<Rightarrow> FlushInitial | phaseSilence \<Rightarrow> FlushSilence)))"
proof -
  let ?s = "sy_supp y"
  have inv: "supp_inv ?s"
    using supp_acc.reach_inv assms by (auto simp: supp_reach_def accounted_def)
  have "\<not> sp_stopped ?s \<Longrightarrow> key_ok ?s k" by (rule supp_invD(6) [OF inv])
  then show ?thesis
    using supp_invD(2) [OF inv] supp_invD(3,4) [OF inv, of r]
    by (auto simp: maxFingerprintsGlobal_def maxFingerprintsPerRule_def live_def key_ok_def
        timers_of_def split: option.splits phase.splits)
qed


text \<open>C4: no event is lost or counted twice: at every moment before the stop the events recorded for
  a fingerprint are exactly those counted in its alerts and digests, those waiting for the next flush
  and those refused at the caps; and no flush is empty.\<close>

theorem suppressor_accounts_for_every_event:
  assumes "supp_reach windows y"
  shows "(\<not> sp_stopped (sy_supp y) \<longrightarrow>
           int (sy_recorded y k) = emitted (sy_trace y) k + pending (sy_supp y) k + int (sy_refused y k))
       \<and> (\<forall>(t, k', p) \<in> set (sy_trace y). 1 \<le> pl_EventCount p)"
  using supp_acc.reach_inv assms by (auto simp: supp_reach_def accounted_def)

theorem suppressor_accounts_for_every_event_witness:
  "emitted (sy_trace sample_sys) (fingerprintKey 7 ''rtr1'') + pending (sy_supp sample_sys) (fingerprintKey 7 ''rtr1'') = 2"
  using suppressor_accounts_for_every_event [OF sample_sys_reach [of "\<lambda>_ _. True"], of "fingerprintKey 7 ''rtr1''"]
    sample_sys_eval by simp

lemma spaced_nth:
  "spaced gap tr \<Longrightarrow> i < j \<Longrightarrow> j < length tr \<Longrightarrow> fst (snd (tr ! i)) = fst (snd (tr ! j))
   \<Longrightarrow> fst (tr ! j) + gap \<le> fst (tr ! i)"
proof (induction gap tr arbitrary: i j rule: spaced.induct)
  case (2 gap t k p tr)
  show ?case
  proof (cases i)
    case 0
    obtain a b c where e: "tr ! (j - 1) = (a, b, c)" by (cases "tr ! (j - 1)")
    have "j - 1 < length tr" "((t, k, p) # tr) ! j = tr ! (j - 1)" using 2 0 by (cases j; simp)+
    moreover from this(1) have "(a, b, c) \<in> set tr" unfolding e [symmetric] by (rule nth_mem)
    ultimately show ?thesis using 2 0 e by auto
  next
    case (Suc i')
    with 2 show ?thesis by (cases j) auto
  qed
qed simp

text \<open>C18: two notifications of the same fingerprint are never closer together than the shortest
  silence window the rules use, whatever the load.\<close>

theorem suppressor_spaces_notifications:
  assumes "supp_reach (silence_windows gap) y"
    and "i < j" "j < length (sy_trace y)" "fst (snd (sy_trace y ! i)) = fst (snd (sy_trace y ! j))"
  shows "fst (sy_trace y ! j) + gap \<le> fst (sy_trace y ! i)"
  using supp_time.reach_inv assms by (auto simp: supp_reach_def timed_def intro: spaced_nth)

definition sample_timer :: timer where
  "sample_timer = AfterFunc 0 (60 * second) FlushSilence 7 ''rtr1'' (fingerprintKey 7 ''rtr1'')"

definition sample_sys2 :: supp_sys where
  "sample_sys2 =
     (let y = sample_sys\<lparr>sy_now := 61 * second\<rparr> in apply_op y (fire sample_timer (sy_supp y) (sy_now y)))"

lemma sample_timers: "sp_timers (sy_supp sample_sys) = [sample_timer]"
  by (simp add: sample_sys_def sample_sys0_def record_event_def apply_op_def Record_def Let_def
      NewSuppressor_def rule_count_def maxFingerprintsPerRule_def maxFingerprintsGlobal_def
      supp_fields sample_timer_def)

lemma sample_sys2_reach:
  assumes "windows (60 * second) (600 * second)"
  shows "supp_reach windows sample_sys2"
proof -
  have "reach supp_init (supp_step windows) (sample_sys\<lparr>sy_now := 61 * second\<rparr>)"
    using sample_sys_reach [of windows, OF assms] unfolding supp_reach_def
    by (rule reach_step, intro step_tick) (simp add: sample_sys_eval duration_units)
  then have "reach supp_init (supp_step windows) sample_sys2"
    unfolding sample_sys2_def Let_def
    by (rule reach_step, intro step_fire)
      (simp_all add: sample_timers sample_timer_def AfterFunc_def duration_units)
  then show ?thesis by (simp add: supp_reach_def)
qed

lemma sample_sys2_trace:
  "map (\<lambda>(t, k, p). (t, k)) (sy_trace sample_sys2)
   = [(61 * second, fingerprintKey 7 ''rtr1''), (0, fingerprintKey 7 ''rtr1'')]"
  by (simp add: sample_sys2_def sample_sys_def sample_sys0_def record_event_def apply_op_def Record_def
      Let_def NewSuppressor_def rule_count_def maxFingerprintsPerRule_def maxFingerprintsGlobal_def
      log_flushes_def supp_fields fire_def sample_timer_def flushSilence_def)

theorem suppressor_spaces_notifications_witness:
  "length (sy_trace sample_sys2) = 2 \<and> fst (sy_trace sample_sys2 ! 1) + 60 * second \<le> fst (sy_trace sample_sys2 ! 0)"
proof -
  from sample_sys2_trace obtain p q where
    tr: "sy_trace sample_sys2 = [(61 * second, fingerprintKey 7 ''rtr1'', p), (0, fingerprintKey 7 ''rtr1'', q)]"
    by auto
  show ?thesis
    using suppressor_spaces_notifications [OF sample_sys2_reach, of "60 * second" 0 1] sample_windows
    unfolding tr by simp
qed

text \<open>C19: accumulated events do not wait forever: while the suppressor runs, a fingerprint with
  waiting events has an armed timer due within its window (the coalesce window, or at most the larger
  of the rule's two silence windows), and whenever it fires it sends exactly one notification that
  counts all of them.\<close>

theorem suppressor_flushes_waiting_events:
  assumes reach: "supp_reach (silence_windows gap) y" and run: "\<not> sp_stopped (sy_supp y)"
    and fp: "map_of (sp_fingerprints (sy_supp y)) k = Some fp" "fp_count fp > 0"
  shows "\<exists>t \<in> set (sp_timers (sy_supp y)). tm_key t = k
           \<and> tm_due t \<le> sy_now y + (case fp_phase fp of phaseCoalesce \<Rightarrow> fp_coalesce fp
                                     | phaseSilence \<Rightarrow> max (fp_baseSilence fp) (fp_maxSilence fp))
           \<and> (\<forall>now. \<exists>f. snd (fire t (sy_supp y) now) = [f]
                 \<and> fingerprintKey (fl_ruleID f) (fl_groupKey f) = k
                 \<and> pl_EventCount (fl_payload f) = fp_count fp
                 \<and> pending (fst (fire t (sy_supp y) now)) k = 0)"
proof -
  have timed: "timed gap y" using supp_time.reach_inv reach by (simp add: supp_reach_def)
  then have inv: "supp_inv (sy_supp y)" and ok: "window_ok gap fp" "timer_in_window (sy_now y) fp"
    using fp by (auto simp: timed_def)
  let ?t = "fp_timer fp"
  have ts: "filter (\<lambda>t. tm_key t = k) (sp_timers (sy_supp y)) = [?t]"
    using supp_invD(6) [OF inv run, of k] fp by (simp add: key_ok_def timers_of_def)
  then have "?t \<in> set (filter (\<lambda>t. tm_key t = k) (sp_timers (sy_supp y)))" by simp
  then have t: "?t \<in> set (sp_timers (sy_supp y))" and k: "tm_key ?t = k" by auto
  note key = supp_invD(7) [OF inv run t]
  have "\<exists>f. snd (fire ?t (sy_supp y) now) = [f]
      \<and> fingerprintKey (fl_ruleID f) (fl_groupKey f) = k
      \<and> pl_EventCount (fl_payload f) = fp_count fp
      \<and> pending (fst (fire ?t (sy_supp y) now)) k = 0" for now
    using inv run t
    by (cases rule: fire_cases [where now = now]) (use fp key k in auto)
  moreover have "tm_due ?t \<le> sy_now y + (case fp_phase fp of phaseCoalesce \<Rightarrow> fp_coalesce fp
      | phaseSilence \<Rightarrow> max (fp_baseSilence fp) (fp_maxSilence fp))"
    using ok by (auto simp: timer_in_window_def window_ok_def split: phase.splits)
  ultimately show ?thesis using t k by blast
qed

theorem suppressor_flushes_waiting_events_witness:
  "\<exists>t \<in> set (sp_timers (sy_supp sample_sys)).
     \<forall>now. \<exists>f. snd (fire t (sy_supp sample_sys) now) = [f] \<and> pl_EventCount (fl_payload f) = 1"
proof -
  obtain fp where fp: "sp_fingerprints (sy_supp sample_sys) = [(fingerprintKey 7 ''rtr1'', fp)]" "fp_count fp = 1"
    using sample_sys_eval(3) by blast
  show ?thesis
    using suppressor_flushes_waiting_events [OF sample_sys_reach, of "60 * second" "fingerprintKey 7 ''rtr1''" fp]
      sample_windows sample_sys_eval(1) fp by force
qed

definition grow :: "fingerprint \<Rightarrow> fingerprint" where
  "grow fp = fp\<lparr>fp_currentSilence := next_silence fp\<rparr>"

lemma grow_fixed [simp]:
  "fp_baseSilence ((grow ^^ n) fp) = fp_baseSilence fp" "fp_maxSilence ((grow ^^ n) fp) = fp_maxSilence fp"
  by (induction n) (simp_all add: grow_def)

lemma grow_Suc: "fp_currentSilence ((grow ^^ Suc n) fp) = next_silence ((grow ^^ n) fp)"
  by (simp add: grow_def)

text \<open>The silence window before the \<^verbatim>\<open>n\<close>-th digest in a row grows linearly from the rule's
  silence up to its maximum and then stays there.\<close>

lemma silence_window_growth:
  assumes "0 < fp_baseSilence fp" "fp_baseSilence fp \<le> fp_maxSilence fp" "fp_maxSilence fp < 2 ^ 62"
    and "fp_currentSilence fp = fp_baseSilence fp"
  shows "fp_currentSilence (((\<lambda>f. f\<lparr>fp_currentSilence := next_silence f\<rparr>) ^^ n) fp)
           = min (fp_maxSilence fp) (int (Suc n) * fp_baseSilence fp)"
proof -
  have "fp_currentSilence ((grow ^^ n) fp) = min (fp_maxSilence fp) (int (Suc n) * fp_baseSilence fp)"
  proof (induction n)
    case 0
    show ?case using assms by simp
  next
    case (Suc n)
    let ?f = "(grow ^^ n) fp"
    have "fp_baseSilence fp \<le> fp_currentSilence ?f"
      unfolding Suc.IH using assms by (auto simp: algebra_simps)
    then have "window_ok (fp_baseSilence fp) ?f"
      using assms Suc.IH by (auto simp: window_ok_def silence_windows_def)
    from next_silence_exact [OF this] show ?case
      unfolding grow_Suc using Suc.IH assms by (auto simp: algebra_simps min_def)
  qed
  then show ?thesis by (simp add: grow_def [abs_def])
qed


text \<open>The copy kept for digests holds no attributes and at most 4096 bytes of message, a prefix of
  the original, and differs from the recorded payload in nothing else.\<close>

lemma trimForDigest_bounded:
  "(case pl_AppLogEvent (trimForDigest p) of
      None \<Rightarrow> pl_AppLogEvent p = None
    | Some ev \<Rightarrow> al_Attrs ev = [] \<and> length (al_Msg ev) \<le> 4096
        \<and> (\<exists>orig. pl_AppLogEvent p = Some orig \<and> prefix (al_Msg ev) (al_Msg orig)
             \<and> ev = orig\<lparr>al_Attrs := [], al_Msg := al_Msg ev, al_AttrsTruncated := al_AttrsTruncated ev\<rparr>))
   \<and> (trimForDigest p)\<lparr>pl_AppLogEvent := pl_AppLogEvent p\<rparr> = p"
  by (cases "pl_AppLogEvent p")
     (auto simp: trimForDigest_def WithAttrsPreview_def maxRetainedMsgBytes_def Let_def take_is_prefix)

end
