(* ===== verification/Engine.thy ===== *)
theory Engine
  imports Suppressor Complex_Main
begin

text \<open>
  The notification engine: \<^verbatim>\<open>api/internal/notification/engine.go\<close> and \<^verbatim>\<open>ratelimit.go\<close>. Rules are
  matched against an event and recorded with the suppressor; its flushes become jobs on a bounded
  queue; workers deliver a job to each enabled channel with a rate limiter, a circuit breaker and a
  bounded number of retries, and write one audit row per attempt. The token bucket
  (\<^verbatim>\<open>golang.org/x/time/rate\<close>), the circuit breaker (\<^verbatim>\<open>sony/gobreaker\<close>), the backends, the JSON encoder,
  the clock and cancellation are not code of this package: they are the fields of the record
  \<^verbatim>\<open>env\<close>, over an arbitrary state of the world, and every theorem holds for all of them.
\<close>

section \<open>Rate limiting per channel\<close>

definition limiterTTL :: duration where "limiterTTL = 1 * hour"
definition limiterEvictInterval :: duration where "limiterEvictInterval = 10 * minute"

text \<open>A rate is in events per second; \<^verbatim>\<open>0\<close> is what a missing map entry reads as.\<close>

definition channelDefaults :: "(channel_type \<times> (rat \<times> int)) list" where
  "channelDefaults =
     [(ChannelTypeSlack, (1, 3)), (ChannelTypeWebhook, (5, 10)), (ChannelTypeEmail, (1 / 60, 2)),
      (ChannelTypeNtfy, (5, 10))]"

record 'l limiter_entry =
  lim_limiter :: 'l
  lim_lastUsed :: instant

type_synonym 'l per_key_limiter = "(int \<times> 'l limiter_entry) list"

definition NewPerKeyLimiter :: "'l per_key_limiter" where
  "NewPerKeyLimiter = []"

definition Allow ::
  "(rat \<Rightarrow> int \<Rightarrow> 'l) \<Rightarrow> ('l \<Rightarrow> instant \<Rightarrow> bool \<times> 'l) \<Rightarrow> 'l per_key_limiter \<Rightarrow> instant \<Rightarrow> int
   \<Rightarrow> channel_type \<Rightarrow> bool \<times> 'l per_key_limiter" where
  "Allow newLimiter limiterAllow l now channelID channelType =
     (let entry =
            (case map_of l channelID of
               None \<Rightarrow>
                 (let d = (case map_of channelDefaults channelType of None \<Rightarrow> (0, 0) | Some d \<Rightarrow> d);
                      d = (if fst d = 0 then (5, 10) else d) in
                  \<lparr>lim_limiter = newLimiter (fst d) (snd d), lim_lastUsed = now\<rparr>)
             | Some e \<Rightarrow> e\<lparr>lim_lastUsed := now\<rparr>);
          (ok, lim) = limiterAllow (lim_limiter entry) now in
      (ok, AList.update channelID (entry\<lparr>lim_limiter := lim\<rparr>) l))"

definition evictOlderThan :: "'l per_key_limiter \<Rightarrow> instant \<Rightarrow> duration \<Rightarrow> 'l per_key_limiter" where
  "evictOlderThan l now ttl = filter (\<lambda>(_, e). \<not> time_sub now (lim_lastUsed e) > ttl) l"

section \<open>The engine's state and surroundings\<close>

definition retrySchedule :: "duration list" where
  "retrySchedule = [5 * second, 30 * second, 2 * minute, 10 * minute]"

record dispatch_job =
  job_rule :: rule
  job_channels :: "channel list"
  job_payload :: payload

record 'b breaker_entry =
  bre_cb :: 'b
  bre_lastUsed :: instant

text \<open>Rows handed to the store, the labels counted in \<^verbatim>\<open>NotifSendAttemptsTotal\<close>, and the counters for
  dispatched jobs and jobs refused by the full queue are kept in the order of the code.\<close>

record ('b, 'l) engine =
  en_channels :: "channel list"
  en_rules :: "rule list"
  en_suppressor :: suppressor
  en_rateLimiter :: "'l per_key_limiter"
  en_breakers :: "(int \<times> 'b breaker_entry) list"
  en_dispatchCh :: "dispatch_job list"
  en_cfg :: config
  en_log :: "log_entry list"
  en_outcomes :: "string list"
  en_dispatched :: nat
  en_queue_full :: nat

definition NewEngine :: "config \<Rightarrow> ('b, 'l) engine" where
  "NewEngine cfg =
     \<lparr>en_channels = [], en_rules = [], en_suppressor = NewSuppressor, en_rateLimiter = NewPerKeyLimiter,
      en_breakers = [], en_dispatchCh = [], en_cfg = cfg, en_log = [], en_outcomes = [],
      en_dispatched = 0, en_queue_full = 0\<rparr>"

record breaker_settings =
  bs_Name :: string
  bs_MaxRequests :: int
  bs_Interval :: duration
  bs_Timeout :: duration
  bs_ReadyToTrip :: "int \<Rightarrow> bool"

text \<open>\<^verbatim>\<open>Execute\<close> of the breaker first decides whether to admit the call (an error text when not), then
  is told how the call went; \<^verbatim>\<open>State\<close> tells whether it is open. A backend's \<^verbatim>\<open>Send\<close> may panic
  (\<^const>\<open>None\<close>). Waiting returns whether the context was cancelled first.\<close>

record ('w, 'b, 'l) env =
  env_now :: "'w \<Rightarrow> instant"
  env_ctxErr :: "'w \<Rightarrow> bool"
  env_wait :: "duration \<Rightarrow> 'w \<Rightarrow> bool \<times> 'w"
  env_registered :: "channel_type \<Rightarrow> bool"
  env_send :: "channel \<Rightarrow> payload \<Rightarrow> 'w \<Rightarrow> send_result option \<times> 'w"
  env_marshal :: "payload \<Rightarrow> string option"
  env_newLimiter :: "rat \<Rightarrow> int \<Rightarrow> 'l"
  env_limiterAllow :: "'l \<Rightarrow> instant \<Rightarrow> bool \<times> 'l"
  env_newBreaker :: "breaker_settings \<Rightarrow> 'b"
  env_breakerAdmit :: "'b \<Rightarrow> instant \<Rightarrow> string option \<times> 'b"
  env_breakerDone :: "'b \<Rightarrow> bool \<Rightarrow> instant \<Rightarrow> 'b"
  env_breakerOpen :: "'b \<Rightarrow> instant \<Rightarrow> bool"

section \<open>From events to jobs\<close>

definition windowsFor :: "config \<Rightarrow> rule \<Rightarrow> duration \<times> duration \<times> duration" where
  "windowsFor cfg r =
     (let silence = (if Silence r \<le> 0 then cfg_DefaultSilence cfg else Silence r);
          silenceMax = (if SilenceMax r \<le> 0 then cfg_DefaultSilenceMax cfg else SilenceMax r);
          coalesce = (if Coalesce r \<le> 0 then cfg_DefaultCoalesce cfg else Coalesce r) in
      (silence, silenceMax, coalesce))"

definition resolveChannels :: "('b, 'l) engine \<Rightarrow> int list \<Rightarrow> channel list" where
  "resolveChannels e ids = filter (\<lambda>ch. ch_ID ch \<in> set ids) (en_channels e)"

definition onFlush :: "('b, 'l) engine \<Rightarrow> flush \<Rightarrow> ('b, 'l) engine" where
  "onFlush e f =
     (let rule = (case find (\<lambda>r. ru_ID r = fl_ruleID f) (en_rules e) of None \<Rightarrow> zero_rule | Some r \<Rightarrow> r);
          channels = resolveChannels e (ru_ChannelIDs rule) in
      if channels = [] then e
      else if int (length (en_dispatchCh e)) < cfg_DispatchBuffer (en_cfg e)
      then e\<lparr>en_dispatchCh := en_dispatchCh e
                @ [\<lparr>job_rule = rule, job_channels = channels, job_payload = fl_payload f\<rparr>],
             en_dispatched := en_dispatched e + 1\<rparr>
      else e\<lparr>en_queue_full := en_queue_full e + 1\<rparr>)"

text \<open>One rule of the fan-in: \<^verbatim>\<open>Record\<close> runs the callback on what it flushes.\<close>

definition record_rule ::
  "('b, 'l) engine \<Rightarrow> instant \<Rightarrow> rule \<Rightarrow> string \<Rightarrow> payload \<Rightarrow> ('b, 'l) engine" where
  "record_rule e now r groupKey p =
     (case windowsFor (en_cfg e) r of (silence, silenceMax, coalesce) \<Rightarrow>
        (case Record (en_suppressor e) now (ru_ID r) groupKey silence silenceMax coalesce p of
           (s', fls) \<Rightarrow> fold (\<lambda>f e. onFlush e f) fls (e\<lparr>en_suppressor := s'\<rparr>)))"

fun handle_rules ::
  "event_kind \<Rightarrow> 'e \<Rightarrow> (rule \<Rightarrow> 'e \<Rightarrow> bool) \<Rightarrow> (rule \<Rightarrow> 'e \<Rightarrow> string) \<Rightarrow> instant
   \<Rightarrow> ('e \<Rightarrow> payload \<Rightarrow> payload) \<Rightarrow> instant \<Rightarrow> rule list \<Rightarrow> ('b, 'l) engine \<Rightarrow> ('b, 'l) engine" where
  "handle_rules kind event matches groupKey timestamp attach now [] e = e"
| "handle_rules kind event matches groupKey timestamp attach now (r # rs) e =
     (if \<not> ru_Enabled r \<or> ru_EventKind r \<noteq> kind
      then handle_rules kind event matches groupKey timestamp attach now rs e
      else if \<not> matches r event
      then handle_rules kind event matches groupKey timestamp attach now rs e
      else
        (let p = attach event (zero_payload\<lparr>pl_Kind := kind, pl_RuleName := ru_Name r,
                    pl_Timestamp := timestamp, pl_EventCount := 1\<rparr>) in
         handle_rules kind event matches groupKey timestamp attach now rs
           (record_rule e now r (groupKey r event) p)))"

definition handleEvent ::
  "event_kind \<Rightarrow> 'e \<Rightarrow> (rule \<Rightarrow> 'e \<Rightarrow> bool) \<Rightarrow> (rule \<Rightarrow> 'e \<Rightarrow> string) \<Rightarrow> instant
   \<Rightarrow> ('e \<Rightarrow> payload \<Rightarrow> payload) \<Rightarrow> instant \<Rightarrow> ('b, 'l) engine \<Rightarrow> ('b, 'l) engine" where
  "handleEvent kind event matches groupKey timestamp attach now e =
     handle_rules kind event matches groupKey timestamp attach now (en_rules e) e"

definition HandleSrvlogEvent :: "instant \<Rightarrow> ('b, 'l) engine \<Rightarrow> srvlog_event \<Rightarrow> ('b, 'l) engine" where
  "HandleSrvlogEvent now e event =
     handleEvent EventKindSrvlog event MatchesSrvlog GroupKeyFromSrvlog (ev_ReceivedAt event)
       (\<lambda>ev p. p\<lparr>pl_SrvlogEvent := Some ev\<rparr>) now e"

definition HandleNetlogEvent :: "instant \<Rightarrow> ('b, 'l) engine \<Rightarrow> netlog_event \<Rightarrow> ('b, 'l) engine" where
  "HandleNetlogEvent now e event =
     handleEvent EventKindNetlog event MatchesNetlog GroupKeyFromNetlog (ev_ReceivedAt event)
       (\<lambda>ev p. p\<lparr>pl_NetlogEvent := Some ev\<rparr>) now e"

definition HandleAppLogEvent :: "instant \<Rightarrow> ('b, 'l) engine \<Rightarrow> applog_event \<Rightarrow> ('b, 'l) engine" where
  "HandleAppLogEvent now e event =
     handleEvent EventKindAppLog event MatchesAppLog GroupKeyFromAppLog (al_Timestamp event)
       (\<lambda>ev p. p\<lparr>pl_AppLogEvent := Some ev\<rparr>) now e"

text \<open>The result of the two list queries; an error leaves the cache as it is.\<close>

datatype refresh_error = LoadRules string | LoadChannels string

definition refreshCache ::
  "(string + rule list) \<Rightarrow> (string + channel list) \<Rightarrow> ('b, 'l) engine
   \<Rightarrow> refresh_error option \<times> ('b, 'l) engine" where
  "refreshCache rulesRes channelsRes e =
     (case rulesRes of
        Inl err \<Rightarrow> (Some (LoadRules err), e)
      | Inr rules \<Rightarrow>
          (case channelsRes of
             Inl err \<Rightarrow> (Some (LoadChannels err), e)
           | Inr channels \<Rightarrow> (None, e\<lparr>en_rules := rules, en_channels := channels\<rparr>)))"

section \<open>Delivery\<close>

definition optionalInt :: "int \<Rightarrow> int option" where
  "optionalInt v = (if v = 0 then None else Some v)"

datatype breaker_state = StateClosed | StateHalfOpen | StateOpen

fun breakerStateValue :: "breaker_state \<Rightarrow> int" where
  "breakerStateValue StateHalfOpen = 1"
| "breakerStateValue StateOpen = 2"
| "breakerStateValue StateClosed = 0"

definition payload_event_id :: "payload \<Rightarrow> int" where
  "payload_event_id p =
     (case pl_SrvlogEvent p of Some ev \<Rightarrow> ev_ID ev
      | None \<Rightarrow> (case pl_NetlogEvent p of Some ev \<Rightarrow> ev_ID ev
      | None \<Rightarrow> (case pl_AppLogEvent p of Some ev \<Rightarrow> al_ID ev
      | None \<Rightarrow> (case pl_AnalysisReport p of Some rep \<Rightarrow> ar_ID rep | None \<Rightarrow> 0))))"

text \<open>\<^verbatim>\<open>Duration.Milliseconds\<close> truncates toward zero; a payload that does not encode is stored as
  \<^verbatim>\<open>nil\<close>.\<close>

definition recordLog ::
  "('w, 'b, 'l) env \<Rightarrow> rule \<Rightarrow> channel \<Rightarrow> payload \<Rightarrow> string \<Rightarrow> string option \<Rightarrow> send_result
   \<Rightarrow> ('b, 'l) engine \<Rightarrow> ('b, 'l) engine" where
  "recordLog env rule ch p status reason result e =
     (let logPayload = (case env_marshal env p of None \<Rightarrow> [] | Some s \<Rightarrow> s) in
      e\<lparr>en_log := en_log e @
         [\<lparr>le_ID = 0, le_CreatedAt = 0, le_RuleID = ru_ID rule, le_ChannelID = ch_ID ch,
           le_EventKind = pl_Kind p, le_EventID = payload_event_id p, le_Status = status,
           le_Reason = reason, le_EventCount = pl_EventCount p,
           le_StatusCode = optionalInt (res_StatusCode result),
           le_DurationMS = (if res_Duration result < 0
                            then - (- res_Duration result div millisecond)
                            else res_Duration result div millisecond),
           le_Payload = logPayload\<rparr>]\<rparr>)"

definition breaker_settings_for :: "int \<Rightarrow> string \<Rightarrow> breaker_settings" where
  "breaker_settings_for channelID channelName =
     \<lparr>bs_Name = ''notif-channel-'' @ fmt_int channelID @ ''-'' @ channelName, bs_MaxRequests = 2,
      bs_Interval = 60 * second, bs_Timeout = 60 * second, bs_ReadyToTrip = (\<lambda>n. n \<ge> 5)\<rparr>"

definition getOrCreateBreaker ::
  "('w, 'b, 'l) env \<Rightarrow> instant \<Rightarrow> int \<Rightarrow> string \<Rightarrow> ('b, 'l) engine \<Rightarrow> 'b \<times> ('b, 'l) engine" where
  "getOrCreateBreaker env now channelID channelName e =
     (case map_of (en_breakers e) channelID of
        Some entry \<Rightarrow>
          (bre_cb entry,
           e\<lparr>en_breakers := AList.update channelID (entry\<lparr>bre_lastUsed := now\<rparr>) (en_breakers e)\<rparr>)
      | None \<Rightarrow>
          (let cb = env_newBreaker env (breaker_settings_for channelID channelName) in
           (cb, e\<lparr>en_breakers := AList.update channelID \<lparr>bre_cb = cb, bre_lastUsed = now\<rparr> (en_breakers e)\<rparr>)))"

definition put_breaker :: "int \<Rightarrow> 'b \<Rightarrow> ('b, 'l) engine \<Rightarrow> ('b, 'l) engine" where
  "put_breaker channelID cb e =
     (case map_of (en_breakers e) channelID of
        None \<Rightarrow> e
      | Some entry \<Rightarrow> e\<lparr>en_breakers := AList.update channelID (entry\<lparr>bre_cb := cb\<rparr>) (en_breakers e)\<rparr>)"

definition evictStaleBreakersAsOf ::
  "instant \<Rightarrow> duration \<Rightarrow> ('b, 'l) engine \<Rightarrow> ('b, 'l) engine" where
  "evictStaleBreakersAsOf now ttl e =
     e\<lparr>en_breakers := filter (\<lambda>(_, entry). \<not> time_sub now (bre_lastUsed entry) > ttl) (en_breakers e)\<rparr>"

definition evictStaleBreakers :: "instant \<Rightarrow> ('b, 'l) engine \<Rightarrow> ('b, 'l) engine" where
  "evictStaleBreakers now e = evictStaleBreakersAsOf now limiterTTL e"

datatype attempt_status = attemptSuccess | attemptFailed | attemptSuppressed

text \<open>The verb \<^verbatim>\<open>%q\<close> on text with nothing to escape.\<close>

definition go_quote :: "string \<Rightarrow> string" where
  "go_quote s = [CHR 0x22] @ s @ [CHR 0x22]"

text \<open>What the breaker's \<^verbatim>\<open>Execute\<close> gives back: the result and the error, or a panic of the backend,
  which the breaker counts as a failure and passes on.\<close>

definition execute ::
  "('w, 'b, 'l) env \<Rightarrow> channel \<Rightarrow> payload \<Rightarrow> 'b \<Rightarrow> 'w \<Rightarrow> (send_result \<times> string option) option \<times> 'b \<times> 'w" where
  "execute env ch p cb w =
     (case env_breakerAdmit env cb (env_now env w) of
        (Some err, cb1) \<Rightarrow> (Some (zero_result, Some err), cb1, w)
      | (None, cb1) \<Rightarrow>
          (case env_send env ch p w of
             (None, w1) \<Rightarrow> (None, env_breakerDone env cb1 False (env_now env w1), w1)
           | (Some r, w1) \<Rightarrow>
               (let err = (if \<not> res_Success r then res_Error r else None) in
                (Some (r, err), env_breakerDone env cb1 (err = None) (env_now env w1), w1))))"

definition attemptSend ::
  "('w, 'b, 'l) env \<Rightarrow> channel \<Rightarrow> payload \<Rightarrow> ('b, 'l) engine \<times> 'w
   \<Rightarrow> (attempt_status \<times> send_result) option \<times> ('b, 'l) engine \<times> 'w" where
  "attemptSend env ch p st =
     (case st of (e, w) \<Rightarrow>
      if \<not> env_registered env (ch_Type ch)
      then (Some (attemptFailed,
              zero_result\<lparr>res_Error := Some (''no backend for type '' @ go_quote (ch_Type ch))\<rparr>), e, w)
      else
        (case getOrCreateBreaker env (env_now env w) (ch_ID ch) (ch_Name ch) e of (cb, e1) \<Rightarrow>
         (case execute env ch p cb w of
            (None, cb1, w1) \<Rightarrow> (None, put_breaker (ch_ID ch) cb1 e1, w1)
          | (Some (result, cbErr), cb1, w1) \<Rightarrow>
              (let e2 = put_breaker (ch_ID ch) cb1 e1 in
               case cbErr of
                 Some err \<Rightarrow>
                   if env_breakerOpen env cb1 (env_now env w1)
                   then (Some (attemptSuppressed,
                           \<lparr>res_Success = False, res_StatusCode = res_StatusCode result,
                            res_Error = Some (''circuit breaker open: '' @ err),
                            res_Duration = res_Duration result\<rparr>), e2, w1)
                   else (Some (attemptFailed, result\<lparr>res_Error := Some err\<rparr>), e2, w1)
               | None \<Rightarrow> (Some (attemptSuccess, result), e2, w1)))))"

definition count_outcome :: "string \<Rightarrow> ('b, 'l) engine \<Rightarrow> ('b, 'l) engine" where
  "count_outcome label e = e\<lparr>en_outcomes := en_outcomes e @ [label]\<rparr>"

text \<open>The retry loop; \<^verbatim>\<open>delays\<close> is the part of the schedule that is left, so the loop makes one attempt
  more than it has entries. \<^const>\<open>False\<close> as the first component is a panic, which ends the loop.\<close>

fun retry_loop ::
  "('w, 'b, 'l) env \<Rightarrow> rule \<Rightarrow> channel \<Rightarrow> payload \<Rightarrow> nat \<Rightarrow> duration list \<Rightarrow> ('b, 'l) engine \<times> 'w
   \<Rightarrow> bool \<times> ('b, 'l) engine \<times> 'w" where
  "retry_loop env rule ch p attempt delays (e, w) =
     (if env_ctxErr env w then (True, e, w)
      else
        (case attemptSend env ch p (e, w) of
           (None, e1, w1) \<Rightarrow> (False, e1, w1)
         | (Some (attemptSuccess, result), e1, w1) \<Rightarrow>
             (True, recordLog env rule ch p ''sent'' None result
                (count_outcome (if attempt > 1 then ''retry_success'' else ''first_try'') e1), w1)
         | (Some (attemptSuppressed, result), e1, w1) \<Rightarrow>
             (True, recordLog env rule ch p ''suppressed'' (res_Error result) result
                (count_outcome ''suppressed'' e1), w1)
         | (Some (attemptFailed, result), e1, w1) \<Rightarrow>
             (let e2 = recordLog env rule ch p ''failed''
                         (Some (case res_Error result of None \<Rightarrow> [] | Some s \<Rightarrow> s)) result e1 in
              (case delays of
                 [] \<Rightarrow> (True, count_outcome ''retry_exhausted'' e2, w1)
               | d # ds \<Rightarrow>
                   (case env_wait env d w1 of
                      (True, w2) \<Rightarrow> (True, e2, w2)
                    | (False, w2) \<Rightarrow> retry_loop env rule ch p (Suc attempt) ds (e2, w2))))))"

definition sendWithRetry ::
  "('w, 'b, 'l) env \<Rightarrow> rule \<Rightarrow> channel \<Rightarrow> payload \<Rightarrow> ('b, 'l) engine \<times> 'w
   \<Rightarrow> bool \<times> ('b, 'l) engine \<times> 'w" where
  "sendWithRetry env rule ch p st =
     (case st of (e, w) \<Rightarrow>
      (case Allow (env_newLimiter env) (env_limiterAllow env) (en_rateLimiter e) (env_now env w)
              (ch_ID ch) (ch_Type ch) of (allowed, l) \<Rightarrow>
       (let e1 = e\<lparr>en_rateLimiter := l\<rparr> in
        if \<not> allowed
        then (True, recordLog env rule ch p ''suppressed'' (Some ''rate limited'') zero_result
                (count_outcome ''suppressed'' e1), w)
        else retry_loop env rule ch p 1 retrySchedule (e1, w))))"

text \<open>The recover of \<^verbatim>\<open>safeSendToChannel\<close>: a panic ends this delivery and nothing else.\<close>

definition safeSendToChannel ::
  "('w, 'b, 'l) env \<Rightarrow> rule \<Rightarrow> channel \<Rightarrow> payload \<Rightarrow> ('b, 'l) engine \<times> 'w \<Rightarrow> ('b, 'l) engine \<times> 'w" where
  "safeSendToChannel env rule ch p st = snd (sendWithRetry env rule ch p st)"

text \<open>The deliveries of one job, in the order of its channels: each runs on its own goroutine, here one
  after the other.\<close>

definition send_enabled ::
  "('w, 'b, 'l) env \<Rightarrow> rule \<Rightarrow> payload \<Rightarrow> channel list \<Rightarrow> ('b, 'l) engine \<times> 'w \<Rightarrow> ('b, 'l) engine \<times> 'w" where
  "send_enabled env rule p chs st =
     fold (\<lambda>ch st. if \<not> ch_Enabled ch then st else safeSendToChannel env rule ch p st) chs st"

text \<open>One turn of a dispatch worker.\<close>

definition dispatchWorker ::
  "('w, 'b, 'l) env \<Rightarrow> ('b, 'l) engine \<times> 'w \<Rightarrow> ('b, 'l) engine \<times> 'w" where
  "dispatchWorker env st =
     (case st of (e, w) \<Rightarrow>
      (case en_dispatchCh e of
         [] \<Rightarrow> (e, w)
       | job # jobs \<Rightarrow>
           send_enabled env (job_rule job) (job_payload job) (job_channels job)
             (e\<lparr>en_dispatchCh := jobs\<rparr>, w)))"

definition SendAnalysisReport ::
  "('w, 'b, 'l) env \<Rightarrow> analysis_report \<Rightarrow> channel list \<Rightarrow> ('b, 'l) engine \<times> 'w \<Rightarrow> ('b, 'l) engine \<times> 'w" where
  "SendAnalysisReport env report channels st =
     (if channels = [] then st
      else
        (let p = zero_payload\<lparr>pl_Kind := EventKindAnalysis, pl_RuleName := ar_Slug report,
                   pl_Timestamp := env_now env (snd st), pl_EventCount := 1,
                   pl_AnalysisReport := Some report\<rparr> in
         send_enabled env (zero_rule\<lparr>ru_Name := ar_Slug report\<rparr>) p channels st))"

definition SendSummary ::
  "('w, 'b, 'l) env \<Rightarrow> summary_report \<Rightarrow> int list \<Rightarrow> ('b, 'l) engine \<times> 'w \<Rightarrow> ('b, 'l) engine \<times> 'w" where
  "SendSummary env report channelIDs st =
     (let channels = resolveChannels (fst st) channelIDs in
      if channels = [] then st
      else
        (let name = sch_Name (sr_Schedule report);
             p = zero_payload\<lparr>pl_Kind := ''summary'', pl_RuleName := name,
                   pl_Timestamp := env_now env (snd st), pl_SummaryReport := Some report\<rparr> in
         send_enabled env (zero_rule\<lparr>ru_Name := name\<rparr>) p channels st))"

definition SendTestNotification ::
  "('w, 'b, 'l) env \<Rightarrow> channel \<Rightarrow> 'w \<Rightarrow> (string + send_result option) \<times> 'w" where
  "SendTestNotification env ch w =
     (if \<not> env_registered env (ch_Type ch)
      then (Inl (''no backend registered for channel type '' @ go_quote (ch_Type ch)), w)
      else
        (let ev = \<lparr>ev_ID = 0, ev_ReceivedAt = env_now env w, ev_ReportedAt = 0,
                   ev_Hostname = ''test.example.com'', ev_FromhostIP = [],
                   ev_Programname = ''taillight'', ev_MsgID = [], ev_Severity = 6,
                   ev_SeverityLabel = ''info'', ev_Facility = 1, ev_FacilityLabel = ''user'',
                   ev_SyslogTag = [], ev_StructuredData = None,
                   ev_Message = ''This is a test notification from Taillight'',
                   ev_RawMessage = None, ev_MutedBy = None\<rparr>;
             p = zero_payload\<lparr>pl_Kind := EventKindSrvlog, pl_RuleName := ''test'',
                   pl_Timestamp := env_now env w, pl_EventCount := 1, pl_SrvlogEvent := Some ev\<rparr>;
             (r, w1) = env_send env ch p w in
         (Inr r, w1)))"

section \<open>What a delivery does\<close>

text \<open>The part of the engine no delivery touches.\<close>

definition core :: "('b, 'l) engine \<Rightarrow> channel list \<times> rule list \<times> suppressor \<times> dispatch_job list \<times> config" where
  "core e = (en_channels e, en_rules e, en_suppressor e, en_dispatchCh e, en_cfg e)"

lemma recordLog_simps [simp]:
  "core (recordLog env rule ch p st rs res e) = core e"
  "en_outcomes (recordLog env rule ch p st rs res e) = en_outcomes e"
  by (simp_all add: recordLog_def core_def Let_def)

lemma count_outcome_simps [simp]:
  "core (count_outcome l e) = core e" "en_log (count_outcome l e) = en_log e"
  "en_outcomes (count_outcome l e) = en_outcomes e @ [l]"
  by (simp_all add: count_outcome_def core_def)

lemma put_breaker_simps [simp]:
  "core (put_breaker i cb e) = core e" "en_log (put_breaker i cb e) = en_log e"
  "en_outcomes (put_breaker i cb e) = en_outcomes e"
  by (simp_all add: put_breaker_def core_def split: option.split)

lemma getOrCreateBreaker_keeps:
  "getOrCreateBreaker env now i n e = (cb, e') \<Longrightarrow>
   core e' = core e \<and> en_log e' = en_log e \<and> en_outcomes e' = en_outcomes e"
  by (auto simp: getOrCreateBreaker_def core_def Let_def split: option.splits)

lemma attemptSend_keeps:
  assumes "attemptSend env ch p (e, w) = (r, e', w')"
  shows "core e' = core e \<and> en_log e' = en_log e \<and> en_outcomes e' = en_outcomes e"
proof (cases "env_registered env (ch_Type ch)")
  case True
  obtain cb e1 where g: "getOrCreateBreaker env (env_now env w) (ch_ID ch) (ch_Name ch) e = (cb, e1)"
    by fastforce
  obtain x cb1 w1 where x: "execute env ch p cb w = (x, cb1, w1)" by (cases "execute env ch p cb w")
  have "e' = put_breaker (ch_ID ch) cb1 e1"
    using assms True g x by (auto simp: attemptSend_def Let_def split: option.splits if_splits)
  then show ?thesis using getOrCreateBreaker_keeps [OF g] by simp
qed (use assms in \<open>simp add: attemptSend_def\<close>)

definition row_of :: "rule \<Rightarrow> channel \<Rightarrow> payload \<Rightarrow> log_entry \<Rightarrow> bool" where
  "row_of rule ch p row \<longleftrightarrow> le_RuleID row = ru_ID rule \<and> le_ChannelID row = ch_ID ch
     \<and> le_EventKind row = pl_Kind p \<and> le_EventID row = payload_event_id p
     \<and> le_EventCount row = pl_EventCount p"

lemma recordLog_row:
  obtains row where "en_log (recordLog env rule ch p st rs res e) = en_log e @ [row]"
    "row_of rule ch p row" "le_Status row = st"
  by (auto simp: recordLog_def Let_def row_of_def)

text \<open>The rows and the outcome a delivery adds: failed attempts first, then how it ended; a cancelled or
  panicking delivery has no outcome.\<close>

fun outcome_ok :: "nat \<Rightarrow> log_entry list \<Rightarrow> string list \<Rightarrow> bool" where
  "outcome_ok n rows [] = (\<forall>row \<in> set rows. le_Status row = ''failed'')"
| "outcome_ok n rows [l] =
     (rows \<noteq> [] \<and>
      (if l = ''retry_exhausted'' then length rows = n \<and> le_Status (last rows) = ''failed''
       else if l = ''suppressed'' then le_Status (last rows) = ''suppressed''
       else (l = ''first_try'' \<or> l = ''retry_success'') \<and> le_Status (last rows) = ''sent''))"
| "outcome_ok n rows (l # l' # ls) = False"

lemma outcome_ok_Cons:
  "le_Status row = ''failed'' \<Longrightarrow> outcome_ok n rows oc \<Longrightarrow> outcome_ok (Suc n) (row # rows) oc"
  by (induction n rows oc rule: outcome_ok.induct) (auto split: if_splits)

definition delivery_log ::
  "rule \<Rightarrow> channel \<Rightarrow> payload \<Rightarrow> nat \<Rightarrow> ('b, 'l) engine \<Rightarrow> ('b, 'l) engine \<Rightarrow> bool" where
  "delivery_log rule ch p n e e' \<longleftrightarrow>
     (\<exists>rows oc. en_log e' = en_log e @ rows \<and> en_outcomes e' = en_outcomes e @ oc
        \<and> length rows \<le> n \<and> list_all (row_of rule ch p) rows
        \<and> (\<forall>row \<in> set (butlast rows). le_Status row = ''failed'')
        \<and> outcome_ok n rows oc)"

lemma delivery_log_outcome:
  assumes "delivery_log rule ch p n e e'" "length (en_outcomes e') = Suc (length (en_outcomes e))"
  shows "length (en_log e) < length (en_log e')"
proof -
  from assms(1) obtain rows oc where "en_log e' = en_log e @ rows" and
    oc: "en_outcomes e' = en_outcomes e @ oc" "outcome_ok n rows oc"
    unfolding delivery_log_def by blast
  moreover from oc assms(2) have "rows \<noteq> []" by (cases "(n, rows, oc)" rule: outcome_ok.cases) auto
  ultimately show ?thesis by simp
qed

lemma delivery_log_nothing:
  "en_log e' = en_log e \<Longrightarrow> en_outcomes e' = en_outcomes e \<Longrightarrow> delivery_log rule ch p n e e'"
  by (auto simp: delivery_log_def)

lemma delivery_log_end:
  assumes "en_log e1 = en_log e" "en_outcomes e1 = en_outcomes e"
    and "(l = ''suppressed'' \<and> st = ''suppressed'') \<or> (l \<in> {''first_try'', ''retry_success''} \<and> st = ''sent'')"
    and "0 < n"
  shows "delivery_log rule ch p n e (recordLog env rule ch p st rs res (count_outcome l e1))"
proof -
  obtain row where "en_log (recordLog env rule ch p st rs res (count_outcome l e1)) = en_log e @ [row]"
    "row_of rule ch p row" "le_Status row = st"
    using recordLog_row [of env rule ch p st rs res "count_outcome l e1"] assms(1) by auto
  then show ?thesis
    unfolding delivery_log_def using assms
    by (intro exI [of _ "[row]"] exI [of _ "[l]"]) auto
qed

text \<open>One failed attempt in front.\<close>

lemma delivery_log_failed:
  assumes e1: "en_log e1 = en_log e" "en_outcomes e1 = en_outcomes e"
    and rest: "delivery_log rule ch p n (recordLog env rule ch p ''failed'' rs res e1) e'"
  shows "delivery_log rule ch p (Suc n) e e'"
proof -
  obtain row where row: "en_log (recordLog env rule ch p ''failed'' rs res e1) = en_log e1 @ [row]"
    "row_of rule ch p row" "le_Status row = ''failed''"
    by (rule recordLog_row)
  from rest obtain rows oc where
    r: "en_log e' = (en_log e @ [row]) @ rows" "en_outcomes e' = en_outcomes e @ oc"
      "length rows \<le> n" "list_all (row_of rule ch p) rows"
      "\<forall>row \<in> set (butlast rows). le_Status row = ''failed''"
    and oc: "outcome_ok n rows oc"
    unfolding delivery_log_def row(1) recordLog_simps e1 by blast
  show ?thesis
    unfolding delivery_log_def
    by (rule exI [of _ "row # rows"], rule exI [of _ oc])
      (use r row oc in \<open>auto intro: outcome_ok_Cons\<close>)
qed

lemma delivery_log_exhausted:
  assumes "en_log e1 = en_log e" "en_outcomes e1 = en_outcomes e"
  shows "delivery_log rule ch p 1 e
           (count_outcome ''retry_exhausted'' (recordLog env rule ch p ''failed'' rs res e1))"
proof -
  obtain row where "en_log (recordLog env rule ch p ''failed'' rs res e1) = en_log e @ [row]"
    "row_of rule ch p row" "le_Status row = ''failed''"
    using recordLog_row [of env rule ch p "''failed''" rs res e1] assms(1) by auto
  then show ?thesis
    unfolding delivery_log_def using assms
    by (intro exI [of _ "[row]"] exI [of _ "[''retry_exhausted'']"]) auto
qed

declare retry_loop.simps [simp del]

text \<open>One turn of the retry loop, by the attempt's result.\<close>

lemma retry_loop_turn:
  assumes "attemptSend env ch p (e, w) = (r, e1, w1)" "\<not> env_ctxErr env w"
  shows "r = None \<Longrightarrow> retry_loop env rule ch p attempt delays (e, w) = (False, e1, w1)"
    "r = Some (attemptSuccess, res) \<Longrightarrow> retry_loop env rule ch p attempt delays (e, w) =
       (True, recordLog env rule ch p ''sent'' None res
          (count_outcome (if attempt > 1 then ''retry_success'' else ''first_try'') e1), w1)"
    "r = Some (attemptSuppressed, res) \<Longrightarrow> retry_loop env rule ch p attempt delays (e, w) =
       (True, recordLog env rule ch p ''suppressed'' (res_Error res) res (count_outcome ''suppressed'' e1), w1)"
    "r = Some (attemptFailed, res) \<Longrightarrow> retry_loop env rule ch p attempt delays (e, w) =
       (let e2 = recordLog env rule ch p ''failed''
                   (Some (case res_Error res of None \<Rightarrow> [] | Some s \<Rightarrow> s)) res e1 in
        (case delays of
           [] \<Rightarrow> (True, count_outcome ''retry_exhausted'' e2, w1)
         | d # ds \<Rightarrow>
             (case env_wait env d w1 of
                (True, w2) \<Rightarrow> (True, e2, w2)
              | (False, w2) \<Rightarrow> retry_loop env rule ch p (Suc attempt) ds (e2, w2))))"
  using assms by (simp_all add: retry_loop.simps [of env rule ch p attempt delays])

lemma retry_loop_cancelled:
  "env_ctxErr env w \<Longrightarrow> retry_loop env rule ch p attempt delays (e, w) = (True, e, w)"
  by (simp add: retry_loop.simps)

lemma retry_loop_log:
  assumes "retry_loop env rule ch p attempt delays (e, w) = (ok, e', w')"
  shows "delivery_log rule ch p (Suc (length delays)) e e' \<and> core e' = core e"
  using assms
proof (induction delays arbitrary: attempt e w)
  case Nil
  show ?case
  proof (cases "env_ctxErr env w")
    case True
    with Nil show ?thesis by (simp add: retry_loop_cancelled delivery_log_nothing)
  next
    case False
    obtain r e1 w1 where a: "attemptSend env ch p (e, w) = (r, e1, w1)" by (cases "attemptSend env ch p (e, w)")
    note turn = retry_loop_turn [OF a False, where rule = rule and attempt = attempt and delays = "[]"] and k = attemptSend_keeps [OF a]
    show ?thesis
    proof (cases r)
      case None
      with Nil turn(1) k show ?thesis by (simp add: delivery_log_nothing)
    next
      case (Some x)
      obtain st res where x: "x = (st, res)" by (cases x)
      show ?thesis
        by (cases st) (use Nil turn Some x k in
          \<open>auto simp: delivery_log_end delivery_log_exhausted [unfolded One_nat_def] Let_def\<close>)
    qed
  qed
next
  case (Cons d ds)
  show ?case
  proof (cases "env_ctxErr env w")
    case True
    with Cons.prems show ?thesis by (simp add: retry_loop_cancelled delivery_log_nothing)
  next
    case False
    obtain r e1 w1 where a: "attemptSend env ch p (e, w) = (r, e1, w1)" by (cases "attemptSend env ch p (e, w)")
    note turn = retry_loop_turn [OF a False, where rule = rule and attempt = attempt and delays = "d # ds"] and k = attemptSend_keeps [OF a]
    show ?thesis
    proof (cases r)
      case None
      with Cons.prems turn(1) k show ?thesis by (simp add: delivery_log_nothing)
    next
      case (Some x)
      obtain st res where x: "x = (st, res)" by (cases x)
      show ?thesis
      proof (cases st)
        case attemptFailed
        let ?e2 = "recordLog env rule ch p ''failed'' (Some (case res_Error res of None \<Rightarrow> [] | Some s \<Rightarrow> s)) res e1"
        obtain b w2 where b: "env_wait env d w1 = (b, w2)" by fastforce
        have "delivery_log rule ch p (Suc (length ds)) ?e2 e' \<and> core e' = core ?e2"
        proof (cases b)
          case True
          then have "e' = ?e2" using Cons.prems turn(4) Some x attemptFailed b by (simp add: Let_def)
          then show ?thesis by (simp add: delivery_log_nothing)
        next
          case False
          then show ?thesis
            using Cons.prems turn(4) Some x attemptFailed b Cons.IH by (simp add: Let_def)
        qed
        then show ?thesis using delivery_log_failed k by fastforce
      qed (use Cons.prems turn Some x k in \<open>auto simp: delivery_log_end\<close>)
    qed
  qed
qed

lemma sendWithRetry_log:
  "delivery_log rule ch p 5 e (fst (safeSendToChannel env rule ch p (e, w)))
   \<and> core (fst (safeSendToChannel env rule ch p (e, w))) = core e"
proof -
  obtain allowed l where l: "Allow (env_newLimiter env) (env_limiterAllow env) (en_rateLimiter e)
      (env_now env w) (ch_ID ch) (ch_Type ch) = (allowed, l)" by fastforce
  let ?e = "e\<lparr>en_rateLimiter := l\<rparr>"
  have e: "en_log ?e = en_log e" "en_outcomes ?e = en_outcomes e" "core ?e = core e"
    by (simp_all add: core_def)
  obtain ok e' w' where r: "retry_loop env rule ch p 1 retrySchedule (?e, w) = (ok, e', w')"
    by (cases "retry_loop env rule ch p 1 retrySchedule (?e, w)")
  have len: "Suc (length retrySchedule) = 5" by (simp add: retrySchedule_def)
  have "delivery_log rule ch p 5 ?e e' \<and> core e' = core e"
    using retry_loop_log [OF r] e unfolding len by simp
  then have "delivery_log rule ch p 5 e e' \<and> core e' = core e"
    unfolding delivery_log_def e by simp
  then show ?thesis
    using l r e by (auto simp: safeSendToChannel_def sendWithRetry_def Let_def delivery_log_end)
qed

text \<open>A world in which no delivery is cut short.\<close>

definition never_cancelled :: "('w, 'b, 'l) env \<Rightarrow> bool" where
  "never_cancelled env \<longleftrightarrow> (\<forall>w. \<not> env_ctxErr env w) \<and> (\<forall>d w. \<not> fst (env_wait env d w))"

definition never_panics :: "('w, 'b, 'l) env \<Rightarrow> bool" where
  "never_panics env \<longleftrightarrow> (\<forall>ch p w. fst (env_send env ch p w) \<noteq> None)"

definition always_fails :: "('w, 'b, 'l) env \<Rightarrow> bool" where
  "always_fails env \<longleftrightarrow>
     (\<forall>ch p w. \<exists>r err. fst (env_send env ch p w) = Some r \<and> \<not> res_Success r \<and> res_Error r = Some err)
   \<and> (\<forall>cb t. fst (env_breakerAdmit env cb t) = None) \<and> (\<forall>cb t. \<not> env_breakerOpen env cb t)"

lemma execute_no_panic:
  assumes "never_panics env"
  shows "fst (execute env ch p cb w) \<noteq> None"
proof -
  obtain r w1 where "env_send env ch p w = (Some r, w1)"
    using assms unfolding never_panics_def by (metis not_None_eq prod.collapse)
  then show ?thesis by (auto simp: execute_def Let_def split: option.split prod.split)
qed

lemma attemptSend_no_panic:
  assumes "never_panics env"
  shows "fst (attemptSend env ch p (e, w)) \<noteq> None"
proof -
  obtain cb e1 where g: "getOrCreateBreaker env (env_now env w) (ch_ID ch) (ch_Name ch) e = (cb, e1)"
    by fastforce
  obtain x cb1 w1 where x: "execute env ch p cb w = (x, cb1, w1)" by (cases "execute env ch p cb w")
  with execute_no_panic [OF assms, of ch p cb w] obtain res err where "x = Some (res, err)" by auto
  with g x show ?thesis by (auto simp: attemptSend_def Let_def split: option.split)
qed

lemma attemptSend_fails:
  assumes "always_fails env"
  obtains res e1 w1 where "attemptSend env ch p (e, w) = (Some (attemptFailed, res), e1, w1)"
proof -
  obtain cb e1 where g: "getOrCreateBreaker env (env_now env w) (ch_ID ch) (ch_Name ch) e = (cb, e1)"
    by fastforce
  obtain cb1 where "env_breakerAdmit env cb (env_now env w) = (None, cb1)"
    using assms by (cases "env_breakerAdmit env cb (env_now env w)") (auto simp: always_fails_def, metis fst_conv)
  moreover obtain r err w1 where "env_send env ch p w = (Some r, w1)" "\<not> res_Success r" "res_Error r = Some err"
    using assms unfolding always_fails_def by (metis prod.collapse)
  ultimately have "execute env ch p cb w =
      (Some (r, Some err), env_breakerDone env cb1 False (env_now env w1), w1)"
    by (simp add: execute_def)
  with g assms that show ?thesis
    by (cases "env_registered env (ch_Type ch)") (auto simp: attemptSend_def always_fails_def)
qed

lemma retry_loop_concludes:
  assumes "never_cancelled env" "never_panics env"
  shows "length (en_outcomes (fst (snd (retry_loop env rule ch p attempt delays (e, w)))))
           = Suc (length (en_outcomes e))"
proof (induction delays arbitrary: attempt e w)
  case Nil
  have c: "\<not> env_ctxErr env w" using assms by (simp add: never_cancelled_def)
  obtain st res e1 w1 where a: "attemptSend env ch p (e, w) = (Some (st, res), e1, w1)"
    using attemptSend_no_panic [OF assms(2), of ch p e w] by (cases "attemptSend env ch p (e, w)") auto
  show ?case
    using attemptSend_keeps [OF a] retry_loop_turn [OF a c, where delays = "[]"]
    by (cases st) (simp_all add: Let_def)
next
  case (Cons d ds)
  have c: "\<not> env_ctxErr env w" using assms by (simp add: never_cancelled_def)
  obtain st res e1 w1 where a: "attemptSend env ch p (e, w) = (Some (st, res), e1, w1)"
    using attemptSend_no_panic [OF assms(2), of ch p e w] by (cases "attemptSend env ch p (e, w)") auto
  obtain w2 where "env_wait env d w1 = (False, w2)"
    using assms by (cases "env_wait env d w1") (auto simp: never_cancelled_def, metis fst_conv)
  then show ?case
    using attemptSend_keeps [OF a] retry_loop_turn [OF a c, where delays = "d # ds"] Cons.IH
    by (cases st) (simp_all add: Let_def)
qed

lemma retry_loop_exhausts:
  assumes "never_cancelled env" "always_fails env"
  shows "en_outcomes (fst (snd (retry_loop env rule ch p attempt delays (e, w))))
           = en_outcomes e @ [''retry_exhausted'']"
proof (induction delays arbitrary: attempt e w)
  case Nil
  have c: "\<not> env_ctxErr env w" using assms by (simp add: never_cancelled_def)
  obtain res e1 w1 where a: "attemptSend env ch p (e, w) = (Some (attemptFailed, res), e1, w1)"
    by (rule attemptSend_fails [OF assms(2)])
  show ?case
    using attemptSend_keeps [OF a] retry_loop_turn(4) [OF a c refl, where delays = "[]"] by (simp add: Let_def)
next
  case (Cons d ds)
  have c: "\<not> env_ctxErr env w" using assms by (simp add: never_cancelled_def)
  obtain res e1 w1 where a: "attemptSend env ch p (e, w) = (Some (attemptFailed, res), e1, w1)"
    by (rule attemptSend_fails [OF assms(2)])
  obtain w2 where "env_wait env d w1 = (False, w2)"
    using assms by (cases "env_wait env d w1") (auto simp: never_cancelled_def, metis fst_conv)
  then show ?case
    using attemptSend_keeps [OF a] retry_loop_turn(4) [OF a c refl, where delays = "d # ds"] Cons.IH
    by (simp add: Let_def)
qed

section \<open>The engine under any interleaving\<close>

definition job_ok :: "dispatch_job \<Rightarrow> bool" where
  "job_ok j \<longleftrightarrow> job_channels j \<noteq> [] \<and> (\<forall>ch \<in> set (job_channels j). ch_ID ch \<in> set (ru_ChannelIDs (job_rule j)))"

definition engine_inv :: "config \<Rightarrow> ('b, 'l) engine \<Rightarrow> bool" where
  "engine_inv cfg e \<longleftrightarrow> en_cfg e = cfg \<and> supp_inv (en_suppressor e)
     \<and> int (length (en_dispatchCh e)) \<le> max 0 (cfg_DispatchBuffer cfg) \<and> list_all job_ok (en_dispatchCh e)"

definition fire_engine :: "timer \<Rightarrow> instant \<Rightarrow> ('b, 'l) engine \<Rightarrow> ('b, 'l) engine" where
  "fire_engine t now e =
     (case fire t (en_suppressor e) now of
        (s', fls) \<Rightarrow> fold (\<lambda>f e. onFlush e f) fls (e\<lparr>en_suppressor := s'\<rparr>))"

text \<open>Events arrive, timers fire, a worker takes a job, the cache is refreshed, idle limiters and
  breakers are evicted, the suppressor is stopped, the world moves on.\<close>

inductive engine_step :: "('w, 'b, 'l) env \<Rightarrow> ('b, 'l) engine \<times> 'w \<Rightarrow> ('b, 'l) engine \<times> 'w \<Rightarrow> bool"
  for env :: "('w, 'b, 'l) env" where
  srvlog: "engine_step env (e, w) (HandleSrvlogEvent (env_now env w) e ev, w)"
| netlog: "engine_step env (e, w) (HandleNetlogEvent (env_now env w) e ev, w)"
| applog: "engine_step env (e, w) (HandleAppLogEvent (env_now env w) e aev, w)"
| timer: "t \<in> set (sp_timers (en_suppressor e)) \<Longrightarrow> tm_due t \<le> env_now env w \<Longrightarrow>
    engine_step env (e, w) (fire_engine t (env_now env w) e, w)"
| worker: "engine_step env st (dispatchWorker env st)"
| refresh: "engine_step env (e, w) (snd (refreshCache rres cres e), w)"
| evict_breakers: "engine_step env (e, w) (evictStaleBreakers (env_now env w) e, w)"
| evict_limiters: "engine_step env (e, w)
    (e\<lparr>en_rateLimiter := evictOlderThan (en_rateLimiter e) (env_now env w) limiterTTL\<rparr>, w)"
| stop: "engine_step env (e, w) (e\<lparr>en_suppressor := Stop started (en_suppressor e)\<rparr>, w)"
| report: "engine_step env st (SendAnalysisReport env rep chs st)"
| summary: "engine_step env st (SendSummary env srep ids st)"
| world: "engine_step env (e, w) (e, w')"

definition engine_reach :: "config \<Rightarrow> ('w, 'b, 'l) env \<Rightarrow> ('b, 'l) engine \<times> 'w \<Rightarrow> bool" where
  "engine_reach cfg env = reach (\<lambda>st. fst st = NewEngine cfg) (engine_step env)"

lemma engine_inv_core: "core e' = core e \<Longrightarrow> engine_inv cfg e' = engine_inv cfg e"
  by (simp add: core_def engine_inv_def)

lemma onFlush_inv: "engine_inv cfg e \<Longrightarrow> engine_inv cfg (onFlush e f)"
  by (auto simp: onFlush_def engine_inv_def Let_def job_ok_def resolveChannels_def)

lemma onFlushes_inv: "engine_inv cfg e \<Longrightarrow> engine_inv cfg (fold (\<lambda>f e. onFlush e f) fls e)"
  by (induction fls arbitrary: e) (simp_all add: onFlush_inv)

lemma engine_inv_suppressor:
  "engine_inv cfg e \<Longrightarrow> supp_inv s \<Longrightarrow> engine_inv cfg (e\<lparr>en_suppressor := s\<rparr>)"
  by (simp add: engine_inv_def)

lemma engine_inv_supp: "engine_inv cfg e \<Longrightarrow> supp_inv (en_suppressor e)"
  by (simp add: engine_inv_def)

lemma record_rule_inv:
  assumes "engine_inv cfg e"
  shows "engine_inv cfg (record_rule e now r g p)"
proof -
  obtain a b c where w: "windowsFor (en_cfg e) r = (a, b, c)" by (cases "windowsFor (en_cfg e) r")
  obtain s' fls where R: "Record (en_suppressor e) now (ru_ID r) g a b c p = (s', fls)" by fastforce
  have "supp_inv s'"
    using supp_inv_Record [OF engine_inv_supp [OF assms], of now "ru_ID r" g a b c p] R by simp
  with assms show ?thesis
    by (simp add: record_rule_def w R onFlushes_inv engine_inv_suppressor)
qed

lemma handle_rules_inv:
  "engine_inv cfg e \<Longrightarrow> engine_inv cfg (handle_rules kind ev m g ts att now rs e)"
  by (induction rs arbitrary: e) (simp_all add: record_rule_inv Let_def)

lemma fire_engine_inv:
  assumes "engine_inv cfg e" "t \<in> set (sp_timers (en_suppressor e))"
  shows "engine_inv cfg (fire_engine t now e)"
proof -
  obtain s' fls where F: "fire t (en_suppressor e) now = (s', fls)" by fastforce
  have "supp_inv s'" using supp_inv_fire [OF engine_inv_supp [OF assms(1)] assms(2), of now] F by simp
  with assms show ?thesis by (simp add: fire_engine_def F onFlushes_inv engine_inv_suppressor)
qed

lemma send_enabled_core: "core (fst (send_enabled env rule p chs st)) = core (fst st)"
proof (induction chs arbitrary: st)
  case (Cons ch chs)
  then show ?case
    using sendWithRetry_log [of rule ch p "fst st" env "snd st"]
    by (simp add: send_enabled_def)
qed (simp add: send_enabled_def)

lemmas engine_inv_sent = engine_inv_core [OF send_enabled_core]

lemma dispatchWorker_inv:
  assumes "engine_inv cfg (fst st)"
  shows "engine_inv cfg (fst (dispatchWorker env st))"
proof -
  obtain e w where st: "st = (e, w)" by (cases st)
  show ?thesis
    using assms st
    by (cases "en_dispatchCh e") (auto simp: dispatchWorker_def engine_inv_sent, auto simp: engine_inv_def)
qed

interpretation engine_sys: invariant_system "\<lambda>st. fst st = NewEngine cfg" "engine_step env"
  "\<lambda>st. engine_inv cfg (fst st)" for cfg env
proof
  show "engine_inv cfg (fst st)" if "fst st = NewEngine cfg" for st
    using that supp_inv_new by (simp add: engine_inv_def NewEngine_def)
next
  show "engine_inv cfg (fst st')" if "engine_inv cfg (fst st)" "engine_step env st st'" for st st'
    using that(2,1)
  proof (cases rule: engine_step.cases)
    case (refresh e w rres cres)
    then show ?thesis
      using that by (auto simp: refreshCache_def engine_inv_def split: sum.split)
  next
    case (evict_breakers e w)
    then show ?thesis
      using that by (simp add: evictStaleBreakers_def evictStaleBreakersAsOf_def engine_inv_def)
  next
    case (evict_limiters e w)
    then show ?thesis using that by (simp add: engine_inv_def)
  next
    case (stop e w started)
    then show ?thesis using that by (simp add: engine_inv_def supp_inv_stop)
  next
    case (report rep chs)
    then show ?thesis using that by (simp add: SendAnalysisReport_def Let_def engine_inv_sent)
  next
    case (summary srep ids)
    then show ?thesis using that by (simp add: SendSummary_def Let_def engine_inv_sent)
  qed (use that(1) in \<open>auto simp: HandleSrvlogEvent_def HandleNetlogEvent_def HandleAppLogEvent_def
        handleEvent_def handle_rules_inv fire_engine_inv dispatchWorker_inv\<close>)
qed

section \<open>Properties\<close>

text \<open>Whatever the backend, the limiter, the breaker and the context do, delivering a
  notification writes at most five audit rows, all but the last of failed attempts, each naming the
  rule, channel and event, counts at most one outcome that agrees with the last row, gives up only
  after five failures, and changes neither the rule cache nor the suppressor nor the queue.\<close>

lemma delivery_is_bounded:
  "\<exists>rows oc.
     en_log (fst (safeSendToChannel env rule ch p (e, w))) = en_log e @ rows
   \<and> en_outcomes (fst (safeSendToChannel env rule ch p (e, w))) = en_outcomes e @ oc
   \<and> length rows \<le> 5
   \<and> list_all (\<lambda>row. le_RuleID row = ru_ID rule \<and> le_ChannelID row = ch_ID ch
        \<and> le_EventID row = payload_event_id p) rows
   \<and> list_all (\<lambda>row. le_Status row = ''failed'') (butlast rows)
   \<and> (oc = [] \<and> list_all (\<lambda>row. le_Status row = ''failed'') rows
      \<or> oc = [''retry_exhausted''] \<and> length rows = 5 \<and> le_Status (last rows) = ''failed''
      \<or> oc = [''suppressed''] \<and> rows \<noteq> [] \<and> le_Status (last rows) = ''suppressed''
      \<or> oc \<in> {[''first_try''], [''retry_success'']} \<and> rows \<noteq> [] \<and> le_Status (last rows) = ''sent'')
   \<and> core (fst (safeSendToChannel env rule ch p (e, w))) = core e"
proof -
  let ?e = "fst (safeSendToChannel env rule ch p (e, w))"
  note log = sendWithRetry_log [of rule ch p e env w]
  obtain rows oc where *: "en_log ?e = en_log e @ rows" "en_outcomes ?e = en_outcomes e @ oc"
    "length rows \<le> 5" "list_all (row_of rule ch p) rows"
    "\<forall>row \<in> set (butlast rows). le_Status row = ''failed''"
    and oc: "outcome_ok 5 rows oc"
    using log unfolding delivery_log_def by blast
  have "list_all (\<lambda>row. le_RuleID row = ru_ID rule \<and> le_ChannelID row = ch_ID ch
      \<and> le_EventID row = payload_event_id p) rows"
    using *(4) by (auto simp: list_all_iff row_of_def)
  moreover have "oc = [] \<and> list_all (\<lambda>row. le_Status row = ''failed'') rows
      \<or> oc = [''retry_exhausted''] \<and> length rows = 5 \<and> le_Status (last rows) = ''failed''
      \<or> oc = [''suppressed''] \<and> rows \<noteq> [] \<and> le_Status (last rows) = ''suppressed''
      \<or> oc \<in> {[''first_try''], [''retry_success'']} \<and> rows \<noteq> [] \<and> le_Status (last rows) = ''sent''"
    using oc by (cases "(5 :: nat, rows, oc)" rule: outcome_ok.cases) (auto simp: list_all_iff split: if_splits)
  ultimately show ?thesis using * log by (auto simp: list_all_iff)
qed

text \<open>A world for examples: deliveries are never cancelled, the limiter always lets through, the
  breaker never trips, and the backend answers as told.\<close>

definition sample_env :: "send_result \<Rightarrow> (int, unit, unit) env" where
  "sample_env r =
     \<lparr>env_now = (\<lambda>w. w), env_ctxErr = (\<lambda>_. False), env_wait = (\<lambda>d w. (False, w + d)),
      env_registered = (\<lambda>_. True), env_send = (\<lambda>_ _ w. (Some r, w + 1)),
      env_marshal = (\<lambda>_. Some ''{}''), env_newLimiter = (\<lambda>_ _. ()),
      env_limiterAllow = (\<lambda>_ _. (True, ())), env_newBreaker = (\<lambda>_. ()),
      env_breakerAdmit = (\<lambda>_ _. (None, ())), env_breakerDone = (\<lambda>_ _ _. ()),
      env_breakerOpen = (\<lambda>_ _. False)\<rparr>"

definition sample_failure :: send_result where
  "sample_failure = zero_result\<lparr>res_StatusCode := 503, res_Error := Some ''unavailable''\<rparr>"

definition sample_channel :: channel where
  "sample_channel =
     \<lparr>ch_ID = 1, ch_Name = ''ops'', ch_Type = ''slack'', ch_Config = [], ch_Enabled = True,
      ch_CreatedAt = 0, ch_UpdatedAt = 0\<rparr>"

definition sample_config :: config where
  "sample_config =
     \<lparr>cfg_Enabled = True, cfg_RuleRefreshInterval = 30 * second, cfg_DispatchWorkers = 4,
      cfg_DispatchBuffer = 256, cfg_SendTimeout = 10 * second, cfg_DefaultSilence = 60 * second,
      cfg_DefaultSilenceMax = 600 * second, cfg_DefaultCoalesce = 0\<rparr>"

lemma sample_env_ok:
  "never_cancelled (sample_env r)" "never_panics (sample_env r)" "always_fails (sample_env sample_failure)"
  by (simp_all add: sample_env_def never_cancelled_def never_panics_def always_fails_def
      sample_failure_def zero_result_def)



text \<open>A delivery that is neither cancelled nor struck by a panic always ends with exactly one
  counted outcome and at least one audit row.\<close>

lemma delivery_concludes:
  assumes "never_cancelled env" "never_panics env"
  shows "let e' = fst (safeSendToChannel env rule ch p (e, w)) in
         length (en_outcomes e') = Suc (length (en_outcomes e)) \<and> length (en_log e) < length (en_log e')"
proof -
  let ?e = "fst (safeSendToChannel env rule ch p (e, w))"
  obtain allowed l where l: "Allow (env_newLimiter env) (env_limiterAllow env) (en_rateLimiter e)
      (env_now env w) (ch_ID ch) (ch_Type ch) = (allowed, l)" by fastforce
  have oc: "length (en_outcomes ?e) = Suc (length (en_outcomes e))"
    using retry_loop_concludes [OF assms, of rule ch p 1 retrySchedule "e\<lparr>en_rateLimiter := l\<rparr>" w] l
    by (auto simp: safeSendToChannel_def sendWithRetry_def Let_def)
  then have "length (en_log e) < length (en_log ?e)"
    using sendWithRetry_log [of rule ch p e env w] delivery_log_outcome by blast
  with oc show ?thesis by (simp add: Let_def)
qed


text \<open>In every reachable state of the engine the dispatch queue respects its buffer, every job
  on it goes to at least one channel and only to channels the job's rule names, and the suppressor
  keeps its bounds.\<close>

lemma engine_queue_bounded:
  assumes "engine_reach cfg env (e, w)" "0 \<le> cfg_DispatchBuffer cfg"
  shows "int (length (en_dispatchCh e)) \<le> cfg_DispatchBuffer cfg
       \<and> list_all (\<lambda>j. job_channels j \<noteq> []
            \<and> list_all (\<lambda>ch. ch_ID ch \<in> set (ru_ChannelIDs (job_rule j))) (job_channels j)) (en_dispatchCh e)
       \<and> length (sp_fingerprints (en_suppressor e)) \<le> 50000"
proof -
  have "engine_inv cfg e"
    using engine_sys.reach_inv assms by (fastforce simp: engine_reach_def)
  then show ?thesis
    using assms(2) supp_invD(2) [of "en_suppressor e"]
    by (auto simp: engine_inv_def job_ok_def list_all_iff maxFingerprintsGlobal_def maxFingerprintsPerRule_def)
qed

definition sample_engine :: "(unit, unit) engine" where
  "sample_engine =
     HandleSrvlogEvent 0 (snd (refreshCache (Inr [sample_rule]) (Inr [sample_channel]) (NewEngine sample_config)))
       sample_event"

lemma sample_engine_reach: "engine_reach sample_config (sample_env sample_failure) (sample_engine, 0)"
proof -
  let ?env = "sample_env sample_failure"
  have "reach (\<lambda>st. fst st = NewEngine sample_config) (engine_step ?env) (NewEngine sample_config, 0)"
    by (rule reach_init) simp
  then have "reach (\<lambda>st. fst st = NewEngine sample_config) (engine_step ?env)
      (snd (refreshCache (Inr [sample_rule]) (Inr [sample_channel]) (NewEngine sample_config)), 0)"
    by (rule reach_step) (rule engine_step.refresh)
  then have "reach (\<lambda>st. fst st = NewEngine sample_config) (engine_step ?env) (sample_engine, 0)"
    unfolding sample_engine_def
    by (rule reach_step) (use engine_step.srvlog [of ?env _ 0] in \<open>simp add: sample_env_def\<close>)
  then show ?thesis by (simp add: engine_reach_def)
qed


text \<open>An event is recorded with the suppressor exactly once for each enabled rule of its kind that
  matches it, in the order of the rule cache, and for no other rule.\<close>

lemma handleEvent_records_matching_rules:
  "handleEvent kind ev matches groupKey ts attach now e =
     fold (\<lambda>r e. record_rule e now r (groupKey r ev)
             (attach ev (zero_payload\<lparr>pl_Kind := kind, pl_RuleName := ru_Name r,
                           pl_Timestamp := ts, pl_EventCount := 1\<rparr>)))
       (filter (\<lambda>r. ru_Enabled r \<and> ru_EventKind r = kind \<and> matches r ev) (en_rules e)) e"
proof -
  have "handle_rules kind ev matches groupKey ts attach now rs e =
     fold (\<lambda>r e. record_rule e now r (groupKey r ev)
             (attach ev (zero_payload\<lparr>pl_Kind := kind, pl_RuleName := ru_Name r,
                           pl_Timestamp := ts, pl_EventCount := 1\<rparr>)))
       (filter (\<lambda>r. ru_Enabled r \<and> ru_EventKind r = kind \<and> matches r ev) rs) e" for rs
    by (induction rs arbitrary: e) (simp_all add: Let_def)
  then show ?thesis by (simp add: handleEvent_def)
qed

text \<open>The windows handed to the suppressor are positive whatever millisecond values a rule
  carries, even ones that overflow the conversion to nanoseconds, as long as the engine's defaults are
  positive: the precondition of \<^verbatim>\<open>Record\<close> holds.\<close>

lemma windowsFor_positive:
  assumes "0 < cfg_DefaultSilence cfg" "0 < cfg_DefaultSilenceMax cfg" "0 \<le> cfg_DefaultCoalesce cfg"
    and "in64 (cfg_DefaultSilence cfg)" "in64 (cfg_DefaultSilenceMax cfg)"
  shows "case windowsFor cfg r of (silence, silenceMax, coalesce) \<Rightarrow>
           0 < silence \<and> silence < 2 ^ 63 \<and> 0 < silenceMax \<and> silenceMax < 2 ^ 63 \<and> 0 \<le> coalesce"
  using assms in64_wrap64 [of "ru_SilenceMS r * millisecond"] in64_wrap64 [of "ru_SilenceMaxMS r * millisecond"]
  by (auto simp: windowsFor_def Let_def Silence_def SilenceMax_def in64_def)


lemma map_of_filter_value:
  "distinct (map fst xs) \<Longrightarrow>
   map_of (filter (\<lambda>(_, v). P v) xs) k = (case map_of xs k of None \<Rightarrow> None | Some v \<Rightarrow> if P v then Some v else None)"
  by (induction xs) (auto split: option.splits dest!: map_of_SomeD, (metis fst_conv image_eqI)+)

text \<open>A limiter in use keeps its bucket: eviction within an hour of the last use leaves the entry
  that \<^verbatim>\<open>Allow\<close> stored, and eviction drops exactly the entries idle for longer than the limit.\<close>

lemma eviction_keeps_limiters_in_use:
  assumes "distinct (map fst l)" and "Allow mk al l now i ty = (ok, l')"
    and "in64 (now' - now)"
  shows "distinct (map fst (evictOlderThan l' now' ttl))
       \<and> map_of (evictOlderThan l' now' ttl) i = (if now' - now \<le> ttl then map_of l' i else None)
       \<and> (\<exists>entry. map_of l' i = Some entry \<and> lim_lastUsed entry = now)
       \<and> (j \<noteq> i \<longrightarrow> map_of (evictOlderThan l' now' ttl) j =
            (case map_of l j of None \<Rightarrow> None
             | Some entry \<Rightarrow> if time_sub now' (lim_lastUsed entry) > ttl then None else Some entry))"
proof -
  obtain entry where l': "l' = AList.update i entry l" "lim_lastUsed entry = now"
    using assms(2) by (auto simp: Allow_def Let_def split: prod.splits option.splits)
  have d: "distinct (map fst l')" unfolding l' by (rule distinct_update [OF assms(1)])
  have "map_of (evictOlderThan l' now' ttl) k =
      (case map_of l' k of None \<Rightarrow> None
       | Some v \<Rightarrow> if \<not> time_sub now' (lim_lastUsed v) > ttl then Some v else None)" for k
    unfolding evictOlderThan_def by (rule map_of_filter_value [OF d])
  moreover have "distinct (map fst (evictOlderThan l' now' ttl))"
    unfolding evictOlderThan_def using d by (simp add: distinct_map_filter)
  moreover have "time_sub now' now = now' - now" using assms(3) by (simp add: time_sub_exact)
  ultimately show ?thesis
    using l' by (auto simp: update_conv' split: option.split)
qed


end
