(* ===== verification/LogShipper.thy ===== *)
theory LogShipper
  imports Filters "HOL-Library.AList"
begin

text \<open>
  The client library that ships log records to the ingest endpoint:
  \<^verbatim>\<open>pkg/logshipper/handler.go\<close>. Records become entries on a bounded channel; one goroutine batches
  them, sends a batch as one HTTP request, retries a failed batch once and drains on shutdown. Every
  call to \<^verbatim>\<open>Handle\<close> and every turn of the goroutine is a step on one state. JSON encoding, URL parsing,
  the system host name, the HTTP client and the shutdown context are parameters. The lemmas show that
  no entry is lost without being counted and that no request exceeds the server's limits.
\<close>

section \<open>Limits\<close>

definition LevelFatal :: int where "LevelFatal = 12"
definition LevelError :: int where "LevelError = 8"
definition LevelWarn :: int where "LevelWarn = 4"
definition LevelInfo :: int where "LevelInfo = 0"

definition defaultBatchSize :: int where "defaultBatchSize = 100"
definition maxBatchEntries :: int where "maxBatchEntries = 1000"
definition defaultFlushPeriod :: duration where "defaultFlushPeriod = second"
definition defaultBufferSize :: int where "defaultBufferSize = 1024"
definition defaultSendTimeout :: duration where "defaultSendTimeout = 30 * second"
definition maxMsgBytes :: nat where "maxMsgBytes = 64 * 1024"
definition maxAttrsBytes :: nat where "maxAttrsBytes = 64 * 1024"
definition maxServiceBytes :: nat where "maxServiceBytes = 128"
definition maxComponentBytes :: nat where "maxComponentBytes = 128"
definition maxHostBytes :: nat where "maxHostBytes = 256"
definition maxSourceBytes :: nat where "maxSourceBytes = 256"

text \<open>The horizontal ellipsis is the three bytes E2 80 A6.\<close>

definition sourceCutPrefix :: string where "sourceCutPrefix = [CHR 0xE2, CHR 0x80, CHR 0xA6]"
definition emptyMsgPlaceholder :: string where "emptyMsgPlaceholder = ''(empty)''"
definition truncationSuffix :: string where
  "truncationSuffix = [CHR 0xE2, CHR 0x80, CHR 0xA6] @ ''[truncated]''"
definition requestPrefix :: string where
  "requestPrefix = [CHR 0x7B, CHR 0x22] @ ''logs'' @ [CHR 0x22, CHR '':'', CHR ''['']"
definition requestSuffix :: string where "requestSuffix = [CHR '']'', CHR 0x7D]"
definition emptyRequestBytes :: nat where
  "emptyRequestBytes = length requestPrefix + length requestSuffix"
definition requestByteLimit :: nat where "requestByteLimit = 4 * 1024 * 1024"

lemmas ship_limits = maxMsgBytes_def maxAttrsBytes_def maxServiceBytes_def maxComponentBytes_def
  maxHostBytes_def maxSourceBytes_def

definition levelString :: "int \<Rightarrow> string" where
  "levelString l =
     (if l \<ge> LevelFatal then ''FATAL''
      else if l \<ge> LevelError then ''ERROR''
      else if l \<ge> LevelWarn then ''WARN''
      else if l \<ge> LevelInfo then ''INFO''
      else ''DEBUG'')"

section \<open>Attributes\<close>

text \<open>A resolved \<^verbatim>\<open>slog.Value\<close>: a group, or a value with the text its \<^verbatim>\<open>String\<close> or \<^verbatim>\<open>Error\<close> method gives;
  \<^verbatim>\<open>KRaw\<close> is any other value with its JSON text.\<close>

datatype slog_value =
    KGroup "(string \<times> slog_value) list"
  | KDuration string
  | KNil
  | KError string
  | KStringer string
  | KString string
  | KRaw string

datatype json_value = JStr string | JRaw string | JNull

datatype attr_tree = Leaf json_value | AttrGroup "(string \<times> attr_tree) list"

type_synonym attr_map = "(string \<times> attr_tree) list"

definition groupValueKey :: string where "groupValueKey = ''_value''"

text \<open>The map \<^verbatim>\<open>groupMap\<close> descends into at one group name.\<close>

definition sub_map :: "attr_map \<Rightarrow> string \<Rightarrow> attr_map" where
  "sub_map m g =
     (case map_of m g of
        Some (AttrGroup sub) \<Rightarrow> sub
      | Some v \<Rightarrow> [(groupValueKey, v)]
      | None \<Rightarrow> [])"

fun put_value :: "string list \<Rightarrow> string \<Rightarrow> json_value \<Rightarrow> attr_map \<Rightarrow> attr_map" where
  "put_value [] key v m =
     (case map_of m key of
        Some (AttrGroup sub) \<Rightarrow>
          AList.update key (AttrGroup (AList.update groupValueKey (Leaf v) sub)) m
      | _ \<Rightarrow> AList.update key (Leaf v) m)"
| "put_value (g # gs) key v m =
     AList.update g (AttrGroup (put_value gs key v (sub_map m g))) m"

fun value_of :: "slog_value \<Rightarrow> json_value" where
  "value_of (KDuration s) = JStr s"
| "value_of KNil = JNull"
| "value_of (KError s) = JStr s"
| "value_of (KStringer s) = JStr s"
| "value_of (KString s) = JStr s"
| "value_of (KRaw s) = JRaw s"
| "value_of (KGroup _) = JNull"

record ship_config =
  shc_Endpoint :: string
  shc_Service :: string
  shc_Component :: string
  shc_Host :: string
  shc_AddSource :: bool
  shc_MinLevel :: int
  shc_BatchSize :: int
  shc_FlushPeriod :: duration
  shc_BufferSize :: int
  shc_SendTimeout :: duration
  shc_Redact :: "(string \<Rightarrow> json_value \<Rightarrow> json_value option) option"
  shc_MaxAttrBytes :: int

definition truncate_attr :: "ship_config \<Rightarrow> json_value \<Rightarrow> json_value" where
  "truncate_attr cfg v =
     (case v of
        JStr s \<Rightarrow>
          if shc_MaxAttrBytes cfg > 0 \<and> int (length s) > shc_MaxAttrBytes cfg
          then JStr (take (nat (shc_MaxAttrBytes cfg)) s @ truncationSuffix) else v
      | _ \<Rightarrow> v)"

fun setAttr :: "ship_config \<Rightarrow> string list \<Rightarrow> string \<Rightarrow> slog_value \<Rightarrow> attr_map \<Rightarrow> attr_map"
and setAttrs :: "ship_config \<Rightarrow> string list \<Rightarrow> (string \<times> slog_value) list \<Rightarrow> attr_map \<Rightarrow> attr_map" where
  "setAttr cfg groups key v m =
     (if key = [] \<and> v = KNil then m
      else case v of
        KGroup gas \<Rightarrow> setAttrs cfg (if key \<noteq> [] then groups @ [key] else groups) gas m
      | _ \<Rightarrow>
          (case (case shc_Redact cfg of None \<Rightarrow> Some (value_of v) | Some f \<Rightarrow> f key (value_of v)) of
             None \<Rightarrow> m
           | Some u \<Rightarrow> put_value groups key (truncate_attr cfg u) m))"
| "setAttrs cfg groups [] m = m"
| "setAttrs cfg groups ((k, v) # as) m = setAttrs cfg groups as (setAttr cfg groups k v m)"

section \<open>Configuration\<close>

datatype config_error =
    ServiceRequired
  | ServiceTooLong
  | ComponentTooLong
  | BadEndpoint string
  | EndpointScheme
  | EndpointHost
  | HostLookup string
  | HostEmpty
  | HostTooLong

definition fill_defaults :: "ship_config \<Rightarrow> ship_config" where
  "fill_defaults c =
     (let bs = (if shc_BatchSize c \<le> 0 then defaultBatchSize else shc_BatchSize c);
          bs = (if bs > maxBatchEntries then maxBatchEntries else bs) in
      c\<lparr>shc_BatchSize := bs,
        shc_FlushPeriod := (if shc_FlushPeriod c \<le> 0 then defaultFlushPeriod else shc_FlushPeriod c),
        shc_BufferSize := (if shc_BufferSize c \<le> 0 then defaultBufferSize else shc_BufferSize c),
        shc_SendTimeout := (if shc_SendTimeout c \<le> 0 then defaultSendTimeout else shc_SendTimeout c),
        shc_Service := to_valid_utf8 (shc_Service c),
        shc_Component := to_valid_utf8 (shc_Component c)\<rparr>)"

text \<open>\<^verbatim>\<open>parseURL\<close> gives scheme and host, \<^verbatim>\<open>osHostname\<close> the system's name, or an error.\<close>

definition resolve_host :: "(string + string) \<Rightarrow> string \<Rightarrow> config_error + string" where
  "resolve_host osHostname host =
     (if host = []
      then (case osHostname of
              Inl err \<Rightarrow> Inl (HostLookup err)
            | Inr h \<Rightarrow> if h = [] then Inl HostEmpty else Inr h)
      else Inr host)"

definition setDefaults ::
  "(string \<Rightarrow> string + string \<times> string) \<Rightarrow> (string + string) \<Rightarrow> ship_config \<Rightarrow> config_error + ship_config" where
  "setDefaults parseURL osHostname c0 =
     (let c = fill_defaults c0 in
      if shc_Service c = [] then Inl ServiceRequired
      else if length (shc_Service c) > maxServiceBytes then Inl ServiceTooLong
      else if length (shc_Component c) > maxComponentBytes then Inl ComponentTooLong
      else case parseURL (shc_Endpoint c) of
        Inl err \<Rightarrow> Inl (BadEndpoint err)
      | Inr (scheme, host) \<Rightarrow>
          if scheme \<noteq> ''http'' \<and> scheme \<noteq> ''https'' then Inl EndpointScheme
          else if host = [] then Inl EndpointHost
          else
            (case resolve_host osHostname (shc_Host c) of
               Inl err \<Rightarrow> Inl err
             | Inr h \<Rightarrow>
                 (let h = to_valid_utf8 h in
                  if length h > maxHostBytes then Inl HostTooLong else Inr (c\<lparr>shc_Host := h\<rparr>))))"

text \<open>What an accepted configuration promises.\<close>

lemma setDefaults_InrD:
  assumes "setDefaults parseURL osHostname c0 = Inr c"
  shows "1 \<le> shc_BatchSize c" "shc_BatchSize c \<le> 1000" "shc_Service c \<noteq> []" "valid_utf8 (shc_Service c)"
    "length (shc_Service c) \<le> 128" "valid_utf8 (shc_Component c)" "length (shc_Component c) \<le> 128"
    "shc_Host c \<noteq> []" "valid_utf8 (shc_Host c)" "length (shc_Host c) \<le> 256"
proof -
  let ?f = "fill_defaults c0"
  from assms obtain h where h: "resolve_host osHostname (shc_Host ?f) = Inr h"
    and c: "c = ?f\<lparr>shc_Host := to_valid_utf8 h\<rparr>" "length (to_valid_utf8 h) \<le> maxHostBytes"
      "shc_Service ?f \<noteq> []" "length (shc_Service ?f) \<le> maxServiceBytes"
      "length (shc_Component ?f) \<le> maxComponentBytes"
    unfolding setDefaults_def Let_def by (auto split: if_split_asm sum.split_asm prod.split_asm)
  have f: "1 \<le> shc_BatchSize ?f" "shc_BatchSize ?f \<le> 1000" "valid_utf8 (shc_Service ?f)"
      "valid_utf8 (shc_Component ?f)"
    by (simp_all add: fill_defaults_def Let_def defaultBatchSize_def maxBatchEntries_def valid_to_valid_utf8)
  have "h \<noteq> []" using h by (auto simp: resolve_host_def split: if_split_asm sum.split_asm)
  with c f show "1 \<le> shc_BatchSize c" "shc_BatchSize c \<le> 1000" "shc_Service c \<noteq> []" "valid_utf8 (shc_Service c)"
    "length (shc_Service c) \<le> 128" "valid_utf8 (shc_Component c)" "length (shc_Component c) \<le> 128"
    "shc_Host c \<noteq> []" "valid_utf8 (shc_Host c)" "length (shc_Host c) \<le> 256"
    by (simp_all add: ship_limits to_valid_utf8_neq_Nil valid_to_valid_utf8)
qed

section \<open>Records and entries\<close>

text \<open>\<^const>\<open>None\<close> is the zero time; the source is the file and line of the program counter.\<close>

record slog_record =
  rec_Time :: "instant option"
  rec_Level :: int
  rec_Message :: string
  rec_Attrs :: "(string \<times> slog_value) list"
  rec_Source :: "(string \<times> int) option"

record ship_entry =
  se_Timestamp :: instant
  se_Level :: string
  se_Msg :: string
  se_Service :: string
  se_Component :: string
  se_Host :: string
  se_Source :: string
  se_Attrs :: string

fun cut_back :: "string \<Rightarrow> nat \<Rightarrow> nat" where
  "cut_back msg i =
     (if i > 0 \<and> \<not> runeStart (msg ! i) then cut_back msg (i - 1) else i)"

definition truncateMsg :: "string \<Rightarrow> string" where
  "truncateMsg m =
     (let msg = to_valid_utf8 m in
      if length msg \<le> maxMsgBytes then msg
      else take (cut_back msg (maxMsgBytes - length truncationSuffix)) msg @ truncationSuffix)"

function cut_forward :: "string \<Rightarrow> nat \<Rightarrow> nat" where
  "cut_forward s i =
     (if i < length s \<and> \<not> runeStart (s ! i) then cut_forward s (i + 1) else i)"
  by pat_completeness auto
termination by (relation "measure (\<lambda>(s, i). length s - i)") auto

definition shortenSource :: "string \<Rightarrow> string" where
  "shortenSource s =
     (let source = to_valid_utf8 s in
      if length source \<le> maxSourceBytes then source
      else sourceCutPrefix @
        drop (cut_forward source (length source - (maxSourceBytes - length sourceCutPrefix))) source)"

definition attrsDroppedPayload :: "nat \<Rightarrow> string" where
  "attrsDroppedPayload n =
     [CHR 0x7B, CHR 0x22] @ ''_attrs_dropped_bytes'' @ [CHR 0x22, CHR '':''] @ fmt_int (int n) @ [CHR 0x7D]"

section \<open>The handler's state\<close>

text \<open>A request that failed: a status other than 2xx, or anything else.\<close>

datatype send_error = StatusError int | OtherError string

datatype post_result = PostStatus int | PostFailed string

record 'w ship_env =
  she_now :: "'w \<Rightarrow> instant"
  she_ctxErr :: "'w \<Rightarrow> bool"
  she_post :: "string \<Rightarrow> 'w \<Rightarrow> post_result \<times> 'w"
  she_marshal :: "ship_entry \<Rightarrow> string option"
  she_marshalAttrs :: "attr_map \<Rightarrow> string + string"
  she_encodeError :: "string \<Rightarrow> string"

text \<open>The counters and the channel are shared by all derived handlers; \<^verbatim>\<open>batch\<close>, \<^verbatim>\<open>batchBytes\<close>, \<^verbatim>\<open>retry\<close> and
  \<^verbatim>\<open>draining\<close> are the locals of the loop. \<^verbatim>\<open>sh_requests\<close> are the batches posted so far,
  \<^verbatim>\<open>sh_delivered\<close> counts acknowledged entries, \<^verbatim>\<open>sh_handled\<close> the calls to \<^verbatim>\<open>Handle\<close>.\<close>

record shipper =
  sh_cfg :: ship_config
  sh_maxRequestBytes :: nat
  sh_ch :: "ship_entry list"
  sh_closing :: bool
  sh_stopped :: bool
  sh_dropped :: nat
  sh_sendFailed :: nat
  sh_encodeFailed :: nat
  sh_batch :: "string list"
  sh_batchBytes :: nat
  sh_retry :: "string list"
  sh_draining :: bool
  sh_requests :: "string list list"
  sh_delivered :: nat
  sh_handled :: nat

definition new_shipper :: "ship_config \<Rightarrow> shipper" where
  "new_shipper cfg =
     \<lparr>sh_cfg = cfg, sh_maxRequestBytes = requestByteLimit, sh_ch = [], sh_closing = False,
      sh_stopped = False, sh_dropped = 0, sh_sendFailed = 0, sh_encodeFailed = 0, sh_batch = [],
      sh_batchBytes = emptyRequestBytes, sh_retry = [], sh_draining = False, sh_requests = [],
      sh_delivered = 0, sh_handled = 0\<rparr>"

definition ship_New ::
  "(string \<Rightarrow> string + string \<times> string) \<Rightarrow> (string + string) \<Rightarrow> ship_config \<Rightarrow> config_error + shipper" where
  "ship_New parseURL osHostname cfg =
     (case setDefaults parseURL osHostname cfg of Inl err \<Rightarrow> Inl err | Inr c \<Rightarrow> Inr (new_shipper c))"

text \<open>The attributes and groups a derived handler carries.\<close>

record derived =
  dh_withAttrs :: "(string list \<times> (string \<times> slog_value) list) list"
  dh_groups :: "string list"

definition WithAttrs :: "(string \<times> slog_value) list \<Rightarrow> derived \<Rightarrow> derived" where
  "WithAttrs attrs d = (if attrs = [] then d else d\<lparr>dh_withAttrs := dh_withAttrs d @ [(dh_groups d, attrs)]\<rparr>)"

definition WithGroup :: "string \<Rightarrow> derived \<Rightarrow> derived" where
  "WithGroup name d = (if name = [] then d else d\<lparr>dh_groups := dh_groups d @ [name]\<rparr>)"

definition Enabled :: "ship_config \<Rightarrow> int \<Rightarrow> bool" where
  "Enabled cfg level \<longleftrightarrow> level \<ge> shc_MinLevel cfg"

definition all_attrs :: "ship_config \<Rightarrow> derived \<Rightarrow> slog_record \<Rightarrow> attr_map" where
  "all_attrs cfg d r =
     setAttrs cfg (dh_groups d) (rec_Attrs r)
       (fold (\<lambda>(groups, attrs) m. setAttrs cfg groups attrs m) (dh_withAttrs d) [])"

definition make_entry :: "'w ship_env \<Rightarrow> 'w \<Rightarrow> ship_config \<Rightarrow> derived \<Rightarrow> slog_record \<Rightarrow> ship_entry \<times> nat" where
  "make_entry env w cfg d r =
     (let entry =
            \<lparr>se_Timestamp = (case rec_Time r of None \<Rightarrow> she_now env w | Some t \<Rightarrow> t),
             se_Level = levelString (rec_Level r),
             se_Msg = truncateMsg (if rec_Message r = [] then emptyMsgPlaceholder else rec_Message r),
             se_Service = shc_Service cfg, se_Component = shc_Component cfg, se_Host = shc_Host cfg,
             se_Source = (case rec_Source r of
                            Some (file, line) \<Rightarrow>
                              if shc_AddSource cfg then shortenSource (file @ '':'' @ fmt_int line) else []
                          | None \<Rightarrow> []),
             se_Attrs = []\<rparr>;
          attrs = all_attrs cfg d r in
      if attrs = [] then (entry, 0)
      else case she_marshalAttrs env attrs of
        Inl err \<Rightarrow> (entry\<lparr>se_Attrs := she_encodeError env err\<rparr>, 1)
      | Inr raw \<Rightarrow>
          if length raw > maxAttrsBytes then (entry\<lparr>se_Attrs := attrsDroppedPayload (length raw)\<rparr>, 1)
          else (entry\<lparr>se_Attrs := raw\<rparr>, 0))"

text \<open>\<^verbatim>\<open>closing\<close> covers both early exits: the write lock of the barrier is taken only after it is set.\<close>

definition Handle :: "'w ship_env \<Rightarrow> 'w \<Rightarrow> derived \<Rightarrow> slog_record \<Rightarrow> shipper \<Rightarrow> shipper" where
  "Handle env w d r h =
     (let h = h\<lparr>sh_handled := sh_handled h + 1\<rparr> in
      if sh_closing h then h\<lparr>sh_dropped := sh_dropped h + 1\<rparr>
      else
        (case make_entry env w (sh_cfg h) d r of (entry, encFailed) \<Rightarrow>
         (let h = h\<lparr>sh_encodeFailed := sh_encodeFailed h + encFailed\<rparr> in
          if int (length (sh_ch h)) < shc_BufferSize (sh_cfg h)
          then h\<lparr>sh_ch := sh_ch h @ [entry]\<rparr>
          else h\<lparr>sh_dropped := sh_dropped h + 1\<rparr>)))"

section \<open>The sending loop\<close>

definition request_body :: "string list \<Rightarrow> string" where
  "request_body entries = requestPrefix @ str_join '','' entries @ requestSuffix"

definition send :: "'w ship_env \<Rightarrow> string list \<Rightarrow> 'w \<Rightarrow> send_error option \<times> 'w" where
  "send env entries w =
     (case she_post env (request_body entries) w of
        (PostFailed err, w1) \<Rightarrow> (Some (OtherError err), w1)
      | (PostStatus code, w1) \<Rightarrow>
          (if code < 200 \<or> code \<ge> 300 then Some (StatusError code) else None, w1))"

definition retryable :: "send_error \<Rightarrow> bool" where
  "retryable err =
     (case err of
        OtherError _ \<Rightarrow> True
      | StatusError code \<Rightarrow>
          if code = 401 \<or> code = 408 \<or> code = 429 then True else code < 400 \<or> code \<ge> 500)"

text \<open>A request posted and, when acknowledged, counted as delivered.\<close>

definition note_request :: "string list \<Rightarrow> send_error option \<Rightarrow> shipper \<Rightarrow> shipper" where
  "note_request entries err h =
     h\<lparr>sh_requests := sh_requests h @ [entries],
       sh_delivered := (if err = None then sh_delivered h + length entries else sh_delivered h)\<rparr>"

definition flush_retry :: "'w ship_env \<Rightarrow> shipper \<times> 'w \<Rightarrow> bool \<times> shipper \<times> 'w" where
  "flush_retry env hw =
     (case hw of (h, w) \<Rightarrow>
      if sh_retry h \<noteq> [] then
        (case send env (sh_retry h) w of
           (err, w1) \<Rightarrow>
             (let h1 = note_request (sh_retry h) err h in
              case err of
                None \<Rightarrow> (False, h1\<lparr>sh_retry := []\<rparr>, w1)
              | Some e \<Rightarrow>
                  (retryable e,
                   h1\<lparr>sh_sendFailed := sh_sendFailed h1 + length (sh_retry h), sh_retry := []\<rparr>, w1)))
      else (False, h, w))"

definition ship_flush :: "'w ship_env \<Rightarrow> shipper \<times> 'w \<Rightarrow> shipper \<times> 'w" where
  "ship_flush env hw =
     (case flush_retry env hw of (endpointFailing, h, w) \<Rightarrow>
      if sh_batch h = [] then (h, w)
      else
        (let (h, w) =
           (if endpointFailing \<and> \<not> sh_draining h then (h\<lparr>sh_retry := sh_batch h\<rparr>, w)
            else
              (case send env (sh_batch h) w of
                 (err, w1) \<Rightarrow>
                   (let h1 = note_request (sh_batch h) err h in
                    case err of
                      None \<Rightarrow> (h1, w1)
                    | Some e \<Rightarrow>
                        if retryable e then (h1\<lparr>sh_retry := sh_batch h1\<rparr>, w1)
                        else (h1\<lparr>sh_sendFailed := sh_sendFailed h1 + length (sh_batch h1)\<rparr>, w1)))) in
         (h\<lparr>sh_batch := [], sh_batchBytes := emptyRequestBytes\<rparr>, w)))"

definition ship_add :: "'w ship_env \<Rightarrow> ship_entry \<Rightarrow> shipper \<times> 'w \<Rightarrow> shipper \<times> 'w" where
  "ship_add env entry hw =
     (case hw of (h, w) \<Rightarrow>
      case she_marshal env entry of
        None \<Rightarrow> (h\<lparr>sh_sendFailed := sh_sendFailed h + 1\<rparr>, w)
      | Some raw \<Rightarrow>
          if emptyRequestBytes + length raw > sh_maxRequestBytes h
          then (h\<lparr>sh_sendFailed := sh_sendFailed h + 1\<rparr>, w)
          else
            (let (h, w) =
               (if sh_batch h \<noteq> [] \<and> sh_batchBytes h + 1 + length raw > sh_maxRequestBytes h
                then ship_flush env (h, w) else (h, w));
                 h = (if sh_batch h \<noteq> [] then h\<lparr>sh_batchBytes := sh_batchBytes h + 1\<rparr> else h);
                 h = h\<lparr>sh_batch := sh_batch h @ [raw], sh_batchBytes := sh_batchBytes h + length raw\<rparr> in
             if int (length (sh_batch h)) \<ge> shc_BatchSize (sh_cfg h) then ship_flush env (h, w) else (h, w)))"

text \<open>The drain: no \<^verbatim>\<open>Handle\<close> pushes any more, so the channel only shrinks and the loop ends.\<close>

fun drain_loop :: "'w ship_env \<Rightarrow> ship_entry list \<Rightarrow> shipper \<times> 'w \<Rightarrow> shipper \<times> 'w" where
  "drain_loop env pending (h, w) =
     (if she_ctxErr env w then
        (h\<lparr>sh_sendFailed := sh_sendFailed h + (length (sh_batch h) + length (sh_retry h) + length (sh_ch h)),
           sh_batch := [], sh_batchBytes := emptyRequestBytes, sh_retry := [], sh_ch := [],
           sh_stopped := True\<rparr>, w)
      else
        (case pending of
           entry # rest \<Rightarrow> drain_loop env rest (ship_add env entry (h\<lparr>sh_ch := rest\<rparr>, w))
         | [] \<Rightarrow>
             (case ship_flush env (h, w) of
                (h1, w1) \<Rightarrow>
                  (h1\<lparr>sh_sendFailed := sh_sendFailed h1 + length (sh_retry h1), sh_retry := [],
                      sh_stopped := True\<rparr>, w1))))"

definition drain :: "'w ship_env \<Rightarrow> shipper \<times> 'w \<Rightarrow> shipper \<times> 'w" where
  "drain env hw = (case hw of (h, w) \<Rightarrow> drain_loop env (sh_ch h) (h\<lparr>sh_draining := True\<rparr>, w))"

text \<open>What the goroutine and its users can do next. The shutdown marks the handler and closes \<^verbatim>\<open>done\<close>,
  after which only the drain runs.\<close>

inductive ship_step :: "'w ship_env \<Rightarrow> shipper \<times> 'w \<Rightarrow> shipper \<times> 'w \<Rightarrow> bool"
  for env :: "'w ship_env" where
  step_handle: "ship_step env (h, w) (Handle env w d r h, w)"
| step_receive: "sh_ch h = entry # rest \<Longrightarrow> \<not> sh_stopped h \<Longrightarrow>
    ship_step env (h, w) (ship_add env entry (h\<lparr>sh_ch := rest\<rparr>, w))"
| step_tick: "\<not> sh_stopped h \<Longrightarrow> ship_step env (h, w) (ship_flush env (h, w))"
| step_shutdown: "ship_step env (h, w) (h\<lparr>sh_closing := True\<rparr>, w)"
| step_drain: "sh_closing h \<Longrightarrow> \<not> sh_stopped h \<Longrightarrow> ship_step env (h, w) (drain env (h, w))"
| step_world: "ship_step env (h, w) (h, w')"

definition ship_reach :: "ship_config \<Rightarrow> 'w ship_env \<Rightarrow> shipper \<times> 'w \<Rightarrow> bool" where
  "ship_reach cfg env = reach (\<lambda>hw. fst hw = new_shipper cfg) (ship_step env)"

section \<open>The invariant of the loop\<close>

text \<open>A batch the server accepts as one request.\<close>

definition req_ok :: "ship_config \<Rightarrow> nat \<Rightarrow> string list \<Rightarrow> bool" where
  "req_ok cfg lim es \<longleftrightarrow> es \<noteq> [] \<and> int (length es) \<le> max 1 (shc_BatchSize cfg)
     \<and> length (request_body es) \<le> lim"

definition in_loop :: "shipper \<Rightarrow> nat" where
  "in_loop h = sh_delivered h + sh_sendFailed h + length (sh_batch h) + length (sh_retry h)"

text \<open>What flushing and adding leave alone.\<close>

definition frame :: "shipper \<Rightarrow> ship_config \<times> nat \<times> ship_entry list \<times> nat \<times> nat \<times> bool \<times> bool" where
  "frame h = (sh_cfg h, sh_maxRequestBytes h, sh_ch h, sh_dropped h, sh_handled h, sh_closing h, sh_stopped h)"

definition loop_ok :: "shipper \<Rightarrow> bool" where
  "loop_ok h \<longleftrightarrow>
     (if sh_batch h = [] then sh_batchBytes h = emptyRequestBytes
      else sh_batchBytes h = length (request_body (sh_batch h))
         \<and> req_ok (sh_cfg h) (sh_maxRequestBytes h) (sh_batch h))
   \<and> (sh_retry h \<noteq> [] \<longrightarrow> req_ok (sh_cfg h) (sh_maxRequestBytes h) (sh_retry h))
   \<and> list_all (req_ok (sh_cfg h) (sh_maxRequestBytes h)) (sh_requests h)"

lemma length_str_join:
  "es \<noteq> [] \<Longrightarrow> length (str_join [c] es) = sum_list (map length es) + (length es - 1)"
  by (induction "[c]" es rule: str_join.induct) auto

lemma length_request_body:
  "es \<noteq> [] \<Longrightarrow> length (request_body es) = emptyRequestBytes + sum_list (map length es) + (length es - 1)"
  by (simp add: request_body_def emptyRequestBytes_def length_str_join)

lemma flush_retry_spec:
  assumes "flush_retry env (h, w) = (b, h', w')" "loop_ok h"
  shows "loop_ok h' \<and> in_loop h' = in_loop h \<and> frame h' = frame h \<and> sh_retry h' = []
       \<and> sh_batch h' = sh_batch h \<and> sh_draining h' = sh_draining h"
  using assms
  by (auto simp: flush_retry_def loop_ok_def in_loop_def frame_def note_request_def Let_def
      split: if_splits prod.splits option.splits)

lemma flush_spec:
  assumes "ship_flush env (h, w) = (h', w')" "loop_ok h"
  shows "loop_ok h' \<and> in_loop h' = in_loop h \<and> frame h' = frame h \<and> sh_batch h' = []"
proof -
  obtain b h1 w1 where r: "flush_retry env (h, w) = (b, h1, w1)" by (cases "flush_retry env (h, w)")
  note r1 = flush_retry_spec [OF r assms(2)]
  obtain err w2 where s: "send env (sh_batch h1) w1 = (err, w2)" by fastforce
  show ?thesis
  proof (cases "sh_batch h1 = []")
    case True
    then show ?thesis using assms(1) r r1 by (simp add: ship_flush_def)
  next
    case False
    then have ok: "req_ok (sh_cfg h1) (sh_maxRequestBytes h1) (sh_batch h1)"
      using r1 by (auto simp: loop_ok_def)
    have rq: "list_all (req_ok (sh_cfg h1) (sh_maxRequestBytes h1)) (sh_requests h1)" "sh_retry h1 = []"
      using r1 by (auto simp: loop_ok_def)
    let ?done = "\<lambda>h. h\<lparr>sh_batch := [], sh_batchBytes := emptyRequestBytes\<rparr>"
    let ?note = "note_request (sh_batch h1) err h1"
    have n: "sh_batch ?note = sh_batch h1" by (simp add: note_request_def)
    consider "h' = ?done (h1\<lparr>sh_retry := sh_batch h1\<rparr>)"
      | "h' = ?done ?note" "err = None"
      | "h' = ?done (?note\<lparr>sh_retry := sh_batch h1\<rparr>)" "err \<noteq> None"
      | "h' = ?done (?note\<lparr>sh_sendFailed := sh_sendFailed ?note + length (sh_batch h1)\<rparr>)" "err \<noteq> None"
    proof (cases "b \<and> \<not> sh_draining h1")
      case True
      then show thesis using that(1) assms(1) r False by (simp add: ship_flush_def)
    next
      case nb: False
      show thesis
      proof (cases err)
        case None
        then show thesis using that(2) assms(1) r s False nb by (simp add: ship_flush_def)
      next
        case (Some e)
        then show thesis
          using that(3,4) assms(1) r s False nb n by (cases "retryable e") (auto simp: ship_flush_def Let_def)
      qed
    qed
    then have "loop_ok h' \<and> in_loop h' = in_loop h1 \<and> frame h' = frame h1 \<and> sh_batch h' = []"
      by cases (use rq ok in \<open>simp_all add: loop_ok_def in_loop_def frame_def note_request_def\<close>)
    then show ?thesis using r1 by simp
  qed
qed

lemma add_spec:
  assumes "ship_add env entry (h, w) = (h', w')" "loop_ok h"
    and "int (length (sh_batch h)) < max 1 (shc_BatchSize (sh_cfg h))"
  shows "loop_ok h' \<and> in_loop h' = Suc (in_loop h) \<and> frame h' = frame h
       \<and> int (length (sh_batch h')) < max 1 (shc_BatchSize (sh_cfg h'))"
proof (cases "she_marshal env entry")
  case None
  then show ?thesis
    using assms by (auto simp: ship_add_def loop_ok_def in_loop_def frame_def)
next
  case (Some raw)
  show ?thesis
  proof (cases "emptyRequestBytes + length raw > sh_maxRequestBytes h")
    case True
    then show ?thesis
      using Some assms by (auto simp: ship_add_def loop_ok_def in_loop_def frame_def)
  next
    case fits: False
    obtain h1 w1 where h1: "(if sh_batch h \<noteq> [] \<and> sh_batchBytes h + 1 + length raw > sh_maxRequestBytes h
        then ship_flush env (h, w) else (h, w)) = (h1, w1)" by (cases "(if sh_batch h \<noteq> [] \<and> sh_batchBytes h + 1 + length raw > sh_maxRequestBytes h
        then ship_flush env (h, w) else (h, w))")
    have f1: "loop_ok h1" "in_loop h1 = in_loop h" "frame h1 = frame h"
      "int (length (sh_batch h1)) < max 1 (shc_BatchSize (sh_cfg h1))"
      "sh_batch h1 = [] \<or> sh_batchBytes h1 + 1 + length raw \<le> sh_maxRequestBytes h1"
      using h1 assms(2,3) flush_spec [OF _ assms(2), of env w h1 w1]
      by (auto simp: frame_def split: if_splits)
    let ?h2 = "if sh_batch h1 \<noteq> [] then h1\<lparr>sh_batchBytes := sh_batchBytes h1 + 1\<rparr> else h1"
    let ?h3 = "?h2\<lparr>sh_batch := sh_batch ?h2 @ [raw], sh_batchBytes := sh_batchBytes ?h2 + length raw\<rparr>"
    have max: "sh_maxRequestBytes h1 = sh_maxRequestBytes h" using f1(3) by (simp add: frame_def)
    have "length (request_body (sh_batch h1 @ [raw])) = sh_batchBytes ?h3"
      using f1(1) by (auto simp: length_request_body loop_ok_def)
    moreover have "sh_batchBytes ?h3 \<le> sh_maxRequestBytes h1"
      using f1 fits max by (auto simp: loop_ok_def)
    ultimately have h3: "loop_ok ?h3" "in_loop ?h3 = Suc (in_loop h)" "frame ?h3 = frame h"
      using f1 by (auto simp: loop_ok_def req_ok_def in_loop_def frame_def)
    have res: "ship_add env entry (h, w) =
        (if int (length (sh_batch ?h3)) \<ge> shc_BatchSize (sh_cfg ?h3) then ship_flush env (?h3, w1) else (?h3, w1))"
      using Some fits h1 by (simp add: ship_add_def Let_def)
    show ?thesis
    proof (cases "int (length (sh_batch ?h3)) \<ge> shc_BatchSize (sh_cfg ?h3)")
      case True
      then have "ship_flush env (?h3, w1) = (h', w')" using res assms(1) by simp
      from flush_spec [OF this h3(1)] h3 show ?thesis by (simp add: frame_def)
    next
      case False
      then have "h' = ?h3" using res assms(1) by simp
      with h3 False show ?thesis by auto
    qed
  qed
qed

definition ship_inv :: "shipper \<Rightarrow> bool" where
  "ship_inv h \<longleftrightarrow> loop_ok h \<and> int (length (sh_batch h)) < max 1 (shc_BatchSize (sh_cfg h))
     \<and> sh_handled h = sh_dropped h + length (sh_ch h) + in_loop h
     \<and> int (length (sh_ch h)) \<le> max 0 (shc_BufferSize (sh_cfg h))
     \<and> (sh_stopped h \<longrightarrow> sh_closing h \<and> sh_ch h = [] \<and> sh_batch h = [] \<and> sh_retry h = [])"

declare drain_loop.simps [simp del]

lemma drain_expired:
  assumes "drain_loop env pending (h, w) = (h', w')" "loop_ok h" "sh_ch h = pending" "she_ctxErr env w"
  shows "loop_ok h' \<and> in_loop h' = in_loop h + length pending \<and> sh_stopped h' \<and> sh_ch h' = []
       \<and> sh_batch h' = [] \<and> sh_retry h' = [] \<and> sh_cfg h' = sh_cfg h \<and> sh_dropped h' = sh_dropped h
       \<and> sh_maxRequestBytes h' = sh_maxRequestBytes h
       \<and> sh_handled h' = sh_handled h \<and> sh_closing h' = sh_closing h"
proof -
  have "h' = h\<lparr>sh_sendFailed := sh_sendFailed h + (length (sh_batch h) + length (sh_retry h) + length (sh_ch h)),
      sh_batch := [], sh_batchBytes := emptyRequestBytes, sh_retry := [], sh_ch := [], sh_stopped := True\<rparr>"
    using assms(1,4) by (simp add: drain_loop.simps)
  then show ?thesis using assms(2,3) by (simp add: loop_ok_def in_loop_def)
qed

lemma drain_loop_spec:
  assumes "drain_loop env pending (h, w) = (h', w')" "loop_ok h" "sh_ch h = pending"
    and "int (length (sh_batch h)) < max 1 (shc_BatchSize (sh_cfg h))"
  shows "loop_ok h' \<and> in_loop h' = in_loop h + length pending \<and> sh_stopped h' \<and> sh_ch h' = []
       \<and> sh_batch h' = [] \<and> sh_retry h' = [] \<and> sh_cfg h' = sh_cfg h \<and> sh_dropped h' = sh_dropped h
       \<and> sh_maxRequestBytes h' = sh_maxRequestBytes h
       \<and> sh_handled h' = sh_handled h \<and> sh_closing h' = sh_closing h"
  using assms
proof (induction pending arbitrary: h w)
  case Nil
  show ?case
  proof (cases "she_ctxErr env w")
    case True
    with Nil.prems show ?thesis by (intro drain_expired)
  next
    case False
    obtain h1 w1 where f: "ship_flush env (h, w) = (h1, w1)" by fastforce
    have h': "h' = h1\<lparr>sh_sendFailed := sh_sendFailed h1 + length (sh_retry h1), sh_retry := [], sh_stopped := True\<rparr>"
      using Nil.prems(1) False f by (simp add: drain_loop.simps)
    from flush_spec [OF f Nil.prems(2)] Nil.prems(3) show ?thesis
      unfolding h' by (auto simp: loop_ok_def in_loop_def frame_def)
  qed
next
  case (Cons entry rest)
  show ?case
  proof (cases "she_ctxErr env w")
    case True
    with Cons.prems show ?thesis by (intro drain_expired)
  next
    case False
    let ?h = "h\<lparr>sh_ch := rest\<rparr>"
    obtain h1 w1 where a: "ship_add env entry (?h, w) = (h1, w1)" by fastforce
    have "loop_ok ?h" "int (length (sh_batch ?h)) < max 1 (shc_BatchSize (sh_cfg ?h))"
      using Cons.prems by (simp_all add: loop_ok_def)
    note a1 = add_spec [OF a this]
    have "drain_loop env rest (h1, w1) = (h', w')"
      using Cons.prems(1) False a by (simp add: drain_loop.simps [of env "entry # rest"])
    from Cons.IH [OF this] a1 show ?thesis
      by (simp add: frame_def, simp add: in_loop_def)
  qed
qed

lemma ship_inv_drain:
  assumes "ship_inv h" "sh_closing h"
  shows "ship_inv (fst (drain env (h, w))) \<and> sh_stopped (fst (drain env (h, w)))"
proof -
  obtain h' w' where d: "drain_loop env (sh_ch h) (h\<lparr>sh_draining := True\<rparr>, w) = (h', w')" by fastforce
  have "loop_ok (h\<lparr>sh_draining := True\<rparr>)" using assms by (simp add: ship_inv_def loop_ok_def)
  from drain_loop_spec [OF d this] assms show ?thesis
    by (auto simp: drain_def d ship_inv_def in_loop_def)
qed

lemma ship_inv_Handle: "ship_inv h \<Longrightarrow> ship_inv (Handle env w d r h)"
  by (auto simp: Handle_def ship_inv_def Let_def loop_ok_def in_loop_def split: prod.splits if_splits)

lemma ship_inv_receive:
  assumes "ship_inv h" "sh_ch h = entry # rest" "\<not> sh_stopped h"
  shows "ship_inv (fst (ship_add env entry (h\<lparr>sh_ch := rest\<rparr>, w)))"
proof -
  let ?h = "h\<lparr>sh_ch := rest\<rparr>"
  obtain h1 w1 where a: "ship_add env entry (?h, w) = (h1, w1)" by fastforce
  have "loop_ok ?h" "int (length (sh_batch ?h)) < max 1 (shc_BatchSize (sh_cfg ?h))"
    using assms by (auto simp: ship_inv_def loop_ok_def)
  from add_spec [OF a this] assms show ?thesis
    by (auto simp: a ship_inv_def frame_def in_loop_def)
qed

lemma ship_inv_flush:
  assumes "ship_inv h" "\<not> sh_stopped h"
  shows "ship_inv (fst (ship_flush env (h, w)))"
proof -
  obtain h1 w1 where f: "ship_flush env (h, w) = (h1, w1)" by fastforce
  from flush_spec [OF f] assms show ?thesis by (auto simp: f ship_inv_def frame_def in_loop_def)
qed

definition ship_const :: "ship_config \<Rightarrow> shipper \<Rightarrow> bool" where
  "ship_const cfg h \<longleftrightarrow> sh_cfg h = cfg \<and> sh_maxRequestBytes h = requestByteLimit"

lemma ship_step_const:
  assumes "ship_inv (fst hw)" "ship_step env hw hw'"
  shows "ship_const cfg (fst hw') = ship_const cfg (fst hw)"
  using assms(2,1)
proof (cases rule: ship_step.cases)
  case (step_handle h w d r)
  then show ?thesis by (auto simp: ship_const_def Handle_def Let_def split: prod.splits)
next
  case (step_receive h entry rest w)
  let ?h = "h\<lparr>sh_ch := rest\<rparr>"
  obtain h1 w1 where a: "ship_add env entry (?h, w) = (h1, w1)" by fastforce
  have "loop_ok ?h" "int (length (sh_batch ?h)) < max 1 (shc_BatchSize (sh_cfg ?h))"
    using assms step_receive by (auto simp: ship_inv_def loop_ok_def)
  from add_spec [OF a this] a show ?thesis using step_receive by (simp add: ship_const_def frame_def)
next
  case (step_tick h w)
  obtain h1 w1 where f: "ship_flush env (h, w) = (h1, w1)" by fastforce
  from flush_spec [OF f] assms step_tick f show ?thesis by (auto simp: ship_const_def frame_def ship_inv_def)
next
  case (step_drain h w)
  obtain h' w' where d: "drain_loop env (sh_ch h) (h\<lparr>sh_draining := True\<rparr>, w) = (h', w')" by fastforce
  have "loop_ok (h\<lparr>sh_draining := True\<rparr>)" using assms step_drain by (simp add: ship_inv_def loop_ok_def)
  from drain_loop_spec [OF d this] assms step_drain d show ?thesis
    by (auto simp: drain_def ship_const_def ship_inv_def)
qed (simp_all add: ship_const_def)

interpretation ship_sys: invariant_system "\<lambda>hw. fst hw = new_shipper cfg" "ship_step env"
  "\<lambda>hw. ship_inv (fst hw) \<and> ship_const cfg (fst hw)" for cfg env
proof
  show "ship_inv (fst hw) \<and> ship_const cfg (fst hw)" if "fst hw = new_shipper cfg" for hw
    using that by (simp add: ship_inv_def new_shipper_def loop_ok_def in_loop_def ship_const_def)
next
  show "ship_inv (fst hw') \<and> ship_const cfg (fst hw')"
    if "ship_inv (fst hw) \<and> ship_const cfg (fst hw)" "ship_step env hw hw'" for hw hw'
  proof -
    have "ship_inv (fst hw')"
      using that(2)
    proof (cases rule: ship_step.cases)
      case (step_shutdown h w)
      then show ?thesis using that by (auto simp: ship_inv_def loop_ok_def in_loop_def)
    qed (use that(1) in \<open>auto simp: ship_inv_Handle ship_inv_receive ship_inv_flush ship_inv_drain\<close>)
    then show ?thesis using ship_step_const that by blast
  qed
qed

section \<open>Properties\<close>

definition sample_ship_config :: ship_config where
  "sample_ship_config =
     \<lparr>shc_Endpoint = ''http://logs/ingest'', shc_Service = ''api'', shc_Component = [], shc_Host = ''web1'',
      shc_AddSource = True, shc_MinLevel = 0, shc_BatchSize = 2, shc_FlushPeriod = second,
      shc_BufferSize = 8, shc_SendTimeout = second, shc_Redact = None, shc_MaxAttrBytes = 0\<rparr>"

definition sample_ship_env :: "unit ship_env" where
  "sample_ship_env =
     \<lparr>she_now = (\<lambda>_. 0), she_ctxErr = (\<lambda>_. False), she_post = (\<lambda>_ w. (PostStatus 202, w)),
      she_marshal = (\<lambda>e. Some (se_Msg e)), she_marshalAttrs = (\<lambda>_. Inr ''{}''),
      she_encodeError = (\<lambda>_. ''{}'')\<rparr>"

definition sample_record :: slog_record where
  "sample_record =
     \<lparr>rec_Time = Some 1, rec_Level = 4, rec_Message = ''disk full'', rec_Attrs = [], rec_Source = None\<rparr>"

definition sample_shipper :: shipper where
  "sample_shipper =
     Handle sample_ship_env () \<lparr>dh_withAttrs = [], dh_groups = []\<rparr> sample_record (new_shipper sample_ship_config)"

lemma sample_shipper_reach: "ship_reach sample_ship_config sample_ship_env (sample_shipper, ())"
proof -
  have "reach (\<lambda>hw. fst hw = new_shipper sample_ship_config) (ship_step sample_ship_env) (new_shipper sample_ship_config, ())"
    by (rule reach_init) simp
  then show ?thesis
    unfolding ship_reach_def sample_shipper_def by (rule reach_step) (rule step_handle)
qed

text \<open>C6: whatever the endpoint answers and however records, ticks, the shutdown and the drain
  interleave, every record handed to the shipper is dropped and counted, acknowledged by the server,
  counted as failed, or still queued; once the drain has finished nothing is queued, so the three
  counters account for every record. The queue never exceeds its capacity.\<close>

theorem shipper_accounts_for_every_record:
  assumes "ship_reach cfg env (h, w)"
  shows "sh_handled h = sh_dropped h + sh_delivered h + sh_sendFailed h
           + length (sh_ch h) + length (sh_batch h) + length (sh_retry h)
       \<and> (sh_stopped h \<longrightarrow> sh_handled h = sh_dropped h + sh_delivered h + sh_sendFailed h)
       \<and> int (length (sh_ch h)) \<le> max 0 (shc_BufferSize cfg)"
  using ship_sys.reach_inv [of cfg env "(h, w)"] assms
  by (auto simp: ship_reach_def ship_inv_def ship_const_def in_loop_def)

theorem shipper_accounts_for_every_record_witness:
  "sh_handled sample_shipper = 1 \<and> length (sh_ch sample_shipper) = 1 \<and>
   sh_handled sample_shipper = sh_dropped sample_shipper + sh_delivered sample_shipper + sh_sendFailed sample_shipper
     + length (sh_ch sample_shipper) + length (sh_batch sample_shipper) + length (sh_retry sample_shipper)"
  using shipper_accounts_for_every_record [OF sample_shipper_reach]
  by (simp add: sample_shipper_def Handle_def new_shipper_def make_entry_def all_attrs_def Let_def
      sample_record_def sample_ship_config_def split: prod.split)


lemma sample_setDefaults: "setDefaults (\<lambda>_. Inr (''http'', ''logs'')) (Inl ''none'') sample_ship_config = Inr sample_ship_config"
proof -
  have "to_valid_utf8 ''api'' = ''api''" "to_valid_utf8 ''web1'' = ''web1''" "to_valid_utf8 [] = []"
    by (auto intro!: to_valid_utf8_id valid_utf8_ascii simp: ascii_def)
  then show ?thesis
    by (simp add: setDefaults_def fill_defaults_def resolve_host_def sample_ship_config_def Let_def
        maxBatchEntries_def ship_limits duration_units)
qed


declare cut_back.simps [simp del] cut_forward.simps [simp del]

lemma cut_back_le: "cut_back s i \<le> i"
  by (induction s i rule: cut_back.induct) (subst cut_back.simps, force)

lemma cut_back_start: "cut_back s i = 0 \<or> runeStart (s ! cut_back s i)"
  by (induction s i rule: cut_back.induct) (subst (1 2) cut_back.simps, auto)

lemma cut_forward_ge: "i \<le> cut_forward s i"
  by (induction s i rule: cut_forward.induct) (subst cut_forward.simps, force)

lemma cut_forward_start: "cut_forward s i < length s \<Longrightarrow> runeStart (s ! cut_forward s i)"
proof (induction s i rule: cut_forward.induct)
  case (1 s i)
  then show ?case
    by (cases "i < length s \<and> \<not> runeStart (s ! i)") (simp_all add: cut_forward.simps [of s i])
qed

lemma valid_truncationSuffix: "valid_utf8 truncationSuffix"
  unfolding truncationSuffix_def
  by (intro valid_utf8_append valid_ellipsis valid_utf8_ascii) (simp add: ascii_def)

lemma truncateMsg_valid: "valid_utf8 (truncateMsg m)"
proof -
  let ?m = "to_valid_utf8 m" and ?i = "cut_back (to_valid_utf8 m) (maxMsgBytes - length truncationSuffix)"
  have "valid_utf8 (take ?i ?m)" if "maxMsgBytes < length ?m"
  proof (cases "?i = 0")
    case False
    have "?i < length ?m"
      using that cut_back_le [of ?m "maxMsgBytes - length truncationSuffix"] by linarith
    moreover have "runeStart (?m ! ?i)"
      using cut_back_start [of ?m "maxMsgBytes - length truncationSuffix"] False by simp
    ultimately show ?thesis by (rule valid_utf8_cut(1) [OF valid_to_valid_utf8])
  qed (simp add: valid_utf8_def)
  then show ?thesis
    by (auto simp: truncateMsg_def Let_def valid_to_valid_utf8 intro: valid_utf8_append valid_truncationSuffix)
qed

lemma truncateMsg_length: "length (truncateMsg m) \<le> 65536"
  using cut_back_le [of "to_valid_utf8 m" "maxMsgBytes - length truncationSuffix"]
  by (auto simp: truncateMsg_def Let_def maxMsgBytes_def truncationSuffix_def min_def)

lemma truncateMsg_neq_Nil: "m \<noteq> [] \<Longrightarrow> truncateMsg m \<noteq> []"
  using to_valid_utf8_neq_Nil by (auto simp: truncateMsg_def Let_def truncationSuffix_def)

lemma shortenSource_valid: "valid_utf8 (shortenSource s)"
proof -
  let ?s = "to_valid_utf8 s"
  let ?i = "cut_forward ?s (length ?s - (maxSourceBytes - length sourceCutPrefix))"
  have "valid_utf8 (drop ?i ?s)"
  proof (cases "?i < length ?s")
    case True
    then show ?thesis using valid_utf8_cut(2) [OF valid_to_valid_utf8 True] cut_forward_start by blast
  qed (simp add: valid_utf8_def)
  then have "valid_utf8 (sourceCutPrefix @ drop ?i ?s)"
    unfolding sourceCutPrefix_def by (intro valid_utf8_append valid_ellipsis)
  then show ?thesis by (simp add: shortenSource_def Let_def valid_to_valid_utf8)
qed

lemma shortenSource_length: "length (shortenSource s) \<le> 256"
  using cut_forward_ge [of "length (to_valid_utf8 s) - (maxSourceBytes - length sourceCutPrefix)" "to_valid_utf8 s"]
  by (auto simp: shortenSource_def Let_def maxSourceBytes_def sourceCutPrefix_def)

text \<open>Messages and sources are repaired and cut to the server's limits: the results are valid UTF-8
  of at most 64 KB and 256 bytes, a message never becomes empty, and what is valid and short enough is
  shipped unchanged.\<close>

lemma truncation_respects_limits:
  "valid_utf8 (truncateMsg m) \<and> length (truncateMsg m) \<le> 65536 \<and> (m \<noteq> [] \<longrightarrow> truncateMsg m \<noteq> [])
   \<and> (valid_utf8 m \<and> length m \<le> 65536 \<longrightarrow> truncateMsg m = m)
   \<and> valid_utf8 (shortenSource s) \<and> length (shortenSource s) \<le> 256
   \<and> (valid_utf8 s \<and> length s \<le> 256 \<longrightarrow> shortenSource s = s)"
  using truncateMsg_valid truncateMsg_length truncateMsg_neq_Nil shortenSource_valid shortenSource_length
  by (auto simp: truncateMsg_def shortenSource_def Let_def to_valid_utf8_id ship_limits)


end
