(* ===== verification/Sse.thy ===== *)
theory Sse
  imports Broker
begin

text \<open>
  The event stream of \<^verbatim>\<open>api/internal/handler/sse_stream.go\<close>: a client subscribes to the broker, gets
  the events it missed from the database, and then the live ones, without those already sent. The
  queries, the JSON encoder, the connection's write errors and the choices of \<^verbatim>\<open>select\<close> are
  parameters. The locale states what the stream needs of a fan-out: what is published after the
  subscription is buffered in order. It is interpreted by the broker, and gives that no event
  published while the backfill runs is lost.
\<close>

section \<open>Frames and the connection\<close>

definition sseBackfillLimit :: nat where "sseBackfillLimit = 100"
definition sseHeartbeatPeriod :: duration where "sseHeartbeatPeriod = 15 * second"
definition sseWriteTimeout :: duration where "sseWriteTimeout = 30 * second"

definition parseLastEventID :: "string \<Rightarrow> string \<Rightarrow> int" where
  "parseLastEventID header query =
     (let v = (if header = [] then query else header) in
      if v = [] then 0 else case parse_int64 v of None \<Rightarrow> 0 | Some i \<Rightarrow> i)"

definition newline :: string where "newline = [CHR 0x0A]"

definition writeSSEEvent :: "int \<Rightarrow> string \<Rightarrow> string \<Rightarrow> string" where
  "writeSSEEvent i event data =
     ''id: '' @ fmt_int i @ newline @ ''event: '' @ event @ newline @ ''data: '' @ data @ newline @ newline"

definition heartbeat_text :: string where
  "heartbeat_text = ''event: heartbeat'' @ newline @ ''data: '' @ newline @ newline"

datatype frame_out = FrameEvent int string string | FrameHeartbeat

text \<open>A sink: the frames written so far, and whether the n-th write or deadline call fails.\<close>

record sse_sink =
  sk_frames :: "frame_out list"
  sk_calls :: nat
  sk_fails :: "nat \<Rightarrow> bool"

definition sink_call :: "sse_sink \<Rightarrow> bool \<times> sse_sink" where
  "sink_call s = (\<not> sk_fails s (sk_calls s), s\<lparr>sk_calls := sk_calls s + 1\<rparr>)"

definition sink_write :: "frame_out \<Rightarrow> sse_sink \<Rightarrow> bool \<times> sse_sink" where
  "sink_write f s =
     (case sink_call s of (ok, s1) \<Rightarrow> (ok, if ok then s1\<lparr>sk_frames := sk_frames s1 @ [f]\<rparr> else s1))"

section \<open>The streamer\<close>

record ('e, 'f) streamer =
  ss_label :: string
  ss_eventID :: "'e \<Rightarrow> int"
  ss_since :: "'f \<Rightarrow> int \<Rightarrow> nat \<Rightarrow> string + 'e list"
  ss_recent :: "'f \<Rightarrow> nat \<Rightarrow> string + 'e list"
  ss_json :: "'e \<Rightarrow> string option"
  ss_heartbeat :: duration
  ss_writeTimeout :: duration

definition heartbeatPeriod :: "('e, 'f) streamer \<Rightarrow> duration" where
  "heartbeatPeriod st = (if ss_heartbeat st > 0 then ss_heartbeat st else sseHeartbeatPeriod)"

definition writeDeadline :: "('e, 'f) streamer \<Rightarrow> duration" where
  "writeDeadline st = (if ss_writeTimeout st > 0 then ss_writeTimeout st else sseWriteTimeout)"

text \<open>Writing the backfilled events in order; \<^const>\<open>False\<close> is a failed write.\<close>

fun emit_events :: "('e, 'f) streamer \<Rightarrow> 'e list \<Rightarrow> sse_sink \<Rightarrow> bool \<times> sse_sink" where
  "emit_events st [] s = (True, s)"
| "emit_events st (e # es) s =
     (case ss_json st e of
        None \<Rightarrow> emit_events st es s
      | Some data \<Rightarrow>
          (case sink_write (FrameEvent (ss_eventID st e) (ss_label st) data) s of
             (ok, s1) \<Rightarrow> if ok then emit_events st es s1 else (False, s1)))"

definition backfill :: "('e, 'f) streamer \<Rightarrow> 'f \<Rightarrow> int \<Rightarrow> sse_sink \<Rightarrow> int \<times> sse_sink" where
  "backfill st flt lastEventID s =
     (if lastEventID > 0 then
        (case ss_since st flt lastEventID sseBackfillLimit of
           Inl err \<Rightarrow> (lastEventID, s)
         | Inr events \<Rightarrow>
             (case emit_events st events s of
                (ok, s1) \<Rightarrow>
                  if \<not> ok then (lastEventID, s1)
                  else if events \<noteq> [] then (ss_eventID st (last events), s1)
                  else (lastEventID, s1)))
      else
        (case ss_recent st flt sseBackfillLimit of
           Inl err \<Rightarrow> (0, s)
         | Inr recent \<Rightarrow>
             (case emit_events st (rev recent) s of
                (ok, s1) \<Rightarrow>
                  if \<not> ok then (0, s1)
                  else if recent \<noteq> [] then (ss_eventID st (hd recent), s1)
                  else (0, s1))))"

text \<open>What \<^verbatim>\<open>select\<close> finds ready.\<close>

datatype choice = ChanReady | HeartbeatTick | CtxDone

fun stream_loop ::
  "('e, 'f) streamer \<Rightarrow> sub_ptr \<Rightarrow> int \<Rightarrow> choice list \<Rightarrow> 'f broker \<times> sse_sink \<Rightarrow> 'f broker \<times> sse_sink" where
  "stream_loop st p lastID [] (b, s) = (b, s)"
| "stream_loop st p lastID (CtxDone # cs) (b, s) = (b, s)"
| "stream_loop st p lastID (HeartbeatTick # cs) (b, s) =
     (case sink_call s of (ok, s1) \<Rightarrow>
      if \<not> ok then (b, s1)
      else (case sink_write FrameHeartbeat s1 of (ok, s2) \<Rightarrow>
            if \<not> ok then (b, s2) else stream_loop st p lastID cs (b, s2)))"
| "stream_loop st p lastID (ChanReady # cs) (b, s) =
     (case recv_sub b p of
        (WouldBlock, b1) \<Rightarrow> stream_loop st p lastID cs (b1, s)
      | (ChanClosed, b1) \<Rightarrow> (b1, s)
      | (Received m, b1) \<Rightarrow>
          if msg_ID m \<le> lastID then stream_loop st p lastID cs (b1, s)
          else
            (case sink_call s of (ok, s1) \<Rightarrow>
             if \<not> ok then (b1, s1)
             else (case sink_write (FrameEvent (msg_ID m) (ss_label st) (msg_Data m)) s1 of (ok, s2) \<Rightarrow>
                   if \<not> ok then (b1, s2) else stream_loop st p lastID cs (b1, s2))))"

text \<open>The other goroutines broadcast \<^verbatim>\<open>meanwhile\<close> while the backfill runs; \<^const>\<open>None\<close> is a panic of the
  broker.\<close>

fun publish_all :: "('s \<Rightarrow> 'e \<Rightarrow> 's option) \<Rightarrow> 'e list \<Rightarrow> 's \<Rightarrow> 's option" where
  "publish_all publish [] b = Some b"
| "publish_all publish (e # es) b =
     (case publish b e of None \<Rightarrow> None | Some b1 \<Rightarrow> publish_all publish es b1)"

definition run_stream ::
  "('f \<Rightarrow> 'e \<Rightarrow> bool) \<Rightarrow> ('e, 'f) streamer \<Rightarrow> 'f \<Rightarrow> int \<Rightarrow> string \<Rightarrow> 'e list \<Rightarrow> choice list
   \<Rightarrow> 'f broker \<times> sse_sink \<Rightarrow> (broker_error option \<times> 'f broker \<times> sse_sink) option" where
  "run_stream matches st flt lastEventID clientKey meanwhile cs bs =
     (case bs of (b, s) \<Rightarrow>
      (case Subscribe b flt clientKey of
         (Inl err, b1) \<Rightarrow> Some (Some err, b1, s)
       | (Inr p, b1) \<Rightarrow>
           (case publish_all (Broadcast matches (ss_json st) (ss_eventID st)) meanwhile b1 of
              None \<Rightarrow> None
            | Some b2 \<Rightarrow>
                (case backfill st flt lastEventID s of
                   (lastID, s1) \<Rightarrow>
                     (case stream_loop st p lastID cs (b2, s1) of
                        (b3, s2) \<Rightarrow>
                          (case Unsubscribe b3 p of None \<Rightarrow> None | Some b4 \<Rightarrow> Some (None, b4, s2)))))))"

section \<open>What the stream needs of a fan-out\<close>

text \<open>Publishing never fails, keeps subscriptions and their filters, and appends the message to the queue
  of a subscriber that wants it and has room.\<close>

locale fanout =
  fixes good :: "'s \<Rightarrow> bool"
    and subscribed :: "'s \<Rightarrow> 'p \<Rightarrow> bool"
    and queue :: "'s \<Rightarrow> 'p \<Rightarrow> 'm list"
    and publish :: "'s \<Rightarrow> 'e \<Rightarrow> 's option"
    and wants :: "'s \<Rightarrow> 'p \<Rightarrow> 'e \<Rightarrow> 'm option"
    and cap :: nat
  assumes publish_queues: "good s \<Longrightarrow> subscribed s p \<Longrightarrow>
    \<exists>s'. publish s e = Some s' \<and> good s' \<and> subscribed s' p \<and> wants s' p = wants s p
      \<and> queue s' p = (case wants s p e of
           None \<Rightarrow> queue s p
         | Some m \<Rightarrow> if length (queue s p) < cap then queue s p @ [m] else queue s p)"
begin

lemma buffered:
  "good s \<Longrightarrow> subscribed s p \<Longrightarrow> length (queue s p) + length (List.map_filter (wants s p) es) \<le> cap \<Longrightarrow>
   \<exists>s'. publish_all publish es s = Some s' \<and> good s' \<and> subscribed s' p
     \<and> queue s' p = queue s p @ List.map_filter (wants s p) es"
proof (induction es arbitrary: s)
  case (Cons e es)
  obtain s1 where s1: "publish s e = Some s1" "good s1" "subscribed s1 p" "wants s1 p = wants s p"
    "queue s1 p = (case wants s p e of None \<Rightarrow> queue s p
       | Some m \<Rightarrow> if length (queue s p) < cap then queue s p @ [m] else queue s p)"
    using publish_queues [OF Cons.prems(1,2), of e] by blast
  have "queue s1 p = queue s p @ List.map_filter (wants s p) [e]"
    using s1(5) Cons.prems(3) by (auto simp: List.map_filter_def split: option.splits)
  moreover from this have "length (queue s1 p) + length (List.map_filter (wants s1 p) es) \<le> cap"
    using Cons.prems(3) s1(4) by (auto simp: List.map_filter_def split: option.splits)
  ultimately show ?case
    using Cons.IH [OF s1(2,3)] s1(1,4) by (auto simp: List.map_filter_def split: option.splits)
qed simp

end

definition sub_queue :: "'f broker \<Rightarrow> sub_ptr \<Rightarrow> message list" where
  "sub_queue b p = (case br_store b p of None \<Rightarrow> [] | Some s \<Rightarrow> sub_ch s)"

definition sub_wants ::
  "('f \<Rightarrow> 'e \<Rightarrow> bool) \<Rightarrow> ('e \<Rightarrow> string option) \<Rightarrow> ('e \<Rightarrow> int) \<Rightarrow> 'f broker \<Rightarrow> sub_ptr \<Rightarrow> 'e \<Rightarrow> message option" where
  "sub_wants matches marshal getID b p e =
     (case br_store b p of
        None \<Rightarrow> None
      | Some s \<Rightarrow> if matches (sub_filter s) e
                  then map_option (\<lambda>d. \<lparr>msg_ID = getID e, msg_Data = d\<rparr>) (marshal e) else None)"

interpretation broker_fanout: fanout broker_inv "\<lambda>b p. p \<in> set (br_subscribers b)" sub_queue
  "Broadcast matches marshal getID" "sub_wants matches marshal getID" subscriptionBufferSize
  for matches :: "'f \<Rightarrow> 'e \<Rightarrow> bool" and marshal getID
proof
  fix b :: "'f broker" and p and e :: 'e
  assume inv: "broker_inv b" and p: "p \<in> set (br_subscribers b)"
  obtain b' where b': "Broadcast matches marshal getID b e = Some b'" using Broadcast_total [OF inv, of matches marshal getID e] by blast
  have inv': "broker_inv b'" by (rule Broadcast_inv [OF inv b'])
  obtain su where su: "br_store b p = Some su" using inv p by (auto simp: broker_inv_def open_sub_def)
  show "\<exists>b'. Broadcast matches marshal getID b e = Some b' \<and> broker_inv b' \<and> p \<in> set (br_subscribers b')
      \<and> sub_wants matches marshal getID b' p = sub_wants matches marshal getID b p
      \<and> sub_queue b' p = (case sub_wants matches marshal getID b p e of
           None \<Rightarrow> sub_queue b p
         | Some m \<Rightarrow> if length (sub_queue b p) < subscriptionBufferSize then sub_queue b p @ [m] else sub_queue b p)"
  proof (cases "marshal e")
    case None
    then have "b' = b" using b' by (simp add: Broadcast_def)
    then show ?thesis using b' inv p su None by (auto simp: sub_wants_def)
  next
    case (Some d)
    from Broadcast_spec [of b marshal e d matches getID, OF inv Some] b'
    have st: "br_store b' p = Some (deliver matches e \<lparr>msg_ID = getID e, msg_Data = d\<rparr> su)"
      and subs: "br_subscribers b' = br_subscribers b" using p su by auto
    then show ?thesis
      using b' inv' p su Some by (auto simp: sub_wants_def sub_queue_def fun_eq_iff deliver_def)
  qed
qed

section \<open>The stream delivers what it should\<close>

fun is_event :: "frame_out \<Rightarrow> bool" where
  "is_event (FrameEvent _ _ _) = True"
| "is_event FrameHeartbeat = False"

definition event_frame :: "('e, 'f) streamer \<Rightarrow> message \<Rightarrow> frame_out" where
  "event_frame st m = FrameEvent (msg_ID m) (ss_label st) (msg_Data m)"

text \<open>A connection that never breaks.\<close>

definition reliable :: "sse_sink \<Rightarrow> bool" where
  "reliable s \<longleftrightarrow> sk_fails s = (\<lambda>_. False)"

lemma reliable_write:
  "reliable s \<Longrightarrow> \<exists>s'. sink_write f s = (True, s') \<and> reliable s' \<and> sk_frames s' = sk_frames s @ [f]"
  by (simp add: reliable_def sink_write_def sink_call_def)

lemma reliable_call:
  "reliable s \<Longrightarrow> \<exists>s'. sink_call s = (True, s') \<and> reliable s' \<and> sk_frames s' = sk_frames s"
  by (simp add: reliable_def sink_call_def)

lemma emit_events_all:
  "reliable s \<Longrightarrow> \<forall>e \<in> set es. ss_json st e \<noteq> None \<Longrightarrow>
   \<exists>s'. emit_events st es s = (True, s') \<and> reliable s'
     \<and> sk_frames s' = sk_frames s @ map (\<lambda>e. FrameEvent (ss_eventID st e) (ss_label st) (the (ss_json st e))) es"
proof (induction es arbitrary: s)
  case (Cons e es)
  obtain d where d: "ss_json st e = Some d" using Cons.prems by auto
  obtain s1 where s1: "sink_write (FrameEvent (ss_eventID st e) (ss_label st) d) s = (True, s1)" "reliable s1"
    "sk_frames s1 = sk_frames s @ [FrameEvent (ss_eventID st e) (ss_label st) d]"
    using reliable_write [OF Cons.prems(1)] by blast
  with Cons.IH [of s1] Cons.prems d show ?case by auto
qed simp

lemma stream_loop_delivers:
  assumes "reliable s" "broker_inv b" "p \<in> set (br_subscribers b)" "CtxDone \<notin> set cs"
    and "length (sub_queue b p) \<le> count_list cs ChanReady"
  shows "\<exists>b' s'. stream_loop st p lastID cs (b, s) = (b', s') \<and> broker_inv b'
    \<and> filter is_event (sk_frames s') = filter is_event (sk_frames s)
        @ map (event_frame st) (filter (\<lambda>m. lastID < msg_ID m) (sub_queue b p))"
  using assms
proof (induction cs arbitrary: b s)
  case Nil
  then show ?case by simp
next
  case (Cons c cs)
  obtain su where su: "br_store b p = Some su" "\<not> sub_closed su"
    using Cons.prems by (auto simp: broker_inv_def open_sub_def)
  show ?case
  proof (cases c)
    case CtxDone
    then show ?thesis using Cons.prems by simp
  next
    case HeartbeatTick
    obtain s1 where s1: "sink_call s = (True, s1)" "reliable s1" "sk_frames s1 = sk_frames s"
      using reliable_call [OF Cons.prems(1)] by blast
    obtain s2 where s2: "sink_write FrameHeartbeat s1 = (True, s2)" "reliable s2"
        "sk_frames s2 = sk_frames s @ [FrameHeartbeat]"
      using reliable_write [OF s1(2)] s1(3) by metis
    from Cons.IH [OF s2(2) Cons.prems(2,3)] Cons.prems HeartbeatTick s1 s2 show ?thesis
      by auto
  next
    case ChanReady
    show ?thesis
    proof (cases "sub_ch su")
      case Nil
      then have "recv_sub b p = (WouldBlock, b)" using su by (simp add: recv_sub_def)
      then show ?thesis
        using Cons.IH [OF Cons.prems(1-3)] Cons.prems ChanReady Nil su by (auto simp: sub_queue_def)
    next
      case m: (Cons m ms)
      let ?b = "b\<lparr>br_store := (br_store b)(p \<mapsto> su\<lparr>sub_ch := ms\<rparr>)\<rparr>"
      have r: "recv_sub b p = (Received m, ?b)" using su m by (simp add: recv_sub_def)
      have inv: "broker_inv ?b" by (rule recv_sub_inv [OF Cons.prems(2) r])
      have q: "sub_queue b p = m # ms" "sub_queue ?b p = ms" using su m by (simp_all add: sub_queue_def)
      have IH: "reliable s1 \<Longrightarrow> \<exists>b' s'. stream_loop st p lastID cs (?b, s1) = (b', s') \<and> broker_inv b'
          \<and> filter is_event (sk_frames s') = filter is_event (sk_frames s1)
              @ map (event_frame st) (filter (\<lambda>m. lastID < msg_ID m) ms)" for s1
        using Cons.IH [of s1 ?b] inv q Cons.prems ChanReady by simp
      show ?thesis
      proof (cases "msg_ID m \<le> lastID")
        case True
        then show ?thesis using IH [OF Cons.prems(1)] r q ChanReady by auto
      next
        case False
        obtain s1 where s1: "sink_call s = (True, s1)" "reliable s1" "sk_frames s1 = sk_frames s"
          using reliable_call [OF Cons.prems(1)] by blast
        obtain s2 where s2: "sink_write (FrameEvent (msg_ID m) (ss_label st) (msg_Data m)) s1 = (True, s2)"
            "reliable s2" "sk_frames s2 = sk_frames s @ [FrameEvent (msg_ID m) (ss_label st) (msg_Data m)]"
          using reliable_write [OF s1(2)] s1(3) by metis
        have "event_frame st m = FrameEvent (msg_ID m) (ss_label st) (msg_Data m)" by (simp add: event_frame_def)
        with IH [OF s2(2)] False r q s1 s2 ChanReady show ?thesis by auto
      qed
    qed
  qed
qed

lemma Subscribe_Inr:
  assumes "Subscribe b flt key = (Inr p, b1)"
  shows "p \<in> set (br_subscribers b1) \<and> sub_queue b1 p = []
       \<and> sub_wants matches marshal getID b1 p =
           (\<lambda>e. if matches flt e then map_option (\<lambda>d. \<lparr>msg_ID = getID e, msg_Data = d\<rparr>) (marshal e) else None)"
  using assms by (auto simp: Subscribe_def Let_def sub_queue_def sub_wants_def fun_eq_iff split: if_splits)

lemma Unsubscribe_total: "broker_inv b \<Longrightarrow> \<exists>b'. Unsubscribe b p = Some b'"
  using Unsubscribe_spec [of b p] by (cases "p \<in> set (br_subscribers b)") (auto simp: Unsubscribe_def)

lemma map_filter_msgs:
  "(\<forall>e \<in> set es. marshal e \<noteq> None) \<Longrightarrow>
   List.map_filter (\<lambda>e. if P e then map_option (\<lambda>d. \<lparr>msg_ID = f e, msg_Data = d\<rparr>) (marshal e) else None) es
   = map (\<lambda>e. \<lparr>msg_ID = f e, msg_Data = the (marshal e)\<rparr>) (filter P es)"
  by (induction es) (auto simp: List.map_filter_def)

section \<open>Properties\<close>


definition sample_streamer :: "(srvlog_event, srvlog_filter) streamer" where
  "sample_streamer =
     \<lparr>ss_label = ''srvlog'', ss_eventID = ev_ID, ss_since = (\<lambda>_ _ _. Inr [sample_event]),
      ss_recent = (\<lambda>_ _. Inr []), ss_json = (\<lambda>e. Some (ev_Message e)), ss_heartbeat = 0, ss_writeTimeout = 0\<rparr>"


text \<open>The text of an event frame is five lines, from which the client reads back the id, the name and
  the data, as long as none of them holds a line break (JSON escapes them).\<close>

lemma writeSSEEvent_lines:
  assumes "CHR 0x0A \<notin> set event" "CHR 0x0A \<notin> set data"
  shows "str_split (CHR 0x0A) (writeSSEEvent i event data)
    = [''id: '' @ fmt_int i, ''event: '' @ event, ''data: '' @ data, [], []]"
proof -
  have "CHR 0x0A \<notin> set (fmt_int i)" by (auto dest: fmt_int_chars simp: is_digit_def)
  with assms have "\<forall>l \<in> set [''id: '' @ fmt_int i, ''event: '' @ event, ''data: '' @ data, [], []]. CHR 0x0A \<notin> set l"
    by auto
  moreover have "writeSSEEvent i event data
      = str_join [CHR 0x0A] [''id: '' @ fmt_int i, ''event: '' @ event, ''data: '' @ data, [], []]"
    by (simp add: writeSSEEvent_def newline_def)
  ultimately show ?thesis by (metis list.distinct(1) str_split_join)
qed

end
