(* ===== verification/Query.thy ===== *)
theory Query
  imports Filters
begin

text \<open>
  Query parameters: \<^verbatim>\<open>api/internal/model/filterparse.go\<close>, the filter parsers and the pagination cursor
  of \<^verbatim>\<open>srvlog.go\<close>, \<^verbatim>\<open>netlog.go\<close> and \<^verbatim>\<open>applog.go\<close>, and the range and volume parameters of \<^verbatim>\<open>stats.go\<close>.
  A query is the function \<^verbatim>\<open>url.Values.Get\<close>, the empty string for an absent key. A parser that may
  record an error returns the value and the messages it records. The parsers of addresses and of
  RFC 3339 times are parameters.
\<close>

type_synonym query = "string \<Rightarrow> string"

type_synonym 'a parsed = "'a \<times> string list"

definition maxFilterStringLen :: nat where "maxFilterStringLen = 500"

section \<open>Parameters\<close>

definition p_str :: "query \<Rightarrow> string \<Rightarrow> string parsed" where
  "p_str q key =
     (let v = q key in
      if length v > maxFilterStringLen then ([], [key @ '': exceeds max length 500'']) else (v, []))"

definition p_boundedInt :: "query \<Rightarrow> string \<Rightarrow> int \<Rightarrow> int \<Rightarrow> int option parsed" where
  "p_boundedInt q key minVal maxVal =
     (let v = q key;
          bad = (None, [key @ '': must be an integer '' @ fmt_int minVal @ ''-'' @ fmt_int maxVal]) in
      if v = [] then (None, [])
      else case parse_int64 v of
        None \<Rightarrow> bad
      | Some n \<Rightarrow> if n < minVal \<or> n > maxVal then bad else (Some n, []))"

definition p_ip :: "(string \<Rightarrow> string option) \<Rightarrow> query \<Rightarrow> string \<Rightarrow> string parsed" where
  "p_ip parseAddr q key =
     (let v = q key in
      if v = [] then ([], [])
      else case parseAddr v of
        None \<Rightarrow> ([], [key @ '': must be a valid IP address''])
      | Some a \<Rightarrow> (a, []))"

definition p_rfc3339 :: "(string \<Rightarrow> instant option) \<Rightarrow> query \<Rightarrow> string \<Rightarrow> instant option parsed" where
  "p_rfc3339 parseTime q key =
     (let v = q key in
      if v = [] then (None, [])
      else case parseTime v of
        None \<Rightarrow> (None, [key @ '': must be RFC3339 format''])
      | Some t \<Rightarrow> (Some t, []))"

definition p_err :: "string list \<Rightarrow> string option" where
  "p_err errs =
     (if errs = [] then None else Some (''invalid query parameters: '' @ str_join ''; '' errs))"

section \<open>Filters\<close>

text \<open>The fields are parsed in the order of the composite literal.\<close>

definition ParseSrvlogFilter ::
  "(string \<Rightarrow> string option) \<Rightarrow> (string \<Rightarrow> instant option) \<Rightarrow> query \<Rightarrow> string + srvlog_filter" where
  "ParseSrvlogFilter parseAddr parseTime q =
     (let (hostname, e1) = p_str q ''hostname'';
          (programname, e2) = p_str q ''programname'';
          (syslogtag, e3) = p_str q ''syslogtag'';
          (msgid, e4) = p_str q ''msgid'';
          (search, e5) = p_str q ''search'';
          (fromhost, e6) = p_ip parseAddr q ''fromhost_ip'';
          (severity, e7) = p_boundedInt q ''severity'' 0 7;
          (severityMax, e8) = p_boundedInt q ''severity_max'' 0 7;
          (facility, e9) = p_boundedInt q ''facility'' 0 23;
          (from, e10) = p_rfc3339 parseTime q ''from'';
          (to, e11) = p_rfc3339 parseTime q ''to'';
          f = \<lparr>sf_Hostname = hostname, sf_FromhostIP = fromhost, sf_Programname = programname,
               sf_Severity = severity, sf_SeverityMax = severityMax, sf_Facility = facility,
               sf_SyslogTag = syslogtag, sf_MsgID = msgid, sf_Search = search, sf_From = from,
               sf_To = to, sf_searchLower = to_lower search\<rparr> in
      case p_err (e1 @ e2 @ e3 @ e4 @ e5 @ e6 @ e7 @ e8 @ e9 @ e10 @ e11) of
        Some err \<Rightarrow> Inl err
      | None \<Rightarrow> Inr f)"

definition ParseNetlogFilter ::
  "(string \<Rightarrow> string option) \<Rightarrow> (string \<Rightarrow> instant option) \<Rightarrow> query \<Rightarrow> string + netlog_filter" where
  "ParseNetlogFilter parseAddr parseTime q =
     (let (hostname, e1) = p_str q ''hostname'';
          (programname, e2) = p_str q ''programname'';
          (syslogtag, e3) = p_str q ''syslogtag'';
          (msgid, e4) = p_str q ''msgid'';
          (search, e5) = p_str q ''search'';
          (fromhost, e6) = p_ip parseAddr q ''fromhost_ip'';
          (severity, e7) = p_boundedInt q ''severity'' 0 7;
          (severityMax, e8) = p_boundedInt q ''severity_max'' 0 7;
          (facility, e9) = p_boundedInt q ''facility'' 0 23;
          (from, e10) = p_rfc3339 parseTime q ''from'';
          (to, e11) = p_rfc3339 parseTime q ''to'';
          f = \<lparr>sf_Hostname = hostname, sf_FromhostIP = fromhost, sf_Programname = programname,
               sf_Severity = severity, sf_SeverityMax = severityMax, sf_Facility = facility,
               sf_SyslogTag = syslogtag, sf_MsgID = msgid, sf_Search = search, sf_From = from,
               sf_To = to, sf_searchLower = to_lower search\<rparr> in
      case p_err (e1 @ e2 @ e3 @ e4 @ e5 @ e6 @ e7 @ e8 @ e9 @ e10 @ e11) of
        Some err \<Rightarrow> Inl err
      | None \<Rightarrow> Inr f)"

definition p_level :: "query \<Rightarrow> string \<Rightarrow> string parsed" where
  "p_level q key =
     (let v = q key in
      if v = [] then ([], [])
      else case NormalizeLevel v of
        None \<Rightarrow> ([], [key @ '': must be one of DEBUG, INFO, WARN, ERROR, FATAL''])
      | Some l \<Rightarrow> (l, []))"

definition ParseAppLogFilter :: "(string \<Rightarrow> instant option) \<Rightarrow> query \<Rightarrow> string + applog_filter" where
  "ParseAppLogFilter parseTime q =
     (let (service, e1) = p_str q ''service'';
          (component, e2) = p_str q ''component'';
          (host, e3) = p_str q ''host'';
          (search, e4) = p_str q ''search'';
          (level, e5) = p_level q ''level'';
          (levelExact, e6) = p_level q ''level_exact'';
          (from, e7) = p_rfc3339 parseTime q ''from'';
          (to, e8) = p_rfc3339 parseTime q ''to'';
          f = \<lparr>af_Service = service, af_Component = component, af_Host = host, af_Level = level,
               af_LevelExact = levelExact, af_Search = search, af_From = from, af_To = to,
               af_levelMinRank = (if level = [] then None else Some (AppLogLevelRank level)),
               af_searchLower = to_lower search\<rparr> in
      case p_err (e1 @ e2 @ e3 @ e4 @ e5 @ e6 @ e7 @ e8) of
        Some err \<Rightarrow> Inl err
      | None \<Rightarrow> Inr f)"

section \<open>Cursors, limits, switches\<close>

record cursor =
  cu_ReceivedAt :: instant
  cu_ID :: int

datatype cursor_error = BadBase64 | BadFormat | BadTimestamp | BadID

definition Encode :: "cursor \<Rightarrow> string" where
  "Encode c = b64_encode (fmt_int (cu_ReceivedAt c) @ '','' @ fmt_int (cu_ID c))"

text \<open>\<^verbatim>\<open>SplitN\<close> with two parts cuts at the first comma.\<close>

definition split2 :: "string \<Rightarrow> (string \<times> string) option" where
  "split2 s =
     (case str_index s '','' of
        None \<Rightarrow> None
      | Some i \<Rightarrow> Some (take i s, drop (i + 1) s))"

definition DecodeCursor :: "string \<Rightarrow> cursor_error + cursor" where
  "DecodeCursor s =
     (case b64_decode s of
        None \<Rightarrow> Inl BadBase64
      | Some raw \<Rightarrow>
          (case split2 raw of
             None \<Rightarrow> Inl BadFormat
           | Some (a, b) \<Rightarrow>
               (case parse_int64 a of
                  None \<Rightarrow> Inl BadTimestamp
                | Some nanos \<Rightarrow>
                    (case parse_int64 b of
                       None \<Rightarrow> Inl BadID
                     | Some i \<Rightarrow> Inr \<lparr>cu_ReceivedAt = nanos, cu_ID = i\<rparr>))))"

definition ParseCursor :: "query \<Rightarrow> cursor option" where
  "ParseCursor q =
     (let v = q ''cursor'' in
      if v = [] then None else case DecodeCursor v of Inl _ \<Rightarrow> None | Inr c \<Rightarrow> Some c)"

definition parse_bool :: "string \<Rightarrow> bool option" where
  "parse_bool s =
     (if s \<in> set [''1'', ''t'', ''T'', ''true'', ''TRUE'', ''True''] then Some True
      else if s \<in> set [''0'', ''f'', ''F'', ''false'', ''FALSE'', ''False''] then Some False
      else None)"

definition ParseHideMuted :: "query \<Rightarrow> string + bool" where
  "ParseHideMuted q =
     (let v = q ''hide_muted'' in
      if v = [] then Inr False
      else case parse_bool v of
        None \<Rightarrow> Inl ''invalid query parameters: hide_muted: must be true or false''
      | Some b \<Rightarrow> Inr b)"

definition ParseLimit :: "query \<Rightarrow> int \<Rightarrow> int \<Rightarrow> int" where
  "ParseLimit q defaultLimit maxLimit =
     (let v = q ''limit'' in
      if v = [] then defaultLimit
      else case parse_int64 v of
        None \<Rightarrow> defaultLimit
      | Some n \<Rightarrow> if n < 1 then defaultLimit else if n > maxLimit then maxLimit else n)"

section \<open>Ranges and volumes\<close>

definition allowedIntervals :: "(string \<times> string) list" where
  "allowedIntervals =
     [(''1m'', ''1 minute''), (''5m'', ''5 minutes''), (''15m'', ''15 minutes''), (''30m'', ''30 minutes''),
      (''1h'', ''1 hour''), (''6h'', ''6 hours''), (''1d'', ''1 day'')]"

definition interval_IsValid :: "string \<Rightarrow> bool" where
  "interval_IsValid i \<longleftrightarrow>
     i \<in> set [''1 minute'', ''5 minutes'', ''15 minutes'', ''30 minutes'', ''1 hour'', ''6 hours'', ''1 day'']"

definition allowedRanges :: "(string \<times> duration) list" where
  "allowedRanges =
     [(''1h'', 1 * hour), (''6h'', 6 * hour), (''12h'', 12 * hour), (''24h'', 24 * hour),
      (''7d'', 7 * 24 * hour), (''30d'', 30 * 24 * hour)]"

text \<open>The error of an unknown name lists the keys in map order; only the name is kept here.\<close>

datatype param_error = InvalidRange string | InvalidInterval string

definition ParseRange :: "query \<Rightarrow> param_error + duration" where
  "ParseRange q =
     (let rangeName = (if q ''range'' = [] then ''24h'' else q ''range'') in
      case map_of allowedRanges rangeName of
        None \<Rightarrow> Inl (InvalidRange rangeName) | Some d \<Rightarrow> Inr d)"

record volume_params =
  vp_Interval :: string
  vp_RangeDur :: duration

definition ParseVolumeParams :: "query \<Rightarrow> param_error + volume_params" where
  "ParseVolumeParams q =
     (let interval = (if q ''interval'' = [] then ''1h'' else q ''interval'') in
      case map_of allowedIntervals interval of
        None \<Rightarrow> Inl (InvalidInterval interval)
      | Some pgInterval \<Rightarrow>
          (let rangeName = (if q ''range'' = [] then ''24h'' else q ''range'') in
           case map_of allowedRanges rangeName of
             None \<Rightarrow> Inl (InvalidRange rangeName)
           | Some rangeDur \<Rightarrow> Inr \<lparr>vp_Interval = pgInterval, vp_RangeDur = rangeDur\<rparr>))"

section \<open>Helpers\<close>

lemma str_index_single:
  "c \<notin> set a \<Longrightarrow> str_index (a @ c # b) [c] = Some (length a)"
  by (induction a) auto

lemma split2_comma: "CHR '','' \<notin> set a \<Longrightarrow> split2 (a @ CHR '','' # b) = Some (a, b)"
  by (simp add: split2_def str_index_single)

text \<open>What an accepted parameter is: absent, or read as the value.\<close>

definition text_param :: "query \<Rightarrow> string \<Rightarrow> string \<Rightarrow> bool" where
  "text_param q k v \<longleftrightarrow> v = q k \<and> length v \<le> 500"

definition int_param :: "query \<Rightarrow> string \<Rightarrow> int \<Rightarrow> int \<Rightarrow> int option \<Rightarrow> bool" where
  "int_param q k lo hi v \<longleftrightarrow>
     (case v of None \<Rightarrow> q k = [] | Some n \<Rightarrow> parse_int64 (q k) = Some n \<and> lo \<le> n \<and> n \<le> hi)"

definition addr_param :: "(string \<Rightarrow> string option) \<Rightarrow> query \<Rightarrow> string \<Rightarrow> string \<Rightarrow> bool" where
  "addr_param parseAddr q k v \<longleftrightarrow> (if q k = [] then v = [] else parseAddr (q k) = Some v)"

definition time_param :: "(string \<Rightarrow> instant option) \<Rightarrow> query \<Rightarrow> string \<Rightarrow> instant option \<Rightarrow> bool" where
  "time_param parseTime q k v \<longleftrightarrow> (case v of None \<Rightarrow> q k = [] | Some t \<Rightarrow> parseTime (q k) = Some t)"

definition level_param :: "query \<Rightarrow> string \<Rightarrow> string \<Rightarrow> bool" where
  "level_param q k v \<longleftrightarrow> (if q k = [] then v = [] else NormalizeLevel (q k) = Some v)"

lemmas param_defs = text_param_def int_param_def addr_param_def time_param_def level_param_def

lemma p_str_ok: "p_str q k = (v, []) \<Longrightarrow> text_param q k v"
  by (auto simp: p_str_def Let_def param_defs maxFilterStringLen_def split: if_splits)

lemma p_boundedInt_ok: "p_boundedInt q k lo hi = (v, []) \<Longrightarrow> int_param q k lo hi v"
  by (cases "parse_int64 (q k)"; cases v) (auto simp: p_boundedInt_def Let_def param_defs split: if_splits)

lemma p_ip_ok: "p_ip pa q k = (v, []) \<Longrightarrow> addr_param pa q k v"
  by (cases "pa (q k)") (auto simp: p_ip_def Let_def param_defs split: if_splits)

lemma p_rfc3339_ok: "p_rfc3339 pt q k = (v, []) \<Longrightarrow> time_param pt q k v"
  by (cases "pt (q k)"; cases v) (auto simp: p_rfc3339_def Let_def param_defs split: if_splits)

lemma p_level_ok: "p_level q k = (v, []) \<Longrightarrow> level_param q k v"
  by (cases "NormalizeLevel (q k)") (auto simp: p_level_def Let_def param_defs split: if_splits)

lemma p_err_None [simp]: "p_err errs = None \<longleftrightarrow> errs = []"
  by (simp add: p_err_def)

lemma searchNeedle_precomputed: "searchNeedle s (to_lower s) = searchNeedle s []"
  by (simp add: searchNeedle_def)

text \<open>What a filter accepted by a parser looks like; the two syslog feeds share the parameters.\<close>

definition accepted_filter ::
  "(string \<Rightarrow> string option) \<Rightarrow> (string \<Rightarrow> instant option) \<Rightarrow> query \<Rightarrow> syslog_filter \<Rightarrow> bool" where
  "accepted_filter parseAddr parseTime q f \<longleftrightarrow>
     text_param q ''hostname'' (sf_Hostname f) \<and> text_param q ''programname'' (sf_Programname f) \<and>
     text_param q ''syslogtag'' (sf_SyslogTag f) \<and> text_param q ''msgid'' (sf_MsgID f) \<and>
     text_param q ''search'' (sf_Search f) \<and> addr_param parseAddr q ''fromhost_ip'' (sf_FromhostIP f) \<and>
     int_param q ''severity'' 0 7 (sf_Severity f) \<and> int_param q ''severity_max'' 0 7 (sf_SeverityMax f) \<and>
     int_param q ''facility'' 0 23 (sf_Facility f) \<and> time_param parseTime q ''from'' (sf_From f) \<and>
     time_param parseTime q ''to'' (sf_To f)"

definition accepted_applog_filter :: "(string \<Rightarrow> instant option) \<Rightarrow> query \<Rightarrow> applog_filter \<Rightarrow> bool" where
  "accepted_applog_filter parseTime q f \<longleftrightarrow>
     text_param q ''service'' (af_Service f) \<and> text_param q ''component'' (af_Component f) \<and>
     text_param q ''host'' (af_Host f) \<and> text_param q ''search'' (af_Search f) \<and>
     level_param q ''level'' (af_Level f) \<and> level_param q ''level_exact'' (af_LevelExact f) \<and>
     time_param parseTime q ''from'' (af_From f) \<and> time_param parseTime q ''to'' (af_To f)"

lemma ParseNetlog_eq_ParseSrvlog: "ParseNetlogFilter pa pt q = ParseSrvlogFilter pa pt q"
  by (simp add: ParseNetlogFilter_def ParseSrvlogFilter_def)

lemma ParseSrvlog_accepted:
  assumes "ParseSrvlogFilter pa pt q = Inr f"
  shows "accepted_filter pa pt q f \<and> sf_searchLower f = to_lower (sf_Search f)"
proof -
  obtain h e1 where 1: "p_str q ''hostname'' = (h, e1)" by fastforce
  obtain p e2 where 2: "p_str q ''programname'' = (p, e2)" by fastforce
  obtain t e3 where 3: "p_str q ''syslogtag'' = (t, e3)" by fastforce
  obtain m e4 where 4: "p_str q ''msgid'' = (m, e4)" by fastforce
  obtain s e5 where 5: "p_str q ''search'' = (s, e5)" by fastforce
  obtain ip e6 where 6: "p_ip pa q ''fromhost_ip'' = (ip, e6)" by fastforce
  obtain sv e7 where 7: "p_boundedInt q ''severity'' 0 7 = (sv, e7)" by fastforce
  obtain sm e8 where 8: "p_boundedInt q ''severity_max'' 0 7 = (sm, e8)" by fastforce
  obtain fa e9 where 9: "p_boundedInt q ''facility'' 0 23 = (fa, e9)" by fastforce
  obtain fr e10 where 10: "p_rfc3339 pt q ''from'' = (fr, e10)" by fastforce
  obtain til e11 where 11: "p_rfc3339 pt q ''to'' = (til, e11)" by fastforce
  note parts = 1 2 3 4 5 6 7 8 9 10 11
  have e: "e1 = []" "e2 = []" "e3 = []" "e4 = []" "e5 = []" "e6 = []" "e7 = []" "e8 = []" "e9 = []"
     "e10 = []" "e11 = []"
    and f: "f = \<lparr>sf_Hostname = h, sf_FromhostIP = ip, sf_Programname = p, sf_Severity = sv,
      sf_SeverityMax = sm, sf_Facility = fa, sf_SyslogTag = t, sf_MsgID = m, sf_Search = s,
      sf_From = fr, sf_To = til, sf_searchLower = to_lower s\<rparr>"
    using assms by (auto simp: ParseSrvlogFilter_def parts Let_def split: option.splits)
  show ?thesis
    unfolding accepted_filter_def f
    using 1 2 3 4 5 6 7 8 9 10 11 by (simp add: e p_str_ok p_boundedInt_ok p_ip_ok p_rfc3339_ok)
qed

lemma ParseAppLog_accepted:
  assumes "ParseAppLogFilter pt q = Inr f"
  shows "accepted_applog_filter pt q f \<and> af_searchLower f = to_lower (af_Search f) \<and>
    af_levelMinRank f = (if af_Level f = [] then None else Some (AppLogLevelRank (af_Level f)))"
proof -
  obtain sv e1 where 1: "p_str q ''service'' = (sv, e1)" by fastforce
  obtain c e2 where 2: "p_str q ''component'' = (c, e2)" by fastforce
  obtain h e3 where 3: "p_str q ''host'' = (h, e3)" by fastforce
  obtain s e4 where 4: "p_str q ''search'' = (s, e4)" by fastforce
  obtain l e5 where 5: "p_level q ''level'' = (l, e5)" by fastforce
  obtain le e6 where 6: "p_level q ''level_exact'' = (le, e6)" by fastforce
  obtain fr e7 where 7: "p_rfc3339 pt q ''from'' = (fr, e7)" by fastforce
  obtain til e8 where 8: "p_rfc3339 pt q ''to'' = (til, e8)" by fastforce
  note parts = 1 2 3 4 5 6 7 8
  have e: "e1 = []" "e2 = []" "e3 = []" "e4 = []" "e5 = []" "e6 = []" "e7 = []" "e8 = []"
    and f: "f = \<lparr>af_Service = sv, af_Component = c, af_Host = h, af_Level = l, af_LevelExact = le,
      af_Search = s, af_From = fr, af_To = til,
      af_levelMinRank = (if l = [] then None else Some (AppLogLevelRank l)), af_searchLower = to_lower s\<rparr>"
    using assms by (auto simp: ParseAppLogFilter_def parts Let_def split: option.splits)
  show ?thesis
    unfolding accepted_applog_filter_def f
    using 1 2 3 4 5 6 7 8 by (simp add: e p_str_ok p_level_ok p_rfc3339_ok)
qed

section \<open>Properties\<close>

text \<open>C14: a cursor handed to a client decodes to the position it encodes, for every 64-bit timestamp
  and id, and so does the query parameter that carries it back.\<close>

theorem cursor_round_trip:
  assumes "in64 (cu_ReceivedAt c)" "in64 (cu_ID c)"
  shows "DecodeCursor (Encode c) = Inr c \<and> (q ''cursor'' = Encode c \<longrightarrow> ParseCursor q = Some c)"
proof -
  let ?a = "fmt_int (cu_ReceivedAt c)" and ?b = "fmt_int (cu_ID c)"
  have "CHR '','' \<notin> set ?a" by (auto dest: fmt_int_chars simp: is_digit_def)
  then have "split2 (?a @ '','' @ ?b) = Some (?a, ?b)" by (simp add: split2_comma)
  then have dec: "DecodeCursor (Encode c) = Inr c"
    using assms by (simp add: DecodeCursor_def Encode_def b64_decode_encode parse_fmt_int)
  moreover have "Encode c \<noteq> []"
  proof
    assume "Encode c = []"
    then have "b64_decode [] = Some (?a @ '','' @ ?b)" by (metis Encode_def b64_decode_encode)
    then show False by (simp add: b64_decode_def)
  qed
  ultimately show ?thesis by (auto simp: ParseCursor_def Let_def)
qed

theorem cursor_round_trip_witness:
  "let c = \<lparr>cu_ReceivedAt = 1700000000123456789, cu_ID = 42\<rparr> in
     in64 (cu_ReceivedAt c) \<and> in64 (cu_ID c) \<and> ParseCursor ((\<lambda>_. [])(''cursor'' := Encode c)) = Some c"
  using cursor_round_trip [of "\<lparr>cu_ReceivedAt = 1700000000123456789, cu_ID = 42\<rparr>"
      "(\<lambda>_. [])(''cursor'' := Encode \<lparr>cu_ReceivedAt = 1700000000123456789, cu_ID = 42\<rparr>)"]
  by (simp add: in64_def)

text \<open>A syslog query is either refused or read completely: every text parameter within 500
  bytes, every number in its range, every address and time as its parser reads it, and nothing of the
  query dropped. The lower-cased search term the parser stores does not change what the filter selects.\<close>

lemma parsed_filters_are_faithful:
  assumes "ParseSrvlogFilter parseAddr parseTime q = Inr f"
  shows "accepted_filter parseAddr parseTime q f \<and>
    ParseNetlogFilter parseAddr parseTime q = Inr f \<and>
    srvlog_Matches f e = srvlog_Matches (f\<lparr>sf_searchLower := []\<rparr>) e \<and>
    netlog_Matches f e = netlog_Matches (f\<lparr>sf_searchLower := []\<rparr>) e"
  using ParseSrvlog_accepted [OF assms] assms
  by (simp add: ParseNetlog_eq_ParseSrvlog srvlog_Matches_def netlog_Matches_def searchNeedle_precomputed)

definition sample_query :: query where
  "sample_query = (\<lambda>_. [])(''hostname'' := ''core*'', ''severity_max'' := ''3'', ''search'' := ''Link'')"

lemma parse_int64_3: "parse_int64 ''3'' = Some 3"
proof -
  have "fmt_int 3 = ''3''" by (simp add: fmt_int_def fmt_nat.simps digit_char_def char_of_def bit_Suc_0_iff)
  then show ?thesis using parse_fmt_int [of 3] by (simp add: in64_def)
qed

lemma sample_query_parses: "\<exists>f. ParseSrvlogFilter (\<lambda>_. None) (\<lambda>_. None) sample_query = Inr f"
  by (simp add: ParseSrvlogFilter_def p_str_def p_boundedInt_def p_ip_def p_rfc3339_def p_err_def
    maxFilterStringLen_def sample_query_def parse_int64_3 Let_def)


text \<open>The same for application logs, where both level parameters are normalised to canonical
  levels, and neither the stored minimum rank nor the stored search term changes the selection.\<close>

lemma parsed_applog_filter_is_faithful:
  assumes "ParseAppLogFilter parseTime q = Inr f"
  shows "accepted_applog_filter parseTime q f \<and>
    applog_Matches f e = applog_Matches (f\<lparr>af_levelMinRank := None, af_searchLower := []\<rparr>) e"
  using ParseAppLog_accepted [OF assms]
  by (auto simp: applog_Matches_def searchNeedle_precomputed Let_def)


end
