(* ===== verification/Mute.thy ===== *)
theory Mute
  imports Filters
begin

text \<open>
  Mute rules: \<^verbatim>\<open>api/internal/mute/rule.go\<close> and \<^verbatim>\<open>set.go\<close>, the marking of events in
  \<^verbatim>\<open>api/internal/handler/mute_mark.go\<close>, the write handlers of \<^verbatim>\<open>mute_rule.go\<close>, and the routing of a
  notified row in \<^verbatim>\<open>api/internal/ingestbridge/bridge.go\<close>. The database behind the store interfaces is
  a parameter over an arbitrary state of the world. The lemmas show which rule mutes an event, that
  marking and exclusion agree, what the handlers may store, and that a muted event is broadcast and
  never notified.
\<close>

section \<open>Rules\<close>

type_synonym feed = string

definition FeedNetlog :: feed where "FeedNetlog = ''netlog''"
definition FeedSrvlog :: feed where "FeedSrvlog = ''srvlog''"

definition DefaultDuration :: duration where "DefaultDuration = 24 * hour"
definition MaxDuration :: duration where "MaxDuration = 7 * 24 * hour"
definition ExpiredListWindow :: duration where "ExpiredListWindow = 7 * 24 * hour"
definition maxFieldLen :: nat where "maxFieldLen = 500"

lemmas mute_consts = DefaultDuration_def MaxDuration_def ExpiredListWindow_def maxFieldLen_def

record mute_rule =
  mr_ID :: int
  mr_Feed :: feed
  mr_Hostname :: string
  mr_Programname :: string
  mr_Search :: string
  mr_Reason :: string
  mr_CreatedBy :: string
  mr_CreatedAt :: instant
  mr_ExpiresAt :: instant

datatype mute_error =
    BadFeed
  | NoMatchField
  | FieldTooLong string
  | FieldHasNUL string
  | ReasonRequired
  | BadDuration

text \<open>\<^verbatim>\<open>strings.Trim\<close> with a cutset of one byte.\<close>

definition trim_char :: "char \<Rightarrow> string \<Rightarrow> string" where
  "trim_char c s = rev (dropWhile (\<lambda>x. x = c) (rev (dropWhile (\<lambda>x. x = c) s)))"

fun check_fields :: "(string \<times> string) list \<Rightarrow> mute_error option" where
  "check_fields [] = None"
| "check_fields ((name, v) # fs) =
     (if length v > maxFieldLen then Some (FieldTooLong name)
      else if CHR 0x00 \<in> set v then Some (FieldHasNUL name)
      else check_fields fs)"

definition mute_Validate :: "mute_rule \<Rightarrow> mute_error option" where
  "mute_Validate r =
     (if mr_Feed r \<noteq> FeedNetlog \<and> mr_Feed r \<noteq> FeedSrvlog then Some BadFeed
      else
        (let hostSet = trim_char (CHR ''*'') (trim_space (mr_Hostname r)) \<noteq> [] in
         if \<not> hostSet \<and> trim_space (mr_Programname r) = [] \<and> trim_space (mr_Search r) = []
         then Some NoMatchField
         else
           (case check_fields [(''hostname'', mr_Hostname r), (''programname'', mr_Programname r),
                               (''search'', mr_Search r), (''reason'', mr_Reason r)] of
              Some err \<Rightarrow> Some err
            | None \<Rightarrow> if trim_space (mr_Reason r) = [] then Some ReasonRequired else None)))"

definition mute_NetlogFilter :: "mute_rule \<Rightarrow> netlog_filter" where
  "mute_NetlogFilter r =
     empty_filter\<lparr>sf_Hostname := mr_Hostname r, sf_Programname := mr_Programname r, sf_Search := mr_Search r\<rparr>"

definition mute_SrvlogFilter :: "mute_rule \<Rightarrow> srvlog_filter" where
  "mute_SrvlogFilter r =
     empty_filter\<lparr>sf_Hostname := mr_Hostname r, sf_Programname := mr_Programname r, sf_Search := mr_Search r\<rparr>"

definition ExpiresAt :: "instant \<Rightarrow> int \<Rightarrow> mute_error + instant" where
  "ExpiresAt now durationMS =
     (if durationMS = 0 then Inr (now + DefaultDuration)
      else if durationMS < 0 \<or> durationMS > MaxDuration div millisecond then Inl BadDuration
      else Inr (now + wrap64 (durationMS * millisecond)))"

section \<open>The rule set\<close>

record mute_set =
  ms_rules :: "mute_rule list"

definition NewSet :: mute_set where "NewSet = \<lparr>ms_rules = []\<rparr>"

definition Replace :: "mute_rule list \<Rightarrow> mute_set \<Rightarrow> mute_set" where
  "Replace rules s = s\<lparr>ms_rules := sort_key mr_ID rules\<rparr>"

text \<open>\<^verbatim>\<open>listed\<close> is what the store's query returned.\<close>

definition Reload :: "(string + mute_rule list) \<Rightarrow> mute_set \<Rightarrow> string option \<times> mute_set" where
  "Reload listed s =
     (case listed of
        Inl err \<Rightarrow> (Some (''list mute rules: '' @ err), s)
      | Inr rules \<Rightarrow> (None, Replace rules s))"

record snapshot =
  sn_rules :: "mute_rule list"
  sn_now :: instant

definition Active :: "mute_set \<Rightarrow> instant \<Rightarrow> snapshot" where
  "Active s now = \<lparr>sn_rules = ms_rules s, sn_now = now\<rparr>"

definition active :: "snapshot \<Rightarrow> mute_rule \<Rightarrow> feed \<Rightarrow> bool" where
  "active s r feed \<longleftrightarrow> mr_Feed r = feed \<and> sn_now s < mr_ExpiresAt r"

fun match_rules ::
  "snapshot \<Rightarrow> feed \<Rightarrow> (mute_rule \<Rightarrow> 'f) \<Rightarrow> ('f \<Rightarrow> 'e \<Rightarrow> bool) \<Rightarrow> 'e \<Rightarrow> mute_rule list \<Rightarrow> int option" where
  "match_rules s feed toFilter matches e [] = None"
| "match_rules s feed toFilter matches e (r # rs) =
     (if active s r feed \<and> matches (toFilter r) e then Some (mr_ID r)
      else match_rules s feed toFilter matches e rs)"

definition match_event ::
  "snapshot \<Rightarrow> feed \<Rightarrow> (mute_rule \<Rightarrow> 'f) \<Rightarrow> ('f \<Rightarrow> 'e \<Rightarrow> bool) \<Rightarrow> 'e \<Rightarrow> int option" where
  "match_event s feed toFilter matches e = match_rules s feed toFilter matches e (sn_rules s)"

definition exclusions :: "snapshot \<Rightarrow> feed \<Rightarrow> (mute_rule \<Rightarrow> 'f) \<Rightarrow> 'f list" where
  "exclusions s feed toFilter = map toFilter (filter (\<lambda>r. active s r feed) (sn_rules s))"

definition MatchNetlog :: "snapshot \<Rightarrow> netlog_event \<Rightarrow> int option" where
  "MatchNetlog s e = match_event s FeedNetlog mute_NetlogFilter netlog_Matches e"

definition MatchSrvlog :: "snapshot \<Rightarrow> srvlog_event \<Rightarrow> int option" where
  "MatchSrvlog s e = match_event s FeedSrvlog mute_SrvlogFilter srvlog_Matches e"

definition NetlogExclusions :: "snapshot \<Rightarrow> netlog_filter list" where
  "NetlogExclusions s = exclusions s FeedNetlog mute_NetlogFilter"

definition SrvlogExclusions :: "snapshot \<Rightarrow> srvlog_filter list" where
  "SrvlogExclusions s = exclusions s FeedSrvlog mute_SrvlogFilter"

definition set_MatchNetlog :: "mute_set \<Rightarrow> instant \<Rightarrow> netlog_event \<Rightarrow> int option" where
  "set_MatchNetlog s now e = MatchNetlog (Active s now) e"

definition set_MatchSrvlog :: "mute_set \<Rightarrow> instant \<Rightarrow> srvlog_event \<Rightarrow> int option" where
  "set_MatchSrvlog s now e = MatchSrvlog (Active s now) e"

definition markNetlogs :: "snapshot \<Rightarrow> netlog_event list \<Rightarrow> netlog_event list" where
  "markNetlogs snap events = map (\<lambda>e. e\<lparr>ev_MutedBy := MatchNetlog snap e\<rparr>) events"

definition markSrvlogs :: "snapshot \<Rightarrow> srvlog_event list \<Rightarrow> srvlog_event list" where
  "markSrvlogs snap events = map (\<lambda>e. e\<lparr>ev_MutedBy := MatchSrvlog snap e\<rparr>) events"

section \<open>The handlers\<close>

datatype 'a response =
    RespError int string
  | RespData int 'a
  | RespNoContent

datatype store_error = ErrNoRows | StoreFailed string

text \<open>The store as the handler sees it, over the state of the world.\<close>

record 'w mute_store =
  st_ListMuteRules :: "instant \<Rightarrow> 'w \<Rightarrow> (string + mute_rule list)"
  st_CreateMuteRule :: "mute_rule \<Rightarrow> 'w \<Rightarrow> (string + mute_rule) \<times> 'w"
  st_SetMuteRuleExpiry :: "int \<Rightarrow> instant \<Rightarrow> 'w \<Rightarrow> (store_error + mute_rule) \<times> 'w"
  st_EndMuteRule :: "int \<Rightarrow> instant \<Rightarrow> 'w \<Rightarrow> store_error option \<times> 'w"

record mute_create =
  mc_Feed :: string
  mc_Hostname :: string
  mc_Programname :: string
  mc_Search :: string
  mc_Reason :: string
  mc_DurationMS :: int

text \<open>A body that cannot be read or parsed: the error code of the 400.\<close>

type_synonym 'a body = "string + 'a"

definition handler_reload :: "'w mute_store \<Rightarrow> instant \<Rightarrow> 'w \<Rightarrow> mute_set \<Rightarrow> mute_set" where
  "handler_reload st now w s = snd (Reload (st_ListMuteRules st now w) s)"

definition mute_List :: "'w mute_store \<Rightarrow> instant \<Rightarrow> 'w \<Rightarrow> mute_rule list response" where
  "mute_List st now w =
     (case st_ListMuteRules st (now - ExpiredListWindow) w of
        Inl err \<Rightarrow> RespError 500 ''internal_error''
      | Inr rules \<Rightarrow> RespData 200 rules)"

definition mute_Create ::
  "'w mute_store \<Rightarrow> instant \<Rightarrow> string \<Rightarrow> mute_create body \<Rightarrow> mute_set \<times> 'w
   \<Rightarrow> mute_rule response \<times> mute_set \<times> 'w" where
  "mute_Create st now username body sw =
     (case sw of (s, w) \<Rightarrow>
      (case body of
         Inl code \<Rightarrow> (RespError 400 code, s, w)
       | Inr inp \<Rightarrow>
           (case ExpiresAt now (mc_DurationMS inp) of
              Inl err \<Rightarrow> (RespError 400 ''validation_failed'', s, w)
            | Inr expiresAt \<Rightarrow>
                (let rule = \<lparr>mr_ID = 0, mr_Feed = trim_space (mc_Feed inp),
                             mr_Hostname = trim_space (mc_Hostname inp),
                             mr_Programname = trim_space (mc_Programname inp),
                             mr_Search = trim_space (mc_Search inp),
                             mr_Reason = trim_space (mc_Reason inp), mr_CreatedBy = username,
                             mr_CreatedAt = 0, mr_ExpiresAt = expiresAt\<rparr> in
                 (case mute_Validate rule of
                    Some err \<Rightarrow> (RespError 400 ''validation_failed'', s, w)
                  | None \<Rightarrow>
                      (case st_CreateMuteRule st rule w of
                         (Inl err, w1) \<Rightarrow> (RespError 500 ''internal_error'', s, w1)
                       | (Inr created, w1) \<Rightarrow>
                           (RespData 201 created, handler_reload st now w1 s, w1)))))))"

definition ExpireIn ::
  "'w mute_store \<Rightarrow> instant \<Rightarrow> string \<Rightarrow> int option body \<Rightarrow> mute_set \<times> 'w
   \<Rightarrow> mute_rule response \<times> mute_set \<times> 'w" where
  "ExpireIn st now idParam body sw =
     (case sw of (s, w) \<Rightarrow>
      (case parse_int64 idParam of
         None \<Rightarrow> (RespError 400 ''invalid_id'', s, w)
       | Some i \<Rightarrow>
           (case body of
              Inl code \<Rightarrow> (RespError 400 code, s, w)
            | Inr None \<Rightarrow> (RespError 400 ''validation_failed'', s, w)
            | Inr (Some ms) \<Rightarrow>
                (case ExpiresAt now ms of
                   Inl err \<Rightarrow> (RespError 400 ''validation_failed'', s, w)
                 | Inr expiresAt \<Rightarrow>
                     (case st_SetMuteRuleExpiry st i expiresAt w of
                        (Inl ErrNoRows, w1) \<Rightarrow> (RespError 404 ''not_found'', s, w1)
                      | (Inl (StoreFailed err), w1) \<Rightarrow> (RespError 500 ''internal_error'', s, w1)
                      | (Inr updated, w1) \<Rightarrow>
                          (RespData 200 updated, handler_reload st now w1 s, w1))))))"

definition Unmute ::
  "'w mute_store \<Rightarrow> instant \<Rightarrow> string \<Rightarrow> mute_set \<times> 'w \<Rightarrow> mute_rule response \<times> mute_set \<times> 'w" where
  "Unmute st now idParam sw =
     (case sw of (s, w) \<Rightarrow>
      (case parse_int64 idParam of
         None \<Rightarrow> (RespError 400 ''invalid_id'', s, w)
       | Some i \<Rightarrow>
           (case st_EndMuteRule st i now w of
              (Some ErrNoRows, w1) \<Rightarrow> (RespError 404 ''not_found'', s, w1)
            | (Some (StoreFailed err), w1) \<Rightarrow> (RespError 500 ''internal_error'', s, w1)
            | (None, w1) \<Rightarrow> (RespNoContent, handler_reload st now w1 s, w1))))"

section \<open>Routing a notified row\<close>

definition ChannelSrvlog :: string where "ChannelSrvlog = ''srvlog_ingest''"
definition ChannelNetlog :: string where "ChannelNetlog = ''netlog_ingest''"

record ingest_notification =
  no_Channel :: string
  no_ID :: int

record event_fetcher =
  GetSrvlog :: "int \<Rightarrow> string + srvlog_event"
  GetNetlog :: "int \<Rightarrow> string + netlog_event"

record muter =
  mu_MatchSrvlog :: "srvlog_event \<Rightarrow> int option"
  mu_MatchNetlog :: "netlog_event \<Rightarrow> int option"

record 'w sinks =
  BroadcastSrvlog :: "(srvlog_event \<Rightarrow> 'w \<Rightarrow> 'w) option"
  NotifySrvlog :: "(srvlog_event \<Rightarrow> 'w \<Rightarrow> 'w) option"
  BroadcastNetlog :: "(netlog_event \<Rightarrow> 'w \<Rightarrow> 'w) option"
  NotifyNetlog :: "(netlog_event \<Rightarrow> 'w \<Rightarrow> 'w) option"

definition Dispatch ::
  "ingest_notification \<Rightarrow> event_fetcher \<Rightarrow> muter option \<Rightarrow> 'w sinks \<Rightarrow> 'w \<Rightarrow> 'w" where
  "Dispatch n f m s w =
     (if no_Channel n = ChannelSrvlog then
        (case BroadcastSrvlog s of
           None \<Rightarrow> w
         | Some broadcast \<Rightarrow>
             (case GetSrvlog f (no_ID n) of
                Inl err \<Rightarrow> w
              | Inr event \<Rightarrow>
                  (let event = (case m of None \<Rightarrow> event
                                | Some mu \<Rightarrow> event\<lparr>ev_MutedBy := mu_MatchSrvlog mu event\<rparr>);
                       w1 = broadcast event w in
                   case NotifySrvlog s of
                     None \<Rightarrow> w1
                   | Some notify \<Rightarrow> if ev_MutedBy event = None then notify event w1 else w1)))
      else if no_Channel n = ChannelNetlog then
        (case BroadcastNetlog s of
           None \<Rightarrow> w
         | Some broadcast \<Rightarrow>
             (case GetNetlog f (no_ID n) of
                Inl err \<Rightarrow> w
              | Inr event \<Rightarrow>
                  (let event = (case m of None \<Rightarrow> event
                                | Some mu \<Rightarrow> event\<lparr>ev_MutedBy := mu_MatchNetlog mu event\<rparr>);
                       w1 = broadcast event w in
                   case NotifyNetlog s of
                     None \<Rightarrow> w1
                   | Some notify \<Rightarrow> if ev_MutedBy event = None then notify event w1 else w1)))
      else w)"

section \<open>A feed under mute rules\<close>

definition hits :: "feed \<Rightarrow> (mute_rule \<Rightarrow> 'f) \<Rightarrow> ('f \<Rightarrow> 'e \<Rightarrow> bool) \<Rightarrow> snapshot \<Rightarrow> 'e \<Rightarrow> mute_rule \<Rightarrow> bool" where
  "hits feed toFilter matches s e r \<longleftrightarrow> active s r feed \<and> matches (toFilter r) e"

text \<open>What the set needs of a feed: filters do not look at the mark an event carries.\<close>

locale mute_feed =
  fixes feed :: feed
    and toFilter :: "mute_rule \<Rightarrow> 'f"
    and matches :: "'f \<Rightarrow> 'e \<Rightarrow> bool"
    and mark :: "int option \<Rightarrow> 'e \<Rightarrow> 'e"
    and marked :: "'e \<Rightarrow> int option"
  assumes matches_mark: "matches f (mark m e) = matches f e"
    and marked_mark: "marked (mark m e) = m"
begin

lemma match_rules_find:
  "match_rules s feed toFilter matches e rs = map_option mr_ID (find (hits feed toFilter matches s e) rs)"
  by (induction rs) (auto simp: hits_def)

lemma match_lowest:
  assumes "sorted (map mr_ID (sn_rules s))"
  shows "match_event s feed toFilter matches e = Some i \<longleftrightarrow>
    (\<exists>r \<in> set (sn_rules s). hits feed toFilter matches s e r \<and> mr_ID r = i)
    \<and> (\<forall>r \<in> set (sn_rules s). hits feed toFilter matches s e r \<longrightarrow> i \<le> mr_ID r)"
proof -
  have "match_rules s feed toFilter matches e rs = Some i \<longleftrightarrow>
      (\<exists>r \<in> set rs. hits feed toFilter matches s e r \<and> mr_ID r = i)
      \<and> (\<forall>r \<in> set rs. hits feed toFilter matches s e r \<longrightarrow> i \<le> mr_ID r)"
    if "sorted (map mr_ID rs)" for rs
    using that
  proof (induction rs)
    case (Cons r rs)
    have le: "\<forall>q \<in> set rs. mr_ID r \<le> mr_ID q" using Cons.prems by simp
    have step: "match_rules s feed toFilter matches e (r # rs) =
        (if hits feed toFilter matches s e r then Some (mr_ID r) else match_rules s feed toFilter matches e rs)"
      by (simp add: hits_def)
    show ?case
    proof (cases "hits feed toFilter matches s e r")
      case True
      with le show ?thesis unfolding step by (auto dest: order_antisym)
    next
      case False
      with Cons show ?thesis unfolding step by auto
    qed
  qed simp
  with assms show ?thesis by (simp add: match_event_def)
qed

lemma match_iff_excluded:
  "match_event s feed toFilter matches e \<noteq> None
   \<longleftrightarrow> list_ex (\<lambda>f. matches f e) (exclusions s feed toFilter)"
  unfolding match_event_def exclusions_def
  by (induction "sn_rules s") (auto simp: match_rules_find find_None_iff hits_def list_ex_iff)

lemma match_event_mark [simp]:
  "match_event s feed toFilter matches (mark m e) = match_event s feed toFilter matches e"
proof -
  have "hits feed toFilter matches s (mark m e) = hits feed toFilter matches s e"
    by (rule ext) (simp add: hits_def matches_mark)
  then show ?thesis by (simp add: match_event_def match_rules_find)
qed

lemma hidden_iff_marked:
  "filter (\<lambda>e. marked e = None) (map (\<lambda>e. mark (match_event s feed toFilter matches e) e) es)
   = map (\<lambda>e. mark (match_event s feed toFilter matches e) e)
       (filter (\<lambda>e. \<not> list_ex (\<lambda>f. matches f e) (exclusions s feed toFilter)) es)"
proof (induction es)
  case (Cons e es)
  then show ?case using match_iff_excluded [of s e] by (auto simp: marked_mark)
qed simp

end

interpretation netlog_mute: mute_feed FeedNetlog mute_NetlogFilter netlog_Matches
  "\<lambda>m e. e\<lparr>ev_MutedBy := m\<rparr>" ev_MutedBy
  by unfold_locales (simp_all add: netlog_Matches_def cong: option.case_cong)

interpretation srvlog_mute: mute_feed FeedSrvlog mute_SrvlogFilter srvlog_Matches
  "\<lambda>m e. e\<lparr>ev_MutedBy := m\<rparr>" ev_MutedBy
  by unfold_locales (simp_all add: srvlog_Matches_def cong: option.case_cong)

section \<open>Properties\<close>

definition sample_mute :: mute_rule where
  "sample_mute =
     \<lparr>mr_ID = 3, mr_Feed = ''srvlog'', mr_Hostname = ''rtr1'', mr_Programname = [], mr_Search = [],
      mr_Reason = ''maintenance'', mr_CreatedBy = ''ops'', mr_CreatedAt = 0, mr_ExpiresAt = 100\<rparr>"

text \<open>After the rules are swapped in, an event is muted by rule \<^verbatim>\<open>i\<close> exactly when some rule of its
  feed with id \<^verbatim>\<open>i\<close> has not expired and matches it and no such rule has a lower id.\<close>

lemma mute_lowest_active_rule:
  shows "(set_MatchSrvlog (Replace rules s) now e = Some i) =
           ((\<exists>r \<in> set rules. mr_Feed r = ''srvlog'' \<and> now < mr_ExpiresAt r
               \<and> srvlog_Matches (mute_SrvlogFilter r) e \<and> mr_ID r = i)
          \<and> (\<forall>r \<in> set rules. mr_Feed r = ''srvlog'' \<and> now < mr_ExpiresAt r
               \<and> srvlog_Matches (mute_SrvlogFilter r) e \<longrightarrow> i \<le> mr_ID r))
       \<and> (set_MatchNetlog (Replace rules s) now n = Some i) =
           ((\<exists>r \<in> set rules. mr_Feed r = ''netlog'' \<and> now < mr_ExpiresAt r
               \<and> netlog_Matches (mute_NetlogFilter r) n \<and> mr_ID r = i)
          \<and> (\<forall>r \<in> set rules. mr_Feed r = ''netlog'' \<and> now < mr_ExpiresAt r
               \<and> netlog_Matches (mute_NetlogFilter r) n \<longrightarrow> i \<le> mr_ID r))"
proof -
  let ?s = "Active (Replace rules s) now"
  have "sorted (map mr_ID (sn_rules ?s))" by (simp add: Active_def Replace_def)
  from srvlog_mute.match_lowest [OF this, of e i] netlog_mute.match_lowest [OF this, of n i]
  show ?thesis
    by (simp add: set_MatchSrvlog_def set_MatchNetlog_def MatchSrvlog_def MatchNetlog_def
        hits_def active_def, simp add: Active_def Replace_def conj_assoc FeedSrvlog_def FeedNetlog_def)
qed


text \<open>Hiding muted events in SQL and marking the rows afterwards agree: within one snapshot, the
  events left unmarked are exactly those no exclusion filter matches.\<close>

lemma marking_agrees_with_exclusion:
  "filter (\<lambda>e. ev_MutedBy e = None) (markSrvlogs snap es)
     = markSrvlogs snap (filter (\<lambda>e. \<not> list_ex (\<lambda>f. srvlog_Matches f e) (SrvlogExclusions snap)) es)
   \<and> filter (\<lambda>e. ev_MutedBy e = None) (markNetlogs snap ns)
     = markNetlogs snap (filter (\<lambda>e. \<not> list_ex (\<lambda>f. netlog_Matches f e) (NetlogExclusions snap)) ns)"
  using srvlog_mute.hidden_iff_marked [of snap es] netlog_mute.hidden_iff_marked [of snap ns]
  by (simp add: markSrvlogs_def markNetlogs_def MatchSrvlog_def MatchNetlog_def SrvlogExclusions_def
      NetlogExclusions_def)

text \<open>A create request either is answered 400 and changes nothing, or asks the store for a rule
  that passed validation, belongs to the requesting user and expires within seven days.\<close>

lemma mute_Create_stores_only_valid:
  "case mute_Create st now user body (s, w) of (resp, s', w') \<Rightarrow>
     (\<exists>code. resp = RespError 400 code \<and> s' = s \<and> w' = w)
   \<or> (\<exists>rule. mute_Validate rule = None \<and> mr_CreatedBy rule = user
        \<and> now < mr_ExpiresAt rule \<and> mr_ExpiresAt rule \<le> now + MaxDuration
        \<and> w' = snd (st_CreateMuteRule st rule w)
        \<and> (case fst (st_CreateMuteRule st rule w) of
             Inl err \<Rightarrow> resp = RespError 500 ''internal_error'' \<and> s' = s
           | Inr created \<Rightarrow> resp = RespData 201 created
               \<and> s' = snd (Reload (st_ListMuteRules st now w') s)))"
proof (cases body)
  case (Inr inp)
  show ?thesis
  proof (cases "ExpiresAt now (mc_DurationMS inp)")
    case exp: (Inr t)
    have t: "now < t \<and> t \<le> now + MaxDuration"
      using exp by (auto simp: ExpiresAt_def mute_consts duration_units wrap64_id in64_def split: if_splits)
    let ?rule = "\<lparr>mr_ID = 0, mr_Feed = trim_space (mc_Feed inp), mr_Hostname = trim_space (mc_Hostname inp),
        mr_Programname = trim_space (mc_Programname inp), mr_Search = trim_space (mc_Search inp),
        mr_Reason = trim_space (mc_Reason inp), mr_CreatedBy = user, mr_CreatedAt = 0, mr_ExpiresAt = t\<rparr>"
    obtain res w1 where c: "st_CreateMuteRule st ?rule w = (res, w1)" by fastforce
    show ?thesis
    proof (cases "mute_Validate ?rule")
      case None
      have "mute_Create st now user body (s, w) =
          (case res of Inl err \<Rightarrow> (RespError 500 ''internal_error'', s, w1)
           | Inr created \<Rightarrow> (RespData 201 created, handler_reload st now w1 s, w1))"
        by (simp add: mute_Create_def Inr exp Let_def None c)
      then show ?thesis
        using None t c by (cases res) (auto intro!: exI [of _ ?rule] simp: handler_reload_def)
    qed (simp add: mute_Create_def Inr exp Let_def)
  qed (simp add: mute_Create_def Inr)
qed (simp add: mute_Create_def)

text \<open>Only a pattern of stars matches the empty host name.\<close>

lemma to_lower_stars:
  assumes "set (to_lower p) \<subseteq> {CHR ''*''}"
  shows "set p \<subseteq> {CHR ''*''}"
proof -
  have "ascii (to_lower p)" using assms by (auto simp: ascii_def list_all_iff)
  then have "set (runes (to_lower p)) \<subseteq> {42}" using assms by (auto simp: runes_ascii)
  then have r: "set (runes p) \<subseteq> {42}" by (auto simp: runes_to_lower dest: ToLower_punct)
  have "(x, b) \<in> set (decode_all p) \<Longrightarrow> x = 42" for x b
    using r by (force simp: runes_def)
  then have "valid_utf8 p" by (fastforce simp: valid_utf8_def list_all_iff runeError_def)
  then have "p = utf8_encode (runes p)" by (simp add: valid_utf8_runes)
  moreover have "set (utf8_encode rs) \<subseteq> {CHR ''*''}" if "set rs \<subseteq> {42}" for rs
    using that by (induction rs) (auto simp: encode_ascii byte_def char_of_def bit_Suc_0_iff)
  ultimately show ?thesis using r by metis
qed

lemma wildcard_scan_empty:
  "wildcard_scan [] pos i ps \<Longrightarrow> set ps \<subseteq> {[]}"
proof (induction "[] :: string" pos i ps rule: wildcard_scan.induct)
  case (2 pos i part ps)
  have "str_index [] part = None" if "part \<noteq> []" using that by (cases part) simp_all
  with 2 show ?case by (auto split: if_splits)
qed simp

lemma str_split_empty_parts: "set (str_split c s) \<subseteq> {[]} \<Longrightarrow> set s \<subseteq> {c}"
  by (induction s) (auto split: list.splits if_splits)

lemma matchField_empty: "p \<noteq> [] \<Longrightarrow> matchField [] p \<Longrightarrow> set p \<subseteq> {CHR ''*''}"
proof -
  assume p: "p \<noteq> []" "matchField [] p"
  then have star: "CHR ''*'' \<in> set p" and m: "matchWildcard [] p" by (auto simp: matchField_def split: if_splits)
  show ?thesis
  proof (cases "p = ''*''")
    case False
    have tl: "to_lower [] = []" by simp
    from False have "wildcard_scan (to_lower []) 0 0 (str_split (CHR ''*'') (to_lower p))"
      using m star by (auto simp: matchWildcard_def Let_def split: if_splits)
    then show ?thesis
      unfolding tl by (rule wildcard_scan_empty [THEN str_split_empty_parts, THEN to_lower_stars])
  qed simp
qed

lemma trim_char_stars: "set p \<subseteq> {c} \<Longrightarrow> trim_char c p = []"
  by (auto simp: trim_char_def dest: set_dropWhileD)

lemma set_trim_space: "set (trim_space s) \<subseteq> set s"
proof -
  have "set (trim_space s) \<subseteq> set (concat (map snd (decode_all s)))"
    by (auto simp: trim_space_def dest!: set_dropWhileD) 
  then show ?thesis by (simp add: concat_decode_all)
qed

text \<open>No rule that passes validation mutes a whole feed: some event of either feed escapes it.\<close>

lemma valid_mute_rule_is_selective:
  assumes "mute_Validate r = None"
  shows "\<exists>e. \<not> srvlog_Matches (mute_SrvlogFilter r) e \<and> \<not> netlog_Matches (mute_NetlogFilter r) e"
proof (rule exI)
  let ?e = "sample_event\<lparr>ev_Hostname := [], ev_Programname := [], ev_Message := []\<rparr>"
  have nil: "trim_space [] = []" using set_trim_space [of "[]"] by auto
  have "mr_Programname r \<noteq> [] \<or> mr_Search r \<noteq> [] \<or> mr_Hostname r \<noteq> [] \<and> \<not> set (mr_Hostname r) \<subseteq> {CHR ''*''}"
  proof (rule ccontr)
    assume neg: "\<not> ?thesis"
    then have "set (trim_space (mr_Hostname r)) \<subseteq> {CHR ''*''}" using set_trim_space [of "mr_Hostname r"] by auto
    then have "trim_char (CHR ''*'') (trim_space (mr_Hostname r)) = []" by (rule trim_char_stars)
    with neg nil assms show False by (simp add: mute_Validate_def Let_def split: if_splits)
  qed
  moreover have "\<not> containsFold [] (searchNeedle p [])" if "p \<noteq> []" for p
    using that by (simp add: containsFold_def searchNeedle_def)
  moreover have "\<not> matchField [] p" if "p \<noteq> []" "\<not> set p \<subseteq> {CHR ''*''}" for p
    using matchField_empty that by blast
  ultimately show "\<not> srvlog_Matches (mute_SrvlogFilter r) ?e \<and> \<not> netlog_Matches (mute_NetlogFilter r) ?e"
    by (auto simp: srvlog_Matches_def netlog_Matches_def mute_SrvlogFilter_def mute_NetlogFilter_def
        empty_filter_def)
qed



definition sample_sinks :: "(int list \<times> int list) sinks" where
  "sample_sinks =
     \<lparr>BroadcastSrvlog = Some (\<lambda>e w. (ev_ID e # fst w, snd w)), NotifySrvlog = Some (\<lambda>e w. (fst w, ev_ID e # snd w)),
      BroadcastNetlog = Some (\<lambda>e w. w), NotifyNetlog = Some (\<lambda>e w. w)\<rparr>"

lemma sample_muted: "set_MatchSrvlog (Replace [sample_mute] NewSet) 50 sample_event = Some 3"
  by (simp add: set_MatchSrvlog_def MatchSrvlog_def match_event_def Active_def Replace_def active_def
      FeedSrvlog_def sample_mute_def sample_event_def mute_SrvlogFilter_def srvlog_Matches_def
      empty_filter_def matchField_def)


end
