(* ===== verification/EventStore.thy ===== *)
theory EventStore
  imports Query Mute "HOL-Library.List_Lexorder"
begin

text \<open>
  Reading events: the WHERE clauses of \<^verbatim>\<open>api/internal/postgres/syslogfilter.go\<close> and \<^verbatim>\<open>applog_store.go\<close>,
  the listings with keyset pagination of \<^verbatim>\<open>srvlog_store.go\<close>, \<^verbatim>\<open>netlog_store.go\<close> and \<^verbatim>\<open>applog_store.go\<close>,
  and the list and detail handlers of \<^verbatim>\<open>handler/srvlog.go\<close>, \<^verbatim>\<open>netlog.go\<close> and \<^verbatim>\<open>applog.go\<close>. A query is a
  value; the database that answers it is a parameter, and what it is asked to do (ILIKE, inet
  equality, ORDER BY, LIMIT) is stated as a hypothesis. The lemmas show that the clauses select what
  the live filters select, and that paging through a listing returns every row once.
\<close>

section \<open>Conditions and queries\<close>

datatype cond =
    ILike string string
  | InetEq string string
  | EqText string string
  | EqTexts string "string list"
  | EqInt string int
  | LtOrEqInt string int
  | GtInt string int
  | GtOrEqTime string instant
  | LtOrEqTime string instant
  | BeforeKey instant int
  | TsQuery string
  | NotAll "cond list"

datatype direction = Asc | Desc

record select =
  se_from :: string
  se_where :: "cond list"
  se_order :: "(string \<times> direction) list"
  se_limit :: "nat option"

definition sel_from :: "string \<Rightarrow> select" where
  "sel_from t = \<lparr>se_from = t, se_where = [], se_order = [], se_limit = None\<rparr>"

definition add_where :: "cond \<Rightarrow> select \<Rightarrow> select" where
  "add_where c q = q\<lparr>se_where := se_where q @ [c]\<rparr>"

text \<open>\<^verbatim>\<open>uint64\<close> of a signed integer.\<close>

definition uint64 :: "int \<Rightarrow> nat" where "uint64 n = nat (n mod 2 ^ 64)"

section \<open>Escaping and the syslog clause\<close>

text \<open>\<^verbatim>\<open>strings.ReplaceAll\<close> with an old string of one byte.\<close>

definition replace_char :: "char \<Rightarrow> string \<Rightarrow> string \<Rightarrow> string" where
  "replace_char c new s = concat (map (\<lambda>x. if x = c then new else [x]) s)"

abbreviation backslash :: char where "backslash \<equiv> CHR 0x5C"

definition escapeLike :: "string \<Rightarrow> string" where
  "escapeLike s =
     (let s1 = replace_char backslash [backslash, backslash] s;
          s2 = replace_char (CHR ''%'') [backslash, CHR ''%''] s1 in
      replace_char (CHR ''_'') [backslash, CHR ''_''] s2)"

text \<open>The filter of a listing carries the filters of the mute rules to hide.\<close>

record list_filter = syslog_filter +
  sf_Exclude :: "syslog_filter list"

record syslogFilterClause =
  cl_Hostname :: string
  cl_FromhostIP :: string
  cl_Programname :: string
  cl_Severity :: "int option"
  cl_SeverityMax :: "int option"
  cl_Facility :: "int option"
  cl_SyslogTag :: string
  cl_MsgID :: string
  cl_Search :: string
  cl_From :: "instant option"
  cl_To :: "instant option"

definition syslogConds :: "syslogFilterClause \<Rightarrow> cond list" where
  "syslogConds f =
     (if cl_Hostname f \<noteq> [] then
        (if CHR ''*'' \<in> set (cl_Hostname f)
         then [ILike ''hostname'' (replace_char (CHR ''*'') ''%'' (escapeLike (cl_Hostname f)))]
         else [EqText ''hostname'' (cl_Hostname f)])
      else [])
     @ (if cl_FromhostIP f \<noteq> [] then [InetEq ''fromhost_ip'' (cl_FromhostIP f)] else [])
     @ (if cl_Programname f \<noteq> [] then [EqText ''programname'' (cl_Programname f)] else [])
     @ (case cl_Severity f of None \<Rightarrow> [] | Some n \<Rightarrow> [EqInt ''severity'' n])
     @ (case cl_SeverityMax f of None \<Rightarrow> [] | Some n \<Rightarrow> [LtOrEqInt ''severity'' n])
     @ (case cl_Facility f of None \<Rightarrow> [] | Some n \<Rightarrow> [EqInt ''facility'' n])
     @ (if cl_SyslogTag f \<noteq> [] then [EqText ''syslogtag'' (cl_SyslogTag f)] else [])
     @ (if cl_MsgID f \<noteq> [] then [EqText ''msgid'' (cl_MsgID f)] else [])
     @ (if cl_Search f \<noteq> [] then [ILike ''message'' (''%'' @ escapeLike (cl_Search f) @ ''%'')] else [])
     @ (case cl_From f of None \<Rightarrow> [] | Some t \<Rightarrow> [GtOrEqTime ''received_at'' t])
     @ (case cl_To f of None \<Rightarrow> [] | Some t \<Rightarrow> [LtOrEqTime ''received_at'' t])"

definition applySyslogFilter :: "select \<Rightarrow> syslogFilterClause \<Rightarrow> select" where
  "applySyslogFilter qb f = fold add_where (syslogConds f) qb"

definition excludeSyslog :: "select \<Rightarrow> syslogFilterClause \<Rightarrow> select" where
  "excludeSyslog qb f =
     (let conds = syslogConds f in if conds = [] then qb else add_where (NotAll conds) qb)"

definition srvlogClause :: "'z syslog_filter_scheme \<Rightarrow> syslogFilterClause" where
  "srvlogClause f =
     \<lparr>cl_Hostname = sf_Hostname f, cl_FromhostIP = sf_FromhostIP f, cl_Programname = sf_Programname f,
      cl_Severity = sf_Severity f, cl_SeverityMax = sf_SeverityMax f, cl_Facility = sf_Facility f,
      cl_SyslogTag = sf_SyslogTag f, cl_MsgID = sf_MsgID f, cl_Search = sf_Search f,
      cl_From = sf_From f, cl_To = sf_To f\<rparr>"

definition netlogClause :: "'z syslog_filter_scheme \<Rightarrow> syslogFilterClause" where
  "netlogClause f =
     \<lparr>cl_Hostname = sf_Hostname f, cl_FromhostIP = sf_FromhostIP f, cl_Programname = sf_Programname f,
      cl_Severity = sf_Severity f, cl_SeverityMax = sf_SeverityMax f, cl_Facility = sf_Facility f,
      cl_SyslogTag = sf_SyslogTag f, cl_MsgID = sf_MsgID f, cl_Search = sf_Search f,
      cl_From = sf_From f, cl_To = sf_To f\<rparr>"

definition applySrvlogFilter :: "select \<Rightarrow> list_filter \<Rightarrow> select" where
  "applySrvlogFilter qb f =
     fold (\<lambda>ex qb. excludeSyslog qb (srvlogClause ex)) (sf_Exclude f) (applySyslogFilter qb (srvlogClause f))"

definition applyNetlogFilter :: "select \<Rightarrow> list_filter \<Rightarrow> select" where
  "applyNetlogFilter qb f =
     fold (\<lambda>ex qb. excludeSyslog qb (netlogClause ex)) (sf_Exclude f) (applySyslogFilter qb (netlogClause f))"

text \<open>The levels are collected from a Go map, in no fixed order; they are used as a set.\<close>

definition appLogLevelsAtOrAbove :: "int \<Rightarrow> string list" where
  "appLogLevelsAtOrAbove minRank = map fst (filter (\<lambda>(level, rank). rank \<ge> minRank) ValidAppLogLevels)"

definition applyAppLogFilter :: "select \<Rightarrow> applog_filter \<Rightarrow> select" where
  "applyAppLogFilter qb f =
     fold add_where
       ((if af_Service f \<noteq> [] then [EqText ''service'' (af_Service f)] else [])
        @ (if af_Component f \<noteq> [] then [EqText ''component'' (af_Component f)] else [])
        @ (if af_Host f \<noteq> [] then
             (if CHR ''*'' \<in> set (af_Host f)
              then [ILike ''host'' (replace_char (CHR ''*'') ''%'' (escapeLike (af_Host f)))]
              else [EqText ''host'' (af_Host f)])
           else [])
        @ (if af_LevelExact f \<noteq> [] then [EqText ''level'' (af_LevelExact f)] else [])
        @ (if af_Level f \<noteq> [] then
             (let levels = appLogLevelsAtOrAbove (AppLogLevelRank (af_Level f)) in
              if levels \<noteq> [] then [EqTexts ''level'' levels] else [])
           else [])
        @ (if af_Search f \<noteq> [] then [TsQuery (af_Search f)] else [])
        @ (case af_From f of None \<Rightarrow> [] | Some t \<Rightarrow> [GtOrEqTime ''received_at'' t])
        @ (case af_To f of None \<Rightarrow> [] | Some t \<Rightarrow> [LtOrEqTime ''received_at'' t]))
       qb"

section \<open>Rows\<close>

record 'ip syslog_row =
  ro_id :: int
  ro_received_at :: instant
  ro_reported_at :: instant
  ro_hostname :: string
  ro_fromhost_ip :: 'ip
  ro_programname :: string
  ro_msgid :: string
  ro_severity :: int
  ro_facility :: int
  ro_syslogtag :: string
  ro_structured_data :: "string option"
  ro_message :: string
  ro_raw_message :: "string option"

definition scanSrvlog :: "('ip \<Rightarrow> string) \<Rightarrow> 'ip syslog_row \<Rightarrow> srvlog_event" where
  "scanSrvlog ipString r =
     \<lparr>ev_ID = ro_id r, ev_ReceivedAt = ro_received_at r, ev_ReportedAt = ro_reported_at r,
      ev_Hostname = ro_hostname r, ev_FromhostIP = ipString (ro_fromhost_ip r),
      ev_Programname = ro_programname r, ev_MsgID = ro_msgid r, ev_Severity = ro_severity r,
      ev_SeverityLabel = SeverityLabel (ro_severity r), ev_Facility = ro_facility r,
      ev_FacilityLabel = FacilityLabel (ro_facility r), ev_SyslogTag = ro_syslogtag r,
      ev_StructuredData = ro_structured_data r, ev_Message = ro_message r,
      ev_RawMessage = ro_raw_message r, ev_MutedBy = None\<rparr>"

definition scanNetlog :: "('ip \<Rightarrow> string) \<Rightarrow> 'ip syslog_row \<Rightarrow> netlog_event" where
  "scanNetlog ipString r =
     \<lparr>ev_ID = ro_id r, ev_ReceivedAt = ro_received_at r, ev_ReportedAt = ro_reported_at r,
      ev_Hostname = ro_hostname r, ev_FromhostIP = ipString (ro_fromhost_ip r),
      ev_Programname = ro_programname r, ev_MsgID = ro_msgid r, ev_Severity = ro_severity r,
      ev_SeverityLabel = SeverityLabel (ro_severity r), ev_Facility = ro_facility r,
      ev_FacilityLabel = FacilityLabel (ro_facility r), ev_SyslogTag = ro_syslogtag r,
      ev_StructuredData = ro_structured_data r, ev_Message = ro_message r,
      ev_RawMessage = ro_raw_message r, ev_MutedBy = None\<rparr>"

record applog_row =
  ar_id :: int
  ar_received_at :: instant
  ar_timestamp :: instant
  ar_level :: string
  ar_service :: string
  ar_component :: string
  ar_host :: string
  ar_msg :: string
  ar_source :: string
  ar_attrs :: "string option"
  ar_source_ip :: "string option"
  ar_api_key_id :: "string option"

definition scanAppLog :: "applog_row \<Rightarrow> applog_event" where
  "scanAppLog r =
     \<lparr>al_ID = ar_id r, al_ReceivedAt = ar_received_at r, al_Timestamp = ar_timestamp r,
      al_Level = ar_level r, al_Service = ar_service r, al_Component = ar_component r,
      al_Host = ar_host r, al_Msg = ar_msg r, al_Source = ar_source r,
      al_Attrs = (case ar_attrs r of None \<Rightarrow> [] | Some a \<Rightarrow> a), al_AttrsTruncated = False,
      al_SourceIP = ar_source_ip r, al_APIKeyID = ar_api_key_id r\<rparr>"

text \<open>How a query fails: while it is built, while it runs, while its rows are scanned, or for a single
  row because there is none.\<close>

datatype db_error = BuildFailed string | QueryFailed string | ScanFailed string | NoRows

type_synonym 'row db = "select \<Rightarrow> db_error + 'row list"

fun wrap_error :: "string \<Rightarrow> string \<Rightarrow> db_error \<Rightarrow> string" where
  "wrap_error doing scanning (BuildFailed e) = ''build query: '' @ e"
| "wrap_error doing scanning (QueryFailed e) = doing @ '': '' @ e"
| "wrap_error doing scanning (ScanFailed e) = scanning @ '': '' @ e"
| "wrap_error doing scanning NoRows = doing @ '': no rows in result set''"

section \<open>Listings\<close>

definition key_order :: "(string \<times> direction) list" where
  "key_order = [(''received_at'', Desc), (''id'', Desc)]"

text \<open>The end of the three listings: the cursor of the last row returned, if there is a row beyond.\<close>

definition next_page :: "('e \<Rightarrow> cursor) \<Rightarrow> int \<Rightarrow> 'e list \<Rightarrow> 'e list \<times> cursor option" where
  "next_page cursor_of limit events =
     (if limit > 0 \<and> int (length events) > limit
      then (take (nat limit) events, Some (cursor_of (events ! (nat limit - 1))))
      else (events, None))"

definition syslog_cursor :: "syslog_event \<Rightarrow> cursor" where
  "syslog_cursor e = \<lparr>cu_ReceivedAt = ev_ReceivedAt e, cu_ID = ev_ID e\<rparr>"

definition applog_cursor :: "applog_event \<Rightarrow> cursor" where
  "applog_cursor e = \<lparr>cu_ReceivedAt = al_ReceivedAt e, cu_ID = al_ID e\<rparr>"

definition before :: "cursor option \<Rightarrow> select \<Rightarrow> select" where
  "before cursor qb =
     (case cursor of None \<Rightarrow> qb | Some c \<Rightarrow> add_where (BeforeKey (cu_ReceivedAt c) (cu_ID c)) qb)"

definition ListSrvlogs ::
  "('ip \<Rightarrow> string) \<Rightarrow> 'ip syslog_row db \<Rightarrow> list_filter \<Rightarrow> cursor option \<Rightarrow> int
   \<Rightarrow> string + srvlog_event list \<times> cursor option" where
  "ListSrvlogs ipString exec f cursor limit =
     (let qb = before cursor (applySrvlogFilter (sel_from ''srvlog_events'') f);
          qb = qb\<lparr>se_order := key_order, se_limit := Some (uint64 (limit + 1))\<rparr> in
      case exec qb of
        Inl err \<Rightarrow> Inl (wrap_error ''list events'' ''scan event'' err)
      | Inr rows \<Rightarrow> Inr (next_page syslog_cursor limit (map (scanSrvlog ipString) rows)))"

definition ListNetlogs ::
  "('ip \<Rightarrow> string) \<Rightarrow> 'ip syslog_row db \<Rightarrow> list_filter \<Rightarrow> cursor option \<Rightarrow> int
   \<Rightarrow> string + netlog_event list \<times> cursor option" where
  "ListNetlogs ipString exec f cursor limit =
     (let qb = before cursor (applyNetlogFilter (sel_from ''netlog_events'') f);
          qb = qb\<lparr>se_order := key_order, se_limit := Some (uint64 (limit + 1))\<rparr> in
      case exec qb of
        Inl err \<Rightarrow> Inl (wrap_error ''list netlog events'' ''scan netlog event'' err)
      | Inr rows \<Rightarrow> Inr (next_page syslog_cursor limit (map (scanNetlog ipString) rows)))"

definition ListAppLogs ::
  "applog_row db \<Rightarrow> applog_filter \<Rightarrow> cursor option \<Rightarrow> int \<Rightarrow> string + applog_event list \<times> cursor option" where
  "ListAppLogs exec f cursor limit =
     (let qb = before cursor (applyAppLogFilter (sel_from ''applog_events'') f);
          qb = qb\<lparr>se_order := key_order, se_limit := Some (uint64 (limit + 1))\<rparr> in
      case exec qb of
        Inl err \<Rightarrow> Inl (wrap_error ''list log events'' ''scan log event'' err)
      | Inr rows \<Rightarrow> Inr (next_page applog_cursor limit (map scanAppLog rows)))"

definition ListSrvlogsSince ::
  "('ip \<Rightarrow> string) \<Rightarrow> 'ip syslog_row db \<Rightarrow> list_filter \<Rightarrow> int \<Rightarrow> int \<Rightarrow> string + srvlog_event list" where
  "ListSrvlogsSince ipString exec f sinceID limit =
     (let qb = add_where (GtInt ''id'' sinceID) (applySrvlogFilter (sel_from ''srvlog_events'') f);
          qb = qb\<lparr>se_order := [(''id'', Asc)], se_limit := Some (uint64 limit)\<rparr> in
      case exec qb of
        Inl err \<Rightarrow> Inl (wrap_error (''list events since '' @ fmt_int sinceID) ''scan event'' err)
      | Inr rows \<Rightarrow> Inr (map (scanSrvlog ipString) rows))"

definition ListNetlogsSince ::
  "('ip \<Rightarrow> string) \<Rightarrow> 'ip syslog_row db \<Rightarrow> list_filter \<Rightarrow> int \<Rightarrow> int \<Rightarrow> string + netlog_event list" where
  "ListNetlogsSince ipString exec f sinceID limit =
     (let qb = add_where (GtInt ''id'' sinceID) (applyNetlogFilter (sel_from ''netlog_events'') f);
          qb = qb\<lparr>se_order := [(''id'', Asc)], se_limit := Some (uint64 limit)\<rparr> in
      case exec qb of
        Inl err \<Rightarrow> Inl (wrap_error (''list netlog events since '' @ fmt_int sinceID) ''scan netlog event'' err)
      | Inr rows \<Rightarrow> Inr (map (scanNetlog ipString) rows))"

definition ListAppLogsSince :: "applog_row db \<Rightarrow> applog_filter \<Rightarrow> int \<Rightarrow> int \<Rightarrow> string + applog_event list" where
  "ListAppLogsSince exec f sinceID limit =
     (let qb = add_where (GtInt ''id'' sinceID) (applyAppLogFilter (sel_from ''applog_events'') f);
          qb = qb\<lparr>se_order := [(''id'', Asc)], se_limit := Some (uint64 limit)\<rparr> in
      case exec qb of
        Inl err \<Rightarrow> Inl (wrap_error (''list log events since '' @ fmt_int sinceID) ''scan log event'' err)
      | Inr rows \<Rightarrow> Inr (map scanAppLog rows))"

text \<open>A single row; \<^const>\<open>NoRows\<close> is handed on unwrapped, so that the handler can tell it.\<close>

definition select_id :: "string \<Rightarrow> int \<Rightarrow> select" where
  "select_id t i = add_where (EqInt ''id'' i) (sel_from t)"

definition get_error :: "string \<Rightarrow> int \<Rightarrow> db_error \<Rightarrow> db_error" where
  "get_error what i err =
     (case err of
        NoRows \<Rightarrow> NoRows
      | BuildFailed e \<Rightarrow> BuildFailed (''build query: '' @ e)
      | QueryFailed e \<Rightarrow> QueryFailed (''get '' @ what @ '' '' @ fmt_int i @ '': '' @ e)
      | ScanFailed e \<Rightarrow> ScanFailed (''get '' @ what @ '' '' @ fmt_int i @ '': '' @ e))"

definition store_GetSrvlog ::
  "('ip \<Rightarrow> string) \<Rightarrow> (select \<Rightarrow> db_error + 'ip syslog_row) \<Rightarrow> int \<Rightarrow> db_error + srvlog_event" where
  "store_GetSrvlog ipString query_row i =
     (case query_row (select_id ''srvlog_events'' i) of
        Inl err \<Rightarrow> Inl (get_error ''event'' i err)
      | Inr row \<Rightarrow> Inr (scanSrvlog ipString row))"

definition store_GetNetlog ::
  "('ip \<Rightarrow> string) \<Rightarrow> (select \<Rightarrow> db_error + 'ip syslog_row) \<Rightarrow> int \<Rightarrow> db_error + netlog_event" where
  "store_GetNetlog ipString query_row i =
     (case query_row (select_id ''netlog_events'' i) of
        Inl err \<Rightarrow> Inl (get_error ''netlog event'' i err)
      | Inr row \<Rightarrow> Inr (scanNetlog ipString row))"

definition store_GetAppLog ::
  "(select \<Rightarrow> db_error + applog_row) \<Rightarrow> int \<Rightarrow> db_error + applog_event" where
  "store_GetAppLog query_row i =
     (case query_row (select_id ''applog_events'' i) of
        Inl err \<Rightarrow> Inl (get_error ''log event'' i err)
      | Inr row \<Rightarrow> Inr (scanAppLog row))"

section \<open>The handlers\<close>

definition defaultLimit :: int where "defaultLimit = 100"
definition maxLimit :: int where "maxLimit = 1000"
definition applogDefaultLimit :: int where "applogDefaultLimit = 100"
definition applogMaxLimit :: int where "applogMaxLimit = 1000"

record 'e list_response =
  lr_Data :: "'e list"
  lr_Cursor :: "string option"
  lr_HasMore :: bool

definition list_response_of :: "'e list \<Rightarrow> cursor option \<Rightarrow> 'e list_response" where
  "list_response_of events nextCursor =
     \<lparr>lr_Data = events, lr_Cursor = map_option Encode nextCursor, lr_HasMore = (nextCursor \<noteq> None)\<rparr>"

text \<open>\<^const>\<open>None\<close> when nothing is written because the client has gone.\<close>

definition srvlog_List ::
  "(string \<Rightarrow> string option) \<Rightarrow> (string \<Rightarrow> instant option)
   \<Rightarrow> (list_filter \<Rightarrow> cursor option \<Rightarrow> int \<Rightarrow> string + srvlog_event list \<times> cursor option)
   \<Rightarrow> snapshot \<Rightarrow> bool \<Rightarrow> query \<Rightarrow> srvlog_event list_response response option" where
  "srvlog_List parseAddr parseTime store snap clientGone q =
     (case ParseSrvlogFilter parseAddr parseTime q of
        Inl err \<Rightarrow> Some (RespError 400 ''invalid_filter'')
      | Inr flt \<Rightarrow>
          (case ParseHideMuted q of
             Inl err \<Rightarrow> Some (RespError 400 ''invalid_filter'')
           | Inr hideMuted \<Rightarrow>
               (let cursor = ParseCursor q;
                    limit = ParseLimit q defaultLimit maxLimit;
                    exclude = (if hideMuted then SrvlogExclusions snap else []) in
                case store (syslog_filter.extend flt (list_filter.fields exclude)) cursor limit of
                  Inl err \<Rightarrow> if clientGone then None else Some (RespError 500 ''query_failed'')
                | Inr (events, nextCursor) \<Rightarrow>
                    Some (RespData 200 (list_response_of (markSrvlogs snap events) nextCursor)))))"

definition netlog_List ::
  "(string \<Rightarrow> string option) \<Rightarrow> (string \<Rightarrow> instant option)
   \<Rightarrow> (list_filter \<Rightarrow> cursor option \<Rightarrow> int \<Rightarrow> string + netlog_event list \<times> cursor option)
   \<Rightarrow> snapshot \<Rightarrow> bool \<Rightarrow> query \<Rightarrow> netlog_event list_response response option" where
  "netlog_List parseAddr parseTime store snap clientGone q =
     (case ParseNetlogFilter parseAddr parseTime q of
        Inl err \<Rightarrow> Some (RespError 400 ''invalid_filter'')
      | Inr flt \<Rightarrow>
          (case ParseHideMuted q of
             Inl err \<Rightarrow> Some (RespError 400 ''invalid_filter'')
           | Inr hideMuted \<Rightarrow>
               (let cursor = ParseCursor q;
                    limit = ParseLimit q defaultLimit maxLimit;
                    exclude = (if hideMuted then NetlogExclusions snap else []) in
                case store (syslog_filter.extend flt (list_filter.fields exclude)) cursor limit of
                  Inl err \<Rightarrow> if clientGone then None else Some (RespError 500 ''query_failed'')
                | Inr (events, nextCursor) \<Rightarrow>
                    Some (RespData 200 (list_response_of (markNetlogs snap events) nextCursor)))))"

definition previewAppLogAttrs :: "applog_event list \<Rightarrow> applog_event list" where
  "previewAppLogAttrs events = map (\<lambda>e. WithAttrsPreview e AttrsPreviewLimit) events"

definition applog_List ::
  "(string \<Rightarrow> instant option)
   \<Rightarrow> (applog_filter \<Rightarrow> cursor option \<Rightarrow> int \<Rightarrow> string + applog_event list \<times> cursor option)
   \<Rightarrow> bool \<Rightarrow> query \<Rightarrow> applog_event list_response response option" where
  "applog_List parseTime store clientGone q =
     (case ParseAppLogFilter parseTime q of
        Inl err \<Rightarrow> Some (RespError 400 ''invalid_filter'')
      | Inr flt \<Rightarrow>
          (let cursor = ParseCursor q;
               limit = ParseLimit q applogDefaultLimit applogMaxLimit in
           case store flt cursor limit of
             Inl err \<Rightarrow> if clientGone then None else Some (RespError 500 ''query_failed'')
           | Inr (events, nextCursor) \<Rightarrow>
               Some (RespData 200 (list_response_of (previewAppLogAttrs events) nextCursor))))"

definition srvlog_Get ::
  "(int \<Rightarrow> db_error + srvlog_event) \<Rightarrow> snapshot \<Rightarrow> bool \<Rightarrow> string \<Rightarrow> srvlog_event response option" where
  "srvlog_Get store snap clientGone idStr =
     (case parse_int64 idStr of
        None \<Rightarrow> Some (RespError 400 ''invalid_id'')
      | Some i \<Rightarrow>
          (case store i of
             Inl NoRows \<Rightarrow> Some (RespError 404 ''not_found'')
           | Inl _ \<Rightarrow> if clientGone then None else Some (RespError 500 ''query_failed'')
           | Inr event \<Rightarrow> Some (RespData 200 (event\<lparr>ev_MutedBy := MatchSrvlog snap event\<rparr>))))"

record 'ref netlog_detail =
  nd_Event :: netlog_event
  nd_JuniperRef :: "'ref list"

definition netlog_Get ::
  "(int \<Rightarrow> db_error + netlog_event) \<Rightarrow> (string \<Rightarrow> string + 'ref list) \<Rightarrow> snapshot \<Rightarrow> bool \<Rightarrow> string
   \<Rightarrow> 'ref netlog_detail response option" where
  "netlog_Get store lookupRef snap clientGone idStr =
     (case parse_int64 idStr of
        None \<Rightarrow> Some (RespError 400 ''invalid_id'')
      | Some i \<Rightarrow>
          (case store i of
             Inl NoRows \<Rightarrow> Some (RespError 404 ''not_found'')
           | Inl _ \<Rightarrow> if clientGone then None else Some (RespError 500 ''query_failed'')
           | Inr event \<Rightarrow>
               (let event = event\<lparr>ev_MutedBy := MatchNetlog snap event\<rparr>;
                    refs = (if ev_MsgID event \<noteq> []
                            then (case lookupRef (ev_MsgID event) of Inl err \<Rightarrow> [] | Inr refs \<Rightarrow> refs)
                            else []) in
                Some (RespData 200 \<lparr>nd_Event = event, nd_JuniperRef = refs\<rparr>))))"

definition applog_Get ::
  "(int \<Rightarrow> db_error + applog_event) \<Rightarrow> bool \<Rightarrow> string \<Rightarrow> applog_event response option" where
  "applog_Get store clientGone idStr =
     (case parse_int64 idStr of
        None \<Rightarrow> Some (RespError 400 ''invalid_id'')
      | Some i \<Rightarrow>
          (case store i of
             Inl NoRows \<Rightarrow> Some (RespError 404 ''not_found'')
           | Inl _ \<Rightarrow> if clientGone then None else Some (RespError 500 ''query_failed'')
           | Inr event \<Rightarrow> Some (RespData 200 event)))"

section \<open>What the database is asked to do\<close>

text \<open>LIKE on UTF-8 bytes: a percent sign stands for any sequence, an underscore for one character, a
  backslash takes the next byte literally.\<close>

fun like_match :: "string \<Rightarrow> string \<Rightarrow> bool" where
  "like_match [] v = (v = [])"
| "like_match (c # p) [] = (c = CHR ''%'' \<and> like_match p [])"
| "like_match (c # p) (d # v) =
     (if c = CHR ''%'' then like_match p (d # v) \<or> like_match (c # p) v
      else if c = CHR ''_'' then like_match p (drop (snd (decode_rune (d # v))) (d # v))
      else if c = backslash then
        (case p of [] \<Rightarrow> False | x # p' \<Rightarrow> x = d \<and> like_match p' v)
      else c = d \<and> like_match p v)"

datatype 'ip cell = CText string | CInt int | CTime instant | CInet 'ip

text \<open>The operators of the database, and three-valued conditions over the cells of a row.\<close>

record ('ip, 'row) operators =
  op_ilike :: "string \<Rightarrow> string \<Rightarrow> bool"
  op_inet_eq :: "'ip \<Rightarrow> string \<Rightarrow> bool"
  op_tsquery :: "'row \<Rightarrow> string \<Rightarrow> bool"

definition and3 :: "bool option list \<Rightarrow> bool option" where
  "and3 bs = (if Some False \<in> set bs then Some False else if None \<in> set bs then None else Some True)"

fun eval_cond :: "('ip, 'row) operators \<Rightarrow> ('row \<Rightarrow> string \<Rightarrow> 'ip cell option) \<Rightarrow> 'row \<Rightarrow> cond \<Rightarrow> bool option" where
  "eval_cond ops cells r (ILike c p) = (case cells r c of Some (CText v) \<Rightarrow> Some (op_ilike ops v p) | _ \<Rightarrow> None)"
| "eval_cond ops cells r (InetEq c s) = (case cells r c of Some (CInet a) \<Rightarrow> Some (op_inet_eq ops a s) | _ \<Rightarrow> None)"
| "eval_cond ops cells r (EqText c s) = (case cells r c of Some (CText v) \<Rightarrow> Some (v = s) | _ \<Rightarrow> None)"
| "eval_cond ops cells r (EqTexts c ss) = (case cells r c of Some (CText v) \<Rightarrow> Some (v \<in> set ss) | _ \<Rightarrow> None)"
| "eval_cond ops cells r (EqInt c n) = (case cells r c of Some (CInt v) \<Rightarrow> Some (v = n) | _ \<Rightarrow> None)"
| "eval_cond ops cells r (LtOrEqInt c n) = (case cells r c of Some (CInt v) \<Rightarrow> Some (v \<le> n) | _ \<Rightarrow> None)"
| "eval_cond ops cells r (GtInt c n) = (case cells r c of Some (CInt v) \<Rightarrow> Some (v > n) | _ \<Rightarrow> None)"
| "eval_cond ops cells r (GtOrEqTime c t) = (case cells r c of Some (CTime v) \<Rightarrow> Some (v \<ge> t) | _ \<Rightarrow> None)"
| "eval_cond ops cells r (LtOrEqTime c t) = (case cells r c of Some (CTime v) \<Rightarrow> Some (v \<le> t) | _ \<Rightarrow> None)"
| "eval_cond ops cells r (BeforeKey t i) =
     (case (cells r ''received_at'', cells r ''id'') of
        (Some (CTime v), Some (CInt n)) \<Rightarrow> Some (v < t \<or> v = t \<and> n < i)
      | _ \<Rightarrow> None)"
| "eval_cond ops cells r (TsQuery s) = Some (op_tsquery ops r s)"
| "eval_cond ops cells r (NotAll cs) = map_option Not (and3 (map (eval_cond ops cells r) cs))"

declare eval_cond.simps(12) [simp del]

definition selected :: "('ip, 'row) operators \<Rightarrow> ('row \<Rightarrow> string \<Rightarrow> 'ip cell option) \<Rightarrow> select \<Rightarrow> 'row \<Rightarrow> bool" where
  "selected ops cells q r \<longleftrightarrow> (\<forall>c \<in> set (se_where q). eval_cond ops cells r c = Some True)"

definition cell_rank :: "'ip cell option \<Rightarrow> int" where
  "cell_rank c = (case c of Some (CInt n) \<Rightarrow> n | Some (CTime t) \<Rightarrow> t | _ \<Rightarrow> 0)"

definition order_key :: "('row \<Rightarrow> string \<Rightarrow> 'ip cell option) \<Rightarrow> (string \<times> direction) list \<Rightarrow> 'row \<Rightarrow> int list" where
  "order_key cells ord r =
     map (\<lambda>(c, d). case d of Asc \<Rightarrow> cell_rank (cells r c) | Desc \<Rightarrow> - cell_rank (cells r c)) ord"

definition limit_rows :: "nat option \<Rightarrow> 'a list \<Rightarrow> 'a list" where
  "limit_rows l xs = (case l of None \<Rightarrow> xs | Some n \<Rightarrow> take n xs)"

text \<open>The answer to a query over the rows of its table.\<close>

definition answer :: "('ip, 'row) operators \<Rightarrow> ('row \<Rightarrow> string \<Rightarrow> 'ip cell option) \<Rightarrow> 'row list \<Rightarrow> select \<Rightarrow> 'row list" where
  "answer ops cells table q =
     limit_rows (se_limit q) (sort_key (order_key cells (se_order q)) (filter (selected ops cells q) table))"

text \<open>The columns of the event tables; all of these are NOT NULL.\<close>

definition syslog_cells :: "'ip syslog_row \<Rightarrow> string \<Rightarrow> 'ip cell option" where
  "syslog_cells r =
     map_of [(''id'', CInt (ro_id r)), (''received_at'', CTime (ro_received_at r)),
             (''reported_at'', CTime (ro_reported_at r)), (''hostname'', CText (ro_hostname r)),
             (''fromhost_ip'', CInet (ro_fromhost_ip r)), (''programname'', CText (ro_programname r)),
             (''msgid'', CText (ro_msgid r)), (''severity'', CInt (ro_severity r)),
             (''facility'', CInt (ro_facility r)), (''syslogtag'', CText (ro_syslogtag r)),
             (''message'', CText (ro_message r))]"

definition applog_cells :: "applog_row \<Rightarrow> string \<Rightarrow> unit cell option" where
  "applog_cells r =
     map_of [(''id'', CInt (ar_id r)), (''received_at'', CTime (ar_received_at r)),
             (''timestamp'', CTime (ar_timestamp r)), (''level'', CText (ar_level r)),
             (''service'', CText (ar_service r)), (''component'', CText (ar_component r)),
             (''host'', CText (ar_host r)), (''msg'', CText (ar_msg r)), (''source'', CText (ar_source r))]"

section \<open>Patterns\<close>

text \<open>What escaping does to one byte, and what the host pattern does.\<close>

definition esc1 :: "char \<Rightarrow> string" where
  "esc1 x = (if x \<in> {backslash, CHR ''%'', CHR ''_''} then [backslash, x] else [x])"

definition pat1 :: "char \<Rightarrow> string" where
  "pat1 x = (if x = CHR ''*'' then ''%'' else esc1 x)"

lemma replace_char_simps [simp]:
  "replace_char c new [] = []"
  "replace_char c new (x # s) = (if x = c then new else [x]) @ replace_char c new s"
  "replace_char c new (s @ t) = replace_char c new s @ replace_char c new t"
  by (simp_all add: replace_char_def)

lemma escapeLike_eq: "escapeLike s = concat (map esc1 s)"
  by (induction s) (auto simp: escapeLike_def Let_def esc1_def)

lemma host_pattern_eq: "replace_char (CHR ''*'') ''%'' (escapeLike s) = concat (map pat1 s)"
  by (induction s) (auto simp: escapeLike_eq pat1_def esc1_def)

lemma like_percent: "like_match (CHR ''%'' # p) v \<longleftrightarrow> (\<exists>i \<le> length v. like_match p (drop i v))"
proof (induction v)
  case (Cons d v)
  have "(\<exists>i \<le> length (d # v). like_match p (drop i (d # v)))
        \<longleftrightarrow> like_match p (d # v) \<or> (\<exists>i \<le> length v. like_match p (drop i v))"
    by (metis (no_types, lifting) Suc_le_mono drop0 drop_Suc_Cons le0 length_Cons not0_implies_Suc)
  with Cons show ?case by simp
qed simp

lemma like_escaped1: "like_match (esc1 c @ p) v \<longleftrightarrow> (\<exists>w. v = c # w \<and> like_match p w)"
  by (cases v) (auto simp: esc1_def)

lemma like_escaped:
  "like_match (concat (map esc1 s) @ p) v \<longleftrightarrow> prefix s v \<and> like_match p (drop (length s) v)"
proof (induction s arbitrary: v)
  case (Cons c s)
  then show ?case by (cases v) (auto simp: like_escaped1)
qed simp

lemma like_host_pattern: "like_match (concat (map pat1 p)) v \<longleftrightarrow> glob p v"
proof (induction p arbitrary: v)
  case (Cons c p)
  show ?case
  proof (cases "c = CHR ''*''")
    case True
    with Cons show ?thesis by (simp add: pat1_def like_percent glob_star)
  next
    case False
    with Cons show ?thesis by (cases v) (auto simp: pat1_def like_escaped1)
  qed
qed simp

lemma like_contains: "like_match (''%'' @ concat (map esc1 s) @ ''%'') v \<longleftrightarrow> sublist s v"
proof -
  have "like_match ''%'' w" for w by (induction w) auto
  then have "like_match (concat (map esc1 s) @ ''%'') w \<longleftrightarrow> prefix s w" for w
    by (simp add: like_escaped)
  then show ?thesis by (simp add: like_percent sublist_iff_prefix_drop)
qed

text \<open>A substitution of ASCII bytes by ASCII strings acts on the characters.\<close>

definition ascii_subst :: "(char \<Rightarrow> string) \<Rightarrow> bool" where
  "ascii_subst g \<longleftrightarrow> (\<forall>c. if of_char c < (128 :: nat) then ascii (g c) else g c = [c])"

definition rune_subst :: "(char \<Rightarrow> string) \<Rightarrow> rune \<Rightarrow> rune list" where
  "rune_subst g r = (if r < 128 then map of_char (g (byte r)) else [r])"

lemma utf8_encode_ascii: "ascii s \<Longrightarrow> utf8_encode (map of_char s) = s"
  by (metis runes_ascii valid_utf8_ascii valid_utf8_runes)

lemma encode_rune_high:
  "valid_rune r \<Longrightarrow> 128 \<le> r \<Longrightarrow> c \<in> set (encode_rune r) \<Longrightarrow> 128 \<le> (of_char c :: nat)"
  using ascii_in_encode [of c r] by force

lemma subst_encode:
  assumes "ascii_subst g" "list_all valid_rune rs"
  shows "concat (map g (utf8_encode rs)) = utf8_encode (concat (map (rune_subst g) rs))"
  using assms(2)
proof (induction rs)
  case (Cons r rs)
  have "concat (map g (encode_rune r)) = utf8_encode (rune_subst g r)"
  proof (cases "r < 128")
    case True
    then have "ascii (g (byte r))" using assms(1) by (auto simp: ascii_subst_def)
    with True show ?thesis by (simp add: encode_ascii rune_subst_def utf8_encode_ascii)
  next
    case False
    then have "map g (encode_rune r) = map (\<lambda>c. [c]) (encode_rune r)"
      using assms(1) Cons.prems encode_rune_high [of r] by (auto simp: ascii_subst_def not_less)
    then have "concat (map g (encode_rune r)) = encode_rune r" by (simp only: concat_map_singleton) simp
    with False show ?thesis by (simp add: rune_subst_def)
  qed
  with Cons show ?case by simp
qed simp

lemma ToLower_not_special:
  "r \<notin> {37, 42, 92, 95} \<Longrightarrow> unicode_ToLower r \<notin> {37, 42, 92, 95}"
  using ToLower_punct by blast

lemma ToLower_special: "r \<in> {37, 42, 92, 95} \<Longrightarrow> unicode_ToLower r = r"
  by (auto simp: unicode_ToLower_def)

lemma esc1_high: "128 \<le> (of_char x :: nat) \<Longrightarrow> esc1 x = [x]"
  by (auto simp: esc1_def)

lemma ascii_subst_patterns: "ascii_subst esc1" "ascii_subst pat1"
  by (auto simp: ascii_subst_def pat1_def esc1_def ascii_def)

lemma byte_eq_iff: "r < 256 \<Longrightarrow> byte r = c \<longleftrightarrow> r = of_char c"
  by auto

lemma rune_subst_esc1: "rune_subst esc1 r = (if r \<in> {37, 92, 95} then [92, r] else [r])"
  by (auto simp: rune_subst_def esc1_def byte_eq_iff)

lemma rune_subst_pat1: "rune_subst pat1 r = (if r = 42 then [37] else rune_subst esc1 r)"
  by (auto simp: rune_subst_def pat1_def byte_eq_iff)

lemma lower_subst:
  "map unicode_ToLower (rune_subst esc1 r) = rune_subst esc1 (unicode_ToLower r)"
  "map unicode_ToLower (rune_subst pat1 r) = rune_subst pat1 (unicode_ToLower r)"
proof -
  show "map unicode_ToLower (rune_subst esc1 r) = rune_subst esc1 (unicode_ToLower r)"
    using ToLower_not_special [of r] ToLower_special
    by (cases "r \<in> {37, 42, 92, 95}") (auto simp: rune_subst_esc1)
  then show "map unicode_ToLower (rune_subst pat1 r) = rune_subst pat1 (unicode_ToLower r)"
    using ToLower_not_special [of r] ToLower_special
    by (cases "r \<in> {37, 42, 92, 95}") (auto simp: rune_subst_pat1)
qed

lemma to_lower_subst:
  assumes "ascii_subst g" "valid_utf8 s"
    and "\<And>r. map unicode_ToLower (rune_subst g r) = rune_subst g (unicode_ToLower r)"
    and "\<And>r. valid_rune r \<Longrightarrow> list_all valid_rune (rune_subst g r)"
  shows "to_lower (concat (map g s)) = concat (map g (to_lower s))"
proof -
  let ?rs = "runes s"
  have v: "list_all valid_rune ?rs" by (rule runes_valid)
  have "s = utf8_encode ?rs" using assms(2) by (simp add: valid_utf8_runes)
  then have "concat (map g s) = utf8_encode (concat (map (rune_subst g) ?rs))"
    using subst_encode [OF assms(1) v] by simp
  moreover have "list_all valid_rune (concat (map (rune_subst g) ?rs))"
    using v assms(4) by (auto simp: list_all_iff)
  ultimately have "to_lower (concat (map g s)) = utf8_encode (map unicode_ToLower (concat (map (rune_subst g) ?rs)))"
    by (simp add: to_lower_def runes_encode)
  also have "map unicode_ToLower (concat (map (rune_subst g) ?rs)) = concat (map (rune_subst g) (map unicode_ToLower ?rs))"
    by (simp add: map_concat comp_def assms(3))
  also have "utf8_encode \<dots> = concat (map g (utf8_encode (map unicode_ToLower ?rs)))"
    using v valid_rune_ToLower by (subst subst_encode [OF assms(1)]) (auto simp: list_all_iff)
  finally show ?thesis by (simp add: to_lower_def)
qed

lemma to_lower_append: "valid_utf8 s \<Longrightarrow> to_lower (s @ t) = to_lower s @ to_lower t" if "valid_utf8 t"
proof -
  assume s: "valid_utf8 s"
  have "s @ t = utf8_encode (runes s @ runes t)" using s that by (simp add: valid_utf8_runes)
  then have "runes (s @ t) = runes s @ runes t"
    by (metis runes_encode runes_valid list_all_append)
  then show ?thesis by (simp add: to_lower_def)
qed

lemma valid_subst:
  assumes "ascii_subst g" "valid_utf8 s" "\<And>r. valid_rune r \<Longrightarrow> list_all valid_rune (rune_subst g r)"
  shows "valid_utf8 (concat (map g s))"
proof -
  have "concat (map g s) = utf8_encode (concat (map (rune_subst g) (runes s)))"
    using subst_encode [OF assms(1) runes_valid] assms(2) by (metis valid_utf8_runes)
  moreover have "list_all valid_rune (concat (map (rune_subst g) (runes s)))"
    using runes_valid [of s] assms(3) by (auto simp: list_all_iff)
  ultimately show ?thesis by (simp add: valid_utf8_encode)
qed

lemma rune_subst_valid: "valid_rune r \<Longrightarrow> list_all valid_rune (rune_subst esc1 r)"
  "valid_rune r \<Longrightarrow> list_all valid_rune (rune_subst pat1 r)"
  by (auto simp: rune_subst_pat1 rune_subst_esc1 valid_rune_def)

lemma ilike_host:
  assumes "valid_utf8 h"
  shows "like_match (to_lower (replace_char (CHR ''*'') ''%'' (escapeLike h))) v \<longleftrightarrow> glob (to_lower h) v"
  using to_lower_subst [OF ascii_subst_patterns(2) assms lower_subst(2) rune_subst_valid(2)]
  by (simp add: host_pattern_eq like_host_pattern)

lemma ilike_search:
  assumes "valid_utf8 s"
  shows "like_match (to_lower (''%'' @ escapeLike s @ ''%'')) v \<longleftrightarrow> sublist (to_lower s) v"
proof -
  have p: "to_lower ''%'' = ''%''" "valid_utf8 ''%''"
    by (simp_all add: ascii_eval valid_utf8_ascii)
  have e: "valid_utf8 (escapeLike s)"
    using valid_subst [OF ascii_subst_patterns(1) assms rune_subst_valid(1)] by (simp add: escapeLike_eq)
  have "to_lower (''%'' @ escapeLike s @ ''%'') = ''%'' @ to_lower (escapeLike s) @ ''%''"
    using p e by (simp only: to_lower_append valid_utf8_append)
  also have "to_lower (escapeLike s) = concat (map esc1 (to_lower s))"
    using to_lower_subst [OF ascii_subst_patterns(1) assms lower_subst(1) rune_subst_valid(1)]
    by (simp add: escapeLike_eq)
  finally show ?thesis by (simp only: like_contains)
qed

section \<open>The clauses select what the filters select\<close>

definition holds :: "('ip, 'row) operators \<Rightarrow> ('row \<Rightarrow> string \<Rightarrow> 'ip cell option) \<Rightarrow> 'row \<Rightarrow> cond list \<Rightarrow> bool" where
  "holds ops cells r cs \<longleftrightarrow> (\<forall>c \<in> set cs. eval_cond ops cells r c = Some True)"

definition known :: "('ip, 'row) operators \<Rightarrow> ('row \<Rightarrow> string \<Rightarrow> 'ip cell option) \<Rightarrow> 'row \<Rightarrow> cond list \<Rightarrow> bool" where
  "known ops cells r cs \<longleftrightarrow> (\<forall>c \<in> set cs. eval_cond ops cells r c \<noteq> None)"

lemma holds_simps [simp]:
  "holds ops cells r []"
  "holds ops cells r (c # cs) \<longleftrightarrow> eval_cond ops cells r c = Some True \<and> holds ops cells r cs"
  "holds ops cells r (cs @ ds) \<longleftrightarrow> holds ops cells r cs \<and> holds ops cells r ds"
  by (auto simp: holds_def)

lemma known_simps [simp]:
  "known ops cells r []"
  "known ops cells r (c # cs) \<longleftrightarrow> eval_cond ops cells r c \<noteq> None \<and> known ops cells r cs"
  "known ops cells r (cs @ ds) \<longleftrightarrow> known ops cells r cs \<and> known ops cells r ds"
  by (auto simp: known_def)

lemma selected_holds: "selected ops cells q r \<longleftrightarrow> holds ops cells r (se_where q)"
  by (simp add: selected_def holds_def)

text \<open>With no unknown operand, NOT of the conjunction is its negation.\<close>

lemma eval_NotAll:
  "known ops cells r cs \<Longrightarrow> eval_cond ops cells r (NotAll cs) = Some (\<not> holds ops cells r cs)"
proof -
  assume k: "known ops cells r cs"
  have "Some False \<in> eval_cond ops cells r ` set cs" if neg: "\<not> holds ops cells r cs"
  proof -
    obtain c where c: "c \<in> set cs" "eval_cond ops cells r c \<noteq> Some True" using neg unfolding holds_def by blast
    moreover have "eval_cond ops cells r c \<noteq> None" using c k by (simp add: known_def)
    ultimately have "eval_cond ops cells r c = Some False" by (cases "eval_cond ops cells r c") auto
    with c show ?thesis by force
  qed
  moreover have "None \<notin> eval_cond ops cells r ` set cs" using k by (auto simp: known_def)
  moreover have "Some False \<notin> eval_cond ops cells r ` set cs" if "holds ops cells r cs"
    using that by (force simp: holds_def)
  ultimately show ?thesis by (cases "holds ops cells r cs") (simp_all add: and3_def eval_cond.simps(12))
qed

text \<open>The operators as documented, on valid text: ILIKE is LIKE on lower-cased text.\<close>

definition ilike_documented :: "('ip, 'row) operators \<Rightarrow> bool" where
  "ilike_documented ops \<longleftrightarrow>
     (\<forall>v p. valid_utf8 v \<longrightarrow> valid_utf8 p \<longrightarrow> op_ilike ops v p = like_match (to_lower p) (to_lower v))"

definition text_row :: "'ip syslog_row \<Rightarrow> bool" where
  "text_row r \<longleftrightarrow> valid_utf8 (ro_hostname r) \<and> valid_utf8 (ro_message r)"

definition text_filter :: "'z syslog_filter_scheme \<Rightarrow> bool" where
  "text_filter f \<longleftrightarrow> valid_utf8 (sf_Hostname f) \<and> valid_utf8 (sf_Search f)"

text \<open>A parsed address is compared as the address it names.\<close>

definition inet_documented :: "('ip, 'row) operators \<Rightarrow> ('ip \<Rightarrow> string) \<Rightarrow> 'z syslog_filter_scheme \<Rightarrow> bool" where
  "inet_documented ops ipString f \<longleftrightarrow>
     sf_FromhostIP f = [] \<or> (\<forall>a. op_inet_eq ops a (sf_FromhostIP f) = (ipString a = sf_FromhostIP f))"

definition in_time :: "'z syslog_filter_scheme \<Rightarrow> instant \<Rightarrow> bool" where
  "in_time f t \<longleftrightarrow> (case sf_From f of None \<Rightarrow> True | Some a \<Rightarrow> a \<le> t) \<and> (case sf_To f of None \<Rightarrow> True | Some b \<Rightarrow> t \<le> b)"

lemma known_if: "known ops cells r (if b then xs else ys) 
    \<longleftrightarrow> (b \<longrightarrow> known ops cells r xs) \<and> (\<not> b \<longrightarrow> known ops cells r ys)"
  by simp

lemma known_opt:
  "known ops cells r (case x of None \<Rightarrow> [] | Some n \<Rightarrow> f n) \<longleftrightarrow> (\<forall>n. x = Some n \<longrightarrow> known ops cells r (f n))"
  by (simp split: option.split)

lemma known_syslog: "known ops syslog_cells r (syslogConds c)"
  by (simp add: syslogConds_def known_opt known_if syslog_cells_def split del: if_split)

lemma host_cond:
  assumes "ilike_documented ops" "valid_utf8 (ro_hostname r)" "valid_utf8 h"
  shows "holds ops syslog_cells r
       (if h \<noteq> [] then
          (if CHR ''*'' \<in> set h then [ILike ''hostname'' (replace_char (CHR ''*'') ''%'' (escapeLike h))]
           else [EqText ''hostname'' h])
        else []) \<longleftrightarrow> (h \<noteq> [] \<longrightarrow> matchField (ro_hostname r) h)"
proof -
  have "valid_utf8 (replace_char (CHR ''*'') ''%'' (escapeLike h))"
    using valid_subst [OF ascii_subst_patterns(2) assms(3) rune_subst_valid(2)] by (simp add: host_pattern_eq)
  then have "op_ilike ops (ro_hostname r) (replace_char (CHR ''*'') ''%'' (escapeLike h))
      \<longleftrightarrow> glob (to_lower h) (to_lower (ro_hostname r))"
    using assms by (simp add: ilike_documented_def ilike_host)
  then show ?thesis by (simp add: matchField_def wildcard_is_glob syslog_cells_def)
qed

lemma search_cond:
  assumes "ilike_documented ops" "valid_utf8 (ro_message r)" "valid_utf8 s"
  shows "holds ops syslog_cells r (if s \<noteq> [] then [ILike ''message'' (''%'' @ escapeLike s @ ''%'')] else [])
    \<longleftrightarrow> (s \<noteq> [] \<longrightarrow> containsFold (ro_message r) (to_lower s))"
proof -
  have "valid_utf8 (escapeLike s)"
    using valid_subst [OF ascii_subst_patterns(1) assms(3) rune_subst_valid(1)] by (simp add: escapeLike_eq)
  then have "valid_utf8 (''%'' @ escapeLike s @ ''%'')"
    by (intro valid_utf8_append) (simp_all add: valid_utf8_ascii ascii_def)
  then have "op_ilike ops (ro_message r) (''%'' @ escapeLike s @ ''%'') \<longleftrightarrow> containsFold (ro_message r) (to_lower s)"
    using assms ilike_search [OF assms(3)] containsFold_sublist [OF assms(2)]
    unfolding ilike_documented_def by blast
  then show ?thesis by (simp add: syslog_cells_def)
qed

text \<open>The time bounds of a filter are applied in SQL only; a live filter ignores them.\<close>

lemma srvlog_Matches_conj:
  "srvlog_Matches f e \<longleftrightarrow>
     (sf_Hostname f \<noteq> [] \<longrightarrow> matchField (ev_Hostname e) (sf_Hostname f)) \<and>
     (sf_FromhostIP f \<noteq> [] \<longrightarrow> ev_FromhostIP e = sf_FromhostIP f) \<and>
     (sf_Programname f \<noteq> [] \<longrightarrow> ev_Programname e = sf_Programname f) \<and>
     (case sf_Severity f of None \<Rightarrow> True | Some n \<Rightarrow> ev_Severity e = n) \<and>
     (case sf_SeverityMax f of None \<Rightarrow> True | Some n \<Rightarrow> ev_Severity e \<le> n) \<and>
     (case sf_Facility f of None \<Rightarrow> True | Some n \<Rightarrow> ev_Facility e = n) \<and>
     (sf_SyslogTag f \<noteq> [] \<longrightarrow> ev_SyslogTag e = sf_SyslogTag f) \<and>
     (sf_MsgID f \<noteq> [] \<longrightarrow> ev_MsgID e = sf_MsgID f) \<and>
     (sf_Search f \<noteq> [] \<longrightarrow> containsFold (ev_Message e) (searchNeedle (sf_Search f) (sf_searchLower f)))"
  by (auto simp: srvlog_Matches_def split: option.splits)

lemma syslog_clause_agrees:
  assumes "ilike_documented ops" "text_row r" "text_filter f" "inet_documented ops ipString f"
    and "sf_searchLower f = [] \<or> sf_searchLower f = to_lower (sf_Search f)"
  shows "holds ops syslog_cells r (syslogConds (srvlogClause f))
    \<longleftrightarrow> srvlog_Matches f (scanSrvlog ipString r) \<and> in_time f (ro_received_at r)"
proof -
  have needle: "searchNeedle (sf_Search f) (sf_searchLower f) = to_lower (sf_Search f)"
    using assms(5) by (auto simp: searchNeedle_def)
  have host: "holds ops syslog_cells r
       (if sf_Hostname f \<noteq> [] then
          (if CHR ''*'' \<in> set (sf_Hostname f)
           then [ILike ''hostname'' (replace_char (CHR ''*'') ''%'' (escapeLike (sf_Hostname f)))]
           else [EqText ''hostname'' (sf_Hostname f)])
        else []) \<longleftrightarrow> (sf_Hostname f \<noteq> [] \<longrightarrow> matchField (ro_hostname r) (sf_Hostname f))"
    using assms(2,3) by (intro host_cond [OF assms(1)]) (simp_all add: text_row_def text_filter_def)
  have srch: "holds ops syslog_cells r
       (if sf_Search f \<noteq> [] then [ILike ''message'' (''%'' @ escapeLike (sf_Search f) @ ''%'')] else [])
    \<longleftrightarrow> (sf_Search f \<noteq> [] \<longrightarrow> containsFold (ro_message r) (to_lower (sf_Search f)))"
    using assms(2,3) by (intro search_cond [OF assms(1)]) (simp_all add: text_row_def text_filter_def)
  have inet: "(sf_FromhostIP f \<noteq> [] \<longrightarrow> op_inet_eq ops (ro_fromhost_ip r) (sf_FromhostIP f))
      \<longleftrightarrow> (sf_FromhostIP f \<noteq> [] \<longrightarrow> ipString (ro_fromhost_ip r) = sf_FromhostIP f)"
    using assms(4) by (auto simp: inet_documented_def)
  have num: "holds ops syslog_cells r (case x of None \<Rightarrow> [] | Some n \<Rightarrow> [EqInt ''severity'' n])
        \<longleftrightarrow> (case x of None \<Rightarrow> True | Some n \<Rightarrow> ro_severity r = n)"
      "holds ops syslog_cells r (case x of None \<Rightarrow> [] | Some n \<Rightarrow> [LtOrEqInt ''severity'' n])
        \<longleftrightarrow> (case x of None \<Rightarrow> True | Some n \<Rightarrow> ro_severity r \<le> n)"
      "holds ops syslog_cells r (case x of None \<Rightarrow> [] | Some n \<Rightarrow> [EqInt ''facility'' n])
        \<longleftrightarrow> (case x of None \<Rightarrow> True | Some n \<Rightarrow> ro_facility r = n)" for x
    by (simp_all add: syslog_cells_def split: option.split)
  have time: "holds ops syslog_cells r (case x of None \<Rightarrow> [] | Some t \<Rightarrow> [GtOrEqTime ''received_at'' t])
        \<longleftrightarrow> (case x of None \<Rightarrow> True | Some t \<Rightarrow> t \<le> ro_received_at r)"
      "holds ops syslog_cells r (case x of None \<Rightarrow> [] | Some t \<Rightarrow> [LtOrEqTime ''received_at'' t])
        \<longleftrightarrow> (case x of None \<Rightarrow> True | Some t \<Rightarrow> ro_received_at r \<le> t)" for x
    by (simp_all add: syslog_cells_def split: option.split)
  have texts: "holds ops syslog_cells r (if x \<noteq> [] then [EqText ''programname'' x] else [])
        \<longleftrightarrow> (x \<noteq> [] \<longrightarrow> ro_programname r = x)"
      "holds ops syslog_cells r (if x \<noteq> [] then [EqText ''syslogtag'' x] else [])
        \<longleftrightarrow> (x \<noteq> [] \<longrightarrow> ro_syslogtag r = x)"
      "holds ops syslog_cells r (if x \<noteq> [] then [EqText ''msgid'' x] else [])
        \<longleftrightarrow> (x \<noteq> [] \<longrightarrow> ro_msgid r = x)"
      "holds ops syslog_cells r (if x \<noteq> [] then [InetEq ''fromhost_ip'' x] else [])
        \<longleftrightarrow> (x \<noteq> [] \<longrightarrow> op_inet_eq ops (ro_fromhost_ip r) x)" for x
    by (simp_all add: syslog_cells_def)
  show ?thesis
    by (simp only: syslogConds_def srvlogClause_def syslogFilterClause.simps holds_simps(3) host srch num
          time texts inet srvlog_Matches_conj needle)
      (simp add: in_time_def scanSrvlog_def cong: option.case_cong)
qed

lemma add_where_fold: "se_where (fold add_where cs q) = se_where q @ cs"
  by (induction cs arbitrary: q) (simp_all add: add_where_def)

lemma exclude_where:
  "se_where (excludeSyslog q c) = se_where q @ (if syslogConds c = [] then [] else [NotAll (syslogConds c)])"
  by (simp add: excludeSyslog_def Let_def add_where_def)

lemma excludes_where:
  "se_where (fold (\<lambda>ex q. excludeSyslog q (clause ex)) exs q)
   = se_where q @ concat (map (\<lambda>ex. if syslogConds (clause ex) = [] then [] else [NotAll (syslogConds (clause ex))]) exs)"
  by (induction exs arbitrary: q) (simp_all add: exclude_where)

lemma clauses_eq: "netlogClause f = srvlogClause f"
  by (simp add: netlogClause_def srvlogClause_def)

lemma apply_filters_eq: "applyNetlogFilter q f = applySrvlogFilter q f"
  by (simp add: applyNetlogFilter_def applySrvlogFilter_def clauses_eq)

lemma srvlog_where:
  "se_where (applySrvlogFilter (sel_from t) f) = syslogConds (srvlogClause f)
   @ concat (map (\<lambda>ex. if syslogConds (srvlogClause ex) = [] then [] else [NotAll (syslogConds (srvlogClause ex))]) (sf_Exclude f))"
  by (simp add: applySrvlogFilter_def applySyslogFilter_def excludes_where add_where_fold sel_from_def)

lemma holds_excluded:
  "known ops cells r cs \<Longrightarrow> cs \<noteq> [] \<Longrightarrow>
   holds ops cells r (if cs = [] then [] else [NotAll cs]) \<longleftrightarrow> \<not> holds ops cells r cs"
  by (simp add: eval_NotAll)

lemma holds_concat: "holds ops cells r (concat css) \<longleftrightarrow> (\<forall>cs \<in> set css. holds ops cells r cs)"
  by (induction css) simp_all

lemma trim_space_Nil [simp]: "trim_space [] = []"
  using set_trim_space [of "[]"] by simp

lemma conds_of_mute:
  assumes "mute_Validate m = None"
  shows "syslogConds (srvlogClause (mute_SrvlogFilter m)) \<noteq> []"
proof -
  have "mr_Hostname m \<noteq> [] \<or> mr_Programname m \<noteq> [] \<or> mr_Search m \<noteq> []"
    using assms by (auto simp: mute_Validate_def Let_def trim_char_def split: if_splits)
  then show ?thesis
    by (auto simp: syslogConds_def srvlogClause_def mute_SrvlogFilter_def empty_filter_def)
qed

text \<open>The rules of a snapshot as the store returns them: validated when written, valid text.\<close>

definition stored_rules :: "snapshot \<Rightarrow> bool" where
  "stored_rules snap \<longleftrightarrow>
     (\<forall>m \<in> set (sn_rules snap). mute_Validate m = None \<and> valid_utf8 (mr_Hostname m) \<and> valid_utf8 (mr_Search m))"

lemma mute_exclusions_agree:
  assumes "ilike_documented ops" "text_row r" "stored_rules snap"
  shows "holds ops syslog_cells r (concat (map (\<lambda>ex. if syslogConds (srvlogClause ex) = [] then []
       else [NotAll (syslogConds (srvlogClause ex))]) (SrvlogExclusions snap)))
    \<longleftrightarrow> MatchSrvlog snap (scanSrvlog ipString r) = None"
proof -
  let ?c = "\<lambda>m. syslogConds (srvlogClause (mute_SrvlogFilter m))"
  have each: "holds ops syslog_cells r (if ?c m = [] then [] else [NotAll (?c m)])
      \<longleftrightarrow> \<not> srvlog_Matches (mute_SrvlogFilter m) (scanSrvlog ipString r)" if "m \<in> set (sn_rules snap)" for m
  proof -
    have m: "mute_Validate m = None" "text_filter (mute_SrvlogFilter m)"
      using assms(3) that by (auto simp: stored_rules_def text_filter_def mute_SrvlogFilter_def empty_filter_def)
    have "in_time (mute_SrvlogFilter m) t" "inet_documented ops ipString (mute_SrvlogFilter m)"
        "sf_searchLower (mute_SrvlogFilter m) = []" for t
      by (simp_all add: in_time_def inet_documented_def mute_SrvlogFilter_def empty_filter_def)
    then have "holds ops syslog_cells r (?c m) \<longleftrightarrow> srvlog_Matches (mute_SrvlogFilter m) (scanSrvlog ipString r)"
      using syslog_clause_agrees [OF assms(1,2) m(2), of ipString] by simp
    then show ?thesis using holds_excluded [OF known_syslog conds_of_mute [OF m(1)]] by blast
  qed
  have "MatchSrvlog snap e = None
      \<longleftrightarrow> (\<forall>m \<in> set (filter (\<lambda>m. active snap m FeedSrvlog) (sn_rules snap)). \<not> srvlog_Matches (mute_SrvlogFilter m) e)" for e
    using srvlog_mute.match_iff_excluded [of snap e] by (auto simp: MatchSrvlog_def exclusions_def list_ex_iff)
  moreover have "holds ops syslog_cells r (concat (map (\<lambda>ex. if syslogConds (srvlogClause ex) = [] then []
       else [NotAll (syslogConds (srvlogClause ex))]) (SrvlogExclusions snap)))
    \<longleftrightarrow> (\<forall>m \<in> set (filter (\<lambda>m. active snap m FeedSrvlog) (sn_rules snap)).
          holds ops syslog_cells r (if ?c m = [] then [] else [NotAll (?c m)]))"
    by (simp only: holds_concat SrvlogExclusions_def exclusions_def map_map comp_def set_map ball_simps(9))
  ultimately show ?thesis using each by (simp only: set_filter mem_Collect_eq) blast
qed

section \<open>Paging\<close>

text \<open>A client that follows the cursors, at most \<^verbatim>\<open>n\<close> times.\<close>

fun walk :: "(cursor option \<Rightarrow> string + 'e list \<times> cursor option) \<Rightarrow> nat \<Rightarrow> cursor option \<Rightarrow> 'e list option" where
  "walk page n c =
     (case page c of
        Inl err \<Rightarrow> None
      | Inr (es, None) \<Rightarrow> Some es
      | Inr (es, Some c') \<Rightarrow> (case n of 0 \<Rightarrow> None | Suc n' \<Rightarrow> map_option ((@) es) (walk page n' (Some c'))))"

declare walk.simps [simp del]

definition cursor_at :: "('e \<Rightarrow> cursor) \<Rightarrow> 'e list \<Rightarrow> nat \<Rightarrow> cursor option" where
  "cursor_at cursor_of L k = (if k = 0 then None else Some (cursor_of (L ! (k - 1))))"

lemma next_page_take:
  assumes "0 < l" "k \<le> length L"
  shows "next_page cur (int l) (take (Suc l) (drop k L)) =
    (if k + l < length L then (take l (drop k L), cursor_at cur L (k + l)) else (drop k L, None))"
proof (cases "k + l < length L")
  case True
  then have "length (take (Suc l) (drop k L)) = Suc l" by simp
  moreover have "take (Suc l) (drop k L) ! (l - 1) = L ! (k + l - 1)"
    using assms True by (simp add: add.commute)
  ultimately show ?thesis using True assms by (simp add: next_page_def cursor_at_def min_def)
qed (use assms in \<open>simp add: next_page_def\<close>)

lemma walk_complete:
  assumes "0 < l"
    and page: "\<And>k. k \<le> length L \<Longrightarrow> page (cursor_at cur L k) = Inr (next_page cur (int l) (take (Suc l) (drop k L)))"
    and "k \<le> length L" "length L - k \<le> n"
  shows "walk page n (cursor_at cur L k) = Some (drop k L)"
  using assms(3,4)
proof (induction n arbitrary: k)
  case 0
  then show ?case using page [of k] assms(1) by (subst walk.simps) (simp add: next_page_def)
next
  case (Suc n)
  show ?case
  proof (cases "k + l < length L")
    case True
    then have "walk page n (cursor_at cur L (k + l)) = Some (drop (k + l) L)"
      using Suc assms(1) by simp
    moreover have "cursor_at cur L (k + l) \<noteq> None" using assms(1) by (simp add: cursor_at_def)
    moreover have "take l (drop k L) @ drop (k + l) L = drop k L"
      by (metis append_take_drop_id drop_drop add.commute)
    ultimately show ?thesis
      using page [OF Suc.prems(1)] True Suc.prems(1) assms(1)
      by (subst walk.simps) (auto simp: next_page_take split: option.split)
  next
    case False
    then show ?thesis
      using page [OF Suc.prems(1)] Suc.prems(1) assms(1)
        next_page_take [OF assms(1) Suc.prems(1), of cur] by (subst walk.simps) simp
  qed
qed

lemma filter_greater_drop:
  assumes "sorted_wrt (\<lambda>x y. key x < key y) L" "k < length L"
  shows "filter (\<lambda>x. key (L ! k) < (key x :: 'k :: linorder)) L = drop (Suc k) L"
  using assms
proof (induction L arbitrary: k)
  case (Cons a L)
  show ?case
  proof (cases k)
    case 0
    with Cons.prems show ?thesis by (auto intro: filter_True)
  next
    case (Suc j)
    then have "key a < key (L ! j)" using Cons.prems by simp
    with Suc Cons show ?thesis by (auto simp: not_less_iff_gr_or_eq)
  qed
qed simp

text \<open>The sorted answer, and the part of it behind a cursor.\<close>

definition row_key :: "('row \<Rightarrow> string \<Rightarrow> 'ip cell option) \<Rightarrow> 'row \<Rightarrow> int list" where
  "row_key cells = order_key cells key_order"

definition listing :: "('ip, 'row) operators \<Rightarrow> ('row \<Rightarrow> string \<Rightarrow> 'ip cell option) \<Rightarrow> 'row list \<Rightarrow> select \<Rightarrow> 'row list" where
  "listing ops cells table q = sort_key (row_key cells) (filter (selected ops cells q) table)"

lemma sorted_distinct_strict:
  "sorted (map f L) \<Longrightarrow> distinct (map f L) \<Longrightarrow> sorted_wrt (\<lambda>x y. f x < (f y :: 'k :: linorder)) L"
  by (induction L) (auto simp: order.strict_iff_order)

lemma selected_ordered [simp]:
  "selected ops cells (q\<lparr>se_order := ord, se_limit := n\<rparr>) = selected ops cells q"
  by (rule ext) (simp add: selected_def)

lemma answer_behind:
  fixes cells :: "'row \<Rightarrow> string \<Rightarrow> 'ip cell option"
  assumes keyed: "\<And>r. r \<in> set table \<Longrightarrow> cells r ''received_at'' = Some (CTime (at r)) \<and> cells r ''id'' = Some (CInt (num r))"
    and distinct: "distinct (map num table)"
    and cur: "\<And>r. r \<in> set table \<Longrightarrow> cur r = \<lparr>cu_ReceivedAt = at r, cu_ID = num r\<rparr>"
    and k: "k \<le> length (listing ops cells table q)"
  shows "answer ops cells table ((before (cursor_at cur (listing ops cells table q) k) q)\<lparr>se_order := key_order, se_limit := Some n\<rparr>)
    = take n (drop k (listing ops cells table q))"
proof -
  let ?L = "listing ops cells table q" and ?key = "row_key cells"
  have sub: "set ?L \<subseteq> set table" by (auto simp: listing_def)
  have keys: "?key r = [- at r, - num r]" if "r \<in> set table" for r
    using keyed [OF that] by (simp add: row_key_def order_key_def key_order_def cell_rank_def)
  have "distinct (map ?key table)"
    using distinct keys by (auto simp: distinct_map inj_on_def)
  then have "distinct (map ?key ?L)"
    by (auto simp: listing_def distinct_map inj_on_def)
  then have strict: "sorted_wrt (\<lambda>x y. ?key x < ?key y) ?L"
    by (intro sorted_distinct_strict) (simp_all add: listing_def)
  show ?thesis
  proof (cases k)
    case 0
    then show ?thesis
      by (simp add: cursor_at_def before_def answer_def limit_rows_def listing_def row_key_def)
  next
    case (Suc j)
    let ?r = "?L ! j"
    have r: "?r \<in> set table" using k Suc sub by (meson nth_mem Suc_le_lessD subsetD)
    have "selected ops cells (add_where (BeforeKey (at ?r) (num ?r)) q) x
        \<longleftrightarrow> selected ops cells q x \<and> ?key ?r < ?key x" if "x \<in> set table" for x
      using keyed [OF that] keys [OF r] keys [OF that] by (auto simp: selected_def add_where_def)
    then have "filter (selected ops cells (add_where (BeforeKey (at ?r) (num ?r)) q)) table
        = filter (\<lambda>x. ?key ?r < ?key x) (filter (selected ops cells q) table)"
      by (auto intro: filter_cong)
    then have "sort_key ?key (filter (selected ops cells (add_where (BeforeKey (at ?r) (num ?r)) q)) table)
        = filter (\<lambda>x. ?key ?r < ?key x) ?L"
      by (simp add: listing_def filter_sort)
    also have "\<dots> = drop k ?L" using filter_greater_drop [OF strict] k Suc by simp
    finally show ?thesis
      using Suc cur [OF r] by (simp add: cursor_at_def before_def answer_def limit_rows_def row_key_def)
  qed
qed

lemma cursor_at_map: "k \<le> length L \<Longrightarrow> cursor_at cur (map f L) k = cursor_at (cur \<circ> f) L k"
  by (simp add: cursor_at_def)

lemma uint64_small: "0 \<le> n \<Longrightarrow> n < 2 ^ 64 \<Longrightarrow> uint64 n = nat n"
  by (simp add: uint64_def)

lemma walk_listing:
  fixes cells :: "'row \<Rightarrow> string \<Rightarrow> 'ip cell option"
  assumes keyed: "\<And>r. cells r ''received_at'' = Some (CTime (at r)) \<and> cells r ''id'' = Some (CInt (num r))"
    and distinct: "distinct (map num table)"
    and cur: "\<And>r. cur (scan r) = \<lparr>cu_ReceivedAt = at r, cu_ID = num r\<rparr>"
    and exec: "\<And>q. exec q = Inr (answer ops cells table q)"
    and limit: "0 < limit" "limit + 1 < 2 ^ 63"
    and list: "\<And>c. list c = (case exec ((before c q)\<lparr>se_order := key_order, se_limit := Some (uint64 (limit + 1))\<rparr>) of
          Inl err \<Rightarrow> Inl (wrap err) | Inr rows \<Rightarrow> Inr (next_page cur limit (map scan rows)))"
  shows "walk list (length table) None = Some (map scan (listing ops cells table q))"
proof -
  let ?L = "map scan (listing ops cells table q)"
  have u: "uint64 (limit + 1) = Suc (nat limit)"
    using limit uint64_small [of "limit + 1"] by (simp add: Suc_nat_eq_nat_zadd1 add.commute)
  have "list (cursor_at cur ?L k) = Inr (next_page cur (int (nat limit)) (take (Suc (nat limit)) (drop k ?L)))"
    if "k \<le> length ?L" for k
    using answer_behind [of table cells at num "cur \<circ> scan" k ops q "Suc (nat limit)"] keyed distinct cur that limit
    by (simp add: list exec u cursor_at_map take_map drop_map)
  moreover have "length ?L \<le> length table" by (simp add: listing_def)
  ultimately have "walk list (length table) (cursor_at cur ?L 0) = Some (drop 0 ?L)"
    using limit by (intro walk_complete [of "nat limit"]) auto
  then show ?thesis by (simp add: cursor_at_def)
qed

section \<open>Properties\<close>

lemma exclude_fields [simp]:
  "sf_Exclude (syslog_filter.extend f (list_filter.fields ex)) = ex"
  "srvlogClause (syslog_filter.extend f (list_filter.fields ex)) = srvlogClause f"
  by (simp_all add: syslog_filter.defs list_filter.defs srvlogClause_def)

lemma listing_selects:
  assumes "ilike_documented ops" "text_row r" "text_filter f" "inet_documented ops ipString f"
    and "sf_searchLower f = [] \<or> sf_searchLower f = to_lower (sf_Search f)" "stored_rules snap"
  shows "selected ops syslog_cells
      (applySrvlogFilter (sel_from t) (syslog_filter.extend f (list_filter.fields (if hide then SrvlogExclusions snap else [])))) r
    \<longleftrightarrow> srvlog_Matches f (scanSrvlog ipString r) \<and> in_time f (ro_received_at r)
        \<and> (hide \<longrightarrow> MatchSrvlog snap (scanSrvlog ipString r) = None)"
  using syslog_clause_agrees [OF assms(1-5)] mute_exclusions_agree [OF assms(1,2,6), of ipString]
  by (cases hide) (simp_all add: selected_holds srvlog_where)

text \<open>C3: the listing of server events selects in SQL exactly the rows whose event the live filter
  accepts within the requested time, and, when muted events are hidden, that no mute rule marks. The
  database is assumed to evaluate ILIKE and inet equality as documented, on valid UTF-8 text.\<close>

theorem sql_selects_what_the_filter_matches:
  assumes "ilike_documented ops" "text_row r" "text_filter f" "inet_documented ops ipString f"
    and "ParseSrvlogFilter parseAddr parseTime q = Inr f" "stored_rules snap"
  shows "selected ops syslog_cells
      (applySrvlogFilter (sel_from t) (syslog_filter.extend f (list_filter.fields (if hide then SrvlogExclusions snap else [])))) r
    \<longleftrightarrow> srvlog_Matches f (scanSrvlog ipString r) \<and> in_time f (ro_received_at r)
        \<and> (hide \<longrightarrow> MatchSrvlog snap (scanSrvlog ipString r) = None)"
  using ParseSrvlog_accepted [OF assms(5)] by (intro listing_selects assms) simp

definition sample_ops :: "(string, string syslog_row) operators" where
  "sample_ops =
     \<lparr>op_ilike = (\<lambda>v p. like_match (to_lower p) (to_lower v)), op_inet_eq = (\<lambda>a s. a = s),
      op_tsquery = (\<lambda>r s. sublist s (ro_message r))\<rparr>"

definition sample_row :: "int \<Rightarrow> string syslog_row" where
  "sample_row i =
     \<lparr>ro_id = i, ro_received_at = 10, ro_reported_at = 9, ro_hostname = ''rtr1'', ro_fromhost_ip = ''10.0.0.9'',
      ro_programname = ''rpd'', ro_msgid = [], ro_severity = 3, ro_facility = 3, ro_syslogtag = ''rpd:'',
      ro_structured_data = None, ro_message = ''link down'', ro_raw_message = None\<rparr>"

definition sample_snapshot :: snapshot where
  "sample_snapshot = Active (Replace [sample_mute] NewSet) 50"

lemma sample_store_ok:
  "ilike_documented sample_ops" "text_row (sample_row i)" "stored_rules sample_snapshot"
  "inet_documented sample_ops (\<lambda>a. a) f"
  by (simp_all add: ilike_documented_def sample_ops_def text_row_def sample_row_def valid_utf8_ascii ascii_def
      stored_rules_def sample_snapshot_def Active_def Replace_def sample_mute_def inet_documented_def
      mute_Validate_def FeedSrvlog_def FeedNetlog_def Let_def trim_space_ascii isSpace_def trim_char_def maxFieldLen_def)

lemma sample_row_muted: "MatchSrvlog sample_snapshot (scanSrvlog (\<lambda>a. a) (sample_row i)) = Some 3"
  by (simp add: sample_snapshot_def MatchSrvlog_def match_event_def Active_def Replace_def active_def
      FeedSrvlog_def sample_mute_def sample_row_def scanSrvlog_def mute_SrvlogFilter_def srvlog_Matches_def
      empty_filter_def matchField_def)

lemma empty_query_parses: "ParseSrvlogFilter (\<lambda>_. None) (\<lambda>_. None) (\<lambda>_. []) = Inr empty_filter"
  by (simp add: ParseSrvlogFilter_def p_str_def p_boundedInt_def p_ip_def p_rfc3339_def p_err_def empty_filter_def Let_def)

theorem sql_selects_what_the_filter_matches_witness:
  "\<not> selected sample_ops syslog_cells (applySrvlogFilter (sel_from ''srvlog_events'')
       (syslog_filter.extend empty_filter (list_filter.fields (SrvlogExclusions sample_snapshot)))) (sample_row 1)
   \<and> selected sample_ops syslog_cells (applySrvlogFilter (sel_from ''srvlog_events'')
       (syslog_filter.extend empty_filter (list_filter.fields []))) (sample_row 1)"
proof -
  have f: "text_filter empty_filter" "in_time empty_filter x" for x
    by (simp_all add: text_filter_def empty_filter_def in_time_def valid_utf8_ascii ascii_def)
  have "srvlog_Matches empty_filter e" for e by (simp add: srvlog_Matches_def empty_filter_def)
  then show ?thesis
    using sql_selects_what_the_filter_matches [OF sample_store_ok(1,2) f(1) sample_store_ok(4) empty_query_parses
        sample_store_ok(3), of "''srvlog_events''" True 1]
      sql_selects_what_the_filter_matches [OF sample_store_ok(1,2) f(1) sample_store_ok(4) empty_query_parses
        sample_store_ok(3), of "''srvlog_events''" False 1]
    by (simp add: f(2) sample_row_muted)
qed

text \<open>C7: following the cursors of a listing, from the first page on, returns exactly the rows the
  filter selects, newest first, each once, whatever the page size; no page needs more cursors than the
  table has rows. The database is assumed to answer every query by the rows that satisfy its conditions,
  in the requested order, cut at the limit.\<close>

theorem paging_returns_every_row_once:
  assumes "\<And>q. exec q = Inr (answer ops syslog_cells table q)" "distinct (map ro_id table)"
    and "\<And>q. aexec q = Inr (answer aops applog_cells atable q)" "distinct (map ar_id atable)"
    and "0 < limit" "limit + 1 < 2 ^ 63"
  shows "walk (\<lambda>c. ListSrvlogs ipString exec f c limit) (length table) None
      = Some (map (scanSrvlog ipString)
          (sort_key (\<lambda>r. [- ro_received_at r, - ro_id r])
            (filter (selected ops syslog_cells (applySrvlogFilter (sel_from ''srvlog_events'') f)) table))) \<and>
    walk (\<lambda>c. ListNetlogs ipString exec f c limit) (length table) None
      = Some (map (scanNetlog ipString)
          (sort_key (\<lambda>r. [- ro_received_at r, - ro_id r])
            (filter (selected ops syslog_cells (applyNetlogFilter (sel_from ''netlog_events'') f)) table))) \<and>
    walk (\<lambda>c. ListAppLogs aexec g c limit) (length atable) None
      = Some (map scanAppLog
          (sort_key (\<lambda>r. [- ar_received_at r, - ar_id r])
            (filter (selected aops applog_cells (applyAppLogFilter (sel_from ''applog_events'') g)) atable)))"
proof -
  have keys: "row_key syslog_cells = (\<lambda>r. [- ro_received_at r, - ro_id r])"
      "row_key applog_cells = (\<lambda>r. [- ar_received_at r, - ar_id r])"
    by (rule ext, simp add: row_key_def order_key_def key_order_def cell_rank_def syslog_cells_def applog_cells_def)+
  show ?thesis
    unfolding keys [symmetric] listing_def [symmetric]
  proof (intro conjI)
    show "walk (\<lambda>c. ListSrvlogs ipString exec f c limit) (length table) None
        = Some (map (scanSrvlog ipString) (listing ops syslog_cells table (applySrvlogFilter (sel_from ''srvlog_events'') f)))"
      by (rule walk_listing [where exec = exec and limit = limit, OF _ assms(2) _ assms(1,5,6)])
        (simp_all add: syslog_cells_def syslog_cursor_def scanSrvlog_def ListSrvlogs_def)
    show "walk (\<lambda>c. ListNetlogs ipString exec f c limit) (length table) None
        = Some (map (scanNetlog ipString) (listing ops syslog_cells table (applyNetlogFilter (sel_from ''netlog_events'') f)))"
      by (rule walk_listing [where exec = exec and limit = limit, OF _ assms(2) _ assms(1,5,6)])
        (simp_all add: syslog_cells_def syslog_cursor_def scanNetlog_def ListNetlogs_def)
    show "walk (\<lambda>c. ListAppLogs aexec g c limit) (length atable) None
        = Some (map scanAppLog (listing aops applog_cells atable (applyAppLogFilter (sel_from ''applog_events'') g)))"
      by (rule walk_listing [where exec = aexec and limit = limit, OF _ assms(4) _ assms(3,5,6)])
        (simp_all add: applog_cells_def applog_cursor_def scanAppLog_def ListAppLogs_def)
  qed
qed

theorem paging_returns_every_row_once_witness:
  "map_option (map ev_ID)
     (walk (\<lambda>c. ListSrvlogs (\<lambda>a. a) (\<lambda>q. Inr (answer sample_ops syslog_cells (map sample_row [1, 3, 2]) q))
        (syslog_filter.extend empty_filter (list_filter.fields [])) c 2) 3 None) = Some [3, 2, 1]"
proof -
  let ?f = "syslog_filter.extend empty_filter (list_filter.fields [])"
  let ?T = "map sample_row [1, 3, 2]"
  have "selected sample_ops syslog_cells (applySrvlogFilter (sel_from t) ?f) r" for t r
    by (simp add: selected_holds srvlog_where, simp add: srvlogClause_def syslogConds_def empty_filter_def)
  moreover have "sort_key (\<lambda>r. [- ro_received_at r, - ro_id r]) ?T = map sample_row [3, 2, 1]"
    by (simp add: sample_row_def)
  moreover have "distinct (map ro_id ?T)" by (simp add: sample_row_def)
  moreover have "map ev_ID (map (scanSrvlog (\<lambda>a. a)) (map sample_row [3, 2, 1])) = [3, 2, 1]"
    by (simp add: sample_row_def scanSrvlog_def)
  ultimately show ?thesis
    using conjunct1 [OF paging_returns_every_row_once [of "\<lambda>q. Inr (answer sample_ops syslog_cells ?T q)" sample_ops ?T
        "\<lambda>q. Inr (answer \<lparr>op_ilike = \<lambda>_ _. False, op_inet_eq = \<lambda>_ _. False, op_tsquery = \<lambda>_ _. False\<rparr> applog_cells [] q)"
        "\<lparr>op_ilike = \<lambda>_ _. False, op_inet_eq = \<lambda>_ _. False, op_tsquery = \<lambda>_ _. False\<rparr>" "[]" 2 "\<lambda>a. a" ?f]]
    by (simp del: list.map(2) add: numeral_3_eq_3)
qed

lemma next_page_subset: "next_page cur limit es = (fs, c) \<Longrightarrow> set fs \<subseteq> set es"
  by (auto simp: next_page_def dest: in_set_takeD split: if_splits)

lemma answer_subset: "r \<in> set (answer ops cells table q) \<Longrightarrow> r \<in> set table \<and> selected ops cells q r"
  by (auto simp: answer_def limit_rows_def dest: in_set_takeD split: option.splits)

lemma before_selected: "selected ops cells (before c q) r \<Longrightarrow> selected ops cells q r"
  by (auto simp: before_def selected_def add_where_def split: option.splits)

text \<open>A request that asks to hide muted events never gets one: every event of the answer is
  unmarked, is accepted by the parsed filter and lies within the requested time; without that switch
  each event of the answer carries the mark of the lowest matching rule.\<close>

lemma hide_muted_answers_no_muted_event:
  assumes "ilike_documented ops" "list_all text_row table" "stored_rules snap"
    and "\<And>q. exec q = Inr (answer ops syslog_cells table q)"
    and "ParseSrvlogFilter parseAddr parseTime q = Inr f" "text_filter f" "inet_documented ops ipString f"
    and "srvlog_List parseAddr parseTime (ListSrvlogs ipString exec) snap gone q = Some (RespData 200 resp)"
  shows "\<exists>hide. ParseHideMuted q = Inr hide \<and>
    list_all (\<lambda>e. srvlog_Matches f e \<and> in_time f (ev_ReceivedAt e) \<and> ev_MutedBy e = MatchSrvlog snap e
      \<and> (hide \<longrightarrow> ev_MutedBy e = None)) (lr_Data resp)"
proof -
  let ?store = "ListSrvlogs ipString exec"
  obtain hide where hide: "ParseHideMuted q = Inr hide"
    using assms(5,8) by (auto simp: srvlog_List_def split: sum.splits)
  let ?flt = "syslog_filter.extend f (list_filter.fields (if hide then SrvlogExclusions snap else []))"
  obtain es nc where st: "?store ?flt (ParseCursor q) (ParseLimit q defaultLimit maxLimit) = Inr (es, nc)"
      and data: "lr_Data resp = markSrvlogs snap es"
    using assms(5,8) hide by (auto simp: srvlog_List_def list_response_of_def Let_def split: sum.splits if_splits)
  have marks: "srvlog_Matches g (e\<lparr>ev_MutedBy := m\<rparr>) = srvlog_Matches g e"
      "MatchSrvlog snap (e\<lparr>ev_MutedBy := m\<rparr>) = MatchSrvlog snap e" for g e m
    by (simp_all add: srvlog_mute.matches_mark MatchSrvlog_def srvlog_mute.match_event_mark)
  have rows: "\<exists>r \<in> set table. e = scanSrvlog ipString r
      \<and> selected ops syslog_cells (applySrvlogFilter (sel_from ''srvlog_events'') ?flt) r" if "e \<in> set es" for e
  proof -
    let ?q = "before (ParseCursor q) (applySrvlogFilter (sel_from ''srvlog_events'') ?flt)"
    obtain n where "set es \<subseteq> set (map (scanSrvlog ipString) (answer ops syslog_cells table (?q\<lparr>se_order := key_order, se_limit := n\<rparr>)))"
      using st next_page_subset by (fastforce simp: ListSrvlogs_def assms(4) Let_def)
    then show ?thesis using that before_selected by (fastforce dest: answer_subset)
  qed
  have "srvlog_Matches f e \<and> in_time f (ev_ReceivedAt e) \<and> (hide \<longrightarrow> MatchSrvlog snap e = None)" if e: "e \<in> set es" for e
  proof -
    obtain r where r: "r \<in> set table" "e = scanSrvlog ipString r"
        "selected ops syslog_cells (applySrvlogFilter (sel_from ''srvlog_events'') ?flt) r"
      using rows [OF e] by blast
    have "text_row r" using assms(2) r(1) by (simp add: list_all_iff)
    then show ?thesis
      using listing_selects [OF assms(1) _ assms(6,7) _ assms(3)] ParseSrvlog_accepted [OF assms(5)] r(2,3)
      by (simp add: scanSrvlog_def)
  qed
  then show ?thesis using hide by (auto simp: data markSrvlogs_def list_all_iff marks)
qed

text \<open>A query that hides muted events and one that does not.\<close>

definition hiding_query :: query where "hiding_query = (\<lambda>_. [])(''hide_muted'' := ''true'')"


end
