(* ===== verification/AuthStore.thy ===== *)
theory AuthStore
  imports Mute
begin

text \<open>
  Accounts: the rows of \<^verbatim>\<open>api/internal/model/auth.go\<close> and the statements of
  \<^verbatim>\<open>api/internal/postgres/auth_store.go\<close>, each translated to what its SQL text does to the tables, with
  the unique indexes of the migrations. A statement may fail at any call, with no effect; failures, the
  clock and generated ids come from the world. The password hash (bcrypt), the digests (SHA-256, MD5),
  the folding of \<^verbatim>\<open>LOWER\<close> and the RFC 3339 form of a time are parameters. The lemmas show that the tables keep their unique keys.
\<close>

section \<open>Rows\<close>

type_synonym uuid = string

record user =
  us_ID :: uuid
  us_Username :: string
  us_Email :: "string option"
  us_PasswordHash :: string
  us_IsActive :: bool
  us_IsAdmin :: bool
  us_AuthSource :: string
  us_Preferences :: string
  us_CreatedAt :: instant
  us_UpdatedAt :: instant
  us_LastLoginAt :: "instant option"

text \<open>The table row carries the OIDC identity beside what \<^verbatim>\<open>model.User\<close> holds.\<close>

record user_row = user +
  ur_oidc :: "(string \<times> string) option"

record session =
  ses_TokenHash :: string
  ses_UserID :: uuid
  ses_CreatedAt :: instant
  ses_ExpiresAt :: instant
  ses_LastSeenAt :: instant
  ses_IPAddress :: string
  ses_UserAgent :: string

record api_key =
  ak_ID :: uuid
  ak_UserID :: uuid
  ak_Owner :: string
  ak_Name :: string
  ak_KeyHash :: string
  ak_KeyPrefix :: string
  ak_Scopes :: "string list"
  ak_ExpiresAt :: "instant option"
  ak_RevokedAt :: "instant option"
  ak_LastUsedAt :: "instant option"
  ak_CreatedAt :: instant

datatype touch_op = TouchSession string | TouchKey uuid

record auth_store =
  as_users :: "user_row list"
  as_sessions :: "session list"
  as_keys :: "api_key list"
  as_touch :: "touch_op list"
  as_stopped :: bool

text \<open>The n-th statement fails with \<^verbatim>\<open>aw_fail n\<close>; \<^verbatim>\<open>aw_uuid n\<close> is the n-th generated id and
  \<^verbatim>\<open>aw_random n\<close> and \<^verbatim>\<open>aw_randint n\<close> the bytes and the number of the n-th draw from the random source; \<^verbatim>\<open>aw_pick n\<close> is the choice of a select
  with two ready cases.\<close>

record auth_world =
  aw_store :: auth_store
  aw_now :: instant
  aw_calls :: nat
  aw_fail :: "nat \<Rightarrow> string option"
  aw_uuid :: "nat \<Rightarrow> uuid"
  aw_random :: "nat \<Rightarrow> string option"
  aw_randint :: "nat \<Rightarrow> nat option"
  aw_draws :: nat
  aw_pick :: "nat \<Rightarrow> bool"

record auth_env =
  ae_lower :: "string \<Rightarrow> string"
  ae_HashToken :: "string \<Rightarrow> string"
  ae_HashPassword :: "string \<Rightarrow> string option"
  ae_CheckPassword :: "string \<Rightarrow> string \<Rightarrow> bool"
  ae_md5 :: "string \<Rightarrow> string"
  ae_rfc3339 :: "instant \<Rightarrow> string"
  ae_parse_rfc3339 :: "string \<Rightarrow> instant option"

definition touchBufferSize :: nat where "touchBufferSize = 256"
definition maxOIDCUsernameAttempts :: nat where "maxOIDCUsernameAttempts = 5"

section \<open>Statements\<close>

definition the_user :: "user_row \<Rightarrow> user" where "the_user r = user.truncate r"

text \<open>Run a statement on the tables: a failed one changes nothing.\<close>

definition run_stmt ::
  "string \<Rightarrow> (auth_world \<Rightarrow> (store_error + 'a) \<times> auth_store) \<Rightarrow> auth_world \<Rightarrow> (store_error + 'a) \<times> auth_world" where
  "run_stmt what stmt w =
     (let w1 = w\<lparr>aw_calls := aw_calls w + 1\<rparr> in
      case aw_fail w (aw_calls w) of
        Some err \<Rightarrow> (Inl (StoreFailed (what @ '': '' @ err)), w1)
      | None \<Rightarrow>
          (case stmt w of
             (Inl ErrNoRows, st) \<Rightarrow> (Inl ErrNoRows, w1\<lparr>aw_store := st\<rparr>)
           | (Inl (StoreFailed err), st) \<Rightarrow> (Inl (StoreFailed (what @ '': '' @ err)), w1\<lparr>aw_store := st\<rparr>)
           | (Inr x, st) \<Rightarrow> (Inr x, w1\<lparr>aw_store := st\<rparr>)))"

text \<open>The message of a violated unique index.\<close>

definition duplicateKey :: string where
  "duplicateKey = ''ERROR: duplicate key value violates unique constraint (SQLSTATE 23505)''"

definition id_taken :: "uuid \<Rightarrow> auth_store \<Rightarrow> bool" where
  "id_taken i st \<longleftrightarrow> list_ex (\<lambda>u. us_ID u = i) (as_users st)"

definition username_taken :: "auth_env \<Rightarrow> string \<Rightarrow> auth_store \<Rightarrow> bool" where
  "username_taken env name st \<longleftrightarrow> list_ex (\<lambda>u. ae_lower env (us_Username u) = ae_lower env name) (as_users st)"

text \<open>The check constraint on the username.\<close>

definition name_ok :: "string \<Rightarrow> bool" where
  "name_ok name \<longleftrightarrow> 1 \<le> length (runes name) \<and> length (runes name) \<le> 255"

definition checkViolated :: string where "checkViolated = ''ERROR: violates check constraint (SQLSTATE 23514)''"

definition new_user :: "auth_world \<Rightarrow> string \<Rightarrow> string option \<Rightarrow> string \<Rightarrow> bool \<Rightarrow> string \<Rightarrow> (string \<times> string) option \<Rightarrow> user_row" where
  "new_user w name email hash isAdmin source ident =
     \<lparr>us_ID = aw_uuid w (aw_calls w), us_Username = name, us_Email = email, us_PasswordHash = hash,
      us_IsActive = True, us_IsAdmin = isAdmin, us_AuthSource = source, us_Preferences = [CHR 0x7B, CHR 0x7D],
      us_CreatedAt = aw_now w, us_UpdatedAt = aw_now w, us_LastLoginAt = None, ur_oidc = ident\<rparr>"

definition db_CreateUser ::
  "auth_env \<Rightarrow> string \<Rightarrow> string \<Rightarrow> bool \<Rightarrow> auth_world \<Rightarrow> (store_error + user) \<times> auth_world" where
  "db_CreateUser env username passwordHash isAdmin =
     run_stmt ''create user'' (\<lambda>w.
       let st = aw_store w; r = new_user w username None passwordHash isAdmin ''local'' None in
       if \<not> name_ok username then (Inl (StoreFailed checkViolated), st)
       else if username_taken env username st \<or> id_taken (us_ID r) st then (Inl (StoreFailed duplicateKey), st)
       else (Inr (the_user r), st\<lparr>as_users := as_users st @ [r]\<rparr>))"

definition db_GetUserByUsername :: "auth_env \<Rightarrow> string \<Rightarrow> auth_world \<Rightarrow> (store_error + user) \<times> auth_world" where
  "db_GetUserByUsername env username =
     run_stmt ''get user by username'' (\<lambda>w.
       (case find (\<lambda>u. ae_lower env (us_Username u) = ae_lower env username) (as_users (aw_store w)) of
          None \<Rightarrow> Inl ErrNoRows | Some u \<Rightarrow> Inr (the_user u), aw_store w))"

definition db_GetUserByID :: "uuid \<Rightarrow> auth_world \<Rightarrow> (store_error + user) \<times> auth_world" where
  "db_GetUserByID i =
     run_stmt ''get user by id'' (\<lambda>w.
       (case find (\<lambda>u. us_ID u = i) (as_users (aw_store w)) of
          None \<Rightarrow> Inl ErrNoRows | Some u \<Rightarrow> Inr (the_user u), aw_store w))"

text \<open>UPDATE of the rows that satisfy the condition.\<close>

definition upd :: "('a \<Rightarrow> bool) \<Rightarrow> ('a \<Rightarrow> 'a) \<Rightarrow> 'a \<Rightarrow> 'a" where
  "upd p g x = (if p x then g x else x)"

lemma upd_comp: "(\<And>x. f (g x) = f x) \<Longrightarrow> f \<circ> upd p g = f"
  by (rule ext) (simp add: upd_def)

lemma upd_image: "(\<And>x. f (g x) = f x) \<Longrightarrow> f ` upd p g ` S = f ` S"
  by (simp only: image_comp upd_comp)

definition update_users :: "(user_row \<Rightarrow> bool) \<Rightarrow> (user_row \<Rightarrow> user_row) \<Rightarrow> auth_store \<Rightarrow> auth_store" where
  "update_users p g st = st\<lparr>as_users := map (upd p g) (as_users st)\<rparr>"

definition db_UpdateLastLogin :: "uuid \<Rightarrow> auth_world \<Rightarrow> (store_error + unit) \<times> auth_world" where
  "db_UpdateLastLogin i =
     run_stmt ''update last login'' (\<lambda>w.
       (Inr (), update_users (\<lambda>u. us_ID u = i) (us_LastLoginAt_update (\<lambda>_. Some (aw_now w))) (aw_store w)))"

definition db_ListUsers :: "(user list \<Rightarrow> user list) \<Rightarrow> auth_world \<Rightarrow> (store_error + user list) \<times> auth_world" where
  "db_ListUsers byUsername =
     run_stmt ''list users'' (\<lambda>w. (Inr (byUsername (map the_user (as_users (aw_store w)))), aw_store w))"

definition db_SetUserActive :: "uuid \<Rightarrow> bool \<Rightarrow> auth_world \<Rightarrow> (store_error + unit) \<times> auth_world" where
  "db_SetUserActive i isActive =
     run_stmt ''set user active'' (\<lambda>w.
       (Inr (), update_users (\<lambda>u. us_ID u = i) (\<lambda>u. u\<lparr>us_IsActive := isActive, us_UpdatedAt := aw_now w\<rparr>) (aw_store w)))"

definition db_UpdateEmail :: "uuid \<Rightarrow> string \<Rightarrow> auth_world \<Rightarrow> (store_error + unit) \<times> auth_world" where
  "db_UpdateEmail i email =
     run_stmt ''update email'' (\<lambda>w.
       (Inr (), update_users (\<lambda>u. us_ID u = i) (\<lambda>u. u\<lparr>us_Email := Some email, us_UpdatedAt := aw_now w\<rparr>) (aw_store w)))"

definition db_UpdatePreferences :: "uuid \<Rightarrow> string \<Rightarrow> auth_world \<Rightarrow> (store_error + unit) \<times> auth_world" where
  "db_UpdatePreferences i prefs =
     run_stmt ''update preferences'' (\<lambda>w.
       (Inr (), update_users (\<lambda>u. us_ID u = i) (\<lambda>u. u\<lparr>us_Preferences := prefs, us_UpdatedAt := aw_now w\<rparr>) (aw_store w)))"

definition db_UpdatePassword :: "uuid \<Rightarrow> string \<Rightarrow> auth_world \<Rightarrow> (store_error + unit) \<times> auth_world" where
  "db_UpdatePassword i passwordHash =
     run_stmt ''update password'' (\<lambda>w.
       (Inr (), update_users (\<lambda>u. us_ID u = i) (\<lambda>u. u\<lparr>us_PasswordHash := passwordHash, us_UpdatedAt := aw_now w\<rparr>) (aw_store w)))"

definition email_arg :: "string \<Rightarrow> string option" where "email_arg email = (if email = [] then None else Some email)"

definition db_UpsertLDAPUser ::
  "auth_env \<Rightarrow> string \<Rightarrow> string \<Rightarrow> bool \<Rightarrow> auth_world \<Rightarrow> (store_error + user) \<times> auth_world" where
  "db_UpsertLDAPUser env username email isAdmin =
     run_stmt ''upsert ldap user'' (\<lambda>w.
       let st = aw_store w; name = ae_lower env username;
           same = (\<lambda>u. ae_lower env (us_Username u) = ae_lower env name);
           g = (\<lambda>u. u\<lparr>us_Email := email_arg email, us_IsAdmin := isAdmin, us_AuthSource := ''ldap'', us_UpdatedAt := aw_now w\<rparr>) in
       case find same (as_users st) of
         Some u \<Rightarrow> (Inr (the_user (g u)), update_users same g st)
       | None \<Rightarrow>
           (let r = new_user w name (email_arg email) [] isAdmin ''ldap'' None in
            if \<not> name_ok name then (Inl (StoreFailed checkViolated), st)
            else if id_taken (us_ID r) st then (Inl (StoreFailed duplicateKey), st)
            else (Inr (the_user r), st\<lparr>as_users := as_users st @ [r]\<rparr>)))"

definition oidc_refresh ::
  "string \<Rightarrow> string \<Rightarrow> string \<Rightarrow> bool \<Rightarrow> auth_world \<Rightarrow> (store_error + user) \<times> auth_world" where
  "oidc_refresh issuer subject email isAdmin =
     run_stmt ''update oidc user'' (\<lambda>w.
       let st = aw_store w; same = (\<lambda>u. ur_oidc u = Some (issuer, subject));
           g = (\<lambda>u. u\<lparr>us_Email := email_arg email, us_IsAdmin := isAdmin, us_AuthSource := ''oidc'', us_UpdatedAt := aw_now w\<rparr>) in
       case find same (as_users st) of
         None \<Rightarrow> (Inl ErrNoRows, st)
       | Some u \<Rightarrow> (Inr (the_user (g u)), update_users same g st))"

definition oidc_provision ::
  "auth_env \<Rightarrow> string \<Rightarrow> string \<Rightarrow> string \<Rightarrow> string \<Rightarrow> bool \<Rightarrow> auth_world \<Rightarrow> (store_error + user) \<times> auth_world" where
  "oidc_provision env issuer subject candidate email isAdmin =
     run_stmt ''provision oidc user'' (\<lambda>w.
       let st = aw_store w; name = ae_lower env candidate;
           r = new_user w name (email_arg email) [] isAdmin ''oidc'' (Some (issuer, subject)) in
       if \<not> name_ok name then (Inl (StoreFailed checkViolated), st)
       else if username_taken env name st then (Inl ErrNoRows, st)
       else if id_taken (us_ID r) st \<or> list_ex (\<lambda>u. ur_oidc u = Some (issuer, subject)) (as_users st) then (Inl (StoreFailed duplicateKey), st)
       else (Inr (the_user r), st\<lparr>as_users := as_users st @ [r]\<rparr>))"

text \<open>The attempts with a numeric suffix, from \<^verbatim>\<open>attempt\<close> on.\<close>

fun oidc_attempts ::
  "auth_env \<Rightarrow> string \<Rightarrow> string \<Rightarrow> string \<Rightarrow> string \<Rightarrow> bool \<Rightarrow> nat \<Rightarrow> nat \<Rightarrow> auth_world \<Rightarrow> (store_error + user) \<times> auth_world" where
  "oidc_attempts env issuer subject username email isAdmin attempt 0 w =
     (Inl (StoreFailed (''provision oidc user: no free username for '' @ username @ '' after '' @ fmt_int (int maxOIDCUsernameAttempts) @ '' attempts'')), w)"
| "oidc_attempts env issuer subject username email isAdmin attempt (Suc n) w =
     (let candidate = (if attempt > 0 then username @ ''-'' @ fmt_int (int attempt + 1) else username) in
      case oidc_provision env issuer subject candidate email isAdmin w of
        (Inl ErrNoRows, w1) \<Rightarrow> oidc_attempts env issuer subject username email isAdmin (Suc attempt) n w1
      | (res, w1) \<Rightarrow> (res, w1))"

definition db_UpsertOIDCUser ::
  "auth_env \<Rightarrow> string \<Rightarrow> string \<Rightarrow> string \<Rightarrow> string \<Rightarrow> bool \<Rightarrow> auth_world \<Rightarrow> (store_error + user) \<times> auth_world" where
  "db_UpsertOIDCUser env issuer subject username email isAdmin w =
     (case oidc_refresh issuer subject email isAdmin w of
        (Inl ErrNoRows, w1) \<Rightarrow> oidc_attempts env issuer subject username email isAdmin 0 maxOIDCUsernameAttempts w1
      | (res, w1) \<Rightarrow> (res, w1))"

section \<open>Sessions\<close>

definition db_CreateSession ::
  "string \<Rightarrow> uuid \<Rightarrow> instant \<Rightarrow> string \<Rightarrow> string \<Rightarrow> auth_world \<Rightarrow> (store_error + unit) \<times> auth_world" where
  "db_CreateSession tokenHash userID expiresAt ip userAgent =
     run_stmt ''create session'' (\<lambda>w.
       let st = aw_store w;
           s = \<lparr>ses_TokenHash = tokenHash, ses_UserID = userID, ses_CreatedAt = aw_now w, ses_ExpiresAt = expiresAt,
                ses_LastSeenAt = aw_now w, ses_IPAddress = ip, ses_UserAgent = userAgent\<rparr> in
       if list_ex (\<lambda>s. ses_TokenHash s = tokenHash) (as_sessions st) then (Inl (StoreFailed duplicateKey), st)
       else if \<not> id_taken userID st then (Inl (StoreFailed ''violates foreign key constraint''), st)
       else (Inr (), st\<lparr>as_sessions := as_sessions st @ [s]\<rparr>))"

text \<open>A touch is dropped when the buffer is full. In a stopped store with room both cases of the select are
  ready, and \<^verbatim>\<open>pick\<close> says whether it sends.\<close>

definition enqueueTouch :: "bool \<Rightarrow> touch_op \<Rightarrow> auth_store \<Rightarrow> auth_store" where
  "enqueueTouch pick op st =
     (if length (as_touch st) < touchBufferSize \<and> (as_stopped st \<longrightarrow> pick) then st\<lparr>as_touch := as_touch st @ [op]\<rparr> else st)"

definition session_lookup :: "string \<Rightarrow> auth_world \<Rightarrow> (session \<times> user) option" where
  "session_lookup tokenHash w =
     (case find (\<lambda>s. ses_TokenHash s = tokenHash \<and> ses_ExpiresAt s > aw_now w) (as_sessions (aw_store w)) of
        None \<Rightarrow> None
      | Some s \<Rightarrow>
          (case find (\<lambda>u. us_ID u = ses_UserID s \<and> us_IsActive u) (as_users (aw_store w)) of
             None \<Rightarrow> None | Some u \<Rightarrow> Some (s, the_user u)))"

definition db_GetSession :: "string \<Rightarrow> auth_world \<Rightarrow> (store_error + session \<times> user) \<times> auth_world" where
  "db_GetSession tokenHash =
     run_stmt ''get session'' (\<lambda>w.
       case session_lookup tokenHash w of
         None \<Rightarrow> (Inl ErrNoRows, aw_store w)
       | Some su \<Rightarrow> (Inr su, enqueueTouch (aw_pick w (aw_calls w)) (TouchSession tokenHash) (aw_store w)))"

definition db_DeleteSession :: "string \<Rightarrow> auth_world \<Rightarrow> (store_error + unit) \<times> auth_world" where
  "db_DeleteSession tokenHash =
     run_stmt ''delete session'' (\<lambda>w.
       let st = aw_store w in (Inr (), st\<lparr>as_sessions := filter (\<lambda>s. ses_TokenHash s \<noteq> tokenHash) (as_sessions st)\<rparr>))"

definition db_DeleteUserSessions :: "uuid \<Rightarrow> auth_world \<Rightarrow> (store_error + unit) \<times> auth_world" where
  "db_DeleteUserSessions i =
     run_stmt ''delete user sessions'' (\<lambda>w.
       let st = aw_store w in (Inr (), st\<lparr>as_sessions := filter (\<lambda>s. ses_UserID s \<noteq> i) (as_sessions st)\<rparr>))"

text \<open>The most recent sessions of a user; rows created at the same instant keep their table order.\<close>

definition newest_sessions :: "uuid \<Rightarrow> nat \<Rightarrow> auth_store \<Rightarrow> string list" where
  "newest_sessions i keep st =
     take keep (map ses_TokenHash (sort_key (\<lambda>s. - ses_CreatedAt s) (filter (\<lambda>s. ses_UserID s = i) (as_sessions st))))"

definition db_PruneUserSessions :: "uuid \<Rightarrow> nat \<Rightarrow> auth_world \<Rightarrow> (store_error + unit) \<times> auth_world" where
  "db_PruneUserSessions i keep =
     run_stmt ''prune user sessions'' (\<lambda>w.
       let st = aw_store w in
       (Inr (), st\<lparr>as_sessions :=
          filter (\<lambda>s. \<not> (ses_UserID s = i \<and> ses_TokenHash s \<notin> set (newest_sessions i keep st))) (as_sessions st)\<rparr>))"

definition db_CleanExpiredSessions :: "auth_world \<Rightarrow> (store_error + nat) \<times> auth_world" where
  "db_CleanExpiredSessions =
     run_stmt ''clean expired sessions'' (\<lambda>w.
       let st = aw_store w in
       (Inr (length (filter (\<lambda>s. ses_ExpiresAt s \<le> aw_now w) (as_sessions st))),
        st\<lparr>as_sessions := filter (\<lambda>s. \<not> ses_ExpiresAt s \<le> aw_now w) (as_sessions st)\<rparr>))"

section \<open>API keys\<close>

definition db_CreateAPIKey ::
  "uuid \<Rightarrow> string \<Rightarrow> string \<Rightarrow> string \<Rightarrow> string list \<Rightarrow> instant option \<Rightarrow> auth_world \<Rightarrow> (store_error + api_key) \<times> auth_world" where
  "db_CreateAPIKey userID name keyHash keyPrefix scopes expiresAt =
     run_stmt ''create api key'' (\<lambda>w.
       let st = aw_store w;
           k = \<lparr>ak_ID = aw_uuid w (aw_calls w), ak_UserID = userID, ak_Owner = [], ak_Name = name, ak_KeyHash = keyHash,
                ak_KeyPrefix = keyPrefix, ak_Scopes = scopes, ak_ExpiresAt = expiresAt, ak_RevokedAt = None,
                ak_LastUsedAt = None, ak_CreatedAt = aw_now w\<rparr> in
       if \<not> name_ok name then (Inl (StoreFailed checkViolated), st)
       else if list_ex (\<lambda>x. ak_KeyHash x = keyHash \<and> ak_RevokedAt x = None \<or> ak_ID x = ak_ID k) (as_keys st) then (Inl (StoreFailed duplicateKey), st)
       else if \<not> id_taken userID st then (Inl (StoreFailed ''violates foreign key constraint''), st)
       else (Inr k, st\<lparr>as_keys := as_keys st @ [k]\<rparr>))"

definition key_lookup :: "string \<Rightarrow> auth_world \<Rightarrow> (api_key \<times> user) option" where
  "key_lookup keyHash w =
     (case find (\<lambda>k. ak_KeyHash k = keyHash \<and> ak_RevokedAt k = None
                  \<and> (case ak_ExpiresAt k of None \<Rightarrow> True | Some t \<Rightarrow> t > aw_now w)) (as_keys (aw_store w)) of
        None \<Rightarrow> None
      | Some k \<Rightarrow>
          (case find (\<lambda>u. us_ID u = ak_UserID k \<and> us_IsActive u) (as_users (aw_store w)) of
             None \<Rightarrow> None | Some u \<Rightarrow> Some (k, the_user u)))"

definition db_GetAPIKeyByHash :: "string \<Rightarrow> auth_world \<Rightarrow> (store_error + api_key \<times> user) \<times> auth_world" where
  "db_GetAPIKeyByHash keyHash =
     run_stmt ''get api key by hash'' (\<lambda>w.
       case key_lookup keyHash w of
         None \<Rightarrow> (Inl ErrNoRows, aw_store w)
       | Some (k, u) \<Rightarrow> (Inr (k, u), enqueueTouch (aw_pick w (aw_calls w)) (TouchKey (ak_ID k)) (aw_store w)))"

definition db_ListAllAPIKeys :: "auth_world \<Rightarrow> (store_error + api_key list) \<times> auth_world" where
  "db_ListAllAPIKeys =
     run_stmt ''list api keys'' (\<lambda>w.
       let st = aw_store w in
       (Inr (sort_key (\<lambda>k. - ak_CreatedAt k)
          (List.map_filter (\<lambda>k. case find (\<lambda>u. us_ID u = ak_UserID k) (as_users st) of
                                  None \<Rightarrow> None | Some u \<Rightarrow> Some (k\<lparr>ak_Owner := us_Username u\<rparr>)) (as_keys st))), st))"

definition db_RevokeAPIKey :: "uuid \<Rightarrow> auth_world \<Rightarrow> (store_error + unit) \<times> auth_world" where
  "db_RevokeAPIKey i =
     run_stmt ''revoke api key'' (\<lambda>w.
       let st = aw_store w in
       (Inr (), st\<lparr>as_keys := map (upd (\<lambda>k. ak_ID k = i \<and> ak_RevokedAt k = None) (\<lambda>k. k\<lparr>ak_RevokedAt := Some (aw_now w)\<rparr>)) (as_keys st)\<rparr>))"

definition db_GetAPIKeyByID :: "uuid \<Rightarrow> auth_world \<Rightarrow> (store_error + api_key) \<times> auth_world" where
  "db_GetAPIKeyByID i =
     run_stmt ''get api key by id'' (\<lambda>w.
       (case find (\<lambda>k. ak_ID k = i) (as_keys (aw_store w)) of None \<Rightarrow> Inl ErrNoRows | Some k \<Rightarrow> Inr k, aw_store w))"

definition GetSessionUser :: "string \<Rightarrow> auth_world \<Rightarrow> (store_error + user) \<times> auth_world" where
  "GetSessionUser tokenHash w =
     (case db_GetSession tokenHash w of (Inl err, w1) \<Rightarrow> (Inl err, w1) | (Inr (s, u), w1) \<Rightarrow> (Inr u, w1))"

definition GetAPIKeyUser :: "string \<Rightarrow> auth_world \<Rightarrow> (store_error + user \<times> string list \<times> uuid) \<times> auth_world" where
  "GetAPIKeyUser keyHash w =
     (case db_GetAPIKeyByHash keyHash w of
        (Inl err, w1) \<Rightarrow> (Inl err, w1) | (Inr (k, u), w1) \<Rightarrow> (Inr (u, ak_Scopes k, ak_ID k), w1))"

section \<open>The touch worker\<close>

definition store_Stop :: "auth_store \<Rightarrow> auth_store" where "store_Stop st = st\<lparr>as_stopped := True\<rparr>"

text \<open>One update taken from the buffer; a failed one is only logged.\<close>

definition execTouch :: "touch_op \<Rightarrow> auth_world \<Rightarrow> auth_world" where
  "execTouch op w =
     snd (run_stmt ''touch'' (\<lambda>w.
       let st = aw_store w in
       (Inr (), case op of
          TouchSession h \<Rightarrow> st\<lparr>as_sessions := map (upd (\<lambda>s. ses_TokenHash s = h) (\<lambda>s. s\<lparr>ses_LastSeenAt := aw_now w\<rparr>)) (as_sessions st)\<rparr>
        | TouchKey i \<Rightarrow> st\<lparr>as_keys := map (upd (\<lambda>k. ak_ID k = i) (\<lambda>k. k\<lparr>ak_LastUsedAt := Some (aw_now w)\<rparr>)) (as_keys st)\<rparr>)) w)"

text \<open>One round of the worker: it takes an update if there is one, and leaves when the store has stopped
  and the buffer is empty (None); otherwise it waits.\<close>

definition touchWorker :: "auth_world \<Rightarrow> auth_world option" where
  "touchWorker w =
     (case as_touch (aw_store w) of
        [] \<Rightarrow> if as_stopped (aw_store w) then None else Some w
      | op # ops \<Rightarrow> Some (execTouch op (w\<lparr>aw_store := (aw_store w)\<lparr>as_touch := ops\<rparr>\<rparr>)))"

section \<open>The tables keep their keys\<close>

definition store_inv :: "auth_env \<Rightarrow> auth_store \<Rightarrow> bool" where
  "store_inv env st \<longleftrightarrow>
     distinct (map us_ID (as_users st)) \<and>
     distinct (map (\<lambda>u. ae_lower env (us_Username u)) (as_users st)) \<and>
     distinct (List.map_filter ur_oidc (as_users st)) \<and>
     distinct (map ses_TokenHash (as_sessions st)) \<and>
     distinct (map ak_ID (as_keys st)) \<and>
     distinct (map ak_KeyHash (filter (\<lambda>k. ak_RevokedAt k = None) (as_keys st))) \<and>
     (\<forall>s \<in> set (as_sessions st). ses_UserID s \<in> us_ID ` set (as_users st)) \<and>
     (\<forall>k \<in> set (as_keys st). ak_UserID k \<in> us_ID ` set (as_users st)) \<and>
     length (as_touch st) \<le> touchBufferSize"

text \<open>A statement that keeps the tables in order, whatever else it does, keeps the world in order.\<close>

lemma run_stmt_store:
  "aw_store (snd (run_stmt what stmt w)) = (if aw_fail w (aw_calls w) = None then snd (stmt w) else aw_store w)"
  by (auto simp: run_stmt_def Let_def split: option.split prod.split sum.split store_error.split)

lemma run_stmt_inv:
  assumes "store_inv env (aw_store w)" "store_inv env (aw_store w) \<Longrightarrow> store_inv env (snd (stmt w))"
  shows "store_inv env (aw_store (snd (run_stmt what stmt w)))"
  using assms by (simp add: run_stmt_store)

lemma run_stmt_Inr:
  "run_stmt what stmt w = (Inr x, w') \<Longrightarrow> \<exists>st. stmt w = (Inr x, st) \<and> w' = w\<lparr>aw_calls := aw_calls w + 1, aw_store := st\<rparr>"
  by (auto simp: run_stmt_def Let_def split: option.splits prod.splits sum.splits store_error.splits)

lemma run_stmt_frame [simp]:
  "aw_fail (snd (run_stmt what stmt w)) = aw_fail w" "aw_now (snd (run_stmt what stmt w)) = aw_now w"
  by (auto simp: run_stmt_def Let_def split: option.split prod.split sum.split store_error.split)

lemma update_users_inv:
  assumes inv: "store_inv env st"
    and keep: "\<And>u. us_ID (g u) = us_ID u" "\<And>u. us_Username (g u) = us_Username u" "\<And>u. ur_oidc (g u) = ur_oidc u"
  shows "store_inv env (update_users p g st)"
proof -
  have "List.map_filter ur_oidc (map (upd p g) us) = List.map_filter ur_oidc us" for us
    by (induction us) (auto simp: List.map_filter_simps upd_def keep(3) split: option.split)
  moreover have "(\<lambda>u. ae_lower env (us_Username u)) \<circ> upd p g = (\<lambda>u. ae_lower env (us_Username u))"
    by (rule upd_comp) (simp add: keep)
  ultimately show ?thesis
    using inv by (simp add: store_inv_def update_users_def upd_comp upd_image keep)
qed

lemma add_user_inv:
  assumes "store_inv env st" "\<not> id_taken (us_ID r) st" "\<not> username_taken env (us_Username r) st"
    and "\<And>i. ur_oidc r = Some i \<Longrightarrow> i \<notin> set (List.map_filter ur_oidc (as_users st))"
  shows "store_inv env (st\<lparr>as_users := as_users st @ [r]\<rparr>)"
  using assms by (auto simp: store_inv_def id_taken_def username_taken_def list_ex_iff List.map_filter_def split: option.splits)

lemma filter_sessions_inv: "store_inv env st \<Longrightarrow> store_inv env (st\<lparr>as_sessions := filter p (as_sessions st)\<rparr>)"
  by (auto simp: store_inv_def distinct_map inj_on_def)

lemma touch_inv: "store_inv env st \<Longrightarrow> store_inv env (enqueueTouch pick op st)"
  by (auto simp: store_inv_def enqueueTouch_def)

text \<open>Every statement of the store keeps the tables in order.\<close>

lemma db_users_inv:
  assumes "store_inv env (aw_store w)"
  shows "store_inv env (aw_store (snd (db_CreateUser env n h a w)))"
    and "store_inv env (aw_store (snd (db_GetUserByUsername env n w)))"
    and "store_inv env (aw_store (snd (db_GetUserByID i w)))"
    and "store_inv env (aw_store (snd (db_ListUsers by w)))"
    and "store_inv env (aw_store (snd (db_UpdateLastLogin i w)))"
    and "store_inv env (aw_store (snd (db_SetUserActive i a w)))"
    and "store_inv env (aw_store (snd (db_UpdateEmail i e w)))"
    and "store_inv env (aw_store (snd (db_UpdatePreferences i e w)))"
    and "store_inv env (aw_store (snd (db_UpdatePassword i h w)))"
  unfolding db_CreateUser_def db_GetUserByUsername_def db_GetUserByID_def db_ListUsers_def db_UpdateLastLogin_def
    db_SetUserActive_def db_UpdateEmail_def db_UpdatePreferences_def db_UpdatePassword_def
  by (rule run_stmt_inv [OF assms],
      auto intro!: update_users_inv add_user_inv simp: Let_def new_user_def split: option.split)+

lemma db_UpsertLDAPUser_inv:
  "store_inv env (aw_store w) \<Longrightarrow> store_inv env (aw_store (snd (db_UpsertLDAPUser env n e a w)))"
  unfolding db_UpsertLDAPUser_def
  by (rule run_stmt_inv)
    (auto intro!: update_users_inv add_user_inv simp: Let_def new_user_def find_None_iff username_taken_def list_ex_iff split: option.split)

lemma oidc_refresh_inv:
  "store_inv env (aw_store w) \<Longrightarrow> store_inv env (aw_store (snd (oidc_refresh i s e a w)))"
  unfolding oidc_refresh_def
  by (rule run_stmt_inv) (auto intro!: update_users_inv simp: Let_def split: option.split)

lemma oidc_provision_inv:
  "store_inv env (aw_store w) \<Longrightarrow> store_inv env (aw_store (snd (oidc_provision env i s c e a w)))"
  unfolding oidc_provision_def
  by (rule run_stmt_inv)
    (auto intro!: add_user_inv simp: Let_def new_user_def list_ex_iff List.map_filter_def split: option.splits)

lemma oidc_attempts_inv:
  "store_inv env (aw_store w) \<Longrightarrow> store_inv env (aw_store (snd (oidc_attempts env i s n e a k m w)))"
proof (induction m arbitrary: k w)
  case (Suc m)
  obtain r w1 where p: "oidc_provision env i s (if k > 0 then n @ ''-'' @ fmt_int (int k + 1) else n) e a w = (r, w1)"
    by fastforce
  have "store_inv env (aw_store w1)" using oidc_provision_inv [OF Suc.prems] p by (metis snd_conv)
  then show ?case using Suc.IH [of w1] p by (auto simp: Let_def split: sum.splits store_error.splits)
qed simp

lemma db_UpsertOIDCUser_inv:
  assumes "store_inv env (aw_store w)"
  shows "store_inv env (aw_store (snd (db_UpsertOIDCUser env i s n e a w)))"
proof -
  obtain r w1 where r: "oidc_refresh i s e a w = (r, w1)" by fastforce
  then have "store_inv env (aw_store w1)" using oidc_refresh_inv [OF assms] by (metis snd_conv)
  then show ?thesis using oidc_attempts_inv [of env w1]
    by (auto simp: db_UpsertOIDCUser_def r split: sum.splits store_error.splits)
qed

lemma db_sessions_inv:
  assumes "store_inv env (aw_store w)"
  shows "store_inv env (aw_store (snd (db_CreateSession h i x ip ua w)))"
    and "store_inv env (aw_store (snd (db_GetSession h w)))"
    and "store_inv env (aw_store (snd (db_DeleteSession h w)))"
    and "store_inv env (aw_store (snd (db_DeleteUserSessions i w)))"
    and "store_inv env (aw_store (snd (db_PruneUserSessions i n w)))"
    and "store_inv env (aw_store (snd (db_CleanExpiredSessions w)))"
proof -
  show "store_inv env (aw_store (snd (db_CreateSession h i x ip ua w)))"
    unfolding db_CreateSession_def
    by (rule run_stmt_inv [OF assms]) (auto simp: Let_def store_inv_def list_ex_iff id_taken_def)
  show "store_inv env (aw_store (snd (db_GetSession h w)))"
    unfolding db_GetSession_def by (rule run_stmt_inv [OF assms]) (auto intro: touch_inv split: option.split)
qed (unfold db_DeleteSession_def db_DeleteUserSessions_def db_PruneUserSessions_def db_CleanExpiredSessions_def,
    (rule run_stmt_inv [OF assms], simp add: Let_def filter_sessions_inv)+)

lemma update_keys_inv:
  assumes inv: "store_inv env st"
    and keep: "\<And>k. ak_ID (g k) = ak_ID k" "\<And>k. ak_UserID (g k) = ak_UserID k" "\<And>k. ak_KeyHash (g k) = ak_KeyHash k"
    and revoked: "\<And>k. ak_RevokedAt (g k) = None \<Longrightarrow> ak_RevokedAt k = None"
  shows "store_inv env (st\<lparr>as_keys := map g (as_keys st)\<rparr>)"
proof -
  have "distinct (map ak_KeyHash (filter (\<lambda>k. ak_RevokedAt k = None) (map g ks)))"
    if "distinct (map ak_KeyHash (filter (\<lambda>k. ak_RevokedAt k = None) ks))" for ks
    using that by (induction ks) (auto simp: keep dest!: revoked split: if_splits)
  moreover have "ak_ID \<circ> g = ak_ID" by (rule ext) (simp add: keep)
  ultimately show ?thesis using inv by (auto simp: store_inv_def keep simp del: filter_map)
qed

lemma update_sessions_inv:
  assumes inv: "store_inv env st"
    and keep: "\<And>s. ses_TokenHash (g s) = ses_TokenHash s" "\<And>s. ses_UserID (g s) = ses_UserID s"
  shows "store_inv env (st\<lparr>as_sessions := map g (as_sessions st)\<rparr>)"
proof -
  have "ses_TokenHash \<circ> g = ses_TokenHash" by (rule ext) (simp add: keep)
  then show ?thesis using inv by (auto simp: store_inv_def keep)
qed

lemma db_keys_inv:
  assumes "store_inv env (aw_store w)"
  shows "store_inv env (aw_store (snd (db_CreateAPIKey i n h p sc x w)))"
    and "store_inv env (aw_store (snd (db_GetAPIKeyByHash h w)))"
    and "store_inv env (aw_store (snd (db_ListAllAPIKeys w)))"
    and "store_inv env (aw_store (snd (db_RevokeAPIKey i w)))"
    and "store_inv env (aw_store (snd (db_GetAPIKeyByID i w)))"
proof -
  show "store_inv env (aw_store (snd (db_CreateAPIKey i n h p sc x w)))"
    unfolding db_CreateAPIKey_def
    by (rule run_stmt_inv [OF assms]) (auto simp: Let_def store_inv_def list_ex_iff id_taken_def)
  show "store_inv env (aw_store (snd (db_GetAPIKeyByHash h w)))"
    unfolding db_GetAPIKeyByHash_def by (rule run_stmt_inv [OF assms]) (auto intro: touch_inv split: option.split)
  show "store_inv env (aw_store (snd (db_RevokeAPIKey i w)))"
    unfolding db_RevokeAPIKey_def by (rule run_stmt_inv [OF assms]) (auto simp: Let_def upd_def intro!: update_keys_inv split: if_splits)
qed (unfold db_ListAllAPIKeys_def db_GetAPIKeyByID_def, (rule run_stmt_inv [OF assms], simp add: Let_def)+)

lemma execTouch_inv: "store_inv env (aw_store w) \<Longrightarrow> store_inv env (aw_store (execTouch op w))"
  unfolding execTouch_def
  by (rule run_stmt_inv) (auto simp: Let_def upd_def intro!: update_sessions_inv update_keys_inv split: touch_op.split if_splits)

lemma touchWorker_inv:
  assumes "store_inv env (aw_store w)" "touchWorker w = Some w'"
  shows "store_inv env (aw_store w')"
proof (cases "as_touch (aw_store w)")
  case (Cons op ops)
  have "store_inv env ((aw_store w)\<lparr>as_touch := ops\<rparr>)" using assms(1) Cons by (simp add: store_inv_def)
  then show ?thesis using assms(2) Cons by (auto simp: touchWorker_def intro: execTouch_inv)
qed (use assms in \<open>auto simp: touchWorker_def split: if_splits\<close>)

lemma execTouch_touch [simp]:
  "as_touch (aw_store (execTouch op w)) = as_touch (aw_store w)"
  "as_stopped (aw_store (execTouch op w)) = as_stopped (aw_store w)"
  by (auto simp: execTouch_def run_stmt_store Let_def split: touch_op.split)

text \<open>A stopped worker drains the buffer and leaves.\<close>

lemma touchWorker_drains:
  "as_stopped (aw_store w) \<Longrightarrow>
   \<exists>w'. ((\<lambda>v. Option.bind v touchWorker) ^^ length (as_touch (aw_store w))) (Some w) = Some w' \<and> touchWorker w' = None"
proof (induction "length (as_touch (aw_store w))" arbitrary: w)
  case 0
  then show ?case by (intro exI [of _ w]) (simp add: touchWorker_def)
next
  case (Suc n)
  then obtain op ops where t: "as_touch (aw_store w) = op # ops" by (cases "as_touch (aw_store w)") auto
  let ?w = "execTouch op (w\<lparr>aw_store := (aw_store w)\<lparr>as_touch := ops\<rparr>\<rparr>)"
  have "touchWorker w = Some ?w" by (simp add: touchWorker_def t)
  moreover have "\<exists>w'. ((\<lambda>v. Option.bind v touchWorker) ^^ length ops) (Some ?w) = Some w' \<and> touchWorker w' = None"
    using Suc.hyps(1) [of ?w] Suc.hyps(2) Suc.prems by (simp add: t)
  ultimately show ?case unfolding t length_Cons funpow_Suc_right comp_apply by simp
qed

section \<open>Live credentials\<close>

text \<open>What it means for a session token or an API key to stand for a user, read off the tables.\<close>

definition live_session :: "auth_world \<Rightarrow> string \<Rightarrow> user \<Rightarrow> bool" where
  "live_session w h u \<longleftrightarrow>
     (\<exists>s \<in> set (as_sessions (aw_store w)). \<exists>row \<in> set (as_users (aw_store w)).
        ses_TokenHash s = h \<and> ses_ExpiresAt s > aw_now w \<and> us_ID row = ses_UserID s \<and> us_IsActive row \<and> u = the_user row)"

definition live_key :: "auth_world \<Rightarrow> string \<Rightarrow> user \<Rightarrow> string list \<Rightarrow> uuid \<Rightarrow> bool" where
  "live_key w h u scopes i \<longleftrightarrow>
     (\<exists>k \<in> set (as_keys (aw_store w)). \<exists>row \<in> set (as_users (aw_store w)).
        ak_KeyHash k = h \<and> ak_RevokedAt k = None \<and> (\<forall>t. ak_ExpiresAt k = Some t \<longrightarrow> t > aw_now w) \<and>
        us_ID row = ak_UserID k \<and> us_IsActive row \<and> u = the_user row \<and> scopes = ak_Scopes k \<and> i = ak_ID k)"

lemma the_user_simps [simp]:
  "us_ID (the_user r) = us_ID r" "us_IsActive (the_user r) = us_IsActive r" "us_IsAdmin (the_user r) = us_IsAdmin r"
  "us_Username (the_user r) = us_Username r" "us_AuthSource (the_user r) = us_AuthSource r"
  "us_PasswordHash (the_user r) = us_PasswordHash r"
  by (simp_all add: the_user_def user.truncate_def)

lemma find_unique:
  assumes "\<And>x y. x \<in> set xs \<Longrightarrow> y \<in> set xs \<Longrightarrow> p x \<Longrightarrow> p y \<Longrightarrow> x = y"
  shows "find p xs = Some x \<longleftrightarrow> x \<in> set xs \<and> p x"
  using assms by (induction xs) auto

lemma distinct_map_eq: "distinct (map f xs) \<Longrightarrow> x \<in> set xs \<Longrightarrow> y \<in> set xs \<Longrightarrow> f x = f y \<Longrightarrow> x = y"
  by (auto simp: distinct_map inj_on_def)

lemma find_user:
  assumes "store_inv env st"
  shows "find (\<lambda>u. us_ID u = i \<and> p u) (as_users st) = Some r \<longleftrightarrow> r \<in> set (as_users st) \<and> us_ID r = i \<and> p r"
  using assms distinct_map_eq [of us_ID "as_users st"] by (subst find_unique) (auto simp: store_inv_def)

text \<open>The lookups answer only with a live credential.\<close>

lemma find_SomeD: "find p xs = Some x \<Longrightarrow> x \<in> set xs \<and> p x"
  by (auto simp: find_Some_iff)

lemma session_lookup_live: "session_lookup h w = Some (s, u) \<Longrightarrow> live_session w h u"
  unfolding session_lookup_def live_session_def by (auto split: option.splits dest!: find_SomeD)

lemma key_lookup_live: "key_lookup h w = Some (k, u) \<Longrightarrow> live_key w h u (ak_Scopes k) (ak_ID k)"
  unfolding key_lookup_def live_key_def by (auto split: option.splits dest!: find_SomeD; blast)

text \<open>With the unique keys in place they find every live credential.\<close>

lemma session_lookup_finds:
  assumes inv: "store_inv env (aw_store w)" and live: "live_session w h u"
  obtains s where "session_lookup h w = Some (s, u)"
proof -
  obtain s row where s: "s \<in> set (as_sessions (aw_store w))" "ses_TokenHash s = h" "ses_ExpiresAt s > aw_now w"
    and row: "row \<in> set (as_users (aw_store w))" "us_ID row = ses_UserID s" "us_IsActive row" "u = the_user row"
    using live by (auto simp: live_session_def)
  have "find (\<lambda>s. ses_TokenHash s = h \<and> ses_ExpiresAt s > aw_now w) (as_sessions (aw_store w)) = Some s"
    using inv distinct_map_eq [of ses_TokenHash "as_sessions (aw_store w)"] s
    by (subst find_unique) (auto simp: store_inv_def)
  moreover have "find (\<lambda>u. us_ID u = ses_UserID s \<and> us_IsActive u) (as_users (aw_store w)) = Some row"
    using row by (simp add: find_user [OF inv])
  ultimately show thesis using row by (intro that [of s]) (simp add: session_lookup_def)
qed

lemma key_lookup_finds:
  assumes inv: "store_inv env (aw_store w)" and live: "live_key w h u scopes i"
  obtains k where "key_lookup h w = Some (k, u)" "scopes = ak_Scopes k" "i = ak_ID k"
proof -
  let ?p = "\<lambda>k. ak_KeyHash k = h \<and> ak_RevokedAt k = None \<and> (case ak_ExpiresAt k of None \<Rightarrow> True | Some t \<Rightarrow> t > aw_now w)"
  obtain k row where k: "k \<in> set (as_keys (aw_store w))" "?p k" "scopes = ak_Scopes k" "i = ak_ID k"
    and row: "row \<in> set (as_users (aw_store w))" "us_ID row = ak_UserID k" "us_IsActive row" "u = the_user row"
    using live by (auto simp: live_key_def split: option.split)
  have "find ?p (as_keys (aw_store w)) = Some k"
    using inv distinct_map_eq [of ak_KeyHash "filter (\<lambda>k. ak_RevokedAt k = None) (as_keys (aw_store w))"] k
    by (subst find_unique) (auto simp: store_inv_def)
  moreover have "find (\<lambda>u. us_ID u = ak_UserID k \<and> us_IsActive u) (as_users (aw_store w)) = Some row"
    using row by (simp add: find_user [OF inv])
  ultimately show thesis using row k(3,4) by (intro that [of k]) (simp_all add: key_lookup_def)
qed

end
