(* ===== verification/Auth.thy ===== *)
theory Auth
  imports AuthStore
begin

text \<open>
  Authentication and authorisation: \<^verbatim>\<open>api/internal/auth\<close> (tokens, middleware, login policy) and the
  account handlers of \<^verbatim>\<open>api/internal/handler/auth.go\<close>. The middleware is modelled with the handler it
  wraps as an argument and the two lookup interfaces as functions; the locale \<^verbatim>\<open>credential_lookup\<close> states
  what the middleware relies on and is interpreted on the store. LDAP, the token bucket of the login
  limiter and the text parsers of addresses are parameters.
\<close>

section \<open>Tokens (auth.go)\<close>

definition base62Chars :: string where
  "base62Chars = ''0123456789ABCDEFGHIJKLMNOPQRSTUVWXYZabcdefghijklmnopqrstuvwxyz''"
definition apiKeyPrefix :: string where "apiKeyPrefix = ''tl_''"
definition apiKeyLen :: nat where "apiKeyLen = 43"
definition displayPrefixLen :: nat where "displayPrefixLen = 10"

definition GenerateSessionToken :: "auth_env \<Rightarrow> auth_world \<Rightarrow> (string + string \<times> string) \<times> auth_world" where
  "GenerateSessionToken env w =
     (let w1 = w\<lparr>aw_draws := aw_draws w + 1\<rparr> in
      case aw_random w (aw_draws w) of
        None \<Rightarrow> (Inl ''generate session token'', w1)
      | Some b \<Rightarrow> (let raw = b64_encode b in (Inr (raw, ae_HashToken env raw), w1)))"

text \<open>\<^verbatim>\<open>rand.Int\<close> gives a number below its bound.\<close>

fun draw_chars :: "nat \<Rightarrow> auth_world \<Rightarrow> string option \<times> auth_world" where
  "draw_chars 0 w = (Some [], w)"
| "draw_chars (Suc n) w =
     (let w1 = w\<lparr>aw_draws := aw_draws w + 1\<rparr> in
      case aw_randint w (aw_draws w) of
        None \<Rightarrow> (None, w1)
      | Some i \<Rightarrow>
          (case draw_chars n w1 of
             (None, w2) \<Rightarrow> (None, w2)
           | (Some cs, w2) \<Rightarrow> (Some (base62Chars ! (i mod length base62Chars) # cs), w2)))"

definition GenerateAPIKey :: "auth_env \<Rightarrow> auth_world \<Rightarrow> (string + string \<times> string \<times> string) \<times> auth_world" where
  "GenerateAPIKey env w =
     (case draw_chars apiKeyLen w of
        (None, w1) \<Rightarrow> (Inl ''generate api key'', w1)
      | (Some chars, w1) \<Rightarrow>
          (let fullKey = apiKeyPrefix @ chars in
           (Inr (fullKey, ae_HashToken env fullKey, take displayPrefixLen fullKey), w1)))"

section \<open>Middleware (middleware.go)\<close>

record request =
  rq_Method :: string
  rq_Path :: string
  rq_RemoteAddr :: string
  rq_ClientIP :: string
  rq_Cookie :: "string \<Rightarrow> string option"
  rq_Header :: "string \<Rightarrow> string"
  rq_TLS :: bool
  rq_id :: string

record req_context =
  ctx_user :: "user option"
  ctx_scopes :: "string list option"
  ctx_apiKeyID :: "uuid option"

definition background :: req_context where
  "background = \<lparr>ctx_user = None, ctx_scopes = None, ctx_apiKeyID = None\<rparr>"

type_synonym ('w, 'a) handler = "req_context \<Rightarrow> 'w \<Rightarrow> 'a response \<times> 'w"

definition extractBearer :: "request \<Rightarrow> string" where
  "extractBearer r =
     (let h = rq_Header r ''Authorization'' in
      if prefix ''Bearer '' h then drop (length ''Bearer '') h else [])"

definition zero_user :: user where
  "zero_user = \<lparr>us_ID = replicate 16 (CHR 0x00), us_Username = [], us_Email = None, us_PasswordHash = [],
     us_IsActive = False, us_IsAdmin = False, us_AuthSource = [], us_Preferences = [], us_CreatedAt = 0,
     us_UpdatedAt = 0, us_LastLoginAt = None\<rparr>"

definition AllowAnonymous :: "('w, 'a) handler \<Rightarrow> ('w, 'a) handler" where
  "AllowAnonymous next_h ctx = next_h (ctx\<lparr>ctx_user := Some (zero_user\<lparr>us_Username := ''anonymous'', us_IsActive := True\<rparr>)\<rparr>)"

definition bearer_auth ::
  "(string \<Rightarrow> string) \<Rightarrow> (string \<Rightarrow> 'w \<Rightarrow> (store_error + user \<times> string list \<times> uuid) \<times> 'w) \<Rightarrow> request
   \<Rightarrow> ('w, 'a) handler \<Rightarrow> ('w, 'a) handler" where
  "bearer_auth HashToken apiKeys r next_h ctx w =
     (let bearer = extractBearer r in
      if bearer \<noteq> [] \<and> prefix ''tl_'' bearer
      then (case apiKeys (HashToken bearer) w of
              (Inr (user, scopes, keyID), w1) \<Rightarrow>
                next_h (ctx\<lparr>ctx_user := Some user, ctx_scopes := Some scopes, ctx_apiKeyID := Some keyID\<rparr>) w1
            | (Inl err, w1) \<Rightarrow> (RespError 401 ''unauthorized'', w1))
      else (RespError 401 ''unauthorized'', w))"

definition SessionOrAPIKey ::
  "(string \<Rightarrow> string) \<Rightarrow> (string \<Rightarrow> 'w \<Rightarrow> (store_error + user) \<times> 'w)
   \<Rightarrow> (string \<Rightarrow> 'w \<Rightarrow> (store_error + user \<times> string list \<times> uuid) \<times> 'w) \<Rightarrow> request
   \<Rightarrow> ('w, 'a) handler \<Rightarrow> ('w, 'a) handler" where
  "SessionOrAPIKey HashToken sessions apiKeys r next_h ctx w =
     (case rq_Cookie r ''tl_session'' of
        Some v \<Rightarrow>
          if v \<noteq> []
          then (case sessions (HashToken v) w of
                  (Inr user, w1) \<Rightarrow> next_h (ctx\<lparr>ctx_user := Some user\<rparr>) w1
                | (Inl err, w1) \<Rightarrow> bearer_auth HashToken apiKeys r next_h ctx w1)
          else bearer_auth HashToken apiKeys r next_h ctx w
      | None \<Rightarrow> bearer_auth HashToken apiKeys r next_h ctx w)"

definition ScopeAdmin :: string where "ScopeAdmin = ''admin''"

fun hasScope :: "string list \<Rightarrow> string \<Rightarrow> bool" where
  "hasScope [] target \<longleftrightarrow> False"
| "hasScope (s # scopes) target \<longleftrightarrow> (if s = target \<or> s = ''admin'' then True else hasScope scopes target)"

definition HasGrant :: "string list option \<Rightarrow> user option \<Rightarrow> string \<Rightarrow> bool" where
  "HasGrant scopes user scope \<longleftrightarrow>
     (case scopes of
        None \<Rightarrow>
          if scope = ScopeAdmin then (case user of None \<Rightarrow> False | Some u \<Rightarrow> us_IsAdmin u) else user \<noteq> None
      | Some ss \<Rightarrow> hasScope ss scope)"

definition RequireScope :: "string \<Rightarrow> ('w, 'a) handler \<Rightarrow> ('w, 'a) handler" where
  "RequireScope scope next_h ctx w =
     (case ctx_user ctx of
        None \<Rightarrow> (RespError 401 ''unauthorized'', w)
      | Some user \<Rightarrow>
          if HasGrant (ctx_scopes ctx) (Some user) scope then next_h ctx w else (RespError 403 ''forbidden'', w))"

text \<open>An address as its 4 or 16 bytes; \<^verbatim>\<open>To4\<close> finds the four bytes of a mapped one.\<close>

definition To4 :: "nat list \<Rightarrow> nat list option" where
  "To4 ip =
     (if length ip = 4 then Some ip
      else if length ip = 16 \<and> take 12 ip = replicate 10 0 @ [255, 255] then Some (drop 12 ip) else None)"

definition IsLoopback :: "nat list \<Rightarrow> bool" where
  "IsLoopback ip \<longleftrightarrow> (case To4 ip of Some ip4 \<Rightarrow> ip4 ! 0 = 127 | None \<Rightarrow> ip = replicate 15 0 @ [1])"

definition IsPrivate :: "nat list \<Rightarrow> bool" where
  "IsPrivate ip \<longleftrightarrow>
     (case To4 ip of
        Some ip4 \<Rightarrow> ip4 ! 0 = 10 \<or> ip4 ! 0 = 172 \<and> ip4 ! 1 div 16 = 1 \<or> ip4 ! 0 = 192 \<and> ip4 ! 1 = 168
      | None \<Rightarrow> length ip = 16 \<and> ip ! 0 div 2 = 126)"

definition isPrivateIP :: "(string \<Rightarrow> string option) \<Rightarrow> (string \<Rightarrow> nat list option) \<Rightarrow> string \<Rightarrow> bool" where
  "isPrivateIP splitHost parseIP addr \<longleftrightarrow>
     (case parseIP (case splitHost addr of None \<Rightarrow> addr | Some host \<Rightarrow> host) of
        None \<Rightarrow> False
      | Some ip \<Rightarrow> IsLoopback ip \<or> IsPrivate ip)"

definition DenyWrites ::
  "(string \<Rightarrow> string option) \<Rightarrow> (string \<Rightarrow> nat list option) \<Rightarrow> string list \<Rightarrow> request \<Rightarrow> ('w, 'a) handler \<Rightarrow> ('w, 'a) handler" where
  "DenyWrites splitHost parseIP exempt r next_h ctx w =
     (if rq_Method r \<in> {''GET'', ''HEAD'', ''OPTIONS''} then next_h ctx w
      else if list_ex (\<lambda>path. rq_Path r = path \<and> isPrivateIP splitHost parseIP (rq_ClientIP r)
                          \<and> isPrivateIP splitHost parseIP (rq_RemoteAddr r)) exempt then next_h ctx w
      else (RespError 403 ''demo_mode'', w))"

section \<open>Login policy (login.go)\<close>

definition IsExternalSource :: "string \<Rightarrow> bool" where
  "IsExternalSource source \<longleftrightarrow> source = ''ldap'' \<or> source = ''oidc''"

datatype login_error = DeniedError string string | ErrInactive | LoginFailed string

definition denied :: "string \<Rightarrow> login_error" where "denied reason = DeniedError reason []"

datatype ldap_error = LdapUserNotFound | LdapNotAuthorized | LdapInvalidPassword | LdapFailed string

record ldap_result =
  lr_Username :: string
  lr_Email :: string
  lr_IsAdmin :: bool

type_synonym authenticator = "string \<Rightarrow> string \<Rightarrow> ldap_error + ldap_result"

definition store_message :: "store_error \<Rightarrow> string" where
  "store_message err = (case err of ErrNoRows \<Rightarrow> ''no rows in result set'' | StoreFailed m \<Rightarrow> m)"

definition directory ::
  "auth_env \<Rightarrow> authenticator option \<Rightarrow> string \<Rightarrow> string \<Rightarrow> auth_world \<Rightarrow> (login_error + user option) \<times> auth_world" where
  "directory env ldap username password w =
     (case ldap of
        None \<Rightarrow> (Inr None, w)
      | Some authenticate \<Rightarrow>
          (case authenticate username password of
             Inr res \<Rightarrow>
               (case db_UpsertLDAPUser env (lr_Username res) (lr_Email res) (lr_IsAdmin res) w of
                  (Inl err, w1) \<Rightarrow> (Inl (LoginFailed (''upsert ldap user: '' @ store_message err)), w1)
                | (Inr user, w1) \<Rightarrow> (Inr (Some user), w1))
           | Inl LdapUserNotFound \<Rightarrow> (Inr None, w)
           | Inl LdapNotAuthorized \<Rightarrow> (Inl (denied ''LDAP user not in any authorized group''), w)
           | Inl LdapInvalidPassword \<Rightarrow> (Inl (denied ''LDAP wrong password''), w)
           | Inl (LdapFailed err) \<Rightarrow> (Inr None, w)))"

definition local_login ::
  "auth_env \<Rightarrow> string \<Rightarrow> string \<Rightarrow> auth_world \<Rightarrow> (login_error + user) \<times> auth_world" where
  "local_login env username password w =
     (case db_GetUserByUsername env username w of
        (Inl ErrNoRows, w1) \<Rightarrow> (Inl (denied ''unknown user''), w1)
      | (Inl (StoreFailed err), w1) \<Rightarrow> (Inl (LoginFailed (''get user failed: '' @ err)), w1)
      | (Inr user, w1) \<Rightarrow>
          if IsExternalSource (us_AuthSource user)
          then (Inl (DeniedError ''external-auth user attempted local auth'' (us_AuthSource user)), w1)
          else if \<not> ae_CheckPassword env password (us_PasswordHash user) then (Inl (denied ''wrong password''), w1)
          else (Inr user, w1))"

definition Password ::
  "auth_env \<Rightarrow> authenticator option \<Rightarrow> string \<Rightarrow> string \<Rightarrow> auth_world \<Rightarrow> (login_error + user) \<times> auth_world" where
  "Password env ldap username password w =
     (let finish = (\<lambda>user w1. if \<not> us_IsActive user then (Inl (denied ''inactive account''), w1) else (Inr user, w1)) in
      case directory env ldap username password w of
        (Inl err, w1) \<Rightarrow> (Inl err, w1)
      | (Inr (Some user), w1) \<Rightarrow> finish user w1
      | (Inr None, w1) \<Rightarrow>
          (case local_login env username password w1 of
             (Inl err, w2) \<Rightarrow> (Inl err, w2)
           | (Inr user, w2) \<Rightarrow> finish user w2))"

record identity =
  id_Issuer :: string
  id_Subject :: string
  id_Username :: string
  id_Email :: string
  id_IsAdmin :: bool

definition OIDC :: "auth_env \<Rightarrow> identity \<Rightarrow> auth_world \<Rightarrow> (login_error + user) \<times> auth_world" where
  "OIDC env ident w =
     (case db_UpsertOIDCUser env (id_Issuer ident) (id_Subject ident) (id_Username ident) (id_Email ident) (id_IsAdmin ident) w of
        (Inl err, w1) \<Rightarrow> (Inl (LoginFailed (''upsert oidc user: '' @ store_message err)), w1)
      | (Inr user, w1) \<Rightarrow> if \<not> us_IsActive user then (Inl ErrInactive, w1) else (Inr user, w1))"

section \<open>What the middleware relies on\<close>

text \<open>The two lookup interfaces: an answer is a live credential of an active user, and looking a session
  up changes no key.\<close>

locale credential_lookup =
  fixes sessions :: "string \<Rightarrow> 'w \<Rightarrow> (store_error + user) \<times> 'w"
    and apiKeys :: "string \<Rightarrow> 'w \<Rightarrow> (store_error + user \<times> string list \<times> uuid) \<times> 'w"
    and session_of :: "'w \<Rightarrow> string \<Rightarrow> user \<Rightarrow> bool"
    and key_of :: "'w \<Rightarrow> string \<Rightarrow> user \<Rightarrow> string list \<Rightarrow> uuid \<Rightarrow> bool"
  assumes session_sound: "sessions h w = (Inr u, w') \<Longrightarrow> session_of w h u"
    and session_active: "session_of w h u \<Longrightarrow> us_IsActive u"
    and key_sound: "apiKeys h w = (Inr (u, scopes, i), w') \<Longrightarrow> key_of w h u scopes i"
    and key_active: "key_of w h u scopes i \<Longrightarrow> us_IsActive u"
    and session_frame: "sessions h w = (res, w') \<Longrightarrow> key_of w' = key_of w"
begin

lemma bearer_served:
  assumes "bearer_auth HashToken apiKeys r next_h ctx w = (resp, w')"
  shows "resp = RespError 401 ''unauthorized'' \<or>
    (\<exists>u scopes i w1. key_of w (HashToken (extractBearer r)) u scopes i \<and> us_IsActive u \<and> prefix ''tl_'' (extractBearer r) \<and>
       next_h (ctx\<lparr>ctx_user := Some u, ctx_scopes := Some scopes, ctx_apiKeyID := Some i\<rparr>) w1 = (resp, w'))"
  using assms key_sound key_active by (fastforce simp: bearer_auth_def Let_def split: if_splits prod.splits sum.splits)

lemma served_only_with_credential:
  assumes "SessionOrAPIKey HashToken sessions apiKeys r next_h ctx w = (resp, w')"
    and "resp \<noteq> RespError 401 ''unauthorized''"
  shows "(\<exists>v u w1. rq_Cookie r ''tl_session'' = Some v \<and> session_of w (HashToken v) u \<and> us_IsActive u \<and>
            next_h (ctx\<lparr>ctx_user := Some u\<rparr>) w1 = (resp, w')) \<or>
         (\<exists>u scopes i w1. key_of w (HashToken (extractBearer r)) u scopes i \<and> us_IsActive u \<and> prefix ''tl_'' (extractBearer r) \<and>
            next_h (ctx\<lparr>ctx_user := Some u, ctx_scopes := Some scopes, ctx_apiKeyID := Some i\<rparr>) w1 = (resp, w'))"
proof (cases "\<exists>v. rq_Cookie r ''tl_session'' = Some v \<and> v \<noteq> []")
  case True
  then obtain v where v: "rq_Cookie r ''tl_session'' = Some v" "v \<noteq> []" by blast
  obtain res w1 where s: "sessions (HashToken v) w = (res, w1)" by fastforce
  show ?thesis
  proof (cases res)
    case (Inr u)
    then show ?thesis using assms v s session_sound [of "HashToken v" w u w1] session_active
      by (auto simp: SessionOrAPIKey_def)
  next
    case (Inl err)
    then show ?thesis using assms v s bearer_served [of HashToken r next_h ctx w1 resp w'] session_frame [OF s]
      by (auto simp: SessionOrAPIKey_def)
  qed
next
  case False
  then show ?thesis using assms bearer_served [of HashToken r next_h ctx w resp w']
    by (auto simp: SessionOrAPIKey_def split: option.splits)
qed

end

lemma GetSessionUser_result:
  "GetSessionUser h w = (res, w') \<Longrightarrow>
     as_users (aw_store w') = as_users (aw_store w) \<and> as_keys (aw_store w') = as_keys (aw_store w) \<and> aw_now w' = aw_now w \<and>
     (\<forall>u. res = Inr u \<longrightarrow> live_session w h u)"
  by (auto simp: GetSessionUser_def db_GetSession_def run_stmt_def Let_def enqueueTouch_def
      dest: session_lookup_live split: option.splits prod.splits sum.splits store_error.splits if_splits)

lemma GetAPIKeyUser_result: "GetAPIKeyUser h w = (Inr (u, scopes, i), w') \<Longrightarrow> live_key w h u scopes i"
  by (auto simp: GetAPIKeyUser_def db_GetAPIKeyByHash_def run_stmt_def Let_def
      dest: key_lookup_live split: option.splits prod.splits sum.splits store_error.splits)

interpretation store_lookup: credential_lookup GetSessionUser GetAPIKeyUser live_session live_key
proof
  show "GetSessionUser h w = (res, w') \<Longrightarrow> live_key w' = live_key w" for h w res w'
    using GetSessionUser_result [of h w res w'] by (intro ext) (simp add: live_key_def)
qed (auto dest: GetSessionUser_result GetAPIKeyUser_result simp: live_session_def live_key_def)

section \<open>Who is served\<close>

lemma hasScope_iff: "hasScope scopes target \<longleftrightarrow> target \<in> set scopes \<or> ''admin'' \<in> set scopes"
  by (induction scopes) auto

lemma RequireScope_served:
  assumes "RequireScope scope next_h ctx w = (resp, w')" "ctx_user ctx = Some u" "resp \<noteq> RespError 403 ''forbidden''"
  shows "HasGrant (ctx_scopes ctx) (Some u) scope \<and> next_h ctx w = (resp, w')"
  using assms by (auto simp: RequireScope_def split: if_splits)

text \<open>Whatever the database answers or fails to answer, a route behind the authentication
  middleware and a required scope reaches its handler only for an active user who presented a token of
  an unexpired session of theirs, and is an administrator when the scope is admin, or an unrevoked,
  unexpired API key of theirs that lists the scope or admin. Everything else is answered 401 or 403.\<close>

lemma scoped_handler_reached:
  assumes run: "SessionOrAPIKey (ae_HashToken env) GetSessionUser GetAPIKeyUser r (RequireScope scope next_h) background w = (resp, w')"
    and ok: "resp \<noteq> RespError 401 ''unauthorized''" "resp \<noteq> RespError 403 ''forbidden''"
  shows "\<exists>ctx u w1. next_h ctx w1 = (resp, w') \<and> ctx_user ctx = Some u \<and> us_IsActive u \<and>
     ((\<exists>v. rq_Cookie r ''tl_session'' = Some v \<and> live_session w (ae_HashToken env v) u \<and> (scope = ''admin'' \<longrightarrow> us_IsAdmin u)) \<or>
      (\<exists>scopes i. prefix ''tl_'' (extractBearer r) \<and> live_key w (ae_HashToken env (extractBearer r)) u scopes i \<and>
         (scope \<in> set scopes \<or> ''admin'' \<in> set scopes)))"
  using store_lookup.served_only_with_credential [OF run ok(1)]
proof (elim disjE exE conjE)
  fix v u w1
  let ?ctx = "background\<lparr>ctx_user := Some u\<rparr>"
  assume c: "rq_Cookie r ''tl_session'' = Some v" "live_session w (ae_HashToken env v) u" "us_IsActive u"
    and n: "RequireScope scope next_h ?ctx w1 = (resp, w')"
  have "HasGrant None (Some u) scope" "next_h ?ctx w1 = (resp, w')"
    using RequireScope_served [OF n _ ok(2), of u] by (simp_all add: background_def)
  then show ?thesis using c
    by (intro exI [of _ ?ctx] exI [of _ u] exI [of _ w1]) (auto simp: HasGrant_def ScopeAdmin_def)
next
  fix u scopes i w1
  let ?ctx = "background\<lparr>ctx_user := Some u, ctx_scopes := Some scopes, ctx_apiKeyID := Some i\<rparr>"
  assume c: "live_key w (ae_HashToken env (extractBearer r)) u scopes i" "us_IsActive u" "prefix ''tl_'' (extractBearer r)"
    and n: "RequireScope scope next_h ?ctx w1 = (resp, w')"
  have "HasGrant (Some scopes) (Some u) scope" "next_h ?ctx w1 = (resp, w')"
    using RequireScope_served [OF n _ ok(2), of u] by (simp_all add: background_def)
  then show ?thesis using c
    by (intro exI [of _ ?ctx] exI [of _ u] exI [of _ w1]) (auto simp: HasGrant_def hasScope_iff)
qed

text \<open>A small world: an active user with one session, whose token hashes to itself.\<close>

definition ex_env :: auth_env where
  "ex_env = \<lparr>ae_lower = id, ae_HashToken = id, ae_HashPassword = Some, ae_CheckPassword = (=), ae_md5 = id,
     ae_rfc3339 = (\<lambda>_. []), ae_parse_rfc3339 = (\<lambda>_. None)\<rparr>"

definition ex_user :: user_row where
  "ex_user = \<lparr>us_ID = ''aaaaaaaaaaaaaaaa'', us_Username = ''ann'', us_Email = None, us_PasswordHash = ''secret42'',
     us_IsActive = True, us_IsAdmin = True, us_AuthSource = ''local'', us_Preferences = [], us_CreatedAt = 0,
     us_UpdatedAt = 0, us_LastLoginAt = None, ur_oidc = None\<rparr>"

definition ex_session :: session where
  "ex_session = \<lparr>ses_TokenHash = ''tok'', ses_UserID = us_ID ex_user, ses_CreatedAt = 0, ses_ExpiresAt = 100,
     ses_LastSeenAt = 0, ses_IPAddress = [], ses_UserAgent = []\<rparr>"

definition ex_key :: api_key where
  "ex_key = \<lparr>ak_ID = ''kkkkkkkkkkkkkkkk'', ak_UserID = us_ID ex_user, ak_Owner = [], ak_Name = ''k'', ak_KeyHash = ''tl_k'',
     ak_KeyPrefix = ''tl_k'', ak_Scopes = [''read''], ak_ExpiresAt = None, ak_RevokedAt = None, ak_LastUsedAt = None, ak_CreatedAt = 0\<rparr>"

definition ex_world :: auth_world where
  "ex_world = \<lparr>aw_store = \<lparr>as_users = [ex_user], as_sessions = [ex_session], as_keys = [ex_key], as_touch = [], as_stopped = False\<rparr>,
     aw_now = 1, aw_calls = 0, aw_fail = (\<lambda>_. None), aw_uuid = (\<lambda>n. ''uuuuuuuuuuuuuuuu''),
     aw_random = (\<lambda>_. Some (replicate 32 (CHR ''r''))), aw_randint = (\<lambda>_. Some 0), aw_draws = 0, aw_pick = (\<lambda>_. True)\<rparr>"

definition ex_request :: request where
  "ex_request = \<lparr>rq_Method = ''GET'', rq_Path = ''/'', rq_RemoteAddr = [], rq_ClientIP = ''10.0.0.1'',
     rq_Cookie = (\<lambda>n. if n = ''tl_session'' then Some ''tok'' else None),
     rq_Header = (\<lambda>_. []), rq_TLS = True, rq_id = ''66666666666666666666666666666666''\<rparr>"

lemmas ex_defs = ex_env_def ex_user_def ex_session_def ex_key_def ex_world_def ex_request_def

lemma ex_inv: "store_inv ex_env (aw_store ex_world)"
  by (simp add: store_inv_def ex_defs List.map_filter_def touchBufferSize_def)

lemma ex_live: "live_session ex_world ''tok'' (the_user ex_user)" "live_key ex_world ''tl_k'' (the_user ex_user) [''read''] (ak_ID ex_key)"
  by (simp_all add: live_session_def live_key_def ex_defs)

lemma ex_served:
  "SessionOrAPIKey (ae_HashToken ex_env) GetSessionUser GetAPIKeyUser ex_request (RequireScope ''admin'' (\<lambda>c w. (RespData 200 (us_Username (the (ctx_user c))), w)))
     background ex_world = (RespData 200 ''ann'',
       ex_world\<lparr>aw_calls := 1, aw_store := (aw_store ex_world)\<lparr>as_touch := [TouchSession ''tok'']\<rparr>\<rparr>)"
  by (simp add: SessionOrAPIKey_def GetSessionUser_def db_GetSession_def run_stmt_def session_lookup_def enqueueTouch_def
      touchBufferSize_def RequireScope_def HasGrant_def ScopeAdmin_def background_def the_user_def user.truncate_def ex_defs)

lemma GetSessionUser_finds:
  assumes "store_inv env (aw_store w)" "aw_fail w (aw_calls w) = None" "live_session w h u"
  obtains w1 where "GetSessionUser h w = (Inr u, w1)"
proof -
  obtain s where "session_lookup h w = Some (s, u)" by (rule session_lookup_finds [OF assms(1,3)])
  then show thesis using assms(2) by (intro that) (simp add: GetSessionUser_def db_GetSession_def run_stmt_def)
qed

lemma GetSessionUser_frame:
  "GetSessionUser h w = (res, w1) \<Longrightarrow>
     as_users (aw_store w1) = as_users (aw_store w) \<and> as_sessions (aw_store w1) = as_sessions (aw_store w) \<and>
     as_keys (aw_store w1) = as_keys (aw_store w) \<and> aw_now w1 = aw_now w \<and> aw_fail w1 = aw_fail w"
  by (auto simp: GetSessionUser_def db_GetSession_def run_stmt_def Let_def enqueueTouch_def
      split: option.splits prod.splits sum.splits store_error.splits if_splits)

lemma GetAPIKeyUser_frame:
  "GetAPIKeyUser h w = (res, w1) \<Longrightarrow>
     as_users (aw_store w1) = as_users (aw_store w) \<and> as_sessions (aw_store w1) = as_sessions (aw_store w) \<and>
     as_keys (aw_store w1) = as_keys (aw_store w) \<and> aw_now w1 = aw_now w \<and> aw_fail w1 = aw_fail w"
  by (auto simp: GetAPIKeyUser_def db_GetAPIKeyByHash_def run_stmt_def Let_def enqueueTouch_def
      split: option.splits prod.splits sum.splits store_error.splits if_splits)

definition same_tables :: "auth_world \<Rightarrow> auth_world \<Rightarrow> bool" where
  "same_tables w w' \<longleftrightarrow> as_users (aw_store w') = as_users (aw_store w) \<and> as_sessions (aw_store w') = as_sessions (aw_store w)
     \<and> as_keys (aw_store w') = as_keys (aw_store w) \<and> aw_now w' = aw_now w"

lemma GetSessionUser_inv: "store_inv env (aw_store w) \<Longrightarrow> GetSessionUser h w = (res, w1) \<Longrightarrow> store_inv env (aw_store w1)"
  using db_sessions_inv(2) [of env w h] by (auto simp: GetSessionUser_def split: prod.splits sum.splits)

lemma GetAPIKeyUser_finds:
  assumes "store_inv env (aw_store w)" "aw_fail w (aw_calls w) = None" "live_key w h u scopes i"
  obtains w1 where "GetAPIKeyUser h w = (Inr (u, scopes, i), w1)"
proof -
  obtain k where "key_lookup h w = Some (k, u)" "scopes = ak_Scopes k" "i = ak_ID k"
    by (rule key_lookup_finds [OF assms(1,3)])
  then show thesis using assms(2) by (intro that) (simp add: GetAPIKeyUser_def db_GetAPIKeyByHash_def run_stmt_def)
qed

text \<open>The credential a request presents, if one is live: the session of its cookie before the key of its header.\<close>

definition presents_session :: "auth_env \<Rightarrow> request \<Rightarrow> auth_world \<Rightarrow> user \<Rightarrow> bool" where
  "presents_session env r w u \<longleftrightarrow>
     (\<exists>v. rq_Cookie r ''tl_session'' = Some v \<and> v \<noteq> [] \<and> live_session w (ae_HashToken env v) u)"

definition presents_key :: "auth_env \<Rightarrow> request \<Rightarrow> auth_world \<Rightarrow> user \<Rightarrow> string list \<Rightarrow> uuid \<Rightarrow> bool" where
  "presents_key env r w u scopes i \<longleftrightarrow>
     prefix ''tl_'' (extractBearer r) \<and> live_key w (ae_HashToken env (extractBearer r)) u scopes i"

lemma bearer_live:
  assumes "store_inv env (aw_store w)" "aw_fail w (aw_calls w) = None" "presents_key env r w u scopes i"
  shows "\<exists>w1. bearer_auth (ae_HashToken env) GetAPIKeyUser r next_h ctx w
      = next_h (ctx\<lparr>ctx_user := Some u, ctx_scopes := Some scopes, ctx_apiKeyID := Some i\<rparr>) w1 \<and> same_tables w w1"
proof -
  obtain w1 where k: "GetAPIKeyUser (ae_HashToken env (extractBearer r)) w = (Inr (u, scopes, i), w1)"
    using GetAPIKeyUser_finds [OF assms(1,2)] assms(3) unfolding presents_key_def by blast
  show ?thesis using assms(3) GetAPIKeyUser_frame [OF k]
    by (intro exI [of _ w1]) (auto simp: bearer_auth_def Let_def k presents_key_def same_tables_def)
qed

lemma bearer_dead:
  assumes "\<nexists>u scopes i. presents_key env r w u scopes i"
  shows "fst (bearer_auth (ae_HashToken env) GetAPIKeyUser r next_h ctx w) = RespError 401 ''unauthorized''"
  using assms GetAPIKeyUser_result
  by (fastforce simp: bearer_auth_def Let_def presents_key_def split: prod.splits sum.splits)

lemma no_session_falls_through:
  assumes "store_inv env (aw_store w)" "\<nexists>u. presents_session env r w u"
  obtains w1 where "SessionOrAPIKey (ae_HashToken env) GetSessionUser GetAPIKeyUser r next_h ctx w
      = bearer_auth (ae_HashToken env) GetAPIKeyUser r next_h ctx w1"
    "same_tables w w1" "aw_fail w1 = aw_fail w" "store_inv env (aw_store w1)"
proof (cases "\<exists>v. rq_Cookie r ''tl_session'' = Some v \<and> v \<noteq> []")
  case True
  then obtain v where v: "rq_Cookie r ''tl_session'' = Some v" "v \<noteq> []" by blast
  obtain res w1 where s: "GetSessionUser (ae_HashToken env v) w = (res, w1)" by fastforce
  then obtain err where "res = Inl err"
    using assms(2) v GetSessionUser_result [OF s] by (cases res) (auto simp: presents_session_def)
  then show thesis using v s GetSessionUser_frame [OF s] GetSessionUser_inv [OF assms(1) s]
    by (intro that [of w1]) (simp_all add: SessionOrAPIKey_def same_tables_def)
next
  case False
  then show thesis using assms(1) by (intro that [of w]) (auto simp: SessionOrAPIKey_def same_tables_def split: option.splits)
qed

lemma session_is_served:
  assumes "store_inv env (aw_store w)" "aw_fail w (aw_calls w) = None" "presents_session env r w u"
  shows "\<exists>w1. SessionOrAPIKey (ae_HashToken env) GetSessionUser GetAPIKeyUser r next_h ctx w
      = next_h (ctx\<lparr>ctx_user := Some u\<rparr>) w1 \<and> same_tables w w1"
proof -
  obtain v where v: "rq_Cookie r ''tl_session'' = Some v" "v \<noteq> []" "live_session w (ae_HashToken env v) u"
    using assms(3) by (auto simp: presents_session_def)
  obtain w1 where s: "GetSessionUser (ae_HashToken env v) w = (Inr u, w1)"
    by (rule GetSessionUser_finds [OF assms(1,2) v(3)])
  then show ?thesis
    using v GetSessionUser_frame [OF s] by (intro exI [of _ w1]) (simp add: SessionOrAPIKey_def same_tables_def)
qed

lemma presents_key_same: "same_tables w w1 \<Longrightarrow> presents_key env r w1 = presents_key env r w"
  by (intro ext) (auto simp: presents_key_def live_key_def same_tables_def)

text \<open>The context a request has to be served with.\<close>

definition served_as :: "auth_env \<Rightarrow> request \<Rightarrow> auth_world \<Rightarrow> req_context \<Rightarrow> req_context \<Rightarrow> bool" where
  "served_as env r w ctx c \<longleftrightarrow>
     (\<exists>u. presents_session env r w u \<and> c = ctx\<lparr>ctx_user := Some u\<rparr>) \<or>
     (\<nexists>u. presents_session env r w u) \<and>
       (\<exists>u scopes i. presents_key env r w u scopes i \<and>
          c = ctx\<lparr>ctx_user := Some u, ctx_scopes := Some scopes, ctx_apiKeyID := Some i\<rparr>)"

text \<open>C13: with the tables' keys unique and the database answering, the middleware serves exactly the
  requests with a live credential: the handler runs as the user of the session the cookie names, or
  failing that with the scopes of the key in the header, and with the tables as they were; a request
  that presents neither is answered 401.\<close>

theorem live_credentials_are_served:
  assumes inv: "store_inv env (aw_store w)" and up: "\<And>n. aw_fail w n = None"
  shows "(\<forall>c. served_as env r w ctx c \<longrightarrow>
            (\<exists>w1. SessionOrAPIKey (ae_HashToken env) GetSessionUser GetAPIKeyUser r next_h ctx w = next_h c w1 \<and> same_tables w w1)) \<and>
         ((\<nexists>c. served_as env r w ctx c) \<longrightarrow>
            fst (SessionOrAPIKey (ae_HashToken env) GetSessionUser GetAPIKeyUser r next_h ctx w) = RespError 401 ''unauthorized'')"
    (is "(\<forall>c. _ c \<longrightarrow> ?served c) \<and> (_ \<longrightarrow> ?refused)")
proof (cases "\<exists>u. presents_session env r w u")
  case True
  then show ?thesis using session_is_served [OF inv up] by (auto simp: served_as_def)
next
  case False
  from inv False obtain w1 where w1: "SessionOrAPIKey (ae_HashToken env) GetSessionUser GetAPIKeyUser r next_h ctx w
      = bearer_auth (ae_HashToken env) GetAPIKeyUser r next_h ctx w1" "same_tables w w1" "aw_fail w1 = aw_fail w" "store_inv env (aw_store w1)"
    by (rule no_session_falls_through)
  have "?served c" if c: "served_as env r w ctx c" for c
  proof -
    obtain u scopes i where k: "presents_key env r w1 u scopes i"
      "c = ctx\<lparr>ctx_user := Some u, ctx_scopes := Some scopes, ctx_apiKeyID := Some i\<rparr>"
      using c False by (auto simp: served_as_def presents_key_same [OF w1(2)])
    show ?thesis using bearer_live [OF w1(4) _ k(1), of next_h ctx] w1(1-3) up k(2) by (auto simp: same_tables_def)
  qed
  moreover have ?refused if "\<nexists>c. served_as env r w ctx c"
    using that bearer_dead [of env r w1 next_h ctx] False w1(1) by (auto simp: served_as_def presents_key_same [OF w1(2)])
  ultimately show ?thesis by blast
qed

theorem live_credentials_are_served_witness:
  "\<exists>w1. SessionOrAPIKey (ae_HashToken ex_env) GetSessionUser GetAPIKeyUser ex_request (\<lambda>c w. (RespData 200 (ctx_user c), w)) background ex_world
     = (RespData 200 (Some (the_user ex_user)), w1) \<and> same_tables ex_world w1"
proof -
  have "served_as ex_env ex_request ex_world background (background\<lparr>ctx_user := Some (the_user ex_user)\<rparr>)"
    using ex_live(1) by (auto simp: served_as_def presents_session_def ex_env_def ex_request_def)
  then show ?thesis
    using live_credentials_are_served [OF ex_inv, of ex_request background "\<lambda>c w. (RespData 200 (ctx_user c), w)"]
    by (auto simp: ex_world_def)
qed

section \<open>Login policy\<close>

text \<open>C20: a password opens the account it belongs to and no other. A successful login returns an
  active account that either the directory vouched for, in which case the account is the one with the
  directory's name and now carries the directory's email and administrator flag, or that is a local
  account whose own password matches; a directory that rejects the password is never bypassed.\<close>

theorem password_login_policy:
  assumes "Password env ldap username password w = (Inr user, w')"
  shows "us_IsActive user \<and>
    ((\<exists>auth res. ldap = Some auth \<and> auth username password = Inr res \<and> us_AuthSource user = ''ldap'' \<and>
        us_IsAdmin user = lr_IsAdmin res \<and> us_Email user = email_arg (lr_Email res) \<and>
        ae_lower env (us_Username user) = ae_lower env (ae_lower env (lr_Username res))) \<or>
     (\<exists>row \<in> set (as_users (aw_store w)). user = the_user row \<and> ae_lower env (us_Username row) = ae_lower env username \<and>
        \<not> IsExternalSource (us_AuthSource row) \<and> ae_CheckPassword env password (us_PasswordHash row) \<and>
        (\<forall>auth. ldap = Some auth \<longrightarrow> auth username password = Inl LdapUserNotFound \<or> (\<exists>err. auth username password = Inl (LdapFailed err)))))"
proof -
  obtain res w1 where d: "directory env ldap username password w = (res, w1)" by fastforce
  consider (dir) "res = Inr (Some user)" "us_IsActive user"
    | (loc) "res = Inr None" "local_login env username password w1 = (Inr user, w')" "us_IsActive user"
    using assms d by (auto simp: Password_def Let_def split: sum.splits option.splits prod.splits if_splits)
  then show ?thesis
  proof cases
    case dir
    then show ?thesis using d find_SomeD
      by (fastforce simp: directory_def db_UpsertLDAPUser_def run_stmt_def Let_def new_user_def the_user_def user.truncate_def
        split: option.splits sum.splits ldap_error.splits prod.splits store_error.splits if_splits)
  next
    case loc
    have "w1 = w" "\<forall>auth. ldap = Some auth \<longrightarrow> auth username password = Inl LdapUserNotFound \<or> (\<exists>err. auth username password = Inl (LdapFailed err))"
      using d loc(1) by (auto simp: directory_def split: option.splits sum.splits ldap_error.splits prod.splits)
    then show ?thesis using loc
      by (auto simp: local_login_def db_GetUserByUsername_def run_stmt_def Let_def dest!: find_SomeD
        split: option.splits sum.splits prod.splits store_error.splits if_splits)
  qed
qed

theorem password_login_policy_witness:
  "fst (Password ex_env None ''ann'' ''secret42'' ex_world) = Inr (the_user ex_user) \<and> us_IsActive (the_user ex_user)"
proof -
  have p: "Password ex_env None ''ann'' ''secret42'' ex_world = (Inr (the_user ex_user), ex_world\<lparr>aw_calls := 1\<rparr>)"
    by (simp add: Password_def directory_def local_login_def db_GetUserByUsername_def run_stmt_def IsExternalSource_def
        the_user_def user.truncate_def ex_defs)
  show ?thesis using password_login_policy [OF p] p by simp
qed

lemma oidc_refresh_keeps:
  "oidc_refresh issuer subject email isAdmin w = (res, w1) \<Longrightarrow> row \<in> set (as_users (aw_store w)) \<Longrightarrow>
   ur_oidc row \<noteq> Some (issuer, subject) \<Longrightarrow> row \<in> set (as_users (aw_store w1))"
  by (auto simp: oidc_refresh_def run_stmt_def Let_def update_users_def upd_def image_iff
      split: option.splits prod.splits sum.splits store_error.splits intro!: bexI [of _ row])

lemma oidc_refresh_user:
  assumes "oidc_refresh issuer subject email isAdmin w = (Inr user, w1)"
  shows "\<exists>row \<in> set (as_users (aw_store w1)). the_user row = user \<and> ur_oidc row = Some (issuer, subject) \<and>
    (\<exists>old \<in> set (as_users (aw_store w)). us_ID old = us_ID row \<and> ur_oidc old = Some (issuer, subject))"
  using assms by (fastforce simp: oidc_refresh_def run_stmt_def Let_def update_users_def upd_def image_iff dest!: find_SomeD
      split: option.splits prod.splits sum.splits store_error.splits)

lemma oidc_attempts_user:
  assumes "oidc_attempts env issuer subject name email isAdmin k n w = (res, w1)"
  shows "set (as_users (aw_store w)) \<subseteq> set (as_users (aw_store w1)) \<and>
    (\<forall>user. res = Inr user \<longrightarrow> (\<exists>row \<in> set (as_users (aw_store w1)). the_user row = user \<and> ur_oidc row = Some (issuer, subject) \<and>
       us_ID row \<notin> us_ID ` set (as_users (aw_store w))))"
  using assms
proof (induction n arbitrary: k w)
  case (Suc n)
  obtain r w2 where p: "oidc_provision env issuer subject (if k > 0 then name @ ''-'' @ fmt_int (int k + 1) else name) email isAdmin w = (r, w2)"
    by fastforce
  have new: "as_users (aw_store w2) = as_users (aw_store w) \<and> (\<forall>u. r \<noteq> Inr u) \<or>
      (\<exists>row. as_users (aw_store w2) = as_users (aw_store w) @ [row] \<and> r = Inr (the_user row) \<and> ur_oidc row = Some (issuer, subject)
         \<and> us_ID row \<notin> us_ID ` set (as_users (aw_store w)))"
    using p by (auto simp: oidc_provision_def run_stmt_def Let_def new_user_def id_taken_def list_ex_iff
        split: option.splits prod.splits sum.splits store_error.splits if_splits; blast)
  show ?case
  proof (cases "r = Inl ErrNoRows")
    case True
    then show ?thesis using Suc.IH [of "Suc k" w2] Suc.prems p new by (simp add: Let_def)
  next
    case False
    then have "res = r" "w1 = w2" using Suc.prems p by (auto simp: Let_def split: sum.splits store_error.splits)
    then show ?thesis using new by auto
  qed
qed auto

text \<open>C21: a login through the identity provider never takes over an account. It returns an active
  account that carries the identity's issuer and subject, and that carried them before or did not exist
  before; every other account's row is left as it was, whatever name the provider claims.\<close>

theorem oidc_login_never_takes_over_an_account:
  assumes "OIDC env ident w = (Inr user, w')"
  shows "us_IsActive user \<and>
    (\<forall>row \<in> set (as_users (aw_store w)). ur_oidc row \<noteq> Some (id_Issuer ident, id_Subject ident) \<longrightarrow> row \<in> set (as_users (aw_store w'))) \<and>
    (\<exists>row \<in> set (as_users (aw_store w')). the_user row = user \<and> ur_oidc row = Some (id_Issuer ident, id_Subject ident) \<and>
       (us_ID row \<in> us_ID ` set (as_users (aw_store w)) \<longrightarrow>
          (\<exists>old \<in> set (as_users (aw_store w)). us_ID old = us_ID row \<and> ur_oidc old = ur_oidc row)))"
proof -
  obtain r w1 where r: "oidc_refresh (id_Issuer ident) (id_Subject ident) (id_Email ident) (id_IsAdmin ident) w = (r, w1)"
    by fastforce
  have active: "us_IsActive user"
    and up: "db_UpsertOIDCUser env (id_Issuer ident) (id_Subject ident) (id_Username ident) (id_Email ident) (id_IsAdmin ident) w = (Inr user, w')"
    using assms by (auto simp: OIDC_def split: prod.splits sum.splits if_splits)
  show ?thesis
  proof (cases "r = Inl ErrNoRows")
    case True
    then have at: "oidc_attempts env (id_Issuer ident) (id_Subject ident) (id_Username ident) (id_Email ident) (id_IsAdmin ident) 0 maxOIDCUsernameAttempts w1 = (Inr user, w')"
      and same: "as_users (aw_store w1) = as_users (aw_store w)"
      using up r by (auto simp: db_UpsertOIDCUser_def oidc_refresh_def run_stmt_def Let_def
          split: option.splits prod.splits sum.splits store_error.splits)
    show ?thesis using oidc_attempts_user [OF at] active unfolding same by blast
  next
    case False
    then have "r = Inr user" "w1 = w'"
      using up r by (auto simp: db_UpsertOIDCUser_def split: sum.splits store_error.splits)
    then show ?thesis using oidc_refresh_keeps [OF r] oidc_refresh_user [of _ _ _ _ w user w'] r active by metis
  qed
qed

definition ex_identity :: identity where
  "ex_identity = \<lparr>id_Issuer = ''https://id'', id_Subject = ''42'', id_Username = ''ann'', id_Email = [], id_IsAdmin = False\<rparr>"

lemma ex_oidc: "case fst (OIDC ex_env ex_identity ex_world) of Inr u \<Rightarrow> us_Username u = ''ann-2'' | Inl _ \<Rightarrow> False"
proof -
  have two: "fmt_int 2 = ''2''" by code_simp
  have names: "name_ok ''ann''" "name_ok ''ann-2''" by (simp_all add: name_ok_def ascii_eval)
  have attempts: "maxOIDCUsernameAttempts = Suc (Suc (Suc (Suc (Suc 0))))" by (simp add: maxOIDCUsernameAttempts_def)
  show ?thesis
    unfolding OIDC_def db_UpsertOIDCUser_def attempts
    by (simp add: two names oidc_refresh_def oidc_provision_def run_stmt_def Let_def username_taken_def id_taken_def new_user_def
        the_user_def user.truncate_def ex_identity_def ex_defs)
qed

theorem oidc_login_never_takes_over_an_account_witness:
  "ur_oidc ex_user \<noteq> Some (id_Issuer ex_identity, id_Subject ex_identity) \<and>
   (\<exists>user w'. OIDC ex_env ex_identity ex_world = (Inr user, w') \<and> us_Username user = ''ann-2'' \<and> us_IsActive user \<and>
      ex_user \<in> set (as_users (aw_store w')))"
proof -
  obtain user w' where o: "OIDC ex_env ex_identity ex_world = (Inr user, w')" "us_Username user = ''ann-2''"
    using ex_oidc by (cases "OIDC ex_env ex_identity ex_world") (auto split: sum.splits)
  have "ur_oidc ex_user = None" "ex_user \<in> set (as_users (aw_store ex_world))" by (simp_all add: ex_world_def ex_user_def)
  then show ?thesis using oidc_login_never_takes_over_an_account [OF o(1)] o by auto
qed

end
