(* ===== verification/Routes.thy ===== *)
theory Routes
  imports Auth
begin

text \<open>
  The router of \<^verbatim>\<open>cmd/taillight/serve.go\<close>: the routes \<^verbatim>\<open>setupRouter\<close> registers for a configuration, each with the
  middlewares around it, and how a request to a route is served. Matching a request to a pattern is left to chi; the
  middlewares for request ids, logging, metrics, recovery, headers and CORS answer no request of their own accord here
  and are left out, as is the deadline a timeout sets. The lemmas compare the table with the documented modes.
\<close>

section \<open>The table\<close>

record serve_config =
  sv_AuthEnabled :: bool
  sv_AuthReadEndpoints :: bool
  sv_DemoMode :: bool
  sv_oidc :: bool
  sv_analysis :: bool
  sv_netbox :: bool

datatype middleware = UseTimeout duration | UseSessionOrAPIKey | UseAllowAnonymous | UseRequireScope string

record route =
  rt_Method :: string
  rt_Pattern :: string
  rt_Middlewares :: "middleware list"
  rt_Handler :: string

definition rt_at :: "string \<Rightarrow> string \<Rightarrow> string \<Rightarrow> route" where
  "rt_at m p h = \<lparr>rt_Method = m, rt_Pattern = p, rt_Middlewares = [], rt_Handler = h\<rparr>"

abbreviation GET :: "string \<Rightarrow> string \<Rightarrow> route" where "GET \<equiv> rt_at ''GET''"
abbreviation POST :: "string \<Rightarrow> string \<Rightarrow> route" where "POST \<equiv> rt_at ''POST''"
abbreviation PUT :: "string \<Rightarrow> string \<Rightarrow> route" where "PUT \<equiv> rt_at ''PUT''"
abbreviation PATCH :: "string \<Rightarrow> string \<Rightarrow> route" where "PATCH \<equiv> rt_at ''PATCH''"
abbreviation DELETE :: "string \<Rightarrow> string \<Rightarrow> route" where "DELETE \<equiv> rt_at ''DELETE''"

text \<open>\<^verbatim>\<open>r.Group\<close> with the middlewares it uses, and \<^verbatim>\<open>r.Route\<close>.\<close>

definition group :: "middleware list \<Rightarrow> route list \<Rightarrow> route list" where
  "group ms rs = map (\<lambda>rt. rt\<lparr>rt_Middlewares := ms @ rt_Middlewares rt\<rparr>) rs"

definition subroute :: "string \<Rightarrow> route list \<Rightarrow> route list" where
  "subroute p rs = map (\<lambda>rt. rt\<lparr>rt_Pattern := p @ rt_Pattern rt\<rparr>) rs"

definition auth_routes :: "serve_config \<Rightarrow> route list" where
  "auth_routes cfg =
     (if sv_AuthEnabled cfg
      then group [UseTimeout (30 * second)]
             ([POST ''/auth/login'' ''authHandler.Login'', POST ''/auth/logout'' ''authHandler.Logout''] @
              (if sv_oidc cfg then [GET ''/auth/oidc/login'' ''authHandler.OIDCLogin'', GET ''/auth/oidc/callback'' ''authHandler.OIDCCallback''] else []))
           @ group [UseTimeout (30 * second), UseSessionOrAPIKey]
             ([GET ''/auth/me'' ''authHandler.Me'', PATCH ''/auth/me/email'' ''authHandler.UpdateEmail'',
               PATCH ''/auth/me/preferences'' ''authHandler.UpdatePreferences'', GET ''/auth/keys'' ''authHandler.ListKeys'',
               POST ''/auth/keys'' ''authHandler.CreateKey'', DELETE ''/auth/keys/{id}'' ''authHandler.RevokeKey'',
               POST ''/auth/sessions/revoke-all'' ''authHandler.LogoutAll''] @
              group [UseRequireScope ''admin'']
                [GET ''/auth/users'' ''authHandler.ListUsers'', POST ''/auth/users'' ''authHandler.CreateUser'',
                 PATCH ''/auth/users/{id}/active'' ''authHandler.SetUserActive'', PATCH ''/auth/users/{id}/password'' ''authHandler.UpdateUserPassword'',
                 POST ''/auth/users/{id}/revoke-sessions'' ''authHandler.RevokeUserSessions''])
      else group [UseTimeout (30 * second), UseAllowAnonymous]
             [GET ''/auth/me'' ''authHandler.Me'', POST ''/auth/login'' ''authHandler.Me'', POST ''/auth/logout'' ''status ok''])"

definition srvlog_routes :: "route list" where
  "srvlog_routes =
     subroute ''/srvlog''
       ([GET ''/stream'' ''srvlogSSEHandler.Stream''] @
        group [UseTimeout (5 * minute)] [GET ''/export'' ''exportHandler.ExportSrvlogs''] @
        group [UseTimeout (30 * second)]
          [GET ''/'' ''srvlogHandler.List'', GET ''/{id}'' ''srvlogHandler.Get'',
           GET ''/meta/hosts'' ''srvlogMetaHandler.Hosts'', GET ''/meta/programs'' ''srvlogMetaHandler.Programs'',
           GET ''/meta/facilities'' ''srvlogMetaHandler.Facilities'', GET ''/meta/tags'' ''srvlogMetaHandler.Tags'',
           GET ''/stats/volume'' ''statsHandler.Volume'', GET ''/stats/severity-volume'' ''statsHandler.SeverityVolume'',
           GET ''/stats/summary'' ''statsHandler.SrvlogSummary'', GET ''/stats/hosts'' ''statsHandler.Hosts'',
           GET ''/device/{hostname}'' ''srvlogDeviceHandler.Get''])"

definition netlog_routes :: "serve_config \<Rightarrow> route list" where
  "netlog_routes cfg =
     subroute ''/netlog''
       ([GET ''/stream'' ''netlogSSEHandler.Stream''] @
        group [UseTimeout (5 * minute)] [GET ''/export'' ''exportHandler.ExportNetlogs''] @
        group [UseTimeout (30 * second)]
          ([GET ''/'' ''netlogHandler.List'', GET ''/{id}'' ''netlogHandler.Get''] @
           (if sv_netbox cfg then [GET ''/{id}/netbox'' ''netboxHandler.EnrichNetlog''] else []) @
           [GET ''/meta/hosts'' ''netlogMetaHandler.Hosts'', GET ''/meta/programs'' ''netlogMetaHandler.Programs'',
            GET ''/meta/facilities'' ''netlogMetaHandler.Facilities'', GET ''/meta/tags'' ''netlogMetaHandler.Tags'',
            GET ''/stats/volume'' ''statsHandler.NetlogVolume'', GET ''/stats/severity-volume'' ''statsHandler.NetlogSeverityVolume'',
            GET ''/stats/summary'' ''statsHandler.NetlogSummary'', GET ''/device/{hostname}'' ''netlogDeviceHandler.Get'']))"

definition applog_routes :: "route list" where
  "applog_routes =
     subroute ''/applog''
       ([GET ''/stream'' ''applogSSEHandler.Stream''] @
        group [UseTimeout (5 * minute)] [GET ''/export'' ''exportHandler.ExportAppLogs''] @
        group [UseTimeout (30 * second)]
          [GET ''/'' ''applogHandler.List'', GET ''/{id}'' ''applogHandler.Get'',
           GET ''/meta/services'' ''applogMetaHandler.Services'', GET ''/meta/components'' ''applogMetaHandler.Components'',
           GET ''/meta/hosts'' ''applogMetaHandler.Hosts'', GET ''/stats/volume'' ''statsHandler.AppLogVolume'',
           GET ''/stats/severity-volume'' ''statsHandler.AppLogSeverityVolume'', GET ''/stats/summary'' ''statsHandler.AppLogSummary'',
           GET ''/device/{hostname}'' ''applogDeviceHandler.Get''])"

definition read_routes :: "serve_config \<Rightarrow> route list" where
  "read_routes cfg =
     group [if sv_AuthEnabled cfg \<and> sv_AuthReadEndpoints cfg then UseSessionOrAPIKey else UseAllowAnonymous, UseRequireScope ''read'']
       (srvlog_routes @ netlog_routes cfg @
        group [UseTimeout (30 * second)]
          [GET ''/juniper/lookup'' ''juniperHandler.Lookup'', GET ''/rsyslog/stats/summary'' ''rsyslogStatsHandler.Summary'',
           GET ''/rsyslog/stats/volume'' ''rsyslogStatsHandler.Volume'', GET ''/metrics/summary'' ''taillightMetricsHandler.Summary'',
           GET ''/metrics/volume'' ''taillightMetricsHandler.Volume''] @
        (if sv_analysis cfg
         then group [UseTimeout (30 * second)]
           [GET ''/analysis/reports'' ''analysis.reports.List'', GET ''/analysis/reports/{slug}'' ''analysis.reports.Get'',
            GET ''/analysis/reports/{slug}/print'' ''analysis.reports.Print'', GET ''/analysis/hosts'' ''analysis.reports.Hosts'',
            GET ''/analysis/services'' ''analysis.reports.Services'', GET ''/analysis/schedules'' ''analysis.schedules.List'',
            GET ''/analysis/schedules/{id}'' ''analysis.schedules.Get''] else []) @
        applog_routes @
        group [UseTimeout (30 * second)]
          [GET ''/notifications/channels'' ''notifHandler.ListChannels'', GET ''/notifications/channels/{id}'' ''notifHandler.GetChannel'',
           GET ''/notifications/rules'' ''notifHandler.ListRules'', GET ''/notifications/rules/{id}'' ''notifHandler.GetRule'',
           GET ''/notifications/log'' ''notifHandler.ListLog'', GET ''/notifications/summaries'' ''summaryHandler.ListSchedules'',
           GET ''/notifications/summaries/{id}'' ''summaryHandler.GetSchedule''] @
        group [UseTimeout (30 * second)] [GET ''/mute-rules'' ''muteRuleHandler.List''])"

definition ingest_routes :: "serve_config \<Rightarrow> route list" where
  "ingest_routes cfg =
     group [UseTimeout (30 * second), if sv_AuthEnabled cfg then UseSessionOrAPIKey else UseAllowAnonymous, UseRequireScope ''ingest'']
       [POST ''/applog/ingest'' ''applogIngestHandler.Ingest'']"

definition admin_routes :: "serve_config \<Rightarrow> route list" where
  "admin_routes cfg =
     group [if sv_AuthEnabled cfg then UseSessionOrAPIKey else UseAllowAnonymous, UseRequireScope ''admin'']
       ((if sv_analysis cfg
         then group [UseTimeout (30 * second)]
           [POST ''/analysis/reports'' ''analysis.reports.Create'', DELETE ''/analysis/reports/{slug}'' ''analysis.reports.Delete'',
            POST ''/analysis/schedules'' ''analysis.schedules.Create'', PUT ''/analysis/schedules/{id}'' ''analysis.schedules.Update'',
            DELETE ''/analysis/schedules/{id}'' ''analysis.schedules.Delete'', POST ''/analysis/schedules/{id}/run'' ''analysis.schedules.Run'']
         else []) @
        group [UseTimeout (30 * second)]
          [POST ''/notifications/channels'' ''notifHandler.CreateChannel'', PUT ''/notifications/channels/{id}'' ''notifHandler.UpdateChannel'',
           DELETE ''/notifications/channels/{id}'' ''notifHandler.DeleteChannel'', POST ''/notifications/channels/{id}/test'' ''notifHandler.TestChannel'',
           POST ''/notifications/rules'' ''notifHandler.CreateRule'', PUT ''/notifications/rules/{id}'' ''notifHandler.UpdateRule'',
           DELETE ''/notifications/rules/{id}'' ''notifHandler.DeleteRule'', POST ''/notifications/summaries'' ''summaryHandler.CreateSchedule'',
           PUT ''/notifications/summaries/{id}'' ''summaryHandler.UpdateSchedule'', DELETE ''/notifications/summaries/{id}'' ''summaryHandler.DeleteSchedule'',
           POST ''/notifications/summaries/{id}/trigger'' ''summaryHandler.TriggerSchedule''] @
        group [UseTimeout (30 * second)]
          [POST ''/mute-rules'' ''muteRuleHandler.Create'', PATCH ''/mute-rules/{id}'' ''muteRuleHandler.ExpireIn'',
           DELETE ''/mute-rules/{id}'' ''muteRuleHandler.Unmute''] @
        group [UseTimeout (2 * minute)] [POST ''/juniper/ref/upload'' ''juniperRefHandler.Upload''])"

definition setupRouter :: "serve_config \<Rightarrow> route list" where
  "setupRouter cfg =
     subroute ''/api/v1''
       (group [UseTimeout (30 * second)] [GET ''/config/features'' ''configHandler.Features''] @
        auth_routes cfg @ read_routes cfg @ ingest_routes cfg @ admin_routes cfg) @
     [GET ''/api/v1/openapi.yml'' ''docs.SpecHandler'', GET ''/api/docs'' ''docs.ScalarHandler'', GET ''/health'' ''health'']"

section \<open>Serving a route\<close>

fun use_all :: "auth_env \<Rightarrow> request \<Rightarrow> middleware list \<Rightarrow> (auth_world, 'a) handler \<Rightarrow> (auth_world, 'a) handler" where
  "use_all env r [] h = h"
| "use_all env r (UseTimeout d # ms) h = use_all env r ms h"
| "use_all env r (UseSessionOrAPIKey # ms) h = SessionOrAPIKey (ae_HashToken env) GetSessionUser GetAPIKeyUser r (use_all env r ms h)"
| "use_all env r (UseAllowAnonymous # ms) h = AllowAnonymous (use_all env r ms h)"
| "use_all env r (UseRequireScope s # ms) h = RequireScope s (use_all env r ms h)"

definition serve_route ::
  "serve_config \<Rightarrow> auth_env \<Rightarrow> (string \<Rightarrow> string option) \<Rightarrow> (string \<Rightarrow> nat list option) \<Rightarrow> (string \<Rightarrow> (auth_world, 'a) handler)
   \<Rightarrow> route \<Rightarrow> request \<Rightarrow> auth_world \<Rightarrow> 'a response \<times> auth_world" where
  "serve_route cfg env splitHost parseIP handlers rt r =
     (let h = use_all env r (rt_Middlewares rt) (handlers (rt_Handler rt)) in
      if sv_DemoMode cfg then DenyWrites splitHost parseIP [''/api/v1/applog/ingest''] r h background else h background)"

section \<open>The documented modes\<close>

text \<open>What a request needs, by method and pattern: nothing for the public pages, any credential for one's own account, and
  a scope otherwise.\<close>

datatype need = Public | Credential | Scope string

definition public_pages :: "(string \<times> string) list" where
  "public_pages =
     [(''GET'', ''/api/v1/config/features''), (''POST'', ''/api/v1/auth/login''), (''POST'', ''/api/v1/auth/logout''),
      (''GET'', ''/api/v1/auth/oidc/login''), (''GET'', ''/api/v1/auth/oidc/callback''), (''GET'', ''/api/v1/openapi.yml''),
      (''GET'', ''/api/docs''), (''GET'', ''/health'')]"

definition needs :: "string \<Rightarrow> string \<Rightarrow> need" where
  "needs method pattern =
     (if (method, pattern) \<in> set public_pages then Public
      else if prefix ''/api/v1/auth/users'' pattern then Scope ''admin''
      else if prefix ''/api/v1/auth/'' pattern then Credential
      else if pattern = ''/api/v1/applog/ingest'' then Scope ''ingest''
      else if method = ''GET'' then Scope ''read''
      else Scope ''admin'')"

definition guards :: "serve_config \<Rightarrow> need \<Rightarrow> middleware list" where
  "guards cfg n =
     (case n of
        Public \<Rightarrow> []
      | Credential \<Rightarrow> [UseSessionOrAPIKey]
      | Scope s \<Rightarrow> [if s = ''read'' \<and> \<not> sv_AuthReadEndpoints cfg then UseAllowAnonymous else UseSessionOrAPIKey, UseRequireScope s])"

definition not_timeout :: "middleware \<Rightarrow> bool" where
  "not_timeout m = (case m of UseTimeout _ \<Rightarrow> False | _ \<Rightarrow> True)"

definition guarded :: "serve_config \<Rightarrow> string \<Rightarrow> middleware list \<Rightarrow> route list \<Rightarrow> bool" where
  "guarded cfg pre ms rs \<longleftrightarrow>
     list_all (\<lambda>rt. filter not_timeout (ms @ rt_Middlewares rt) = guards cfg (needs (rt_Method rt) (pre @ rt_Pattern rt))) rs"

lemma guarded_simps:
  "guarded cfg pre ms []"
  "guarded cfg pre ms (rt_at m p h # rs) \<longleftrightarrow> filter not_timeout ms = guards cfg (needs m (pre @ p)) \<and> guarded cfg pre ms rs"
  "guarded cfg pre ms (rs @ rs') \<longleftrightarrow> guarded cfg pre ms rs \<and> guarded cfg pre ms rs'"
  "guarded cfg pre ms (group ms' rs) \<longleftrightarrow> guarded cfg pre (ms @ ms') rs"
  "guarded cfg pre ms (subroute p rs) \<longleftrightarrow> guarded cfg (pre @ p) ms rs"
  by (auto simp: guarded_def rt_at_def group_def subroute_def list_all_iff)

lemmas table_eval = guarded_simps not_timeout_def guards_def needs_def public_pages_def

lemma guarded_read:
  "filter not_timeout ms = guards cfg (Scope ''read'') \<Longrightarrow> guarded cfg ''/api/v1'' ms srvlog_routes"
  "filter not_timeout ms = guards cfg (Scope ''read'') \<Longrightarrow> guarded cfg ''/api/v1'' ms (netlog_routes cfg)"
  "filter not_timeout ms = guards cfg (Scope ''read'') \<Longrightarrow> guarded cfg ''/api/v1'' ms applog_routes"
  by (simp_all add: srvlog_routes_def netlog_routes_def applog_routes_def guarded_simps needs_def public_pages_def not_timeout_def)

lemma guarded_table:
  assumes "sv_AuthEnabled cfg"
  shows "guarded cfg [] [] (setupRouter cfg)"
proof -
  have "guarded cfg ''/api/v1'' [] (auth_routes cfg)" using assms by (simp add: auth_routes_def table_eval)
  moreover have "guarded cfg ''/api/v1'' [] (read_routes cfg)"
    using assms guarded_read [of _ cfg] by (simp add: read_routes_def table_eval)
  moreover have "guarded cfg ''/api/v1'' [] (ingest_routes cfg)" using assms by (simp add: ingest_routes_def table_eval)
  moreover have "guarded cfg ''/api/v1'' [] (admin_routes cfg)" using assms by (simp add: admin_routes_def table_eval)
  ultimately show ?thesis by (simp add: setupRouter_def table_eval)
qed

section \<open>Who is served\<close>

definition credential_for :: "auth_env \<Rightarrow> request \<Rightarrow> auth_world \<Rightarrow> need \<Rightarrow> user \<Rightarrow> bool" where
  "credential_for env r w n u \<longleftrightarrow> us_IsActive u \<and>
     ((\<exists>v. rq_Cookie r ''tl_session'' = Some v \<and> live_session w (ae_HashToken env v) u \<and> (n = Scope ''admin'' \<longrightarrow> us_IsAdmin u)) \<or>
      (\<exists>scopes i. prefix ''tl_'' (extractBearer r) \<and> live_key w (ae_HashToken env (extractBearer r)) u scopes i \<and>
         (case n of Scope s \<Rightarrow> s \<in> set scopes \<or> ''admin'' \<in> set scopes | _ \<Rightarrow> True)))"

lemma use_all_guards: "use_all env r ms h = use_all env r (filter not_timeout ms) h"
  by (induction env r ms h rule: use_all.induct) (auto simp: not_timeout_def)

lemma credential_handler_reached:
  assumes run: "SessionOrAPIKey (ae_HashToken env) GetSessionUser GetAPIKeyUser r h background w = (resp, w')"
    and ok: "resp \<noteq> RespError 401 ''unauthorized''"
  shows "\<exists>ctx u w1. h ctx w1 = (resp, w') \<and> ctx_user ctx = Some u \<and> credential_for env r w Credential u"
  using store_lookup.served_only_with_credential [OF run ok]
proof (elim disjE exE conjE)
  fix v u w1
  assume "rq_Cookie r ''tl_session'' = Some v" "live_session w (ae_HashToken env v) u" "us_IsActive u" "h (background\<lparr>ctx_user := Some u\<rparr>) w1 = (resp, w')"
  then show ?thesis by (intro exI [of _ "background\<lparr>ctx_user := Some u\<rparr>"] exI [of _ u] exI [of _ w1]) (auto simp: credential_for_def)
next
  fix u scopes i w1
  let ?ctx = "background\<lparr>ctx_user := Some u, ctx_scopes := Some scopes, ctx_apiKeyID := Some i\<rparr>"
  assume "live_key w (ae_HashToken env (extractBearer r)) u scopes i" "us_IsActive u" "prefix ''tl_'' (extractBearer r)" "h ?ctx w1 = (resp, w')"
  then show ?thesis by (intro exI [of _ ?ctx] exI [of _ u] exI [of _ w1]) (auto simp: credential_for_def)
qed

text \<open>C1: with authentication enabled every route is guarded as documented. Whatever the configuration and whatever the
  database answers, a request to any route of the server that is not refused reached a public page, or a read page
  while read pages are configured to be open, or its handler was called for an active user who presented a live session
  or API key of theirs: any for the pages of one's own account, one with the ingest scope for ingest, one with the read
  scope for reading, and an administrator's session or a key with the admin scope for everything that writes.\<close>

theorem routes_need_the_documented_credential:
  assumes "sv_AuthEnabled cfg" "rt \<in> set (setupRouter cfg)"
    and run: "serve_route cfg env splitHost parseIP handlers rt r w = (resp, w')"
    and ok: "resp \<notin> {RespError 401 ''unauthorized'', RespError 403 ''forbidden'', RespError 403 ''demo_mode''}"
  shows "needs (rt_Method rt) (rt_Pattern rt) = Public \<or>
    needs (rt_Method rt) (rt_Pattern rt) = Scope ''read'' \<and> \<not> sv_AuthReadEndpoints cfg \<or>
    (\<exists>ctx u w1. handlers (rt_Handler rt) ctx w1 = (resp, w') \<and> ctx_user ctx = Some u \<and>
       credential_for env r w (needs (rt_Method rt) (rt_Pattern rt)) u)"
proof -
  let ?n = "needs (rt_Method rt) (rt_Pattern rt)" and ?h = "handlers (rt_Handler rt)"
  have g: "filter not_timeout (rt_Middlewares rt) = guards cfg ?n"
    using guarded_table [OF assms(1)] assms(2) by (auto simp: guarded_def list_all_iff)
  have served: "use_all env r (guards cfg ?n) ?h background w = (resp, w')"
    using run ok use_all_guards [of env r "rt_Middlewares rt" ?h] g
    by (auto simp: serve_route_def DenyWrites_def Let_def split: if_splits)
  show ?thesis
  proof (cases ?n)
    case Credential
    then have "SessionOrAPIKey (ae_HashToken env) GetSessionUser GetAPIKeyUser r ?h background w = (resp, w')"
      using served by (simp add: guards_def)
    then show ?thesis using credential_handler_reached [of env r ?h w resp w'] ok Credential by simp
  next
    case (Scope s)
    show ?thesis
    proof (cases "s = ''read'' \<and> \<not> sv_AuthReadEndpoints cfg")
      case False
      then have "SessionOrAPIKey (ae_HashToken env) GetSessionUser GetAPIKeyUser r (RequireScope s ?h) background w = (resp, w')"
        using served Scope by (auto simp: guards_def)
      then show ?thesis using scoped_handler_reached [of env r s ?h w resp w'] ok Scope by (auto simp: credential_for_def)
    qed (use Scope in simp)
  qed simp
qed

definition ex_serve :: serve_config where
  "ex_serve = \<lparr>sv_AuthEnabled = True, sv_AuthReadEndpoints = True, sv_DemoMode = False, sv_oidc = False, sv_analysis = False, sv_netbox = False\<rparr>"

definition ex_route :: route where
  "ex_route = \<lparr>rt_Method = ''POST'', rt_Pattern = ''/api/v1/mute-rules'',
     rt_Middlewares = [UseSessionOrAPIKey, UseRequireScope ''admin'', UseTimeout (30 * second)], rt_Handler = ''muteRuleHandler.Create''\<rparr>"

lemma ex_route_registered: "ex_route \<in> set (setupRouter ex_serve)"
  by (simp add: ex_route_def ex_serve_def setupRouter_def subroute_def group_def admin_routes_def rt_at_def image_iff)

theorem routes_need_the_documented_credential_witness:
  "\<exists>w1 u. serve_route ex_serve ex_env (\<lambda>_. None) (\<lambda>_. None) (\<lambda>_ c w. (RespData 201 (us_Username (the (ctx_user c))), w)) ex_route ex_request ex_world
      = (RespData 201 ''ann'', w1) \<and> us_Username u = ''ann'' \<and> credential_for ex_env ex_request ex_world (Scope ''admin'') u"
proof -
  obtain w1 where run: "serve_route ex_serve ex_env (\<lambda>_. None) (\<lambda>_. None) (\<lambda>_ c w. (RespData 201 (us_Username (the (ctx_user c))), w)) ex_route ex_request ex_world
      = (RespData 201 ''ann'', w1)"
    by (simp add: serve_route_def ex_serve_def ex_route_def SessionOrAPIKey_def GetSessionUser_def db_GetSession_def run_stmt_def session_lookup_def
        enqueueTouch_def touchBufferSize_def RequireScope_def HasGrant_def ScopeAdmin_def background_def the_user_def user.truncate_def ex_defs)
  have "sv_AuthEnabled ex_serve" by (simp add: ex_serve_def)
  moreover have "needs (rt_Method ex_route) (rt_Pattern ex_route) = Scope ''admin''" by (simp add: ex_route_def needs_def public_pages_def)
  ultimately show ?thesis using routes_need_the_documented_credential [OF _ ex_route_registered run] run by auto
qed

text \<open>With authentication disabled the anonymous user is no administrator, so every route behind the admin scope is
  refused.\<close>

lemma disabled_auth_refuses_admin_routes:
  assumes "\<not> sv_AuthEnabled cfg" "\<not> sv_DemoMode cfg" "rt \<in> set (admin_routes cfg)"
  shows "serve_route cfg env splitHost parseIP handlers rt r w = (RespError 403 ''forbidden'', w)"
proof -
  obtain ms where "rt_Middlewares rt = [UseAllowAnonymous, UseRequireScope ''admin''] @ ms"
    using assms(1,3) by (auto simp: admin_routes_def group_def)
  then show ?thesis using assms(2)
    by (simp add: serve_route_def AllowAnonymous_def RequireScope_def HasGrant_def ScopeAdmin_def zero_user_def background_def)
qed

end
