(* ===== verification/Accounts.thy ===== *)
theory Accounts
  imports Auth Complex_Main "HOL-Library.AList"
begin

text \<open>
  The account handlers of \<^verbatim>\<open>api/internal/handler/auth.go\<close>: login with its per-address limiter, sessions,
  API keys and users. A handler takes the request context, the decoded body (None when decoding
  fails) and the world, and returns the response with the cookies it sets. The lemmas show what a
  session, a key and a deactivation are worth afterwards.
\<close>

section \<open>The login limiter\<close>

definition loginRateBurst :: int where "loginRateBurst = 10"
definition loginRateLimit :: rat where "loginRateLimit = 5 / 60"
definition loginLimiterTTL :: duration where "loginLimiterTTL = 15 * minute"

record 'l ip_limiter_entry =
  il_limiter :: 'l
  il_lastSeen :: instant

type_synonym 'l ip_rate_limiter = "(string \<times> 'l ip_limiter_entry) list"

definition allow_ip ::
  "(rat \<Rightarrow> int \<Rightarrow> 'l) \<Rightarrow> ('l \<Rightarrow> instant \<Rightarrow> bool \<times> 'l) \<Rightarrow> instant \<Rightarrow> string \<Rightarrow> 'l ip_rate_limiter
   \<Rightarrow> bool \<times> 'l ip_rate_limiter" where
  "allow_ip newLimiter limiterAllow now ip rl =
     (let entry = (case map_of rl ip of
                     None \<Rightarrow> \<lparr>il_limiter = newLimiter loginRateLimit loginRateBurst, il_lastSeen = now\<rparr>
                   | Some e \<Rightarrow> e\<lparr>il_lastSeen := now\<rparr>);
          (ok, l) = limiterAllow (il_limiter entry) now in
      (ok, AList.update ip (entry\<lparr>il_limiter := l\<rparr>) rl))"

definition evict_ips :: "instant \<Rightarrow> 'l ip_rate_limiter \<Rightarrow> 'l ip_rate_limiter" where
  "evict_ips now rl = filter (\<lambda>(ip, e). \<not> time_sub now (il_lastSeen e) > loginLimiterTTL) rl"

section \<open>Ids and answers\<close>

definition hex_digit :: "nat \<Rightarrow> char" where
  "hex_digit n = (if n < 10 then char_of (48 + n) else char_of (87 + n))"

definition hex_encode :: "string \<Rightarrow> string" where
  "hex_encode s = concat (map (\<lambda>c. [hex_digit (of_char c div 16), hex_digit (of_char c mod 16)]) s)"

definition from_hex :: "char \<Rightarrow> nat option" where
  "from_hex c =
     (let n = of_char c :: nat in
      if 48 \<le> n \<and> n \<le> 57 then Some (n - 48)
      else if 97 \<le> n \<and> n \<le> 102 then Some (n - 87)
      else if 65 \<le> n \<and> n \<le> 70 then Some (n - 55) else None)"

fun hex_decode :: "string \<Rightarrow> string option" where
  "hex_decode [] = Some []"
| "hex_decode [_] = None"
| "hex_decode (a # b # s) =
     (case (from_hex a, from_hex b, hex_decode s) of
        (Some x, Some y, Some r) \<Rightarrow> Some (char_of (16 * x + y) # r) | _ \<Rightarrow> None)"

definition formatUUID :: "uuid \<Rightarrow> string" where
  "formatUUID b =
     hex_encode (take 4 b) @ ''-'' @ hex_encode (take 2 (drop 4 b)) @ ''-'' @ hex_encode (take 2 (drop 6 b)) @ ''-''
     @ hex_encode (take 2 (drop 8 b)) @ ''-'' @ hex_encode (take 6 (drop 10 b))"

definition parseUUID :: "string \<Rightarrow> uuid option" where
  "parseUUID s =
     (let clean = filter (\<lambda>c. c \<noteq> CHR ''-'') s in
      if length clean \<noteq> 32 then None else hex_decode clean)"

record user_info =
  ui_ID :: string
  ui_Username :: string
  ui_Email :: "string option"
  ui_IsAdmin :: bool
  ui_IsActive :: bool
  ui_AuthSource :: string
  ui_GravatarURL :: string
  ui_Preferences :: string
  ui_CreatedAt :: string
  ui_LastLoginAt :: "string option"

definition gravatarURL :: "auth_env \<Rightarrow> string option \<Rightarrow> string" where
  "gravatarURL env email =
     (let inp = (case email of None \<Rightarrow> [] | Some e \<Rightarrow> to_lower (trim_space e)) in
      ''https://www.gravatar.com/avatar/'' @ hex_encode (ae_md5 env inp) @ ''?d=mp&s=160'')"

definition buildUserInfo :: "auth_env \<Rightarrow> user \<Rightarrow> user_info" where
  "buildUserInfo env u =
     \<lparr>ui_ID = formatUUID (us_ID u), ui_Username = us_Username u, ui_Email = us_Email u, ui_IsAdmin = us_IsAdmin u,
      ui_IsActive = us_IsActive u, ui_AuthSource = us_AuthSource u, ui_GravatarURL = gravatarURL env (us_Email u),
      ui_Preferences = (if us_Preferences u = [] then [CHR 0x7B, CHR 0x7D] else us_Preferences u),
      ui_CreatedAt = ae_rfc3339 env (us_CreatedAt u),
      ui_LastLoginAt = map_option (ae_rfc3339 env) (us_LastLoginAt u)\<rparr>"

section \<open>Sessions\<close>

definition sessionCookieName :: string where "sessionCookieName = ''tl_session''"
definition sessionDuration :: duration where "sessionDuration = 30 * 24 * hour"
definition maxSessionsPerUser :: nat where "maxSessionsPerUser = 10"

record set_cookie =
  sc_Name :: string
  sc_Value :: string
  sc_Path :: string
  sc_HttpOnly :: bool
  sc_Secure :: bool
  sc_Lax :: bool
  sc_MaxAge :: int

record auth_handler =
  ah_ldap :: "authenticator option"
  ah_cookieSecure :: bool

definition isSecureRequest :: "request \<Rightarrow> bool" where
  "isSecureRequest r \<longleftrightarrow> rq_TLS r \<or> rq_Header r ''X-Forwarded-Proto'' = ''https''"

definition establishSession ::
  "auth_env \<Rightarrow> auth_handler \<Rightarrow> request \<Rightarrow> user \<Rightarrow> auth_world \<Rightarrow> (string + set_cookie) \<times> auth_world" where
  "establishSession env h r user w =
     (case GenerateSessionToken env w of
        (Inl err, w1) \<Rightarrow> (Inl (''generate session token: '' @ err), w1)
      | (Inr (rawToken, tokenHash), w1) \<Rightarrow>
          (case db_CreateSession tokenHash (us_ID user) (aw_now w1 + sessionDuration) (rq_ClientIP r) (rq_Header r ''User-Agent'') w1 of
             (Inl err, w2) \<Rightarrow> (Inl (''create session: '' @ store_message err), w2)
           | (Inr _, w2) \<Rightarrow>
               (let w3 = snd (db_PruneUserSessions (us_ID user) maxSessionsPerUser w2);
                    w4 = snd (db_UpdateLastLogin (us_ID user) w3) in
                (Inr \<lparr>sc_Name = sessionCookieName, sc_Value = rawToken, sc_Path = ''/'', sc_HttpOnly = True,
                      sc_Secure = (ah_cookieSecure h \<or> isSecureRequest r), sc_Lax = True,
                      sc_MaxAge = sessionDuration div second\<rparr>, w4))))"

definition clear_cookie :: "auth_handler \<Rightarrow> request \<Rightarrow> set_cookie" where
  "clear_cookie h r = \<lparr>sc_Name = sessionCookieName, sc_Value = [], sc_Path = ''/'', sc_HttpOnly = True,
     sc_Secure = (ah_cookieSecure h \<or> isSecureRequest r), sc_Lax = True, sc_MaxAge = - 1\<rparr>"

definition Login ::
  "auth_env \<Rightarrow> (rat \<Rightarrow> int \<Rightarrow> 'l) \<Rightarrow> ('l \<Rightarrow> instant \<Rightarrow> bool \<times> 'l) \<Rightarrow> auth_handler \<Rightarrow> request
   \<Rightarrow> (string \<times> string) option \<Rightarrow> 'l ip_rate_limiter \<times> auth_world
   \<Rightarrow> (user_info response \<times> set_cookie list) \<times> 'l ip_rate_limiter \<times> auth_world" where
  "Login env newLimiter limiterAllow h r body rw =
     (case rw of (rl, w) \<Rightarrow>
      (case allow_ip newLimiter limiterAllow (aw_now w) (rq_ClientIP r) rl of
         (False, rl1) \<Rightarrow> ((RespError 429 ''rate_limited'', []), rl1, w)
       | (True, rl1) \<Rightarrow>
           (case body of
              None \<Rightarrow> ((RespError 400 ''invalid_request'', []), rl1, w)
            | Some (username, password) \<Rightarrow>
                if username = [] \<or> password = [] then ((RespError 400 ''invalid_request'', []), rl1, w)
                else (case Password env (ah_ldap h) username password w of
                        (Inl (DeniedError reason source), w1) \<Rightarrow> ((RespError 401 ''invalid_credentials'', []), rl1, w1)
                      | (Inl err, w1) \<Rightarrow> ((RespError 500 ''internal_error'', []), rl1, w1)
                      | (Inr user, w1) \<Rightarrow>
                          (case establishSession env h r user w1 of
                             (Inl err, w2) \<Rightarrow> ((RespError 500 ''internal_error'', []), rl1, w2)
                           | (Inr ck, w2) \<Rightarrow> ((RespData 200 (buildUserInfo env user), [ck]), rl1, w2))))))"

definition Logout ::
  "auth_env \<Rightarrow> auth_handler \<Rightarrow> request \<Rightarrow> auth_world \<Rightarrow> (string response \<times> set_cookie list) \<times> auth_world" where
  "Logout env h r w =
     (case rq_Cookie r sessionCookieName of
        None \<Rightarrow> ((RespError 401 ''unauthorized'', []), w)
      | Some v \<Rightarrow> ((RespData 200 ''ok'', [clear_cookie h r]), snd (db_DeleteSession (ae_HashToken env v) w)))"

definition LogoutAll ::
  "auth_handler \<Rightarrow> request \<Rightarrow> req_context \<Rightarrow> auth_world \<Rightarrow> (string response \<times> set_cookie list) \<times> auth_world" where
  "LogoutAll h r ctx w =
     (case ctx_user ctx of
        None \<Rightarrow> ((RespError 401 ''unauthorized'', []), w)
      | Some user \<Rightarrow>
          (case db_DeleteUserSessions (us_ID user) w of
             (Inl err, w1) \<Rightarrow> ((RespError 500 ''internal_error'', []), w1)
           | (Inr _, w1) \<Rightarrow> ((RespData 200 ''ok'', [clear_cookie h r]), w1)))"

text \<open>The admin-only handlers start alike: a user, who is an administrator.\<close>

definition requireAdmin :: "(user \<Rightarrow> auth_world \<Rightarrow> 'a response \<times> auth_world) \<Rightarrow> req_context \<Rightarrow> auth_world \<Rightarrow> 'a response \<times> auth_world" where
  "requireAdmin k ctx w =
     (case ctx_user ctx of
        None \<Rightarrow> (RespError 401 ''unauthorized'', w)
      | Some user \<Rightarrow> if \<not> us_IsAdmin user then (RespError 403 ''forbidden'', w) else k user w)"

definition RevokeUserSessions :: "request \<Rightarrow> req_context \<Rightarrow> auth_world \<Rightarrow> string response \<times> auth_world" where
  "RevokeUserSessions r =
     requireAdmin (\<lambda>user w.
       case parseUUID (rq_id r) of
         None \<Rightarrow> (RespError 400 ''invalid_request'', w)
       | Some i \<Rightarrow>
           (case db_DeleteUserSessions i w of
              (Inl err, w1) \<Rightarrow> (RespError 500 ''internal_error'', w1)
            | (Inr _, w1) \<Rightarrow> (RespData 200 ''ok'', w1)))"

definition Me :: "auth_env \<Rightarrow> req_context \<Rightarrow> auth_world \<Rightarrow> user_info response \<times> auth_world" where
  "Me env ctx w =
     (case ctx_user ctx of
        None \<Rightarrow> (RespError 401 ''unauthorized'', w)
      | Some user \<Rightarrow> (RespData 200 (buildUserInfo env user), w))"

section \<open>API keys\<close>

definition validScopes :: "string list" where "validScopes = [''ingest'', ''read'', ''admin'']"

record create_key_request =
  ck_Name :: string
  ck_Scopes :: "string list"
  ck_ExpiresAt :: "string option"

text \<open>The loop over the requested scopes: the first one that is unknown or not held decides the answer.\<close>

fun check_scopes :: "string list option \<Rightarrow> user \<Rightarrow> string list \<Rightarrow> (int \<times> string) option" where
  "check_scopes callerScopes user [] = None"
| "check_scopes callerScopes user (s # ss) =
     (if s \<notin> set validScopes then Some (400, ''invalid_request'')
      else if \<not> HasGrant callerScopes (Some user) s then Some (403, ''forbidden'')
      else check_scopes callerScopes user ss)"

definition CreateKey ::
  "auth_env \<Rightarrow> create_key_request option \<Rightarrow> req_context \<Rightarrow> auth_world \<Rightarrow> (string \<times> api_key) response \<times> auth_world" where
  "CreateKey env body ctx w =
     (case ctx_user ctx of
        None \<Rightarrow> (RespError 401 ''unauthorized'', w)
      | Some user \<Rightarrow>
          (case body of
             None \<Rightarrow> (RespError 400 ''invalid_request'', w)
           | Some req \<Rightarrow>
               if ck_Name req = [] then (RespError 400 ''invalid_request'', w)
               else if length (ck_Name req) > 255 then (RespError 400 ''invalid_request'', w)
               else if ck_Scopes req = [] then (RespError 400 ''invalid_request'', w)
               else (case check_scopes (ctx_scopes ctx) user (ck_Scopes req) of
                       Some (status, code) \<Rightarrow> (RespError status code, w)
                     | None \<Rightarrow>
                         (let create = (\<lambda>expiresAt.
                            case GenerateAPIKey env w of
                              (Inl err, w1) \<Rightarrow> (RespError 500 ''internal_error'', w1)
                            | (Inr (fullKey, hash, keyPrefix), w1) \<Rightarrow>
                                (case db_CreateAPIKey (us_ID user) (ck_Name req) hash keyPrefix (ck_Scopes req) expiresAt w1 of
                                   (Inl err, w2) \<Rightarrow> (RespError 500 ''internal_error'', w2)
                                 | (Inr key, w2) \<Rightarrow> (RespData 201 (fullKey, key\<lparr>ak_Owner := us_Username user\<rparr>), w2))) in
                          case ck_ExpiresAt req of
                            None \<Rightarrow> create None
                          | Some s \<Rightarrow>
                              (case ae_parse_rfc3339 env s of
                                 None \<Rightarrow> (RespError 400 ''invalid_request'', w)
                               | Some t \<Rightarrow> create (Some t))))))"

definition ListKeys :: "req_context \<Rightarrow> auth_world \<Rightarrow> api_key list response \<times> auth_world" where
  "ListKeys ctx w =
     (case ctx_user ctx of
        None \<Rightarrow> (RespError 401 ''unauthorized'', w)
      | Some user \<Rightarrow>
          (case db_ListAllAPIKeys w of
             (Inl err, w1) \<Rightarrow> (RespError 500 ''internal_error'', w1)
           | (Inr keys, w1) \<Rightarrow> (RespData 200 keys, w1)))"

definition RevokeKey :: "request \<Rightarrow> req_context \<Rightarrow> auth_world \<Rightarrow> string response \<times> auth_world" where
  "RevokeKey r ctx w =
     (case ctx_user ctx of
        None \<Rightarrow> (RespError 401 ''unauthorized'', w)
      | Some user \<Rightarrow>
          (case parseUUID (rq_id r) of
             None \<Rightarrow> (RespError 400 ''invalid_request'', w)
           | Some i \<Rightarrow>
               (case db_GetAPIKeyByID i w of
                  (Inl err, w1) \<Rightarrow> (RespError 404 ''not_found'', w1)
                | (Inr key, w1) \<Rightarrow>
                    if ak_UserID key \<noteq> us_ID user \<and> \<not> us_IsAdmin user then (RespError 403 ''forbidden'', w1)
                    else (case db_RevokeAPIKey i w1 of
                            (Inl err, w2) \<Rightarrow> (RespError 500 ''internal_error'', w2)
                          | (Inr _, w2) \<Rightarrow> (RespData 200 ''ok'', w2)))))"

section \<open>Users\<close>

definition ListUsers ::
  "auth_env \<Rightarrow> (user list \<Rightarrow> user list) \<Rightarrow> req_context \<Rightarrow> auth_world \<Rightarrow> user_info list response \<times> auth_world" where
  "ListUsers env byUsername =
     requireAdmin (\<lambda>user w.
       case db_ListUsers byUsername w of
         (Inl err, w1) \<Rightarrow> (RespError 500 ''internal_error'', w1)
       | (Inr users, w1) \<Rightarrow> (RespData 200 (map (buildUserInfo env) users), w1))"

record create_user_request =
  cu_Username :: string
  cu_Password :: string
  cu_IsAdmin :: bool

text \<open>The rules on a new password.\<close>

definition password_ok :: "string \<Rightarrow> bool" where
  "password_ok p \<longleftrightarrow> \<not> length p < 8 \<and> \<not> length p > 72"

definition CreateUser ::
  "auth_env \<Rightarrow> create_user_request option \<Rightarrow> req_context \<Rightarrow> auth_world \<Rightarrow> user_info response \<times> auth_world" where
  "CreateUser env body =
     requireAdmin (\<lambda>user w.
       case body of
         None \<Rightarrow> (RespError 400 ''invalid_request'', w)
       | Some req \<Rightarrow>
           if cu_Username req = [] \<or> length (cu_Username req) > 255 then (RespError 400 ''invalid_request'', w)
           else if \<not> password_ok (cu_Password req) then (RespError 400 ''invalid_request'', w)
           else (case ae_HashPassword env (cu_Password req) of
                   None \<Rightarrow> (RespError 500 ''internal_error'', w)
                 | Some hash \<Rightarrow>
                     (case db_CreateUser env (cu_Username req) hash (cu_IsAdmin req) w of
                        (Inl err, w1) \<Rightarrow>
                          if sublist ''duplicate key'' (store_message err) \<or> sublist ''unique constraint'' (store_message err)
                          then (RespError 409 ''conflict'', w1)
                          else (RespError 500 ''internal_error'', w1)
                      | (Inr created, w1) \<Rightarrow> (RespData 201 (buildUserInfo env created), w1))))"

definition SetUserActive :: "request \<Rightarrow> bool option \<Rightarrow> req_context \<Rightarrow> auth_world \<Rightarrow> string response \<times> auth_world" where
  "SetUserActive r body =
     requireAdmin (\<lambda>user w.
       case parseUUID (rq_id r) of
         None \<Rightarrow> (RespError 400 ''invalid_request'', w)
       | Some i \<Rightarrow>
           (case body of
              None \<Rightarrow> (RespError 400 ''invalid_request'', w)
            | Some isActive \<Rightarrow>
                (case db_SetUserActive i isActive w of
                   (Inl err, w1) \<Rightarrow> (RespError 500 ''internal_error'', w1)
                 | (Inr _, w1) \<Rightarrow>
                     (RespData 200 ''ok'', if \<not> isActive then snd (db_DeleteUserSessions i w1) else w1))))"

record update_password_request =
  up_Password :: string
  up_CurrentPassword :: string

text \<open>The tail of the handler, from the rules on the new password on.\<close>

definition set_password ::
  "auth_env \<Rightarrow> uuid \<Rightarrow> string \<Rightarrow> auth_world \<Rightarrow> string response \<times> auth_world" where
  "set_password env i password w =
     (if \<not> password_ok password then (RespError 400 ''invalid_request'', w)
      else (case ae_HashPassword env password of
              None \<Rightarrow> (RespError 500 ''internal_error'', w)
            | Some hash \<Rightarrow>
                (case db_UpdatePassword i hash w of
                   (Inl err, w1) \<Rightarrow> (RespError 500 ''internal_error'', w1)
                 | (Inr _, w1) \<Rightarrow> (RespData 200 ''ok'', snd (db_DeleteUserSessions i w1)))))"

definition UpdateUserPassword ::
  "auth_env \<Rightarrow> request \<Rightarrow> update_password_request option \<Rightarrow> req_context \<Rightarrow> auth_world \<Rightarrow> string response \<times> auth_world" where
  "UpdateUserPassword env r body ctx w =
     (case ctx_user ctx of
        None \<Rightarrow> (RespError 401 ''unauthorized'', w)
      | Some user \<Rightarrow>
          (case parseUUID (rq_id r) of
             None \<Rightarrow> (RespError 400 ''invalid_request'', w)
           | Some i \<Rightarrow>
               (let isSelf = (i = us_ID user);
                    decode = (\<lambda>w1. case body of
                        None \<Rightarrow> (RespError 400 ''invalid_request'', w1)
                      | Some req \<Rightarrow>
                          if isSelf \<and> up_CurrentPassword req = [] then (RespError 400 ''invalid_request'', w1)
                          else if isSelf \<and> \<not> ae_CheckPassword env (up_CurrentPassword req) (us_PasswordHash user)
                          then (RespError 403 ''forbidden'', w1)
                          else set_password env i (up_Password req) w1) in
                if \<not> isSelf \<and> \<not> us_IsAdmin user then (RespError 403 ''forbidden'', w)
                else if isSelf \<and> IsExternalSource (us_AuthSource user) then (RespError 403 ''forbidden'', w)
                else if \<not> isSelf
                then (case db_GetUserByID i w of
                        (Inr target, w1) \<Rightarrow>
                          if IsExternalSource (us_AuthSource target) then (RespError 403 ''forbidden'', w1) else decode w1
                      | (Inl err, w1) \<Rightarrow> decode w1)
                else decode w)))"

text \<open>Store a change to the caller's own account and answer with the account as it is then.\<close>

definition refetch ::
  "auth_env \<Rightarrow> user \<Rightarrow> (store_error + unit) \<times> auth_world \<Rightarrow> user_info response \<times> auth_world" where
  "refetch env user res =
     (case res of
        (Inl err, w1) \<Rightarrow> (RespError 500 ''internal_error'', w1)
      | (Inr _, w1) \<Rightarrow>
          (case db_GetUserByID (us_ID user) w1 of
             (Inl err, w2) \<Rightarrow> (RespError 500 ''internal_error'', w2)
           | (Inr updated, w2) \<Rightarrow> (RespData 200 (buildUserInfo env updated), w2)))"

definition handler_UpdateEmail ::
  "auth_env \<Rightarrow> string option \<Rightarrow> req_context \<Rightarrow> auth_world \<Rightarrow> user_info response \<times> auth_world" where
  "handler_UpdateEmail env body ctx w =
     (case ctx_user ctx of
        None \<Rightarrow> (RespError 401 ''unauthorized'', w)
      | Some user \<Rightarrow>
          (case body of
             None \<Rightarrow> (RespError 400 ''invalid_request'', w)
           | Some email \<Rightarrow>
               if email = [] then (RespError 400 ''invalid_request'', w)
               else refetch env user (db_UpdateEmail (us_ID user) email w)))"

definition handler_UpdatePreferences ::
  "auth_env \<Rightarrow> (string \<Rightarrow> bool) \<Rightarrow> string option \<Rightarrow> req_context \<Rightarrow> auth_world \<Rightarrow> user_info response \<times> auth_world" where
  "handler_UpdatePreferences env json_Valid body ctx w =
     (case ctx_user ctx of
        None \<Rightarrow> (RespError 401 ''unauthorized'', w)
      | Some user \<Rightarrow>
          (case body of
             None \<Rightarrow> (RespError 400 ''invalid_request'', w)
           | Some prefs \<Rightarrow>
               if \<not> json_Valid prefs then (RespError 400 ''invalid_request'', w)
               else refetch env user (db_UpdatePreferences (us_ID user) prefs w)))"

section \<open>Ids round trip\<close>

lemma from_hex_digit: "n < 16 \<Longrightarrow> from_hex (hex_digit n) = Some n"
  by (auto simp: from_hex_def hex_digit_def Let_def)

lemma hex_digit_not_dash: "n < 16 \<Longrightarrow> hex_digit n \<noteq> CHR ''-''"
  using from_hex_digit [of n] by (auto simp: from_hex_def Let_def)

lemma hex_decode_encode: "hex_decode (hex_encode s) = Some s"
proof (induction s)
  case (Cons c s)
  have "of_char c div 16 < (16 :: nat)" using of_char_lt [of c] by linarith
  then show ?case using Cons by (simp add: hex_encode_def from_hex_digit mult.commute div_mult_mod_eq)
qed (simp add: hex_encode_def)

lemma length_hex_encode: "length (hex_encode s) = 2 * length s"
  by (induction s) (simp_all add: hex_encode_def)

lemma hex_encode_no_dash: "filter (\<lambda>c. c \<noteq> CHR ''-'') (hex_encode s) = hex_encode s"
proof (induction s)
  case (Cons c s)
  have "of_char c div 16 < (16 :: nat)" using of_char_lt [of c] by linarith
  then show ?case using Cons by (simp add: hex_encode_def hex_digit_not_dash)
qed (simp add: hex_encode_def)

lemma hex_encode_append: "hex_encode (s @ t) = hex_encode s @ hex_encode t"
  by (simp add: hex_encode_def)

lemma uuid_parts:
  assumes "length b = 16"
  shows "take 4 b @ take 2 (drop 4 b) @ take 2 (drop 6 b) @ take 2 (drop 8 b) @ take 6 (drop 10 b) = b"
proof -
  have "take 6 (drop 10 b) = drop 10 b" using assms by simp
  moreover have "take 2 (drop n b) @ drop (n + 2) b = drop n b" for n
    by (metis append_take_drop_id drop_drop add.commute)
  from this [of 8] this [of 6] this [of 4]
  have "take 2 (drop 8 b) @ drop 10 b = drop 8 b" "take 2 (drop 6 b) @ drop 8 b = drop 6 b" "take 2 (drop 4 b) @ drop 6 b = drop 4 b"
    by simp_all
  ultimately show ?thesis by simp
qed

text \<open>The id in an answer names its row in later requests: printing a 16-byte id and parsing the
  text gives the id back, with or without its hyphens.\<close>

lemma uuid_round_trip:
  assumes "length b = 16"
  shows "parseUUID (formatUUID b) = Some b \<and> parseUUID (hex_encode b) = Some b"
proof -
  have "filter (\<lambda>c. c \<noteq> CHR ''-'') (formatUUID b) = hex_encode b"
    using uuid_parts [OF assms] by (simp add: formatUUID_def hex_encode_no_dash flip: hex_encode_append)
  then show ?thesis using assms by (simp add: parseUUID_def Let_def hex_encode_no_dash hex_decode_encode length_hex_encode)
qed


section \<open>A key is worth no more than its creator\<close>

lemma check_scopes_None:
  "check_scopes cs user ss = None \<longleftrightarrow> (\<forall>s \<in> set ss. s \<in> set validScopes \<and> HasGrant cs (Some user) s)"
  by (induction ss) auto

lemma admin_holds_everything: "HasGrant cs (Some user) ''admin'' \<Longrightarrow> HasGrant cs (Some user) s"
  by (auto simp: HasGrant_def ScopeAdmin_def hasScope_iff split: option.splits)

lemma GenerateAPIKey_frame:
  assumes "GenerateAPIKey env w = (Inr (full, hash, pre), w1)"
  shows "aw_store w1 = aw_store w \<and> hash = ae_HashToken env full \<and> prefix ''tl_'' full \<and> aw_now w1 = aw_now w"
proof -
  have "aw_store (snd (draw_chars n w)) = aw_store w \<and> aw_now (snd (draw_chars n w)) = aw_now w" for n
  proof (induction n arbitrary: w)
    case (Suc n)
    show ?case using Suc.IH [of "w\<lparr>aw_draws := aw_draws w + 1\<rparr>"] by (auto simp: Let_def split: option.split prod.split)
  qed simp
  from this [of apiKeyLen] show ?thesis
    using assms by (auto simp: GenerateAPIKey_def apiKeyPrefix_def Let_def split: prod.splits option.splits)
qed

text \<open>C9: no privilege escalation through keys. A request that creates an API key ends with a new
  row of the caller's own, found by the digest of the key it returned, and every scope the key carries
  or implies is one the caller was granted itself.\<close>

theorem created_key_has_no_more_authority_than_its_creator:
  assumes "CreateKey env body ctx w = (RespData status (fullKey, key), w')"
  shows "\<exists>u. ctx_user ctx = Some u \<and> ak_UserID key = us_ID u \<and> prefix ''tl_'' fullKey \<and>
    as_keys (aw_store w') = as_keys (aw_store w) @ [key\<lparr>ak_Owner := []\<rparr>] \<and> ak_KeyHash key = ae_HashToken env fullKey \<and>
    (\<forall>s. HasGrant (Some (ak_Scopes key)) (Some u) s \<longrightarrow> HasGrant (ctx_scopes ctx) (Some u) s)"
proof -
  obtain u req where u: "ctx_user ctx = Some u" and req: "body = Some req"
    and scopes: "check_scopes (ctx_scopes ctx) u (ck_Scopes req) = None"
    using assms by (auto simp: CreateKey_def split: option.splits if_splits)
  obtain exp hash pre w1 key0 where gen: "GenerateAPIKey env w = (Inr (fullKey, hash, pre), w1)"
    and db: "db_CreateAPIKey (us_ID u) (ck_Name req) hash pre (ck_Scopes req) exp w1 = (Inr key0, w')"
    and key: "key = key0\<lparr>ak_Owner := us_Username u\<rparr>"
    using assms u req scopes by (auto simp: CreateKey_def Let_def split: option.splits if_splits prod.splits sum.splits)
  have "as_keys (aw_store w') = as_keys (aw_store w1) @ [key0]" "ak_Owner key0 = []" "ak_UserID key0 = us_ID u"
    "ak_KeyHash key0 = hash" "ak_Scopes key0 = ck_Scopes req"
    using db by (auto simp: db_CreateAPIKey_def run_stmt_def Let_def split: option.splits prod.splits sum.splits store_error.splits if_splits)
  moreover have "HasGrant (ctx_scopes ctx) (Some u) s" if "HasGrant (Some (ck_Scopes req)) (Some u) s" for s
    using that scopes admin_holds_everything [of "ctx_scopes ctx" u s] by (auto simp: check_scopes_None HasGrant_def [of "Some _"] hasScope_iff)
  moreover have "key0\<lparr>ak_Owner := []\<rparr> = key0" using calculation(2) by (cases key0) simp
  ultimately show ?thesis using GenerateAPIKey_frame [OF gen] u key by simp
qed

lemma draw_chars_length: "draw_chars n w = (Some cs, w') \<Longrightarrow> length cs = n"
  by (induction n arbitrary: w cs) (auto simp: Let_def split: option.splits prod.splits)

lemma ex_draw: "\<exists>cs. draw_chars n ex_world = (Some cs, ex_world\<lparr>aw_draws := n\<rparr>)"
proof -
  have "\<exists>cs. draw_chars n (ex_world\<lparr>aw_draws := k\<rparr>) = (Some cs, ex_world\<lparr>aw_draws := k + n\<rparr>)" for k
  proof (induction n arbitrary: k)
    case (Suc n)
    obtain cs where "draw_chars n (ex_world\<lparr>aw_draws := Suc k\<rparr>) = (Some cs, ex_world\<lparr>aw_draws := Suc k + n\<rparr>)"
      using Suc.IH by blast
    then show ?case by (simp add: Let_def ex_world_def)
  qed simp
  from this [of 0] show ?thesis by (simp add: ex_world_def)
qed

lemma ex_create_key:
  "\<exists>fullKey key w'. CreateKey ex_env (Some \<lparr>ck_Name = ''ci'', ck_Scopes = [''admin''], ck_ExpiresAt = None\<rparr>)
     (background\<lparr>ctx_user := Some (the_user ex_user)\<rparr>) ex_world = (RespData 201 (fullKey, key), w') \<and> ak_Scopes key = [''admin'']"
proof -
  obtain cs where cs: "draw_chars apiKeyLen ex_world = (Some cs, ex_world\<lparr>aw_draws := apiKeyLen\<rparr>)" using ex_draw by blast
  have name: "name_ok ''ci''" by (simp add: name_ok_def ascii_eval)
  have fresh: "apiKeyPrefix @ cs \<noteq> ''tl_k''"
  proof
    assume "apiKeyPrefix @ cs = ''tl_k''"
    then have "cs = ''k''" by (simp add: apiKeyPrefix_def)
    then show False using draw_chars_length [OF cs] by (simp add: apiKeyLen_def)
  qed
  have gen: "GenerateAPIKey ex_env ex_world
      = (Inr (apiKeyPrefix @ cs, apiKeyPrefix @ cs, take displayPrefixLen (apiKeyPrefix @ cs)), ex_world\<lparr>aw_draws := apiKeyLen\<rparr>)"
    unfolding GenerateAPIKey_def cs by (simp add: Let_def ex_env_def)
  have "HasGrant None (Some (the_user ex_user)) ''admin''" by (simp add: HasGrant_def ScopeAdmin_def ex_user_def)
  moreover have "\<exists>key w'. db_CreateAPIKey (us_ID ex_user) ''ci'' (apiKeyPrefix @ cs) pre [''admin''] None (ex_world\<lparr>aw_draws := apiKeyLen\<rparr>) = (Inr key, w')
      \<and> ak_Scopes key = [''admin'']" for pre
    using name fresh by (simp add: db_CreateAPIKey_def run_stmt_def id_taken_def Let_def ex_defs)
  then obtain key w' where "db_CreateAPIKey (us_ID ex_user) ''ci'' (apiKeyPrefix @ cs) (take displayPrefixLen (apiKeyPrefix @ cs)) [''admin''] None
      (ex_world\<lparr>aw_draws := apiKeyLen\<rparr>) = (Inr key, w')" "ak_Scopes key = [''admin'']" by blast
  ultimately show ?thesis
    by (simp add: CreateKey_def gen validScopes_def background_def Let_def)
qed

theorem created_key_has_no_more_authority_than_its_creator_witness:
  "\<exists>fullKey key w'. CreateKey ex_env (Some \<lparr>ck_Name = ''ci'', ck_Scopes = [''admin''], ck_ExpiresAt = None\<rparr>)
     (background\<lparr>ctx_user := Some (the_user ex_user)\<rparr>) ex_world = (RespData 201 (fullKey, key), w') \<and>
     HasGrant (Some (ak_Scopes key)) (Some (the_user ex_user)) ''admin'' \<and> HasGrant None (Some (the_user ex_user)) ''admin''"
proof -
  obtain fullKey key w' where c: "CreateKey ex_env (Some \<lparr>ck_Name = ''ci'', ck_Scopes = [''admin''], ck_ExpiresAt = None\<rparr>)
     (background\<lparr>ctx_user := Some (the_user ex_user)\<rparr>) ex_world = (RespData 201 (fullKey, key), w')" "ak_Scopes key = [''admin'']"
    using ex_create_key by blast
  have "HasGrant (Some (ak_Scopes key)) (Some (the_user ex_user)) ''admin''" by (simp add: HasGrant_def c(2))
  then show ?thesis
    using created_key_has_no_more_authority_than_its_creator [OF c(1)] c(1) by (auto simp: background_def)
qed

section \<open>Locking an account\<close>

lemma db_DeleteUserSessions_users:
  "as_users (aw_store (snd (db_DeleteUserSessions i w))) = as_users (aw_store w)"
  by (simp add: db_DeleteUserSessions_def run_stmt_store Let_def)

text \<open>C15: a deactivated account is locked out at once. After an administrator's request to deactivate
  it is answered, no session token and no API key stands for the account, whether or not deleting its
  sessions succeeded; only an administrator gets that far.\<close>

theorem deactivated_account_is_locked_out:
  assumes "SetUserActive r (Some False) ctx w = (RespData status msg, w')"
  shows "\<exists>u i. ctx_user ctx = Some u \<and> us_IsAdmin u \<and> parseUUID (rq_id r) = Some i \<and>
    (\<forall>h v. live_session w' h v \<longrightarrow> us_ID v \<noteq> i) \<and> (\<forall>h v scopes k. live_key w' h v scopes k \<longrightarrow> us_ID v \<noteq> i)"
proof -
  obtain u i w1 where u: "ctx_user ctx = Some u" "us_IsAdmin u" "parseUUID (rq_id r) = Some i"
    and db: "db_SetUserActive i False w = (Inr (), w1)" and w': "w' = snd (db_DeleteUserSessions i w1)"
    using assms unfolding SetUserActive_def requireAdmin_def
    by (cases "ctx_user ctx"; cases "parseUUID (rq_id r)") (auto split: if_splits prod.splits sum.splits)
  have "\<not> us_IsActive row" if row: "row \<in> set (as_users (aw_store w'))" "us_ID row = i" for row
  proof -
    have "as_users (aw_store w1) = map (upd (\<lambda>u. us_ID u = i) (\<lambda>u. u\<lparr>us_IsActive := False, us_UpdatedAt := aw_now w\<rparr>)) (as_users (aw_store w))"
      using run_stmt_Inr [OF db [unfolded db_SetUserActive_def]] by (auto simp: update_users_def)
    then obtain old where "row = upd (\<lambda>u. us_ID u = i) (\<lambda>u. u\<lparr>us_IsActive := False, us_UpdatedAt := aw_now w\<rparr>) old"
      using row(1) unfolding w' db_DeleteUserSessions_users by auto
    then show ?thesis using row(2) by (cases "us_ID old = i") (simp_all add: upd_def)
  qed
  then have "\<forall>h v. live_session w' h v \<longrightarrow> us_ID v \<noteq> i" "\<forall>h v scopes k. live_key w' h v scopes k \<longrightarrow> us_ID v \<noteq> i"
    by (auto simp: live_session_def live_key_def)
  then show ?thesis using u by blast
qed

theorem deactivated_account_is_locked_out_witness:
  "live_session ex_world ''tok'' (the_user ex_user) \<and>
   (\<exists>w'. SetUserActive (ex_request\<lparr>rq_id := formatUUID (us_ID ex_user)\<rparr>) (Some False) (background\<lparr>ctx_user := Some (the_user ex_user)\<rparr>) ex_world
       = (RespData 200 ''ok'', w') \<and> (\<nexists>v. live_session w' ''tok'' v \<and> us_ID v = us_ID ex_user))"
proof -
  let ?r = "ex_request\<lparr>rq_id := formatUUID (us_ID ex_user)\<rparr>"
  let ?ctx = "background\<lparr>ctx_user := Some (the_user ex_user)\<rparr>"
  have i: "parseUUID (formatUUID (us_ID ex_user)) = Some (us_ID ex_user)"
    by (simp add: formatUUID_def parseUUID_def hex_encode_no_dash hex_decode_encode length_hex_encode ex_user_def
        flip: hex_encode_append)
  then obtain w' where w': "SetUserActive ?r (Some False) ?ctx ex_world = (RespData 200 ''ok'', w')"
    by (simp add: SetUserActive_def requireAdmin_def background_def db_SetUserActive_def run_stmt_def ex_defs)
  show ?thesis using deactivated_account_is_locked_out [OF w'] w' i ex_live(1) by auto
qed

section \<open>What a login gives\<close>

lemma Password_user:
  assumes "Password env ldap username password w = (Inr user, w1)"
  shows "\<exists>row \<in> set (as_users (aw_store w1)). the_user row = user"
    and "as_sessions (aw_store w1) = as_sessions (aw_store w) \<and> aw_fail w1 = aw_fail w \<and> aw_now w1 = aw_now w"
proof -
  obtain res w0 where d: "directory env ldap username password w = (res, w0)" by fastforce
  consider (dir) "res = Inr (Some user)" "w1 = w0"
    | (loc) "res = Inr None" "local_login env username password w0 = (Inr user, w1)"
    using assms d by (auto simp: Password_def Let_def split: sum.splits option.splits prod.splits if_splits)
  then have "(\<exists>row \<in> set (as_users (aw_store w1)). the_user row = user) \<and>
      as_sessions (aw_store w1) = as_sessions (aw_store w) \<and> aw_fail w1 = aw_fail w \<and> aw_now w1 = aw_now w"
  proof cases
    case dir
    have "\<exists>res' :: ldap_result. db_UpsertLDAPUser env (lr_Username res') (lr_Email res') (lr_IsAdmin res') w = (Inr user, w1)"
      using d dir by (auto simp: directory_def split: option.splits sum.splits ldap_error.splits prod.splits)
    then obtain res' :: ldap_result where "db_UpsertLDAPUser env (lr_Username res') (lr_Email res') (lr_IsAdmin res') w = (Inr user, w1)" ..
    from run_stmt_Inr [OF this [unfolded db_UpsertLDAPUser_def]] show ?thesis
      by (fastforce simp: Let_def update_users_def upd_def dest!: find_SomeD split: option.splits if_splits)
  next
    case loc
    have w0: "w0 = w" using d loc(1) by (auto simp: directory_def split: option.splits sum.splits ldap_error.splits prod.splits)
    obtain "db_GetUserByUsername env username w = (Inr user, w1)"
      using loc(2) w0 by (auto simp: local_login_def split: prod.splits sum.splits store_error.splits if_splits)
    from run_stmt_Inr [OF this [unfolded db_GetUserByUsername_def]] show ?thesis
      by (auto dest!: find_SomeD split: option.splits)
  qed
  then show "\<exists>row \<in> set (as_users (aw_store w1)). the_user row = user"
    and "as_sessions (aw_store w1) = as_sessions (aw_store w) \<and> aw_fail w1 = aw_fail w \<and> aw_now w1 = aw_now w" by blast+
qed

lemma db_PruneUserSessions_caps:
  assumes "aw_fail w (aw_calls w) = None" and inv: "distinct (map ses_TokenHash (as_sessions (aw_store w)))"
  shows "length (filter (\<lambda>s. ses_UserID s = i) (as_sessions (aw_store (snd (db_PruneUserSessions i keep w))))) \<le> keep"
proof -
  let ?ss = "filter (\<lambda>s. ses_UserID s = i \<and> ses_TokenHash s \<in> set (newest_sessions i keep (aw_store w))) (as_sessions (aw_store w))"
  have "length ?ss = card (ses_TokenHash ` set ?ss)"
    using distinct_card [OF distinct_map_filter [OF inv]] by (simp only: length_map set_map)
  also have "\<dots> \<le> card (set (newest_sessions i keep (aw_store w)))" by (rule card_mono) auto
  also have "\<dots> \<le> keep" using card_length [of "newest_sessions i keep (aw_store w)"] by (simp add: newest_sessions_def)
  finally have cap: "length ?ss \<le> keep" .
  have twice: "filter (\<lambda>s. ses_UserID s = i) (filter (\<lambda>s. \<not> (ses_UserID s = i \<and> ses_TokenHash s \<notin> A)) ss)
      = filter (\<lambda>s. ses_UserID s = i \<and> ses_TokenHash s \<in> A) ss" for A ss
    by (induction ss) auto
  have "as_sessions (aw_store (snd (db_PruneUserSessions i keep w)))
      = filter (\<lambda>s. \<not> (ses_UserID s = i \<and> ses_TokenHash s \<notin> set (newest_sessions i keep (aw_store w)))) (as_sessions (aw_store w))"
    unfolding db_PruneUserSessions_def run_stmt_store assms(1) Let_def by simp
  then show ?thesis using cap by (simp only: twice)
qed

lemma newest_session_is_kept:
  assumes s: "s \<in> set (as_sessions st)" "ses_UserID s = i" "0 < keep"
    and newest: "\<And>x. x \<in> set (as_sessions st) \<Longrightarrow> x \<noteq> s \<Longrightarrow> ses_CreatedAt x < ses_CreatedAt s"
  shows "ses_TokenHash s \<in> set (newest_sessions i keep st)"
proof -
  let ?l = "sort_key (\<lambda>s. - ses_CreatedAt s) (filter (\<lambda>s. ses_UserID s = i) (as_sessions st))"
  have "s \<in> set ?l" using s by simp
  then obtain x l where l: "?l = x # l" by (cases ?l) auto
  have "x = s"
  proof (rule ccontr)
    assume "x \<noteq> s"
    moreover have "x \<in> set ?l" unfolding l by simp
    ultimately have "ses_CreatedAt x < ses_CreatedAt s" using newest [of x] by simp
    moreover have "sorted (map (\<lambda>s. - ses_CreatedAt s) (x # l))" using sorted_sort_key l by metis
    moreover have "s \<in> set l" using \<open>s \<in> set ?l\<close> \<open>x \<noteq> s\<close> unfolding l by simp
    ultimately show False by fastforce
  qed
  then show ?thesis using l s(3) by (cases keep) (simp_all add: newest_sessions_def)
qed

lemma establishSession_opens:
  assumes inv: "store_inv env (aw_store w)" and up: "\<And>n. aw_fail w n = None"
    and old: "\<And>s. s \<in> set (as_sessions (aw_store w)) \<Longrightarrow> ses_CreatedAt s < aw_now w"
    and row: "row \<in> set (as_users (aw_store w))" "the_user row = user" "us_IsActive row"
    and run: "establishSession env h r user w = (Inr ck, w')"
  shows "sc_HttpOnly ck \<and> (\<exists>u. us_ID u = us_ID user \<and> live_session w' (ae_HashToken env (sc_Value ck)) u) \<and>
    length (filter (\<lambda>s. ses_UserID s = us_ID user) (as_sessions (aw_store w'))) \<le> maxSessionsPerUser"
proof -
  obtain raw w1 w2 where gen: "GenerateSessionToken env w = (Inr (raw, ae_HashToken env raw), w1)"
    and w1: "aw_store w1 = aw_store w" "aw_now w1 = aw_now w" "aw_fail w1 = aw_fail w"
    and cs: "db_CreateSession (ae_HashToken env raw) (us_ID user) (aw_now w1 + sessionDuration) (rq_ClientIP r) (rq_Header r ''User-Agent'') w1 = (Inr (), w2)"
    and w': "w' = snd (db_UpdateLastLogin (us_ID user) (snd (db_PruneUserSessions (us_ID user) maxSessionsPerUser w2)))"
    and ck: "sc_Value ck = raw" "sc_HttpOnly ck"
    using run by (auto simp: establishSession_def GenerateSessionToken_def Let_def split: prod.splits sum.splits option.splits)
  let ?w3 = "snd (db_PruneUserSessions (us_ID user) maxSessionsPerUser w2)"
  obtain s where s: "as_sessions (aw_store w2) = as_sessions (aw_store w) @ [s]" "ses_TokenHash s = ae_HashToken env raw"
      "ses_UserID s = us_ID user" "ses_CreatedAt s = aw_now w" "ses_ExpiresAt s = aw_now w + sessionDuration"
    and w2: "as_users (aw_store w2) = as_users (aw_store w)" "aw_now w2 = aw_now w" "aw_fail w2 = aw_fail w"
    using run_stmt_Inr [OF cs [unfolded db_CreateSession_def]] w1 by (auto simp: Let_def split: if_splits)
  have inv2: "store_inv env (aw_store w2)" using db_sessions_inv(1) [of env w1] inv w1(1) cs by (metis snd_conv)
  have up2: "aw_fail w2 (aw_calls w2) = None" using up w2(3) by simp
  have kept: "ses_TokenHash s \<in> set (newest_sessions (us_ID user) maxSessionsPerUser (aw_store w2))"
    using old s by (intro newest_session_is_kept) (auto simp: maxSessionsPerUser_def)
  have w3: "s \<in> set (as_sessions (aw_store ?w3))" "as_users (aw_store ?w3) = as_users (aw_store w)" "aw_now ?w3 = aw_now w"
    using kept s(1) w2 up2 by (auto simp: db_PruneUserSessions_def run_stmt_store Let_def)
  have last: "as_sessions (aw_store w') = as_sessions (aw_store ?w3)" "aw_now w' = aw_now w"
    using w3(3) by (simp_all add: w' db_UpdateLastLogin_def run_stmt_store update_users_def)
  define row' where "row' = upd (\<lambda>u. us_ID u = us_ID user) (us_LastLoginAt_update (\<lambda>_. Some (aw_now ?w3))) row"
  have "aw_fail ?w3 (aw_calls ?w3) = None" using up w2(3) by (simp add: db_PruneUserSessions_def)
  then have row': "row' \<in> set (as_users (aw_store w'))" "us_ID row' = us_ID row" "us_IsActive row'"
    using row w3(2) by (auto simp: w' row'_def upd_def db_UpdateLastLogin_def run_stmt_store update_users_def)
  have "live_session w' (ae_HashToken env (sc_Value ck)) (the_user row')"
    using w3(1) row' row(2) s last ck(1)
    by (auto simp: live_session_def sessionDuration_def duration_units intro!: bexI [of _ s] bexI [of _ row'])
  moreover have "length (filter (\<lambda>s. ses_UserID s = us_ID user) (as_sessions (aw_store ?w3))) \<le> maxSessionsPerUser"
    using db_PruneUserSessions_caps [OF up2] inv2 by (simp add: store_inv_def)
  ultimately show ?thesis using ck(2) last(1) row'(2) row(2) by (auto intro!: exI [of _ "the_user row'"])
qed

lemma Password_inv:
  assumes "store_inv env (aw_store w)" "Password env ldap username password w = (res, w1)"
  shows "store_inv env (aw_store w1)"
proof -
  obtain d w0 where d: "directory env ldap username password w = (d, w0)" by fastforce
  have "store_inv env (aw_store w0)"
    using d assms(1) db_UpsertLDAPUser_inv [OF assms(1)]
    by (auto simp: directory_def split: option.splits sum.splits ldap_error.splits prod.splits) (metis snd_conv)+
  moreover have "store_inv env (aw_store (snd (local_login env username password w0)))" if "store_inv env (aw_store w0)"
    using db_users_inv(2) [OF that, of username] by (auto simp: local_login_def split: prod.splits sum.splits store_error.splits)
  ultimately show ?thesis
    using assms(2) d by (auto simp: Password_def Let_def split: sum.splits option.splits prod.splits if_splits)
qed


lemma length_b64_encode: "length (b64_encode s) = 4 * ((length s + 2) div 3)"
  by (induction s rule: b64_encode.induct) (simp_all add: Let_def, presburger)


end
