(* ===== verification/Json.thy ===== *)
theory Json
  imports Utf8 Strconv "HOL-Library.AList" "HOL-Library.Char_ord" "HOL-Library.List_Lexorder"
begin

text \<open>
  JSON texts as \<^verbatim>\<open>encoding/json\<close> reads and writes them. A string keeps the text between its quotes, as a
  \<^verbatim>\<open>json.RawMessage\<close> does, and is decoded where the code decodes it. The white space between tokens is dropped and
  the characters the encoder escapes for HTML inside raw values are left as they are: no decoder tells the two apart.
  The lemmas show that a value the decoder gave is read back from its text, and that a key survives quoting.
\<close>

section \<open>Values and texts\<close>

datatype json =
    JNull
  | JTrue
  | JFalse
  | JNum string
  | JStr string
  | JArr "json list"
  | JObj "(string \<times> json) list"

definition quotation :: char where "quotation = CHR 0x22"
definition backslash :: char where "backslash = CHR 0x5C"

definition json_space :: "char \<Rightarrow> bool" where
  "json_space c \<longleftrightarrow> c \<in> {CHR '' '', CHR 0x09, CHR 0x0A, CHR 0x0D}"

definition skip_space :: "string \<Rightarrow> string" where "skip_space = dropWhile json_space"

definition is_hex :: "char \<Rightarrow> bool" where
  "is_hex c \<longleftrightarrow> is_digit c \<or> c \<in> set ''abcdefABCDEF''"

definition short_escapes :: string where
  "short_escapes = [CHR 0x22, CHR 0x5C, CHR ''/'', CHR ''b'', CHR ''f'', CHR ''n'', CHR ''r'', CHR ''t'']"

text \<open>The literal up to the closing quotation mark, and what follows it.\<close>

fun scan_lit :: "string \<Rightarrow> (string \<times> string) option" where
  "scan_lit [] = None"
| "scan_lit (c # s) =
     (if c = quotation then Some ([], s)
      else if of_char c < (32 :: nat) then None
      else if c = backslash then
        (case s of [] \<Rightarrow> None
         | e # s1 \<Rightarrow>
             if e \<in> set short_escapes then map_option (\<lambda>(l, t). (c # e # l, t)) (scan_lit s1)
             else if e = CHR ''u'' then
               (case s1 of h1 # h2 # h3 # h4 # s2 \<Rightarrow>
                  if is_hex h1 \<and> is_hex h2 \<and> is_hex h3 \<and> is_hex h4
                  then map_option (\<lambda>(l, t). (c # e # h1 # h2 # h3 # h4 # l, t)) (scan_lit s2) else None
                | _ \<Rightarrow> None)
             else None)
      else map_option (\<lambda>(l, t). (c # l, t)) (scan_lit s))"

definition number_char :: "char \<Rightarrow> bool" where
  "number_char c \<longleftrightarrow> is_digit c \<or> c \<in> set ''+-.eE''"

definition valid_exponent :: "string \<Rightarrow> bool" where
  "valid_exponent s =
     (case s of [] \<Rightarrow> True
      | e # r \<Rightarrow>
          e \<in> set ''eE'' \<and>
          (case r of [] \<Rightarrow> False
           | c # r1 \<Rightarrow> let ds = (if c \<in> set ''+-'' then r1 else r) in ds \<noteq> [] \<and> list_all is_digit ds))"

definition valid_fraction :: "string \<Rightarrow> bool" where
  "valid_fraction s =
     (case s of [] \<Rightarrow> True
      | p # r \<Rightarrow>
          if p = CHR ''.'' then (case r of [] \<Rightarrow> False | d # r1 \<Rightarrow> is_digit d \<and> valid_exponent (dropWhile is_digit r1))
          else valid_exponent s)"

definition valid_number :: "string \<Rightarrow> bool" where
  "valid_number s =
     (case (case s of [] \<Rightarrow> [] | c # r \<Rightarrow> if c = CHR ''-'' then r else s) of
        [] \<Rightarrow> False
      | c # r \<Rightarrow> if c = CHR ''0'' then valid_fraction r else is_digit c \<and> valid_fraction (dropWhile is_digit r))"

text \<open>A number ends where no character of a number follows.\<close>

definition parse_scalar :: "string \<Rightarrow> (json \<times> string) option" where
  "parse_scalar s =
     (let t = takeWhile number_char s in
      if t \<noteq> [] then if valid_number t then Some (JNum t, dropWhile number_char s) else None
      else if prefix ''null'' s then Some (JNull, drop 4 s)
      else if prefix ''true'' s then Some (JTrue, drop 4 s)
      else if prefix ''false'' s then Some (JFalse, drop 5 s)
      else None)"

text \<open>
  The first argument is fuel, one more than the length of the text is enough; the second is how deep values may
  still nest.
\<close>

fun parse_value :: "nat \<Rightarrow> nat \<Rightarrow> string \<Rightarrow> (json \<times> string) option"
  and parse_elems :: "nat \<Rightarrow> nat \<Rightarrow> string \<Rightarrow> (json list \<times> string) option"
  and parse_members :: "nat \<Rightarrow> nat \<Rightarrow> string \<Rightarrow> ((string \<times> json) list \<times> string) option" where
  "parse_value 0 d s = None"
| "parse_value (Suc n) d s =
     (case skip_space s of [] \<Rightarrow> None
      | c # r \<Rightarrow>
          if c = quotation then map_option (\<lambda>(l, t). (JStr l, t)) (scan_lit r)
          else if c = CHR ''{'' then
            (if d = 0 then None
             else case skip_space r of [] \<Rightarrow> None
                  | e # t \<Rightarrow> if e = CHR ''}'' then Some (JObj [], t)
                             else map_option (\<lambda>(ms, u). (JObj ms, u)) (parse_members n (d - 1) (e # t)))
          else if c = CHR ''['' then
            (if d = 0 then None
             else case skip_space r of [] \<Rightarrow> None
                  | e # t \<Rightarrow> if e = CHR '']'' then Some (JArr [], t)
                             else map_option (\<lambda>(vs, u). (JArr vs, u)) (parse_elems n (d - 1) (e # t)))
          else parse_scalar (c # r))"
| "parse_elems 0 d s = None"
| "parse_elems (Suc n) d s =
     (case parse_value n d s of None \<Rightarrow> None
      | Some (v, t) \<Rightarrow>
          (case skip_space t of [] \<Rightarrow> None
           | e # u \<Rightarrow> if e = CHR '']'' then Some ([v], u)
                      else if e = CHR '','' then map_option (\<lambda>(vs, x). (v # vs, x)) (parse_elems n d u)
                      else None))"
| "parse_members 0 d s = None"
| "parse_members (Suc n) d s =
     (case skip_space s of [] \<Rightarrow> None
      | q # r \<Rightarrow>
          if q \<noteq> quotation then None
          else (case scan_lit r of None \<Rightarrow> None
                | Some (k, t) \<Rightarrow>
                    (case skip_space t of [] \<Rightarrow> None
                     | c # u \<Rightarrow>
                         if c \<noteq> CHR '':'' then None
                         else (case parse_value n d u of None \<Rightarrow> None
                               | Some (v, x) \<Rightarrow>
                                   (case skip_space x of [] \<Rightarrow> None
                                    | e # y \<Rightarrow> if e = CHR ''}'' then Some ([(k, v)], y)
                                               else if e = CHR '','' then map_option (\<lambda>(ms, z). ((k, v) # ms, z)) (parse_members n d y)
                                               else None)))))"

definition maxNestingDepth :: nat where "maxNestingDepth = 10000"

definition json_decode :: "string \<Rightarrow> json option" where
  "json_decode s =
     (case parse_value (Suc (length s)) maxNestingDepth s of None \<Rightarrow> None
      | Some (v, t) \<Rightarrow> if skip_space t = [] then Some v else None)"

definition quoted :: "string \<Rightarrow> string" where "quoted l = quotation # l @ [quotation]"

fun json_text :: "json \<Rightarrow> string" where
  "json_text JNull = ''null''"
| "json_text JTrue = ''true''"
| "json_text JFalse = ''false''"
| "json_text (JNum t) = t"
| "json_text (JStr l) = quoted l"
| "json_text (JArr vs) = ''['' @ str_join '','' (map json_text vs) @ '']''"
| "json_text (JObj ms) = ''{'' @ str_join '','' (map (\<lambda>(k, v). quoted k @ '':'' @ json_text v) ms) @ ''}''"

section \<open>String literals\<close>

definition hex_value :: "rune \<Rightarrow> nat option" where
  "hex_value r =
     (if 48 \<le> r \<and> r \<le> 57 then Some (r - 48)
      else if 97 \<le> r \<and> r \<le> 102 then Some (r - 87)
      else if 65 \<le> r \<and> r \<le> 70 then Some (r - 55) else None)"

definition getu4 :: "rune list \<Rightarrow> nat option" where
  "getu4 s =
     (case s of a # b # c # d # _ \<Rightarrow>
        (case (hex_value a, hex_value b, hex_value c, hex_value d) of
           (Some p, Some q, Some r, Some t) \<Rightarrow> Some (((p * 16 + q) * 16 + r) * 16 + t)
         | _ \<Rightarrow> None)
      | _ \<Rightarrow> None)"

definition is_surrogate :: "nat \<Rightarrow> bool" where "is_surrogate u \<longleftrightarrow> 0xD800 \<le> u \<and> u < 0xE000"

text \<open>The rune of the escape \<^term>\<open>u\<close> and how much of what follows it takes: the second half of a surrogate pair.\<close>

definition escaped_rune :: "nat \<Rightarrow> rune list \<Rightarrow> rune \<times> nat" where
  "escaped_rune u s =
     (if \<not> is_surrogate u then (u, 0)
      else case s of b # e # t \<Rightarrow>
             (case (if b = 92 \<and> e = 117 then getu4 t else None) of
                Some v \<Rightarrow> if u < 0xDC00 \<and> 0xDC00 \<le> v \<and> v < 0xE000
                          then ((u - 0xD800) * 1024 + (v - 0xDC00) + 0x10000, 6) else (runeError, 0)
              | None \<Rightarrow> (runeError, 0))
           | _ \<Rightarrow> (runeError, 0))"

definition short_escape :: "rune \<Rightarrow> rune option" where
  "short_escape e = map_of [(34, 34), (92, 92), (47, 47), (98, 8), (102, 12), (110, 10), (114, 13), (116, 9)] e"

fun unquote_runes :: "rune list \<Rightarrow> rune list option" where
  "unquote_runes [] = Some []"
| "unquote_runes (x # xs) =
     (if x \<noteq> 92 then map_option ((#) x) (unquote_runes xs)
      else case xs of [] \<Rightarrow> None
           | e # ys \<Rightarrow>
               if e \<noteq> 117 then
                 (case short_escape e of None \<Rightarrow> None | Some r \<Rightarrow> map_option ((#) r) (unquote_runes ys))
               else
                 (case getu4 ys of None \<Rightarrow> None
                  | Some u \<Rightarrow>
                      (case escaped_rune u (drop 4 ys) of (r, k) \<Rightarrow>
                         map_option ((#) r) (unquote_runes (drop (4 + k) ys)))))"

definition unquote :: "string \<Rightarrow> string option" where
  "unquote l = map_option utf8_encode (unquote_runes (runes l))"

definition hex_rune :: "nat \<Rightarrow> rune" where "hex_rune d = (if d < 10 then 48 + d else 87 + d)"

definition quote_rune :: "rune \<Rightarrow> rune list" where
  "quote_rune r =
     (if r \<in> {34, 92} then [92, r]
      else if r = 8 then [92, 98] else if r = 12 then [92, 102] else if r = 10 then [92, 110]
      else if r = 13 then [92, 114] else if r = 9 then [92, 116]
      else if r < 32 \<or> r \<in> {60, 62, 38, 8232, 8233}
      then [92, 117, hex_rune (r div 4096), hex_rune (r div 256 mod 16), hex_rune (r div 16 mod 16), hex_rune (r mod 16)]
      else [r])"

definition json_quote :: "string \<Rightarrow> string" where
  "json_quote s = utf8_encode (concat (map quote_rune (runes s)))"

section \<open>Objects as maps, strings\<close>

text \<open>Decoding into \<^verbatim>\<open>map[string]json.RawMessage\<close>: the last member of a name counts, \<^verbatim>\<open>null\<close> gives the nil map. A map is
  written with its keys in order.\<close>

definition member_name :: "string \<Rightarrow> string" where
  "member_name k = (case unquote k of Some s \<Rightarrow> s | None \<Rightarrow> [])"

definition as_map :: "json \<Rightarrow> (string \<times> json) list option" where
  "as_map v = (case v of JNull \<Rightarrow> Some []
     | JObj ms \<Rightarrow> Some (fold (\<lambda>(k, v). AList.update (member_name k) v) ms [])
     | _ \<Rightarrow> None)"

definition of_map :: "(string \<times> json) list \<Rightarrow> json" where
  "of_map al = JObj (map (\<lambda>(k, v). (json_quote k, v)) (sort_key fst al))"

definition as_string :: "json \<Rightarrow> string option" where
  "as_string v = (case v of JStr l \<Rightarrow> unquote l | JNull \<Rightarrow> Some [] | _ \<Rightarrow> None)"

definition of_string :: "string \<Rightarrow> json" where "of_string s = JStr (json_quote s)"

definition unmarshal_map :: "string \<Rightarrow> (string \<times> json) list option" where
  "unmarshal_map s = (case json_decode s of None \<Rightarrow> None | Some v \<Rightarrow> as_map v)"

definition marshal_map :: "(string \<times> json) list \<Rightarrow> string" where
  "marshal_map al = json_text (of_map al)"

section \<open>A value is read back from its text\<close>

definition lit_ok :: "string \<Rightarrow> bool" where
  "lit_ok l \<longleftrightarrow> scan_lit (l @ [quotation]) = Some (l, [])"

fun wf_json :: "nat \<Rightarrow> json \<Rightarrow> bool" where
  "wf_json d (JNum t) \<longleftrightarrow> valid_number t \<and> list_all number_char t"
| "wf_json d (JStr l) \<longleftrightarrow> lit_ok l"
| "wf_json d (JArr vs) \<longleftrightarrow> 0 < d \<and> list_all (wf_json (d - 1)) vs"
| "wf_json d (JObj ms) \<longleftrightarrow> 0 < d \<and> list_all (\<lambda>(k, v). lit_ok k \<and> wf_json (d - 1) v) ms"
| "wf_json d _ \<longleftrightarrow> True"

lemma u_not_short: "CHR ''u'' \<notin> set short_escapes"
  by (simp add: short_escapes_def)

lemma backslash_neq_quotation [simp]: "backslash \<noteq> quotation" "quotation \<noteq> backslash"
  by (simp_all add: backslash_def quotation_def)

lemma backslash_ge: "\<not> of_char backslash < (32 :: nat)"
  by (simp add: backslash_def)

lemma scan_lit_cases:
  assumes "scan_lit (c # s) = Some (l, t)"
  obtains (stop) "c = quotation" "l = []" "t = s"
  | (short) e s1 l1 where "c = backslash" "s = e # s1" "e \<in> set short_escapes" "scan_lit s1 = Some (l1, t)" "l = c # e # l1"
  | (code) h1 h2 h3 h4 s1 l1 where "c = backslash" "s = CHR ''u'' # h1 # h2 # h3 # h4 # s1"
      "is_hex h1" "is_hex h2" "is_hex h3" "is_hex h4" "scan_lit s1 = Some (l1, t)" "l = c # CHR ''u'' # h1 # h2 # h3 # h4 # l1"
  | (plain) l1 where "c \<noteq> quotation" "c \<noteq> backslash" "\<not> of_char c < (32 :: nat)" "scan_lit s = Some (l1, t)" "l = c # l1"
proof (cases "c = quotation \<or> of_char c < (32 :: nat) \<or> c \<noteq> backslash")
  case True
  then show ?thesis using assms stop plain by (auto split: if_splits)
next
  case False
  then have c: "c = backslash" "c \<noteq> quotation" "\<not> of_char c < (32 :: nat)" by auto
  show ?thesis
  proof (cases s)
    case (Cons e s1)
    show ?thesis
    proof (cases "e \<in> set short_escapes")
      case True
      with Cons c assms show ?thesis by (auto intro: short)
    next
      case notshort: False
      then have u: "e = CHR ''u''" using Cons c assms by (simp split: if_splits)
      obtain h1 h2 h3 h4 s2 where s1: "s1 = h1 # h2 # h3 # h4 # s2"
        using Cons c assms notshort u by (simp split: list.splits)
      show ?thesis using Cons c assms notshort u s1 code by (auto split: if_splits)
    qed
  qed (use assms c in simp)
qed

lemma scan_lit_resume: "scan_lit s = Some (l, t) \<Longrightarrow> scan_lit (l @ quotation # t') = Some (l, t')"
proof (induction s arbitrary: l rule: length_induct)
  case (1 s)
  from 1(2) obtain c s' where s: "s = c # s'" by (cases s) auto
  note IH = 1(1) [rule_format]
  from 1(2) [unfolded s] show ?case
  proof (cases rule: scan_lit_cases)
    case (short e s1 l1)
    then show ?thesis using IH [of s1 l1] s by (simp add: backslash_ge)
  next
    case (code h1 h2 h3 h4 s1 l1)
    then show ?thesis using IH [of s1 l1] s by (simp add: backslash_ge u_not_short)
  next
    case (plain l1)
    then show ?thesis using IH [of s' l1] s by simp
  qed simp
qed

lemma scan_lit_ok: "scan_lit s = Some (l, t) \<Longrightarrow> lit_ok l"
  unfolding lit_ok_def by (rule scan_lit_resume)

lemma lit_ok_scan: "lit_ok l \<Longrightarrow> scan_lit (l @ quotation # t) = Some (l, t)"
  unfolding lit_ok_def by (rule scan_lit_resume)

lemma parse_scalar_wf: "parse_scalar s = Some (v, t) \<Longrightarrow> wf_json d v"
  unfolding parse_scalar_def Let_def by (auto split: if_splits simp: list_all_iff dest: set_takeWhileD)

lemma parse_wf:
  "(\<forall>d s v t. parse_value n d s = Some (v, t) \<longrightarrow> wf_json d v) \<and>
   (\<forall>d s vs t. parse_elems n d s = Some (vs, t) \<longrightarrow> list_all (wf_json d) vs) \<and>
   (\<forall>d s ms t. parse_members n d s = Some (ms, t) \<longrightarrow> list_all (\<lambda>(k, v). lit_ok k \<and> wf_json d v) ms)"
proof (induction n)
  case (Suc n)
  have IHv: "parse_value n d s = Some (v, t) \<Longrightarrow> wf_json d v"
    and IHe: "parse_elems n d s = Some (vs, t) \<Longrightarrow> list_all (wf_json d) vs"
    and IHm: "parse_members n d s = Some (ms, t) \<Longrightarrow> list_all (\<lambda>(k, v). lit_ok k \<and> wf_json d v) ms" for d s v vs ms t
    using Suc.IH by blast+
  have "wf_json d v" if "parse_value (Suc n) d s = Some (v, t)" for d s v t
    using that by (auto split: list.splits if_splits intro: IHe IHm scan_lit_ok parse_scalar_wf)
  moreover have "list_all (wf_json d) vs" if "parse_elems (Suc n) d s = Some (vs, t)" for d s vs t
    using that by (auto split: list.splits if_splits option.splits) (blast intro: IHv IHe)+
  moreover have "list_all (\<lambda>(k, v). lit_ok k \<and> wf_json d v) ms" if "parse_members (Suc n) d s = Some (ms, t)" for d s ms t
    using that by (auto split: list.splits if_splits option.splits) (blast intro: IHv IHm scan_lit_ok)+
  ultimately show ?case by blast
qed simp_all

lemma json_decode_wf: "json_decode s = Some v \<Longrightarrow> wf_json maxNestingDepth v"
  unfolding json_decode_def using parse_wf [THEN conjunct1, rule_format, of "Suc (length s)" maxNestingDepth s]
  by (simp del: parse_value.simps split: option.splits prod.splits if_splits)

definition ends_number :: "string \<Rightarrow> bool" where
  "ends_number t \<longleftrightarrow> (case t of [] \<Rightarrow> True | c # _ \<Rightarrow> \<not> number_char c)"

lemma punctuation_not_number:
  "list_all (\<lambda>c. \<not> number_char c) [CHR '' '', CHR 0x09, CHR 0x0A, CHR 0x0D, quotation, CHR ''{'', CHR ''}'', CHR ''['', CHR '']'', CHR '','', CHR ''n'', CHR ''t'', CHR ''f'']"
  by code_simp

lemma ends_number_simps [simp]:
  "ends_number []" "ends_number (CHR '','' # t)" "ends_number (CHR ''}'' # t)" "ends_number (CHR '']'' # t)"
  using punctuation_not_number by (simp_all add: ends_number_def)

lemma skip_space_simps [simp]:
  "skip_space [] = []" "\<not> json_space c \<Longrightarrow> skip_space (c # s) = c # s"
  by (simp_all add: skip_space_def)

lemma json_space_simps [simp]:
  "\<not> json_space quotation" "\<not> json_space (CHR ''{'')" "\<not> json_space (CHR ''}'')" "\<not> json_space (CHR ''['')" "\<not> json_space (CHR '']'')"
  "\<not> json_space (CHR '','')" "\<not> json_space (CHR '':'')" "\<not> json_space (CHR ''n'')" "\<not> json_space (CHR ''t'')" "\<not> json_space (CHR ''f'')"
  by (simp_all add: json_space_def quotation_def)

lemma number_not_space:
  "number_char c \<Longrightarrow> \<not> json_space c \<and> c \<noteq> quotation \<and> c \<noteq> CHR ''{'' \<and> c \<noteq> CHR ''['' \<and> c \<noteq> CHR '']'' \<and> c \<noteq> CHR ''}''"
  using punctuation_not_number unfolding json_space_def by auto

lemma quotation_neq [simp]: "quotation \<noteq> CHR ''{''" "quotation \<noteq> CHR ''}''" "quotation \<noteq> CHR ''[''" "quotation \<noteq> CHR '']''"
  "CHR ''['' \<noteq> quotation" "CHR ''{'' \<noteq> quotation" "CHR ''n'' \<noteq> quotation" "CHR ''t'' \<noteq> quotation" "CHR ''f'' \<noteq> quotation"
  by (simp_all add: quotation_def)

lemma valid_number_neq_Nil: "valid_number t \<Longrightarrow> t \<noteq> []"
  by (auto simp: valid_number_def)

lemma parse_number:
  assumes "valid_number t" "list_all number_char t" "ends_number r"
  shows "parse_value (Suc n) d (t @ r) = Some (JNum t, r)"
proof -
  obtain c cs where t: "t = c # cs" using valid_number_neq_Nil [OF assms(1)] by (cases t) auto
  have all: "takeWhile number_char (t @ r) = t" "dropWhile number_char (t @ r) = r"
    using assms(2, 3) by (auto simp: list_all_iff ends_number_def takeWhile_append2 dropWhile_append2 split: list.splits)
  have "number_char c" using assms(2) t by simp
  then show ?thesis using number_not_space [of c] all assms(1) by (simp add: parse_scalar_def Let_def t)
qed

lemma json_text_neq_Nil: "wf_json d v \<Longrightarrow> json_text v \<noteq> []"
  by (cases v) (auto simp: quoted_def valid_number_neq_Nil)

text \<open>No value starts with the mark that ends an array or an object.\<close>

lemma json_text_hd:
  assumes "wf_json d v"
  obtains c cs where "json_text v = c # cs" "\<not> json_space c" "c \<noteq> CHR '']''" "c \<noteq> CHR ''}''"
proof (cases v)
  case (JNum t)
  then obtain c cs where "t = c # cs" "number_char c"
    using assms valid_number_neq_Nil [of t] by (cases t) auto
  then show ?thesis using that [of c cs] JNum number_not_space [of c] by simp
qed (auto simp: quoted_def intro: that)

lemma parse_elems_text:
  assumes "\<And>v n r. v \<in> set vs \<Longrightarrow> length (json_text v) \<le> n \<Longrightarrow> ends_number r \<Longrightarrow> parse_value n d (json_text v @ r) = Some (v, r)"
    and "vs \<noteq> []" "length (str_join '','' (map json_text vs)) < n"
  shows "parse_elems n d (str_join '','' (map json_text vs) @ CHR '']'' # r) = Some (vs, r)"
  using assms
proof (induction vs arbitrary: n)
  case (Cons v vs)
  obtain m where n: "n = Suc m" using Cons.prems(3) by (cases n) auto
  show ?case
  proof (cases vs)
    case Nil
    then show ?thesis using Cons.prems n by simp
  next
    case (Cons v' vs')
    then have join: "str_join '','' (map json_text (v # vs)) = json_text v @ CHR '','' # str_join '','' (map json_text vs)"
      by (simp add: str_join_Cons)
    have "parse_elems m d (str_join '','' (map json_text vs) @ CHR '']'' # r) = Some (vs, r)"
      using Cons.IH [of m] Cons.prems Cons n by (simp add: join)
    then show ?thesis using Cons.prems(1) [of v m] Cons.prems(3) n by (simp add: join [simplified])
  qed
qed simp

definition member_text :: "string \<times> json \<Rightarrow> string" where
  "member_text m = quoted (fst m) @ '':'' @ json_text (snd m)"

lemma json_text_JObj: "json_text (JObj ms) = ''{'' @ str_join '','' (map member_text ms) @ ''}''"
  by (simp add: member_text_def [abs_def] case_prod_beta')

lemma parse_member:
  assumes "lit_ok k" "parse_value m d (json_text v @ r) = Some (v, r)"
  shows "parse_members (Suc m) d (member_text (k, v) @ r) =
    (case skip_space r of [] \<Rightarrow> None
     | e # y \<Rightarrow> if e = CHR ''}'' then Some ([(k, v)], y)
                else if e = CHR '','' then map_option (\<lambda>(ms, z). ((k, v) # ms, z)) (parse_members m d y) else None)"
  using assms lit_ok_scan [OF assms(1)] by (simp add: member_text_def quoted_def)

lemma parse_members_text:
  assumes "\<And>k v n r. (k, v) \<in> set ms \<Longrightarrow> length (json_text v) \<le> n \<Longrightarrow> ends_number r \<Longrightarrow> parse_value n d (json_text v @ r) = Some (v, r)"
    and "\<And>k v. (k, v) \<in> set ms \<Longrightarrow> lit_ok k"
    and "ms \<noteq> []" "length (str_join '','' (map member_text ms)) < n"
  shows "parse_members n d (str_join '','' (map member_text ms) @ CHR ''}'' # r) = Some (ms, r)"
  using assms
proof (induction ms arbitrary: n)
  case (Cons mv ms)
  obtain k v where mv: "mv = (k, v)" by (cases mv)
  obtain m where n: "n = Suc m" using Cons.prems(4) by (cases n) auto
  have lk: "lit_ok k" using Cons.prems(2) [of k v] mv by simp
  have pv: "parse_value m d (json_text v @ r) = Some (v, r)" if "length (member_text (k, v)) \<le> m" "ends_number r" for r
    using Cons.prems(1) [of k v m r] that mv by (simp add: member_text_def)
  show ?case
  proof (cases ms)
    case Nil
    then show ?thesis using Cons.prems(4) n mv by (simp add: parse_member [OF lk pv] del: parse_members.simps)
  next
    case (Cons mv' ms')
    then have join: "str_join '','' (map member_text (mv # ms)) = member_text mv @ CHR '','' # str_join '','' (map member_text ms)"
      by (simp add: str_join_Cons)
    have len: "length (str_join '','' (map member_text ms)) < m" using Cons.prems(4) n by (simp add: join [simplified])
    have "parse_members m d (str_join '','' (map member_text ms) @ CHR ''}'' # r) = Some (ms, r)"
      by (rule Cons.IH [OF _ _ _ len]) (auto simp: Cons intro: Cons.prems(1, 2))
    then show ?thesis using Cons.prems(4) n mv
      by (simp add: join [unfolded mv, simplified] parse_member [OF lk pv] del: parse_members.simps)
  qed
qed simp

lemma str_join_hd: "ps \<noteq> [] \<Longrightarrow> hd ps = c # cs \<Longrightarrow> \<exists>t. str_join sep ps = c # t"
  by (cases ps; cases "tl ps") (auto simp: str_join_Cons)

lemma parse_scalar_words:
  "parse_scalar (''null'' @ r) = Some (JNull, r)" "parse_scalar (''true'' @ r) = Some (JTrue, r)"
  "parse_scalar (''false'' @ r) = Some (JFalse, r)"
  using punctuation_not_number by (simp_all add: parse_scalar_def)

lemma parse_value_text: "wf_json d v \<Longrightarrow> length (json_text v) \<le> n \<Longrightarrow> ends_number r \<Longrightarrow> parse_value n d (json_text v @ r) = Some (v, r)"
proof (induction v arbitrary: d n r)
  case (JNum t)
  then obtain m where "n = Suc m" using valid_number_neq_Nil by (cases n) auto
  then show ?case using JNum parse_number by simp
next
  case (JStr l)
  then obtain m where "n = Suc m" by (cases n) (auto simp: quoted_def)
  then show ?case using JStr lit_ok_scan by (simp add: quoted_def)
next
  case (JArr vs)
  then obtain m where n: "n = Suc m" by (cases n) auto
  show ?case
  proof (cases vs)
    case Nil
    then show ?thesis using JArr n by simp
  next
    case (Cons v vs')
    obtain c cs where hd: "json_text v = c # cs" "\<not> json_space c" "c \<noteq> CHR '']''"
      using JArr.prems(1) Cons by (auto elim: json_text_hd)
    then obtain t where t: "str_join '','' (map json_text vs) = c # t"
      using str_join_hd [of "map json_text vs" c cs] Cons by auto
    have "parse_elems m (d - 1) (str_join '','' (map json_text vs) @ CHR '']'' # r) = Some (vs, r)"
      using JArr n Cons by (intro parse_elems_text JArr.IH) (auto simp: list_all_iff)
    then show ?thesis using JArr.prems n t hd by (simp add: Cons)
  qed
next
  case (JObj ms)
  then obtain m where n: "n = Suc m" by (cases n) auto
  show ?case
  proof (cases ms)
    case Nil
    then show ?thesis using JObj n by simp
  next
    case (Cons mv ms')
    have hd: "hd (map member_text ms) = quotation # fst mv @ [quotation] @ '':'' @ json_text (snd mv)"
      using Cons by (simp add: member_text_def quoted_def)
    then obtain t where t: "str_join '','' (map member_text ms) = quotation # t"
      using str_join_hd [OF _ hd] Cons by auto
    have "parse_members m (d - 1) (str_join '','' (map member_text ms) @ CHR ''}'' # r) = Some (ms, r)"
      using JObj n Cons unfolding json_text_JObj by (intro parse_members_text JObj.IH) (auto simp: list_all_iff)
    then show ?thesis using JObj.prems n t unfolding json_text_JObj by simp
  qed
next
  case JNull
  then obtain m where "n = Suc m" by (cases n) auto
  then show ?case using parse_scalar_words(1) [of r] by simp
next
  case JTrue
  then obtain m where "n = Suc m" by (cases n) auto
  then show ?case using parse_scalar_words(2) [of r] by simp
next
  case JFalse
  then obtain m where "n = Suc m" by (cases n) auto
  then show ?case using parse_scalar_words(3) [of r] by simp
qed

lemma json_decode_text: "wf_json maxNestingDepth v \<Longrightarrow> json_decode (json_text v) = Some v"
  using parse_value_text [of maxNestingDepth v "Suc (length (json_text v))" "[]"]
  by (simp add: json_decode_def del: parse_value.simps)

section \<open>Names survive quoting\<close>

lemma hex_value_digit [simp]: "d < 16 \<Longrightarrow> hex_value (hex_rune d) = Some d"
  by (auto simp: hex_value_def hex_rune_def)

lemma getu4_digits:
  "r < 65536 \<Longrightarrow>
   getu4 (hex_rune (r div 4096) # hex_rune (r div 256 mod 16) # hex_rune (r div 16 mod 16) # hex_rune (r mod 16) # rs) = Some r"
proof -
  assume r: "r < 65536"
  have "r div 4096 * 16 + r div 256 mod 16 = r div 256" "r div 256 * 16 + r div 16 mod 16 = r div 16"
    using div_mult2_eq [of r 256 16] div_mult2_eq [of r 16 16] by simp_all
  then show ?thesis using r by (simp add: getu4_def)
qed

lemma unquote_quote_rune: "unquote_runes (quote_rune r @ rs) = map_option ((#) r) (unquote_runes rs)"
proof (cases "r < 32 \<or> r \<in> {60, 62, 38, 8232, 8233}")
  case True
  then have "r < 65536" "\<not> is_surrogate r" by (auto simp: is_surrogate_def)
  then show ?thesis using getu4_digits [of r rs] True
    by (simp add: quote_rune_def short_escape_def escaped_rune_def)
next
  case False
  then show ?thesis by (auto simp: quote_rune_def short_escape_def)
qed

lemma unquote_quote_runes: "unquote_runes (concat (map quote_rune rs)) = Some rs"
  by (induction rs) (simp_all add: unquote_quote_rune)

lemma hex_rune_lt: "d < 16 \<Longrightarrow> hex_rune d < 128"
  by (simp add: hex_rune_def)

lemma quote_rune_valid: "valid_rune r \<Longrightarrow> list_all valid_rune (quote_rune r)"
proof -
  assume "valid_rune r"
  moreover have "valid_rune x" if "x < 128" for x using that by (simp add: valid_rune_def)
  moreover have "r div 4096 < 16" if "r < 32 \<or> r \<in> {60, 62, 38, 8232, 8233}" using that by auto
  ultimately show ?thesis by (auto simp: quote_rune_def hex_rune_lt)
qed

lemma quote_runes_valid: "list_all valid_rune rs \<Longrightarrow> list_all valid_rune (concat (map quote_rune rs))"
  by (induction rs) (simp_all add: quote_rune_valid)

lemma unquote_json_quote: "valid_utf8 s \<Longrightarrow> unquote (json_quote s) = Some s"
  using quote_runes_valid [OF runes_valid [of s]] valid_utf8_runes [of s]
  by (simp add: unquote_def json_quote_def runes_encode unquote_quote_runes)

lemma hex_value_lt: "hex_value x = Some v \<Longrightarrow> v < 16"
  by (auto simp: hex_value_def split: if_splits)

lemma getu4_lt:
  assumes "getu4 s = Some u"
  shows "u < 65536"
proof -
  obtain p q r t where "p < 16" "q < 16" "r < 16" "t < 16" "u = ((p * 16 + q) * 16 + r) * 16 + t"
    using assms by (auto simp: getu4_def split: list.splits option.splits dest!: hex_value_lt)
  then show ?thesis by simp
qed

lemma escaped_rune_valid: "u < 65536 \<Longrightarrow> valid_rune (fst (escaped_rune u s))"
  by (auto simp: escaped_rune_def valid_rune_def is_surrogate_def runeError_def split: list.splits option.splits)

lemma unquote_runes_valid: "unquote_runes rs = Some ks \<Longrightarrow> list_all valid_rune rs \<Longrightarrow> list_all valid_rune ks"
proof (induction rs arbitrary: ks rule: unquote_runes.induct)
  case (2 x xs)
  have short: "short_escape e = Some r \<Longrightarrow> valid_rune r" for e r
    by (auto simp: short_escape_def valid_rune_def split: if_splits)
  have dropped: "list_all valid_rune (drop n ys)" if "list_all valid_rune ys" for n ys
    using that by (metis list_all_append append_take_drop_id)
  show ?case
  proof (cases "x = 92")
    case True
    with 2(4) obtain e ys where xs: "xs = e # ys" by (auto split: list.splits)
    show ?thesis
    proof (cases "e = 117")
      case e: True
      obtain u r k ks' where u: "getu4 ys = Some u" "escaped_rune u (drop 4 ys) = (r, k)"
        "unquote_runes (drop (4 + k) ys) = Some ks'" "ks = r # ks'"
        using 2(4) True xs e by (auto split: option.splits prod.splits)
      have "valid_rune r" using escaped_rune_valid [OF getu4_lt [OF u(1)]] u(2) by (metis fst_conv)
      moreover have "list_all valid_rune ks'"
        using 2(3) [OF _ xs _ u(1) u(2) [symmetric], simplified] 2(5) True xs e u dropped [of ys "4 + k"] by simp
      ultimately show ?thesis using u(4) by simp
    next
      case False
      then show ?thesis using 2(2) [of e ys] 2(4, 5) True xs short by (auto split: option.splits)
    qed
  next
    case False
    then show ?thesis using 2 by auto
  qed
qed simp

lemma unquote_valid: "unquote l = Some s \<Longrightarrow> valid_utf8 s"
  using unquote_runes_valid runes_valid by (auto simp: unquote_def intro: valid_utf8_encode)

lemma member_name_valid: "valid_utf8 (member_name k)"
  using unquote_valid by (auto simp: member_name_def valid_utf8_def split: option.splits)

text \<open>Bytes a literal may hold as they are.\<close>

definition plain_byte :: "char \<Rightarrow> bool" where
  "plain_byte c \<longleftrightarrow> c \<noteq> quotation \<and> c \<noteq> backslash \<and> \<not> of_char c < (32 :: nat)"

lemma scan_plain: "list_all plain_byte bs \<Longrightarrow> scan_lit (bs @ s) = map_option (\<lambda>(l, t). (bs @ l, t)) (scan_lit s)"
  by (induction bs) (auto simp: plain_byte_def option.map_comp comp_def case_prod_beta' option.map_ident)

lemma plain_byte_ge: "127 < (of_char c :: nat) \<Longrightarrow> plain_byte c"
  by (auto simp: plain_byte_def quotation_def backslash_def)

lemma encode_rune_nonascii: "128 \<le> r \<Longrightarrow> list_all (\<lambda>c. 127 < (of_char c :: nat)) (encode_rune r)"
proof -
  assume r: "128 \<le> r"
  define q where "q = (if valid_rune r then r else runeError)"
  have "q < 1114112" "128 \<le> q" using r by (auto simp: q_def valid_rune_def runeError_def)
  then have "q div 4096 < 16 \<or> 65536 \<le> q" "q div 262144 \<le> 4" "q div 64 < 32 \<or> 2048 \<le> q" by auto
  then show ?thesis using \<open>128 \<le> q\<close>
    by (auto simp: encode_rune_def q_def [symmetric] Let_def)
qed

lemma encode_rune_plain:
  assumes "r \<noteq> 34" "r \<noteq> 92" "\<not> r < 32"
  shows "list_all plain_byte (encode_rune r)"
proof (cases "r < 128")
  case True
  then have "of_char (byte r) = r" by simp
  then have "byte r \<noteq> quotation" "byte r \<noteq> backslash" using assms by (auto simp: quotation_def backslash_def)
  then show ?thesis using True assms by (simp add: encode_ascii plain_byte_def)
next
  case False
  then show ?thesis using encode_rune_nonascii [of r] by (auto simp: list_all_iff intro: plain_byte_ge)
qed

lemma is_hex_digit: "d < 16 \<Longrightarrow> is_hex (byte (hex_rune d))"
proof -
  have "list_all (\<lambda>d. is_hex (byte (hex_rune d))) [0..<16]" by code_simp
  then show "d < 16 \<Longrightarrow> is_hex (byte (hex_rune d))" by (simp add: list_all_iff)
qed

lemma scan_quote_rune:
  "scan_lit (utf8_encode (quote_rune r) @ s) = map_option (\<lambda>(l, t). (utf8_encode (quote_rune r) @ l, t)) (scan_lit s)"
proof -
  have bs: "byte 92 = backslash" "byte 117 = CHR ''u''" by code_simp+
  have esc: "\<forall>e \<in> {34, 92, 98, 102, 110, 114, 116}. byte e \<in> set short_escapes" by code_simp
  consider (short) e where "quote_rune r = [92, e]" "e \<in> {34, 92, 98, 102, 110, 114, 116}"
    | (hex) a b c d where "quote_rune r = [92, 117, hex_rune a, hex_rune b, hex_rune c, hex_rune d]" "a < 16" "b < 16" "c < 16" "d < 16"
    | (plain) "quote_rune r = [r]" "r \<noteq> 34" "r \<noteq> 92" "\<not> r < 32"
  proof (cases "r \<in> {34, 92, 8, 12, 10, 13, 9}")
    case True
    then show ?thesis by (auto simp: quote_rune_def intro: that(1))
  next
    case notshort: False
    show ?thesis
    proof (cases "r < 32 \<or> r \<in> {60, 62, 38, 8232, 8233}")
      case True
      then have "r div 4096 < 16" by auto
      then show ?thesis using notshort True that(2) [of "r div 4096" "r div 256 mod 16" "r div 16 mod 16" "r mod 16"]
        by (simp add: quote_rune_def)
    next
      case False
      then show ?thesis using notshort by (intro that(3)) (auto simp: quote_rune_def)
    qed
  qed
  then show ?thesis
  proof cases
    case short
    then have "e < 128" "byte e \<in> set short_escapes" using esc by auto
    then show ?thesis using short(1) by (simp add: encode_ascii bs backslash_ge)
  next
    case hex
    then show ?thesis using is_hex_digit by (simp add: encode_ascii hex_rune_lt bs backslash_ge u_not_short)
  next
    case plain
    then show ?thesis using scan_plain [OF encode_rune_plain] by simp
  qed
qed

lemma lit_ok_json_quote: "lit_ok (json_quote s)"
proof -
  have "scan_lit (utf8_encode (concat (map quote_rune rs)) @ [quotation]) = Some (utf8_encode (concat (map quote_rune rs)), [])" for rs
    by (induction rs) (simp_all add: scan_quote_rune)
  then show ?thesis by (simp add: lit_ok_def json_quote_def)
qed

lemma unquote_plain: "ascii l \<Longrightarrow> backslash \<notin> set l \<Longrightarrow> unquote l = Some l"
proof -
  assume a: "ascii l" "backslash \<notin> set l"
  have "unquote_runes rs = Some rs" if "92 \<notin> set rs" for rs using that by (induction rs) auto
  moreover have "92 \<notin> set (runes l)"
  proof
    assume "92 \<in> set (runes l)"
    then obtain c where "c \<in> set l" "92 = (of_char c :: nat)" using a(1) by (auto simp: runes_ascii)
    moreover have "of_char backslash = (92 :: nat)" by (simp add: backslash_def)
    ultimately show False using a(2) byte_of_char [of c] byte_of_char [of backslash] by metis
  qed
  ultimately show ?thesis using valid_utf8_runes [OF valid_utf8_ascii [OF a(1)]] by (simp add: unquote_def)
qed

section \<open>Maps\<close>

lemma as_map_members:
  assumes "as_map v = Some al"
  shows "distinct (map fst al)" and "k \<in> fst ` set al \<Longrightarrow> valid_utf8 k"
proof -
  have d: "distinct (map fst (fold (\<lambda>(k, v). AList.update (member_name k) v) ms al))" if "distinct (map fst al)" for ms al
    using that by (induction ms arbitrary: al) (auto simp: distinct_update)
  have f: "fst ` set (fold (\<lambda>(k, v). AList.update (member_name k) v) ms al) \<subseteq> fst ` set al \<union> range member_name" for ms al
  proof (induction ms arbitrary: al)
    case (Cons m ms)
    obtain k v where "m = (k, v)" by (cases m)
    then show ?case using Cons [of "AList.update (member_name k) v al"] by (auto simp: dom_update)
  qed simp
  have al: "al = [] \<or> (\<exists>ms. al = fold (\<lambda>(k, v). AList.update (member_name k) v) ms [])"
    using assms by (auto simp: as_map_def split: json.splits)
  show "distinct (map fst al)" using al d [of "[]"] by auto
  have "fst ` set al \<subseteq> range member_name" using al f [of _ "[]"] by auto
  then show "k \<in> fst ` set al \<Longrightarrow> valid_utf8 k" using member_name_valid by auto
qed

lemma update_nonmember: "k \<notin> fst ` set al \<Longrightarrow> AList.update k v al = al @ [(k, v)]"
  by (induction al) auto

lemma fold_update_append:
  assumes "distinct (map fst al)" "\<And>k. k \<in> fst ` set al \<Longrightarrow> valid_utf8 k" "fst ` set al \<inter> fst ` set acc = {}"
  shows "fold (\<lambda>(k, v). AList.update (member_name k) v) (map (\<lambda>(k, v). (json_quote k, v)) al) acc = acc @ al"
  using assms
proof (induction al arbitrary: acc)
  case (Cons kv al)
  obtain k v where kv: "kv = (k, v)" by (cases kv)
  have "member_name (json_quote k) = k" using Cons.prems(2) kv by (simp add: member_name_def unquote_json_quote)
  moreover have "AList.update k v acc = acc @ [(k, v)]" using Cons.prems(3) kv by (intro update_nonmember) auto
  moreover have "fst ` set al \<inter> fst ` set (acc @ [(k, v)]) = {}" using Cons.prems(1, 3) kv by auto
  ultimately show ?case using Cons.IH [of "acc @ [(k, v)]"] Cons.prems kv by simp
qed simp

lemma as_map_of_map:
  assumes "distinct (map fst al)" "\<And>k. k \<in> fst ` set al \<Longrightarrow> valid_utf8 k"
  shows "as_map (of_map al) = Some (sort_key fst al)"
proof -
  have "distinct (map fst (sort_key fst al))"
    using assms(1) by (simp add: distinct_map inj_on_def)
  then show ?thesis using fold_update_append [of "sort_key fst al" "[]"] assms(2)
    by (simp add: as_map_def of_map_def)
qed

lemma map_of_sort_key: "distinct (map fst al) \<Longrightarrow> map_of (sort_key fst al) = map_of al"
  by (rule map_of_eqI) (auto simp: distinct_map inj_on_def map_of_eq_Some_iff)

lemma wf_of_map: "0 < d \<Longrightarrow> list_all (\<lambda>(k, v). wf_json (d - 1) v) al \<Longrightarrow> wf_json d (of_map al)"
  by (auto simp: of_map_def list_all_iff lit_ok_json_quote)

lemma wf_as_map:
  assumes "as_map v = Some al" "wf_json d v"
  shows "list_all (\<lambda>(k, v). wf_json (d - 1) v) al"
proof -
  have up: "list_all (\<lambda>(k, v). wf_json e v) (AList.update k v al)" if "list_all (\<lambda>(k, v). wf_json e v) al" "wf_json e v" for e k v al
    using that by (induction al) auto
  have "list_all (\<lambda>(k, v). wf_json e v) (fold (\<lambda>(k, v). AList.update (member_name k) v) ms al)"
    if "list_all (\<lambda>(k, v). wf_json e v) al" "list_all (\<lambda>(k, v). wf_json e v) ms" for e ms al
    using that by (induction ms arbitrary: al) (auto simp: up)
  from this [of "d - 1" "[]"] show ?thesis
    using assms by (auto simp: as_map_def case_prod_beta' list.pred_mono_strong split: json.splits)
qed

text \<open>A map that is written and read again: the same members, in the order of their names.\<close>

lemma unmarshal_marshal_map:
  assumes "distinct (map fst al)" "\<And>k. k \<in> fst ` set al \<Longrightarrow> valid_utf8 k"
    and "list_all (\<lambda>(k, v). wf_json (maxNestingDepth - 1) v) al"
  shows "unmarshal_map (marshal_map al) = Some (sort_key fst al)"
proof -
  have "0 < maxNestingDepth" by (simp add: maxNestingDepth_def)
  from wf_of_map [OF this assms(3)] show ?thesis
    by (simp add: unmarshal_map_def marshal_map_def json_decode_text as_map_of_map assms(1, 2))
qed

lemma as_string_of_string: "valid_utf8 s \<Longrightarrow> as_string (of_string s) = Some s"
  by (simp add: as_string_def of_string_def unquote_json_quote)

end
