(* ===== verification/OidcFlow.thy ===== *)
theory OidcFlow
  imports Accounts Json
begin

text \<open>
  Login through an identity provider: \<^verbatim>\<open>internal/oidc/oidc.go\<close> and \<^verbatim>\<open>handler/auth_oidc.go\<close>. Discovery, the code
  exchange and the validation of the ID token (\<^verbatim>\<open>go-oidc\<close>, \<^verbatim>\<open>oauth2\<close>) and the keyed digest are parameters; the claims of a
  token are JSON values. The lemmas show that a session is opened only for a gated identity of the same flow, that
  a sealed state opens again, and when the redirect stays on the site.
\<close>

section \<open>The relying party\<close>

definition defaultUsernameClaim :: string where "defaultUsernameClaim = ''preferred_username''"
definition defaultEmailClaim :: string where "defaultEmailClaim = ''email''"
definition defaultGroupsClaim :: string where "defaultGroupsClaim = ''groups''"

record oidc_config =
  oc_IssuerURL :: string
  oc_ClientID :: string
  oc_ClientSecret :: string
  oc_RedirectURL :: string
  oc_Scopes :: "string list"
  oc_UsernameClaim :: string
  oc_EmailClaim :: string
  oc_GroupsClaim :: string
  oc_AllowedDomains :: "string list"
  oc_AllowedUsers :: "string list"
  oc_AllowedGroups :: "string list"
  oc_AdminGroups :: "string list"
  oc_EmailVerifiedRequired :: bool

record login_state =
  ls_State :: string
  ls_Nonce :: string
  ls_Verifier :: string

record id_token =
  it_Issuer :: string
  it_Subject :: string
  it_Nonce :: string
  it_Claims :: "(string \<times> json) list option"

type_synonym claims = "(string \<times> json) list"

text \<open>What the libraries do: discovery, the authorization URL for scopes and login state, the exchange of a code with
  a verifier for a raw ID token, if there is one, and its validation.\<close>

record oidc_env =
  ox_discover :: "nat \<Rightarrow> string \<Rightarrow> bool"
  ox_authURL :: "string list \<Rightarrow> login_state \<Rightarrow> string"
  ox_newVerifier :: "nat \<Rightarrow> string"
  ox_exchange :: "nat \<Rightarrow> string \<Rightarrow> string \<Rightarrow> string + string option"
  ox_verify :: "nat \<Rightarrow> string \<Rightarrow> string + id_token"
  ox_mac :: "string \<Rightarrow> string"

text \<open>The provider: its configuration, whether discovery is done, and how often it was called.\<close>

record provider =
  pv_cfg :: oidc_config
  pv_scopes :: "string list option"
  pv_calls :: nat

datatype oidc_error = NotAuthorized string | OidcFailed string

definition oidc_New :: "oidc_config \<Rightarrow> provider" where
  "oidc_New cfg =
     \<lparr>pv_cfg = cfg\<lparr>oc_UsernameClaim := (if oc_UsernameClaim cfg = [] then defaultUsernameClaim else oc_UsernameClaim cfg),
                   oc_EmailClaim := (if oc_EmailClaim cfg = [] then defaultEmailClaim else oc_EmailClaim cfg),
                   oc_GroupsClaim := (if oc_GroupsClaim cfg = [] then defaultGroupsClaim else oc_GroupsClaim cfg)\<rparr>,
      pv_scopes = None, pv_calls = 0\<rparr>"

definition add_scope :: "string \<Rightarrow> string list \<Rightarrow> string list" where
  "add_scope s scopes = (if s \<in> set scopes then scopes else scopes @ [s])"

definition ensure :: "oidc_env \<Rightarrow> provider \<Rightarrow> (oidc_error + string list) \<times> provider" where
  "ensure env p =
     (case pv_scopes p of
        Some scopes \<Rightarrow> (Inr scopes, p)
      | None \<Rightarrow>
          (let p1 = p\<lparr>pv_calls := pv_calls p + 1\<rparr> in
           if \<not> ox_discover env (pv_calls p) (oc_IssuerURL (pv_cfg p)) then (Inl (OidcFailed ''oidc discovery''), p1)
           else (let scopes = fold add_scope (oc_Scopes (pv_cfg p)) [''openid'', ''profile'', ''email''] in
                 (Inr scopes, p1\<lparr>pv_scopes := Some scopes\<rparr>))))"

text \<open>Base64 without padding.\<close>

definition raw64_encode :: "string \<Rightarrow> string" where
  "raw64_encode s = filter (\<lambda>c. c \<noteq> b64_pad) (b64_encode s)"

definition raw64_decode :: "string \<Rightarrow> string option" where
  "raw64_decode s =
     (let t = filter (\<lambda>c. c \<noteq> CHR 0x0A \<and> c \<noteq> CHR 0x0D) s in
      if b64_pad \<in> set t then None else b64_decode_quads (t @ replicate ((4 - length t mod 4) mod 4) b64_pad))"

definition randomToken :: "auth_world \<Rightarrow> string option \<times> auth_world" where
  "randomToken w = (map_option raw64_encode (aw_random w (aw_draws w)), w\<lparr>aw_draws := aw_draws w + 1\<rparr>)"

definition BeginLogin :: "oidc_env \<Rightarrow> provider \<Rightarrow> auth_world \<Rightarrow> (oidc_error + string \<times> login_state) \<times> provider \<times> auth_world" where
  "BeginLogin env p w =
     (case ensure env p of
        (Inl err, p1) \<Rightarrow> (Inl err, p1, w)
      | (Inr scopes, p1) \<Rightarrow>
          (case randomToken w of
             (None, w1) \<Rightarrow> (Inl (OidcFailed ''generate random token''), p1, w1)
           | (Some state, w1) \<Rightarrow>
               (case randomToken w1 of
                  (None, w2) \<Rightarrow> (Inl (OidcFailed ''generate random token''), p1, w2)
                | (Some nonce, w2) \<Rightarrow>
                    (let ls = \<lparr>ls_State = state, ls_Nonce = nonce, ls_Verifier = ox_newVerifier env (aw_draws w2)\<rparr> in
                     (Inr (ox_authURL env scopes ls, ls), p1, w2\<lparr>aw_draws := aw_draws w2 + 1\<rparr>)))))"

section \<open>Claims and gates\<close>

definition claim_string :: "claims \<Rightarrow> string \<Rightarrow> string" where
  "claim_string claims k = (case map_of claims k of Some (JStr l) \<Rightarrow> member_name l | _ \<Rightarrow> [])"

text \<open>The value of a string claim is decoded; \<^const>\<open>member_name\<close> is that decoding.\<close>

definition emailVerified :: "claims \<Rightarrow> bool" where
  "emailVerified claims =
     (case map_of claims ''email_verified'' of
        Some JTrue \<Rightarrow> True
      | Some (JStr l) \<Rightarrow> equal_fold (member_name l) ''true''
      | _ \<Rightarrow> False)"

definition stringSlice :: "json option \<Rightarrow> string list" where
  "stringSlice v =
     (case v of
        Some (JArr items) \<Rightarrow> List.map_filter (\<lambda>item. case item of JStr l \<Rightarrow> Some (member_name l) | _ \<Rightarrow> None) items
      | _ \<Rightarrow> [])"

definition list_containsFold :: "string list \<Rightarrow> string \<Rightarrow> bool" where
  "list_containsFold xs s = list_ex (\<lambda>x. equal_fold x s) xs"

text \<open>\<^verbatim>\<open>strings.Cut\<close> at a character: what precedes it and what follows it.\<close>

definition cut_at :: "char \<Rightarrow> string \<Rightarrow> string \<times> string" where
  "cut_at c s = (takeWhile (\<lambda>x. x \<noteq> c) s, drop 1 (dropWhile (\<lambda>x. x \<noteq> c) s))"

definition resolveIdentity :: "provider \<Rightarrow> string \<Rightarrow> string \<Rightarrow> claims \<Rightarrow> identity" where
  "resolveIdentity p issuer subject claims =
     (let cfg = pv_cfg p;
          email = trim_space (claim_string claims (oc_EmailClaim cfg));
          username0 = trim_space (claim_string claims (oc_UsernameClaim cfg));
          username1 = (if username0 = [] \<and> email \<noteq> [] then fst (cut_at (CHR ''@'') email) else username0);
          username = (if username1 = [] then subject else username1);
          groups = stringSlice (map_of claims (oc_GroupsClaim cfg)) in
      \<lparr>id_Issuer = issuer, id_Subject = subject, id_Username = to_lower username, id_Email = email,
       id_IsAdmin = list_ex (list_containsFold (oc_AdminGroups cfg)) groups\<rparr>)"

definition authorize :: "provider \<Rightarrow> identity \<Rightarrow> bool \<Rightarrow> string list \<Rightarrow> oidc_error option" where
  "authorize p ident verified groups =
     (let cfg = pv_cfg p;
          domain = snd (cut_at (CHR ''@'') (id_Email ident));
          gated = oc_AllowedDomains cfg \<noteq> [] \<or> oc_AllowedUsers cfg \<noteq> [] in
      if oc_EmailVerifiedRequired cfg \<and> id_Email ident \<noteq> [] \<and> \<not> verified then Some (NotAuthorized ''email not verified'')
      else if gated \<and> id_Email ident = [] then Some (NotAuthorized ''no email claim for domain/user gating'')
      else if gated \<and> \<not> list_containsFold (oc_AllowedDomains cfg) domain \<and> \<not> list_containsFold (oc_AllowedUsers cfg) (id_Email ident)
      then Some (NotAuthorized ''email not in allowed domains or users'')
      else if oc_AllowedGroups cfg \<noteq> [] \<and> \<not> list_ex (list_containsFold (oc_AllowedGroups cfg)) groups
      then Some (NotAuthorized ''not a member of any allowed group'')
      else None)"

definition CompleteLogin :: "oidc_env \<Rightarrow> string \<Rightarrow> login_state \<Rightarrow> provider \<Rightarrow> (oidc_error + identity) \<times> provider" where
  "CompleteLogin env code ls p =
     (case ensure env p of
        (Inl err, p1) \<Rightarrow> (Inl err, p1)
      | (Inr scopes, p1) \<Rightarrow>
          (let p2 = p1\<lparr>pv_calls := pv_calls p1 + 1\<rparr>; p3 = p1\<lparr>pv_calls := pv_calls p1 + 2\<rparr> in
           case ox_exchange env (pv_calls p1) code (ls_Verifier ls) of
             Inl err \<Rightarrow> (Inl (OidcFailed (''oidc token exchange: '' @ err)), p2)
           | Inr None \<Rightarrow> (Inl (OidcFailed ''oidc token response missing id_token''), p2)
           | Inr (Some raw) \<Rightarrow>
               if raw = [] then (Inl (OidcFailed ''oidc token response missing id_token''), p2)
               else (case ox_verify env (pv_calls p2) raw of
                       Inl err \<Rightarrow> (Inl (OidcFailed (''oidc id_token validation: '' @ err)), p3)
                     | Inr token \<Rightarrow>
                         if it_Nonce token \<noteq> ls_Nonce ls then (Inl (OidcFailed ''oidc id_token nonce mismatch''), p3)
                         else (case it_Claims token of
                                 None \<Rightarrow> (Inl (OidcFailed ''oidc id_token claims''), p3)
                               | Some claims \<Rightarrow>
                                   (let ident = resolveIdentity p (it_Issuer token) (it_Subject token) claims in
                                    case authorize p ident (emailVerified claims) (stringSlice (map_of claims (oc_GroupsClaim (pv_cfg p)))) of
                                      Some err \<Rightarrow> (Inl err, p3)
                                    | None \<Rightarrow> (Inr ident, p3))))))"

section \<open>The state cookie\<close>

definition oidcStateCookieName :: string where "oidcStateCookieName = ''tl_oidc_state''"
definition oidcStateCookiePath :: string where "oidcStateCookiePath = ''/api/v1/auth/oidc''"
definition oidcStateTTL :: duration where "oidcStateTTL = 10 * minute"

definition oidcErrFailed :: string where "oidcErrFailed = ''sso_failed''"
definition oidcErrDenied :: string where "oidcErrDenied = ''sso_denied''"
definition oidcErrForbidden :: string where "oidcErrForbidden = ''sso_forbidden''"
definition oidcErrExpired :: string where "oidcErrExpired = ''sso_expired''"

record oidc_login_state = login_state +
  ol_Redirect :: string
  ol_Expires :: int

definition unix :: "instant \<Rightarrow> int" where "unix t = t div second"

definition subtleCompare :: "string \<Rightarrow> string \<Rightarrow> int" where
  "subtleCompare a b = (if length a \<noteq> length b then 0 else if a = b then 1 else 0)"

definition signOIDCState :: "oidc_env \<Rightarrow> string \<Rightarrow> string" where
  "signOIDCState env encoded = raw64_encode (ox_mac env encoded)"

definition state_json :: "oidc_login_state \<Rightarrow> json" where
  "state_json st = JObj [(''state'', of_string (ls_State st)), (''nonce'', of_string (ls_Nonce st)), (''verifier'', of_string (ls_Verifier st)),
     (''redirect'', of_string (ol_Redirect st)), (''expires'', JNum (fmt_int (ol_Expires st)))]"

definition sealOIDCState :: "oidc_env \<Rightarrow> oidc_login_state \<Rightarrow> string" where
  "sealOIDCState env st =
     (let encoded = raw64_encode (json_text (state_json st)) in encoded @ ''.'' @ signOIDCState env encoded)"

text \<open>Decoding into the struct: members are matched to fields without regard to case, \<^verbatim>\<open>null\<close> leaves a field alone, a
  value of another type is an error.\<close>

definition set_string :: "(string \<Rightarrow> oidc_login_state \<Rightarrow> oidc_login_state) \<Rightarrow> json \<Rightarrow> oidc_login_state \<Rightarrow> oidc_login_state option" where
  "set_string put v st = (case v of JNull \<Rightarrow> Some st | JStr l \<Rightarrow> map_option (\<lambda>s. put s st) (unquote l) | _ \<Rightarrow> None)"

definition set_member :: "string \<times> json \<Rightarrow> oidc_login_state \<Rightarrow> oidc_login_state option" where
  "set_member m st =
     (let k = member_name (fst m); v = snd m in
      if equal_fold k ''state'' then set_string (\<lambda>s st. st\<lparr>ls_State := s\<rparr>) v st
      else if equal_fold k ''nonce'' then set_string (\<lambda>s st. st\<lparr>ls_Nonce := s\<rparr>) v st
      else if equal_fold k ''verifier'' then set_string (\<lambda>s st. st\<lparr>ls_Verifier := s\<rparr>) v st
      else if equal_fold k ''redirect'' then set_string (\<lambda>s st. st\<lparr>ol_Redirect := s\<rparr>) v st
      else if equal_fold k ''expires'' then
        (case v of JNull \<Rightarrow> Some st | JNum t \<Rightarrow> map_option (\<lambda>n. st\<lparr>ol_Expires := n\<rparr>) (parse_int64 t) | _ \<Rightarrow> None)
      else Some st)"

definition zero_state :: oidc_login_state where
  "zero_state = \<lparr>ls_State = [], ls_Nonce = [], ls_Verifier = [], ol_Redirect = [], ol_Expires = 0\<rparr>"

fun set_members :: "(string \<times> json) list \<Rightarrow> oidc_login_state \<Rightarrow> oidc_login_state option" where
  "set_members [] st = Some st"
| "set_members (m # ms) st = (case set_member m st of None \<Rightarrow> None | Some st1 \<Rightarrow> set_members ms st1)"

definition decode_state :: "string \<Rightarrow> oidc_login_state option" where
  "decode_state payload =
     (case json_decode payload of Some JNull \<Rightarrow> Some zero_state | Some (JObj ms) \<Rightarrow> set_members ms zero_state | _ \<Rightarrow> None)"

definition openOIDCState :: "oidc_env \<Rightarrow> instant \<Rightarrow> string \<Rightarrow> string + oidc_login_state" where
  "openOIDCState env now sealed =
     (if CHR ''.'' \<notin> set sealed then Inl ''malformed state cookie''
      else case cut_at (CHR ''.'') sealed of (encoded, sig) \<Rightarrow>
        if subtleCompare sig (signOIDCState env encoded) \<noteq> 1 then Inl ''state cookie signature mismatch''
        else case raw64_decode encoded of
          None \<Rightarrow> Inl ''decode state cookie''
        | Some payload \<Rightarrow>
            (case decode_state payload of
               None \<Rightarrow> Inl ''unmarshal state cookie''
             | Some st \<Rightarrow> if unix now > ol_Expires st then Inl ''state cookie expired'' else Inr st))"

section \<open>Redirects\<close>

definition safeRedirectPath :: "string \<Rightarrow> string" where
  "safeRedirectPath p =
     (if p = [] \<or> hd p \<noteq> CHR ''/'' then ''/''
      else if length p > 1 \<and> (p ! 1 = CHR ''/'' \<or> p ! 1 = CHR 0x5C) then ''/''
      else p)"

text \<open>\<^verbatim>\<open>path.Clean\<close> of a path that starts with a slash.\<close>

fun clean_segments :: "string list \<Rightarrow> string list \<Rightarrow> string list" where
  "clean_segments acc [] = rev acc"
| "clean_segments acc (s # ss) =
     (if s = [] \<or> s = ''.'' then clean_segments acc ss
      else if s = ''..'' then clean_segments (tl acc) ss
      else clean_segments (s # acc) ss)"

definition clean_path :: "string \<Rightarrow> string" where
  "clean_path p = ''/'' @ str_join ''/'' (clean_segments [] (str_split (CHR ''/'') p))"

definition hexEscapeNonASCII :: "string \<Rightarrow> string" where
  "hexEscapeNonASCII s = concat (map (\<lambda>c. if of_char c \<ge> (128 :: nat) then ''%'' @ hex_encode [c] else [c]) s)"

text \<open>\<^verbatim>\<open>url.Parse\<close> on a path of the site: no control characters before the fragment, well-formed escapes in the
  path and the fragment.\<close>

fun escapes_ok :: "string \<Rightarrow> bool" where
  "escapes_ok [] = True"
| "escapes_ok (c # cs) \<longleftrightarrow>
     (if c = CHR ''%'' then 2 \<le> length cs \<and> from_hex (cs ! 0) \<noteq> None \<and> from_hex (cs ! 1) \<noteq> None else True) \<and> escapes_ok cs"

definition url_parses :: "string \<Rightarrow> bool" where
  "url_parses url \<longleftrightarrow>
     (case cut_at (CHR ''#'') url of (u, frag) \<Rightarrow>
       list_all (\<lambda>c. 32 \<le> (of_char c :: nat) \<and> of_char c \<noteq> (127 :: nat)) u \<and>
       escapes_ok (fst (cut_at (CHR ''?'') u)) \<and> escapes_ok frag)"

text \<open>\<^verbatim>\<open>http.Redirect\<close> to a path that starts with one slash, as \<^const>\<open>safeRedirectPath\<close> gives it: when the URL parses,
  its path is cleaned and keeps a trailing slash. The header is written with line breaks turned into spaces.\<close>

definition redirect_path :: "string \<Rightarrow> string" where
  "redirect_path url =
     (if url_parses url
      then (let path = takeWhile (\<lambda>c. c \<noteq> CHR ''?'') url;
                query = dropWhile (\<lambda>c. c \<noteq> CHR ''?'') url;
                cleaned = clean_path path in
            (if suffix ''/'' path \<and> \<not> suffix ''/'' cleaned then cleaned @ ''/'' else cleaned) @ query)
      else url)"

definition header_value :: "string \<Rightarrow> string" where
  "header_value s = map (\<lambda>c. if c = CHR 0x0A \<or> c = CHR 0x0D then CHR '' '' else c) s"

definition site_location :: "string \<Rightarrow> string" where
  "site_location url = header_value (hexEscapeNonASCII (redirect_path url))"

section \<open>The handlers\<close>

record redirect_answer =
  ra_Location :: string
  ra_Cookies :: "set_cookie list"

definition state_cookie :: "auth_handler \<Rightarrow> request \<Rightarrow> string \<Rightarrow> int \<Rightarrow> set_cookie" where
  "state_cookie h r value maxAge =
     \<lparr>sc_Name = oidcStateCookieName, sc_Value = value, sc_Path = oidcStateCookiePath, sc_HttpOnly = True,
      sc_Secure = (ah_cookieSecure h \<or> isSecureRequest r), sc_Lax = True, sc_MaxAge = maxAge\<rparr>"

text \<open>The codes are letters and an underscore, which escaping leaves alone.\<close>

definition redirectLoginError :: "set_cookie list \<Rightarrow> string \<Rightarrow> redirect_answer" where
  "redirectLoginError cookies code = \<lparr>ra_Location = site_location (''/login?error='' @ code), ra_Cookies = cookies\<rparr>"

definition OIDCLogin ::
  "oidc_env \<Rightarrow> (rat \<Rightarrow> int \<Rightarrow> 'l) \<Rightarrow> ('l \<Rightarrow> instant \<Rightarrow> bool \<times> 'l) \<Rightarrow> auth_handler \<Rightarrow> request \<Rightarrow> (string \<Rightarrow> string)
   \<Rightarrow> 'l ip_rate_limiter \<times> provider \<times> auth_world \<Rightarrow> redirect_answer \<times> 'l ip_rate_limiter \<times> provider \<times> auth_world" where
  "OIDCLogin env newLimiter limiterAllow h r q s =
     (case s of (rl, p, w) \<Rightarrow>
      case allow_ip newLimiter limiterAllow (aw_now w) (rq_ClientIP r) rl of
        (False, rl1) \<Rightarrow> (redirectLoginError [] oidcErrFailed, rl1, p, w)
      | (True, rl1) \<Rightarrow>
          (case BeginLogin env p w of
             (Inl err, p1, w1) \<Rightarrow> (redirectLoginError [] oidcErrFailed, rl1, p1, w1)
           | (Inr (authURL, ls), p1, w1) \<Rightarrow>
               (let st = \<lparr>ls_State = ls_State ls, ls_Nonce = ls_Nonce ls, ls_Verifier = ls_Verifier ls,
                          ol_Redirect = safeRedirectPath (q ''redirect''), ol_Expires = unix (aw_now w1 + oidcStateTTL)\<rparr> in
                (\<lparr>ra_Location = header_value (hexEscapeNonASCII authURL),
                  ra_Cookies = [state_cookie h r (sealOIDCState env st) (oidcStateTTL div second)]\<rparr>, rl1, p1, w1))))"

definition OIDCCallback ::
  "auth_env \<Rightarrow> oidc_env \<Rightarrow> (rat \<Rightarrow> int \<Rightarrow> 'l) \<Rightarrow> ('l \<Rightarrow> instant \<Rightarrow> bool \<times> 'l) \<Rightarrow> auth_handler \<Rightarrow> request \<Rightarrow> (string \<Rightarrow> string)
   \<Rightarrow> 'l ip_rate_limiter \<times> provider \<times> auth_world \<Rightarrow> redirect_answer \<times> 'l ip_rate_limiter \<times> provider \<times> auth_world" where
  "OIDCCallback aenv env newLimiter limiterAllow h r q s =
     (case s of (rl, p, w) \<Rightarrow>
      case allow_ip newLimiter limiterAllow (aw_now w) (rq_ClientIP r) rl of
        (False, rl1) \<Rightarrow> (redirectLoginError [] oidcErrFailed, rl1, p, w)
      | (True, rl1) \<Rightarrow>
          (case rq_Cookie r oidcStateCookieName of
             None \<Rightarrow> (redirectLoginError [] oidcErrExpired, rl1, p, w)
           | Some cookie \<Rightarrow>
               (let clear = state_cookie h r [] (- 1) in
                case openOIDCState env (aw_now w) cookie of
                  Inl err \<Rightarrow> (redirectLoginError [clear] oidcErrExpired, rl1, p, w)
                | Inr st \<Rightarrow>
                    if q ''error'' \<noteq> [] then (redirectLoginError [clear] oidcErrDenied, rl1, p, w)
                    else if subtleCompare (q ''state'') (ls_State st) \<noteq> 1 then (redirectLoginError [clear] oidcErrExpired, rl1, p, w)
                    else if q ''code'' = [] then (redirectLoginError [clear] oidcErrFailed, rl1, p, w)
                    else (case CompleteLogin env (q ''code'') (login_state.truncate st) p of
                            (Inl (NotAuthorized err), p1) \<Rightarrow> (redirectLoginError [clear] oidcErrForbidden, rl1, p1, w)
                          | (Inl (OidcFailed err), p1) \<Rightarrow> (redirectLoginError [clear] oidcErrFailed, rl1, p1, w)
                          | (Inr ident, p1) \<Rightarrow>
                              (case OIDC aenv ident w of
                                 (Inl ErrInactive, w1) \<Rightarrow> (redirectLoginError [clear] oidcErrForbidden, rl1, p1, w1)
                               | (Inl err, w1) \<Rightarrow> (redirectLoginError [clear] oidcErrFailed, rl1, p1, w1)
                               | (Inr user, w1) \<Rightarrow>
                                   (case establishSession aenv h r user w1 of
                                      (Inl err, w2) \<Rightarrow> (redirectLoginError [clear] oidcErrFailed, rl1, p1, w2)
                                    | (Inr ck, w2) \<Rightarrow>
                                        (\<lparr>ra_Location = site_location (ol_Redirect st), ra_Cookies = [clear, ck]\<rparr>, rl1, p1, w2)))))))"

section \<open>A sealed state opens again\<close>

lemma b64_char_any [simp]: "b64_char k \<noteq> b64_pad" "b64_char k \<in> set b64_alphabet"
proof -
  have "b64_char k = b64_char (k mod 64)" by (simp add: b64_char_def)
  then show "b64_char k \<noteq> b64_pad" using b64_char_not_pad [of "k mod 64"] by simp
  have "length b64_alphabet = 64" by (simp add: b64_alphabet_def)
  then show "b64_char k \<in> set b64_alphabet" unfolding b64_char_def by (intro nth_mem) simp
qed

lemma raw64_pad:
  "filter (\<lambda>c. c \<noteq> b64_pad) (b64_encode s) @ replicate ((4 - length (filter (\<lambda>c. c \<noteq> b64_pad) (b64_encode s)) mod 4) mod 4) b64_pad = b64_encode s"
proof (induction s rule: b64_encode.induct)
  case (4 a b c s)
  let ?f = "filter (\<lambda>c. c \<noteq> b64_pad) (b64_encode s)"
  have "length (filter (\<lambda>c. c \<noteq> b64_pad) (b64_encode (a # b # c # s))) = 4 + length ?f" by (simp add: Let_def)
  moreover have "(4 + length ?f) mod 4 = length ?f mod 4" by simp
  ultimately show ?case using 4 by (simp add: Let_def)
next
  case (2 a)
  have "replicate 2 b64_pad = [b64_pad, b64_pad]" by (simp add: numeral_2_eq_2)
  then show ?case by (simp add: Let_def)
qed (simp_all add: Let_def)

lemma raw64_chars: "c \<in> set (raw64_encode s) \<Longrightarrow> c \<in> set b64_alphabet"
proof -
  have "c \<in> set b64_alphabet \<or> c = b64_pad" if "c \<in> set (b64_encode s)" for c
    using that by (induction s rule: b64_encode.induct) (auto simp: Let_def)
  then show "c \<in> set (raw64_encode s) \<Longrightarrow> c \<in> set b64_alphabet" by (auto simp: raw64_encode_def)
qed

lemma alphabet_free: "CHR ''.'' \<notin> set b64_alphabet" "CHR 0x0A \<notin> set b64_alphabet" "CHR 0x0D \<notin> set b64_alphabet"
  by (simp_all add: b64_alphabet_def)

lemma raw64_decode_encode: "raw64_decode (raw64_encode s) = Some s"
proof -
  have "filter (\<lambda>c. c \<noteq> CHR 0x0A \<and> c \<noteq> CHR 0x0D) (raw64_encode s) = raw64_encode s"
    using raw64_chars alphabet_free by (intro filter_True) blast
  moreover have "b64_pad \<notin> set (raw64_encode s)" by (simp add: raw64_encode_def)
  ultimately show ?thesis using raw64_pad [of s] b64_decode_encode_quads [of s]
    by (simp add: raw64_decode_def Let_def) (simp add: raw64_encode_def)
qed

text \<open>Names in lower case fold together only when they are equal.\<close>

definition lower_ascii :: "string \<Rightarrow> bool" where
  "lower_ascii s \<longleftrightarrow> list_all (\<lambda>c. 97 \<le> (of_char c :: nat) \<and> of_char c < (128 :: nat)) s"

lemma fold_rep_lower: "97 \<le> r \<Longrightarrow> r < 128 \<Longrightarrow> fold_rep r = r"
  by (auto simp: fold_rep_def unicode_ToLower_def Let_def fold_pairs_def)

lemma equal_fold_lower: "lower_ascii a \<Longrightarrow> lower_ascii b \<Longrightarrow> equal_fold a b \<longleftrightarrow> a = b"
proof -
  assume h: "lower_ascii a" "lower_ascii b"
  have m: "map fold_rep (runes s) = map of_char s" if "lower_ascii s" for s
  proof -
    have "ascii s" using that by (auto simp: lower_ascii_def ascii_def list_all_iff)
    then show ?thesis using that by (auto simp: runes_ascii lower_ascii_def list_all_iff fold_rep_lower)
  qed
  have "inj (of_char :: char \<Rightarrow> nat)" by (metis byte_of_char injI)
  then show ?thesis using m [OF h(1)] m [OF h(2)] by (simp add: equal_fold_def inj_map_eq_map)
qed

lemma state_names:
  "lower_ascii ''state''" "lower_ascii ''nonce''" "lower_ascii ''verifier''" "lower_ascii ''redirect''" "lower_ascii ''expires''"
  by (simp_all add: lower_ascii_def)

lemma state_lits: "lit_ok ''state''" "lit_ok ''nonce''" "lit_ok ''verifier''" "lit_ok ''redirect''" "lit_ok ''expires''"
  by code_simp+

lemma member_name_lower: "lower_ascii k \<Longrightarrow> backslash \<notin> set k \<Longrightarrow> member_name k = k"
  using unquote_plain [of k] by (auto simp: member_name_def lower_ascii_def ascii_def list_all_iff)

lemma state_member_names:
  "member_name ''state'' = ''state''" "member_name ''nonce'' = ''nonce''" "member_name ''verifier'' = ''verifier''"
  "member_name ''redirect'' = ''redirect''" "member_name ''expires'' = ''expires''"
  by (rule member_name_lower; simp add: state_names backslash_def)+

lemma digits_number: "ds \<noteq> [] \<Longrightarrow> list_all is_digit ds \<Longrightarrow> hd ds \<noteq> CHR ''0'' \<Longrightarrow> valid_number ds \<and> valid_number (CHR ''-'' # ds)"
proof (cases ds)
  case (Cons d ds')
  assume h: "list_all is_digit ds" "hd ds \<noteq> CHR ''0''"
  have "dropWhile is_digit ds' = []" using h(1) Cons by (simp add: list_all_iff)
  then have "valid_fraction (dropWhile is_digit ds')" by (simp only: valid_fraction_def list.case)
  then show ?thesis using h Cons by (auto simp: valid_number_def)
qed simp

lemma fmt_nat_hd_nonzero: "0 < n \<Longrightarrow> hd (fmt_nat n) \<noteq> CHR ''0''"
proof (induction n rule: fmt_nat.induct)
  case (1 n)
  show ?case
  proof (cases "n < 10")
    case True
    have "of_char (digit_char n) = 48 + n" using True by (rule of_char_digit)
    moreover have "of_char (CHR ''0'') = (48 :: nat)" by simp
    ultimately have "digit_char n \<noteq> CHR ''0''" using 1(2) by (metis add_eq_self_zero less_nat_zero_code)
    then show ?thesis using True by (subst fmt_nat.simps) simp
  next
    case False
    then show ?thesis using 1 by (subst fmt_nat.simps) simp
  qed
qed

lemma valid_number_fmt: "valid_number (fmt_int n) \<and> list_all number_char (fmt_int n)"
proof -
  have digits: "list_all is_digit (fmt_nat k)" for k using fmt_nat_digits by (auto simp: list_all_iff)
  have "valid_number (fmt_nat k)" for k
  proof (cases "k = 0")
    case True
    have "fmt_nat 0 = ''0''" by (subst fmt_nat.simps) (simp add: digit_char_def char_of_def bit_Suc_0_iff)
    then show ?thesis using True by (simp add: valid_number_def valid_fraction_def)
  qed (use digits_number [of "fmt_nat k"] digits fmt_nat_hd_nonzero in simp)
  moreover have "valid_number (CHR ''-'' # fmt_nat k)" if "0 < k" for k
    using digits_number [of "fmt_nat k"] digits fmt_nat_hd_nonzero [OF that] by simp
  ultimately have "valid_number (fmt_int n)" by (simp add: fmt_int_def)
  moreover have "number_char c" if "c \<in> set (fmt_int n)" for c
    using fmt_int_chars [OF that] by (auto simp: number_char_def)
  ultimately show ?thesis by (simp add: list_all_iff)
qed

definition state_strings :: "oidc_login_state \<Rightarrow> string list" where
  "state_strings st = [ls_State st, ls_Nonce st, ls_Verifier st, ol_Redirect st]"

lemma state_json_wf: "wf_json maxNestingDepth (state_json st)"
  using valid_number_fmt by (simp add: state_json_def maxNestingDepth_def state_lits of_string_def lit_ok_json_quote)

lemma decode_state_json:
  assumes "list_all valid_utf8 (state_strings st)" "in64 (ol_Expires st)"
  shows "decode_state (json_text (state_json st)) = Some st"
proof -
  note fold = equal_fold_lower [OF state_names(1)] equal_fold_lower [OF state_names(2)] equal_fold_lower [OF state_names(3)]
    equal_fold_lower [OF state_names(4)] equal_fold_lower [OF state_names(5)]
  have set: "set_string f (of_string s) x = Some (f s x)" if "valid_utf8 s" for f s x
    using unquote_json_quote [OF that] by (simp add: set_string_def of_string_def)
  have v: "valid_utf8 (ls_State st)" "valid_utf8 (ls_Nonce st)" "valid_utf8 (ls_Verifier st)" "valid_utf8 (ol_Redirect st)"
    using assms(1) by (simp_all add: state_strings_def)
  have "decode_state (json_text (state_json st)) = set_members (case state_json st of JObj ms \<Rightarrow> ms) zero_state"
    unfolding decode_state_def json_decode_text [OF state_json_wf] by (simp add: state_json_def)
  then show ?thesis
    by (simp add: state_json_def set_member_def state_member_names fold state_names set v parse_fmt_int [OF assms(2)] zero_state_def)
qed

lemma cut_append: "c \<notin> set a \<Longrightarrow> cut_at c (a @ c # b) = (a, b)"
proof -
  assume h: "c \<notin> set a"
  have "takeWhile (\<lambda>x. x \<noteq> c) (a @ c # b) = a" using h by (intro takeWhile_append2 [THEN trans]) auto
  moreover have "dropWhile (\<lambda>x. x \<noteq> c) (a @ c # b) = c # b" using h by (intro dropWhile_append2 [THEN trans]) auto
  ultimately show ?thesis by (simp add: cut_at_def)
qed

lemma open_seal:
  assumes "list_all valid_utf8 (state_strings st)" "in64 (ol_Expires st)" "unix now \<le> ol_Expires st"
  shows "openOIDCState env now (sealOIDCState env st) = Inr st"
proof -
  let ?e = "raw64_encode (json_text (state_json st))"
  have "CHR ''.'' \<notin> set ?e" using raw64_chars alphabet_free by blast
  then have "cut_at (CHR ''.'') (?e @ CHR ''.'' # signOIDCState env ?e) = (?e, signOIDCState env ?e)" by (rule cut_append)
  then show ?thesis using assms raw64_decode_encode decode_state_json [OF assms(1, 2)]
    by (simp add: openOIDCState_def sealOIDCState_def Let_def subtleCompare_def)
qed

lemma open_needs_tag:
  assumes "openOIDCState env now sealed = Inr st"
  obtains encoded where "sealed = encoded @ CHR ''.'' # signOIDCState env encoded" "raw64_decode encoded \<noteq> None" "unix now \<le> ol_Expires st"
proof -
  obtain encoded sig where cut: "cut_at (CHR ''.'') sealed = (encoded, sig)" by fastforce
  have dot: "CHR ''.'' \<in> set sealed" using assms by (auto simp: openOIDCState_def split: if_splits)
  then have "dropWhile (\<lambda>x. x \<noteq> CHR ''.'') sealed \<noteq> []" "hd (dropWhile (\<lambda>x. x \<noteq> CHR ''.'') sealed) = CHR ''.''"
    using hd_dropWhile [of "\<lambda>x. x \<noteq> CHR ''.''" sealed] by (auto simp: dropWhile_eq_Nil_conv)
  then have "dropWhile (\<lambda>x. x \<noteq> CHR ''.'') sealed = CHR ''.'' # sig" using cut
    by (cases "dropWhile (\<lambda>x. x \<noteq> CHR ''.'') sealed") (auto simp: cut_at_def)
  then have "sealed = encoded @ CHR ''.'' # sig" using cut takeWhile_dropWhile_id [of "\<lambda>x. x \<noteq> CHR ''.''" sealed] by (simp add: cut_at_def)
  moreover have "sig = signOIDCState env encoded" "raw64_decode encoded \<noteq> None" "unix now \<le> ol_Expires st"
    using assms dot cut by (auto simp: openOIDCState_def subtleCompare_def split: if_splits option.splits)
  ultimately show ?thesis using that by simp
qed

section \<open>Sessions are opened for gated identities only\<close>

text \<open>What the configuration asks of an identity.\<close>

definition admitted :: "oidc_config \<Rightarrow> string \<Rightarrow> bool \<Rightarrow> string list \<Rightarrow> bool" where
  "admitted cfg email verified groups \<longleftrightarrow>
     (oc_EmailVerifiedRequired cfg \<and> email \<noteq> [] \<longrightarrow> verified) \<and>
     (oc_AllowedDomains cfg \<noteq> [] \<or> oc_AllowedUsers cfg \<noteq> [] \<longrightarrow>
        email \<noteq> [] \<and> ((\<exists>d \<in> set (oc_AllowedDomains cfg). equal_fold d (snd (cut_at (CHR ''@'') email))) \<or>
                     (\<exists>u \<in> set (oc_AllowedUsers cfg). equal_fold u email))) \<and>
     (oc_AllowedGroups cfg \<noteq> [] \<longrightarrow> (\<exists>g \<in> set groups. \<exists>a \<in> set (oc_AllowedGroups cfg). equal_fold a g))"

lemma authorize_admitted: "authorize p ident verified groups = None \<longleftrightarrow> admitted (pv_cfg p) (id_Email ident) verified groups"
  by (auto simp: authorize_def admitted_def Let_def list_containsFold_def list_ex_iff)

lemma subtleCompare_eq: "subtleCompare a b = 1 \<longleftrightarrow> a = b"
  by (auto simp: subtleCompare_def)

lemma CompleteLogin_Inr:
  assumes "CompleteLogin env code ls p = (Inr ident, p')"
  obtains n raw token claims where "ox_exchange env n code (ls_Verifier ls) = Inr (Some raw)" "ox_verify env (n + 1) raw = Inr token"
    "it_Nonce token = ls_Nonce ls" "it_Claims token = Some claims" "ident = resolveIdentity p (it_Issuer token) (it_Subject token) claims"
    "admitted (pv_cfg p) (id_Email ident) (emailVerified claims) (stringSlice (map_of claims (oc_GroupsClaim (pv_cfg p))))"
proof -
  obtain scopes p1 where e: "ensure env p = (Inr scopes, p1)" using assms by (auto simp: CompleteLogin_def split: prod.splits sum.splits)
  show ?thesis using assms e that [of "pv_calls p1"]
    by (auto simp: CompleteLogin_def Let_def authorize_admitted split: sum.splits option.splits if_splits)
qed

text \<open>C33: A callback sets a session cookie only in the flow that began the login: the state cookie carries the tag of
  this server and has not expired, the state parameter is the one in it, the code was exchanged with its verifier
  for a validated ID token with its nonce, the identity passes every configured gate, administrators are members
  of an admin group, and the account is active.\<close>

theorem oidc_session_needs_a_gated_identity:
  assumes "OIDCCallback aenv env newLimiter limiterAllow h r q (rl, p, w) = (ans, rl', p', w')"
    and "ck \<in> set (ra_Cookies ans)" "sc_Name ck = sessionCookieName"
  shows "\<exists>encoded st n raw token claims ident user w1.
    rq_Cookie r oidcStateCookieName = Some (encoded @ CHR ''.'' # signOIDCState env encoded) \<and>
    openOIDCState env (aw_now w) (encoded @ CHR ''.'' # signOIDCState env encoded) = Inr st \<and> unix (aw_now w) \<le> ol_Expires st \<and>
    q ''state'' = ls_State st \<and> ox_exchange env n (q ''code'') (ls_Verifier st) = Inr (Some raw) \<and>
    ox_verify env (n + 1) raw = Inr token \<and> it_Nonce token = ls_Nonce st \<and> it_Claims token = Some claims \<and>
    ident = resolveIdentity p (it_Issuer token) (it_Subject token) claims \<and>
    admitted (pv_cfg p) (id_Email ident) (emailVerified claims) (stringSlice (map_of claims (oc_GroupsClaim (pv_cfg p)))) \<and>
    OIDC aenv ident w = (Inr user, w1) \<and> us_IsActive user \<and> establishSession aenv h r user w1 = (Inr ck, w') \<and>
    ra_Location ans = site_location (ol_Redirect st)"
proof -
  have name: "sc_Name (state_cookie h r v m) \<noteq> sessionCookieName" for v m
    by (simp add: state_cookie_def oidcStateCookieName_def sessionCookieName_def)
  have noerr: "sc_Name ck \<noteq> sessionCookieName" if "ans = redirectLoginError cks code" "set cks \<subseteq> {state_cookie h r [] (- 1)}" for cks code
    using assms(2) that name by (auto simp: redirectLoginError_def)
  obtain ok rl1 where a: "allow_ip newLimiter limiterAllow (aw_now w) (rq_ClientIP r) rl = (ok, rl1)" by fastforce
  note run = assms(1) [unfolded OIDCCallback_def prod.case a]
  have ok using run noerr [of "[]"] assms(3) by (cases ok) auto
  then obtain cookie where cookie: "rq_Cookie r oidcStateCookieName = Some cookie"
    using run noerr [of "[]"] assms(3) by (cases "rq_Cookie r oidcStateCookieName") auto
  let ?clear = "state_cookie h r [] (- 1)"
  obtain st where st: "openOIDCState env (aw_now w) cookie = Inr st"
    using run \<open>ok\<close> cookie noerr [of "[?clear]"] assms(3) by (cases "openOIDCState env (aw_now w) cookie") (auto simp: Let_def)
  have q: "q ''error'' = []" "subtleCompare (q ''state'') (ls_State st) = 1" "q ''code'' \<noteq> []"
    using run \<open>ok\<close> cookie st noerr [of "[?clear]"] assms(3) by (auto simp: Let_def split: if_splits)
  obtain c p1 where c: "CompleteLogin env (q ''code'') (login_state.truncate st) p = (c, p1)" by fastforce
  obtain ident where ident: "c = Inr ident"
    using run \<open>ok\<close> cookie st q c noerr [of "[?clear]"] assms(3) by (cases c) (auto simp: Let_def split: oidc_error.splits)
  obtain u w1 where u: "OIDC aenv ident w = (u, w1)" by fastforce
  obtain user where user: "u = Inr user"
    using run \<open>ok\<close> cookie st q c ident u noerr [of "[?clear]"] assms(3) by (cases u) (auto simp: Let_def split: login_error.splits)
  obtain e w2 where e: "establishSession aenv h r user w1 = (e, w2)" by fastforce
  obtain ck' where ck': "e = Inr ck'"
    using run \<open>ok\<close> cookie st q c ident u user e noerr [of "[?clear]"] assms(3) by (cases e) (auto simp: Let_def)
  have ans: "ans = \<lparr>ra_Location = site_location (ol_Redirect st), ra_Cookies = [?clear, ck']\<rparr>" "w' = w2"
    using run \<open>ok\<close> cookie st q c ident u user e ck' by (simp_all add: Let_def)
  have v: "ls_Verifier (login_state.truncate st) = ls_Verifier st" "ls_Nonce (login_state.truncate st) = ls_Nonce st"
    by (simp_all add: login_state.truncate_def)
  have ckeq: "ck = ck'" using assms(2, 3) ans(1) name by auto
  have active: "us_IsActive user" using u user by (auto simp: OIDC_def split: prod.splits sum.splits if_splits)
  obtain encoded where tag: "cookie = encoded @ CHR ''.'' # signOIDCState env encoded" "unix (aw_now w) \<le> ol_Expires st"
    by (rule open_needs_tag [OF st]) blast
  obtain n raw token claims where cl: "ox_exchange env n (q ''code'') (ls_Verifier st) = Inr (Some raw)" "ox_verify env (n + 1) raw = Inr token"
    "it_Nonce token = ls_Nonce st" "it_Claims token = Some claims" "ident = resolveIdentity p (it_Issuer token) (it_Subject token) claims"
    "admitted (pv_cfg p) (id_Email ident) (emailVerified claims) (stringSlice (map_of claims (oc_GroupsClaim (pv_cfg p))))"
    by (rule CompleteLogin_Inr [OF c [unfolded ident], unfolded v]) blast
  have loc: "ra_Location ans = site_location (ol_Redirect st)" by (simp add: ans(1))
  have state: "q ''state'' = ls_State st" using q(2) subtleCompare_eq by blast
  show ?thesis
    by (rule exI [of _ encoded], rule exI [of _ st], rule exI [of _ n], rule exI [of _ raw], rule exI [of _ token],
        rule exI [of _ claims], rule exI [of _ ident], rule exI [of _ user], rule exI [of _ w1])
      (use cookie [unfolded tag] st [unfolded tag] tag(2) state cl active loc u [unfolded user] e [unfolded ck'] ckeq ans(2) in
        \<open>intro conjI; simp only:\<close>)
qed

definition sso_env :: oidc_env where
  "sso_env = \<lparr>ox_discover = (\<lambda>_ _. True), ox_authURL = (\<lambda>_ ls. ''https://idp/auth?state='' @ ls_State ls), ox_newVerifier = (\<lambda>_. ''v''),
     ox_exchange = (\<lambda>_ _ _. Inr (Some ''raw'')),
     ox_verify = (\<lambda>_ _. Inr \<lparr>it_Issuer = ''iss'', it_Subject = ''sub'', it_Nonce = ''n'', it_Claims = Some []\<rparr>), ox_mac = id\<rparr>"

definition ex_provider :: provider where
  "ex_provider = oidc_New \<lparr>oc_IssuerURL = ''iss'', oc_ClientID = ''c'', oc_ClientSecret = ''s'', oc_RedirectURL = ''/'', oc_Scopes = [],
     oc_UsernameClaim = [], oc_EmailClaim = [], oc_GroupsClaim = [], oc_AllowedDomains = [], oc_AllowedUsers = [],
     oc_AllowedGroups = [], oc_AdminGroups = [], oc_EmailVerifiedRequired = True\<rparr>"

definition ex_state :: oidc_login_state where
  "ex_state = \<lparr>ls_State = ''s'', ls_Nonce = ''n'', ls_Verifier = ''v'', ol_Redirect = ''/x'', ol_Expires = 600\<rparr>"

definition sso_world :: auth_world where
  "sso_world = ex_world\<lparr>aw_store := (aw_store ex_world)\<lparr>as_users := [ex_user\<lparr>ur_oidc := Some (''iss'', ''sub'')\<rparr>]\<rparr>\<rparr>"

definition sso_request :: request where
  "sso_request = ex_request\<lparr>rq_Cookie := (\<lambda>n. if n = oidcStateCookieName then Some (sealOIDCState sso_env ex_state) else None)\<rparr>"

definition sso_handler :: auth_handler where "sso_handler = \<lparr>ah_ldap = None, ah_cookieSecure = True\<rparr>"

lemma ex_complete:
  "\<exists>ident p'. CompleteLogin sso_env code (login_state.truncate ex_state) ex_provider = (Inr ident, p') \<and>
     id_Issuer ident = ''iss'' \<and> id_Subject ident = ''sub'' \<and> id_Email ident = [] \<and> \<not> id_IsAdmin ident"
  by (simp add: CompleteLogin_def ensure_def ex_provider_def oidc_New_def sso_env_def ex_state_def login_state.truncate_def resolveIdentity_def
      claim_string_def authorize_def stringSlice_def trim_space_ascii ascii_def Let_def)

theorem oidc_session_needs_a_gated_identity_witness:
  "\<exists>ck ans rl' p' w' encoded st n raw token. OIDCCallback ex_env sso_env (\<lambda>_ _. ()) (\<lambda>_ _. (True, ())) sso_handler sso_request
        (\<lambda>k. if k = ''state'' then ''s'' else if k = ''code'' then ''c'' else []) ([], ex_provider, sso_world) = (ans, rl', p', w') \<and>
     ck \<in> set (ra_Cookies ans) \<and> sc_Name ck = sessionCookieName \<and>
     openOIDCState sso_env 1 (encoded @ CHR ''.'' # signOIDCState sso_env encoded) = Inr st \<and>
     ox_verify sso_env n raw = Inr token \<and> it_Nonce token = ls_Nonce st"
proof -
  let ?q = "\<lambda>k. if k = ''state'' then ''s'' else if k = ''code'' then ''c'' else []"
  have open_st: "openOIDCState sso_env 1 (sealOIDCState sso_env ex_state) = Inr ex_state"
    by (rule open_seal) (simp_all add: ex_state_def state_strings_def in64_def unix_def second_def valid_utf8_ascii ascii_def)
  obtain ident p' where c: "CompleteLogin sso_env ''c'' (login_state.truncate ex_state) ex_provider = (Inr ident, p')"
    "id_Issuer ident = ''iss''" "id_Subject ident = ''sub''" "id_Email ident = []" "\<not> id_IsAdmin ident" using ex_complete by blast
  obtain user w1 where u: "OIDC ex_env ident sso_world = (Inr user, w1)" "us_ID user = us_ID ex_user"
    "as_sessions (aw_store w1) = as_sessions (aw_store sso_world)" "map us_ID (as_users (aw_store w1)) = [us_ID ex_user]"
    "aw_fail w1 = aw_fail ex_world" "aw_random w1 = aw_random ex_world" "aw_now w1 = aw_now ex_world"
    using c(2-5) by (simp add: OIDC_def db_UpsertOIDCUser_def oidc_refresh_def run_stmt_def sso_world_def ex_defs email_arg_def
        the_user_def user.truncate_def update_users_def upd_def Let_def)
  have "length (b64_encode (replicate 32 (CHR ''r''))) \<noteq> length ''tok''" by (simp add: length_b64_encode)
  then have fresh: "b64_encode (replicate 32 (CHR ''r'')) \<noteq> ''tok''" by metis
  obtain ck w' where es: "establishSession ex_env sso_handler sso_request user w1 = (Inr ck, w')" "sc_Name ck = sessionCookieName"
    using fresh u by (auto simp: establishSession_def GenerateSessionToken_def db_CreateSession_def run_stmt_def Let_def id_taken_def
        ex_defs sso_world_def)
  have now: "aw_now sso_world = 1" by (simp add: sso_world_def ex_world_def)
  have ck: "rq_Cookie sso_request oidcStateCookieName = Some (sealOIDCState sso_env ex_state)" by (simp add: sso_request_def)
  have st: "ls_State ex_state = ''s''" by (simp add: ex_state_def)
  have run: "OIDCCallback ex_env sso_env (\<lambda>_ _. ()) (\<lambda>_ _. (True, ())) sso_handler sso_request ?q ([], ex_provider, sso_world) =
      (\<lparr>ra_Location = site_location (ol_Redirect ex_state), ra_Cookies = [state_cookie sso_handler sso_request [] (- 1), ck]\<rparr>,
       snd (allow_ip (\<lambda>_ _. ()) (\<lambda>_ _. (True, ())) 1 (rq_ClientIP sso_request) []), p', w')"
    using es(1) u(1) c(1) by (simp add: OIDCCallback_def now ck open_st st subtleCompare_eq allow_ip_def Let_def)
  obtain encoded st n raw token where "openOIDCState sso_env 1 (encoded @ CHR ''.'' # signOIDCState sso_env encoded) = Inr st"
    "ox_verify sso_env (n + 1) raw = Inr token" "it_Nonce token = ls_Nonce st"
    using oidc_session_needs_a_gated_identity [OF run, of ck] es(2) unfolding now by auto
  moreover have "ck \<in> set (ra_Cookies \<lparr>ra_Location = site_location (ol_Redirect ex_state),
      ra_Cookies = [state_cookie sso_handler sso_request [] (- 1), ck]\<rparr>)" by simp
  ultimately show ?thesis using run es(2) by blast
qed

lemma ascii_raw64: "ascii (raw64_encode s)"
proof -
  have "list_all (\<lambda>c. of_char c < (128 :: nat)) b64_alphabet" by (simp add: b64_alphabet_def)
  then show ?thesis using raw64_chars [of _ s] by (auto simp: ascii_def list_all_iff)
qed

lemma begin_secrets:
  assumes "BeginLogin env p w = (Inr (authURL, ls), p1, w1)" "\<And>n. ascii (ox_newVerifier env n)"
  shows "aw_now w1 = aw_now w \<and> ascii (ls_State ls) \<and> ascii (ls_Nonce ls) \<and> ascii (ls_Verifier ls)"
  using assms(1) by (auto simp: BeginLogin_def randomToken_def Let_def ascii_raw64 assms(2) split: prod.splits sum.splits option.splits)



section \<open>Where the redirect leads\<close>

text \<open>How a browser reads a location: tabs and line breaks are dropped, and a slash with another slash or a backslash
  behind it names another host.\<close>

definition tab :: char where "tab = CHR 0x09"

definition same_site :: "string \<Rightarrow> bool" where
  "same_site location =
     (case filter (\<lambda>c. c \<noteq> tab \<and> c \<noteq> CHR 0x0A \<and> c \<noteq> CHR 0x0D) location of
        [] \<Rightarrow> False
      | c # cs \<Rightarrow> c = CHR ''/'' \<and> (case cs of [] \<Rightarrow> True | d # _ \<Rightarrow> d \<noteq> CHR ''/'' \<and> d \<noteq> CHR 0x5C))"

definition plain_tail :: "string \<Rightarrow> bool" where
  "plain_tail s \<longleftrightarrow> tab \<notin> set s \<and> (s \<noteq> [] \<longrightarrow> hd s \<noteq> CHR ''/'' \<and> hd s \<noteq> CHR 0x5C)"

lemma hex_digit_graphic: "n < 16 \<Longrightarrow> hex_digit n \<notin> {tab, CHR 0x0A, CHR 0x0D}"
  using from_hex_digit [of n] by (auto simp: from_hex_def tab_def Let_def)

lemma escaped_chars: "tab \<notin> set s \<Longrightarrow> c \<in> set (header_value (hexEscapeNonASCII s)) \<Longrightarrow> c \<notin> {tab, CHR 0x0A, CHR 0x0D}"
proof -
  have "of_char x div 16 < (16 :: nat)" for x :: char
    using of_char_lt [of x] by linarith
  then show "tab \<notin> set s \<Longrightarrow> c \<in> set (header_value (hexEscapeNonASCII s)) \<Longrightarrow> c \<notin> {tab, CHR 0x0A, CHR 0x0D}"
    using hex_digit_graphic by (auto simp: header_value_def hexEscapeNonASCII_def hex_encode_def tab_def split: if_splits)
qed

lemma same_site_plain: "plain_tail s \<Longrightarrow> same_site (header_value (hexEscapeNonASCII (CHR ''/'' # s)))"
proof -
  assume h: "plain_tail s"
  let ?t = "header_value (hexEscapeNonASCII s)"
  have e: "header_value (hexEscapeNonASCII (CHR ''/'' # s)) = CHR ''/'' # ?t"
    by (simp add: header_value_def hexEscapeNonASCII_def)
  have "filter (\<lambda>c. c \<noteq> tab \<and> c \<noteq> CHR 0x0A \<and> c \<noteq> CHR 0x0D) ?t = ?t"
    using escaped_chars [of s] h by (intro filter_True) (auto simp: plain_tail_def)
  moreover have "case ?t of [] \<Rightarrow> True | d # _ \<Rightarrow> d \<noteq> CHR ''/'' \<and> d \<noteq> CHR 0x5C"
    using h by (cases s) (auto simp: plain_tail_def header_value_def hexEscapeNonASCII_def hex_encode_def)
  ultimately show ?thesis unfolding same_site_def e by (simp add: tab_def)
qed

lemma clean_segments_sub: "set (clean_segments acc ss) \<subseteq> set acc \<union> {s \<in> set ss. s \<noteq> []}"
proof (induction acc ss rule: clean_segments.induct)
  case (2 acc s ss)
  have "set (tl acc) \<subseteq> set acc" by (cases acc) auto
  then show ?case using 2 by (auto simp: subset_iff)
qed simp

lemma clean_path_plain: "tab \<notin> set p \<Longrightarrow> CHR 0x5C \<notin> set p \<Longrightarrow> \<exists>s. clean_path p = CHR ''/'' # s \<and> plain_tail s"
proof -
  assume h: "tab \<notin> set p" "CHR 0x5C \<notin> set p"
  let ?ss = "clean_segments [] (str_split (CHR ''/'') p)"
  have seg: "x \<noteq> [] \<and> CHR ''/'' \<notin> set x \<and> set x \<subseteq> set p" if "x \<in> set ?ss" for x
  proof -
    have x: "x \<in> set (str_split (CHR ''/'') p)" "x \<noteq> []" using that clean_segments_sub [of "[]" "str_split (CHR ''/'') p"] by auto
    then show ?thesis using str_split_no_sep [OF x(1)] str_split_chars [OF x(1)] by blast
  qed
  have "plain_tail (str_join ''/'' ?ss)"
  proof (cases ?ss)
    case (Cons x xs)
    then obtain c cs where x: "x = c # cs" "c \<noteq> CHR ''/''" "c \<in> set p" using seg [of x] by (cases x) auto
    then have "hd (str_join ''/'' ?ss) = c" using str_join_hd [of ?ss c cs "''/''"] Cons by auto
    moreover have "tab \<notin> set (str_join ''/'' ?ss)" using str_join_chars [of tab "''/''" ?ss] seg h(1) by (auto simp: tab_def)
    ultimately show ?thesis using x h(2) by (auto simp: plain_tail_def)
  qed (simp add: plain_tail_def)
  then show ?thesis by (simp add: clean_path_def)
qed

lemma plain_tail_append:
  "plain_tail s \<Longrightarrow> tab \<notin> set t \<Longrightarrow> (t \<noteq> [] \<Longrightarrow> s \<noteq> []) \<Longrightarrow> tab \<notin> set q \<Longrightarrow> q = [] \<or> hd q = CHR ''?'' \<Longrightarrow> plain_tail (s @ t @ q)"
  by (cases "s = []") (auto simp: plain_tail_def hd_append)

lemma redirect_path_plain:
  assumes "tab \<notin> set p" "CHR 0x5C \<notin> set p"
  shows "\<exists>s. redirect_path (safeRedirectPath p) = CHR ''/'' # s \<and> plain_tail s"
proof (cases "url_parses (safeRedirectPath p)")
  case False
  then show ?thesis using assms by (cases p; cases "tl p") (auto simp: redirect_path_def safeRedirectPath_def plain_tail_def)
next
  case True
  let ?url = "safeRedirectPath p"
  let ?path = "takeWhile (\<lambda>c. c \<noteq> CHR ''?'') ?url" and ?query = "dropWhile (\<lambda>c. c \<noteq> CHR ''?'') ?url"
  have url: "tab \<notin> set ?url" "CHR 0x5C \<notin> set ?url" using assms by (auto simp: safeRedirectPath_def tab_def)
  then have "tab \<notin> set ?path" "CHR 0x5C \<notin> set ?path" "tab \<notin> set ?query" by (auto dest: set_takeWhileD set_dropWhileD)
  moreover have "?query = [] \<or> hd ?query = CHR ''?''" using hd_dropWhile [of "\<lambda>c. c \<noteq> CHR ''?''" ?url] by blast
  moreover obtain s where s: "clean_path ?path = CHR ''/'' # s" "plain_tail s" using clean_path_plain calculation by blast
  moreover have "s \<noteq> []" if "\<not> suffix ''/'' (clean_path ?path)" using s(1) that by (auto simp: suffix_def)
  ultimately have "plain_tail (s @ (if suffix ''/'' ?path \<and> \<not> suffix ''/'' (clean_path ?path) then ''/'' else []) @ ?query)"
    by (intro plain_tail_append) (simp_all add: tab_def split: if_splits)
  then show ?thesis using True s(1)
    by (cases "suffix ''/'' ?path \<and> \<not> suffix ''/'' (clean_path ?path)") (auto simp: redirect_path_def Let_def)
qed

text \<open>C35: after a login the browser is sent to a page of the site. Whatever redirect the login was started with, if it
  holds neither a tab nor a backslash, the location of the answer is one a browser resolves to the same origin: dot
  segments that the redirect removes and scheme-relative URLs do not lead out of it.\<close>

theorem redirect_stays_on_site:
  assumes "tab \<notin> set p" "CHR 0x5C \<notin> set p"
  shows "same_site (site_location (safeRedirectPath p))"
  using redirect_path_plain [OF assms] same_site_plain by (auto simp: site_location_def)

theorem redirect_stays_on_site_witness:
  "safeRedirectPath ''/.//evil.example'' = ''/.//evil.example'' \<and> same_site (site_location (safeRedirectPath ''/.//evil.example''))"
  using redirect_stays_on_site [of "''/.//evil.example''"] by (simp add: safeRedirectPath_def tab_def)

text \<open>The check looks at the second character only, and both a dot segment in front of a backslash and a tab between two
  slashes pass it.\<close>

lemma redirect_leaves_site:
  "site_location (safeRedirectPath (''/./'' @ CHR 0x5C # ''evil.example'')) = CHR ''/'' # CHR 0x5C # ''evil.example'' \<and>
   \<not> same_site (site_location (safeRedirectPath (''/./'' @ CHR 0x5C # ''evil.example'')))"
  "site_location (safeRedirectPath (CHR ''/'' # tab # ''/evil.example'')) = CHR ''/'' # tab # ''/evil.example'' \<and>
   \<not> same_site (site_location (safeRedirectPath (CHR ''/'' # tab # ''/evil.example'')))"
  by (simp_all add: site_location_def safeRedirectPath_def redirect_path_def url_parses_def cut_at_def clean_path_def
      header_value_def hexEscapeNonASCII_def same_site_def tab_def suffix_def Let_def)

end
