(* ===== verification/Listener.thy ===== *)
theory Listener
  imports Mute
begin

text \<open>
  The PostgreSQL listener of \<^verbatim>\<open>api/internal/postgres/listener.go\<close>: receiving notifications, the last
  seen id of each channel, reconnection with backoff and the gap fill that recovers rows inserted
  during an outage. Functions model the code; a step relation lets rows, deliveries, outages,
  reconnections and gap fills interleave. The lemmas show that no row is lost once a channel has a
  baseline, and bound the delay between reconnection attempts.
\<close>

section \<open>Data\<close>

definition reconnectInitialBackoff :: duration where "reconnectInitialBackoff = second"
definition reconnectMaxBackoff :: duration where "reconnectMaxBackoff = 30 * second"
definition gapFillLimit :: nat where "gapFillLimit = 10000"

definition channelTable :: "string \<rightharpoonup> string" where
  "channelTable = [''srvlog_ingest'' \<mapsto> ''srvlog_events'', ''netlog_ingest'' \<mapsto> ''netlog_events'']"

text \<open>The sends on the notification channel are kept in order in \<^verbatim>\<open>li_out\<close>; the counters are those of
  the metrics package.\<close>

record listener =
  li_channels :: "string list"
  li_lastSeenSrvlogID :: int
  li_lastSeenNetlogID :: int
  li_out :: "ingest_notification list"
  li_parseErrors :: "string \<Rightarrow> nat"
  li_gapFillEvents :: "string \<Rightarrow> nat"
  li_gapFillTruncated :: "string \<Rightarrow> nat"
  li_reconnects :: nat

definition NewListener :: "string list \<Rightarrow> listener" where
  "NewListener channels = \<lparr>li_channels = channels, li_lastSeenSrvlogID = 0, li_lastSeenNetlogID = 0, li_out = [],
     li_parseErrors = (\<lambda>_. 0), li_gapFillEvents = (\<lambda>_. 0), li_gapFillTruncated = (\<lambda>_. 0), li_reconnects = 0\<rparr>"

definition storeLastSeenID :: "string \<Rightarrow> int \<Rightarrow> listener \<Rightarrow> listener" where
  "storeLastSeenID channel i l =
     (if channel = ''srvlog_ingest'' then l\<lparr>li_lastSeenSrvlogID := i\<rparr>
      else if channel = ''netlog_ingest'' then l\<lparr>li_lastSeenNetlogID := i\<rparr> else l)"

definition lastSeenIDForChannel :: "string \<Rightarrow> listener \<Rightarrow> int" where
  "lastSeenIDForChannel channel l =
     (if channel = ''srvlog_ingest'' then li_lastSeenSrvlogID l
      else if channel = ''netlog_ingest'' then li_lastSeenNetlogID l else 0)"

definition emit :: "string \<Rightarrow> int \<Rightarrow> listener \<Rightarrow> listener" where
  "emit channel i l = storeLastSeenID channel i (l\<lparr>li_out := li_out l @ [\<lparr>no_Channel = channel, no_ID = i\<rparr>]\<rparr>)"

section \<open>Receiving\<close>

text \<open>What waiting for a notification gives. \<^verbatim>\<open>ctxDone n\<close> says that the select of the n-th send takes the
  cancelled context instead.\<close>

datatype wait = Notified string string | WaitFailed string

fun recv :: "(nat \<Rightarrow> bool) \<Rightarrow> wait list \<Rightarrow> listener \<Rightarrow> string option \<times> wait list \<times> listener" where
  "recv ctxDone [] l = (None, [], l)"
| "recv ctxDone (WaitFailed err # ws) l = (Some err, ws, l)"
| "recv ctxDone (Notified channel payload # ws) l =
     (case parse_int64 payload of
        None \<Rightarrow> recv ctxDone ws (l\<lparr>li_parseErrors := (li_parseErrors l)(channel := li_parseErrors l channel + 1)\<rparr>)
      | Some i \<Rightarrow>
          if ctxDone (length (li_out l)) then (Some ''context canceled'', ws, l)
          else recv ctxDone ws (emit channel i l))"

section \<open>Reconnecting\<close>

text \<open>One attempt: the context may be cancelled before the timer, connecting may fail, and then the
  random source gives the jitter, below half the backoff.\<close>

datatype attempt = CtxCancelled | Connected | ConnectFailed int

definition next_backoff :: "duration \<Rightarrow> int \<Rightarrow> duration" where
  "next_backoff backoff draw =
     (let b = (if backoff * 2 > reconnectMaxBackoff then reconnectMaxBackoff else backoff * 2) in b + draw mod (b div 2))"

text \<open>The delays waited for, whether a connection was made (None while attempts go on), and the listener.\<close>

fun reconnect_loop :: "duration \<Rightarrow> attempt list \<Rightarrow> listener \<Rightarrow> duration list \<times> bool option \<times> listener" where
  "reconnect_loop backoff [] l = ([], None, l)"
| "reconnect_loop backoff (CtxCancelled # as) l = ([], Some False, l)"
| "reconnect_loop backoff (Connected # as) l = ([backoff], Some True, l\<lparr>li_reconnects := li_reconnects l + 1\<rparr>)"
| "reconnect_loop backoff (ConnectFailed draw # as) l =
     (case reconnect_loop (next_backoff backoff draw) as (l\<lparr>li_reconnects := li_reconnects l + 1\<rparr>) of
        (ds, r, l1) \<Rightarrow> (backoff # ds, r, l1))"

definition reconnect :: "attempt list \<Rightarrow> listener \<Rightarrow> duration list \<times> bool option \<times> listener" where
  "reconnect = reconnect_loop reconnectInitialBackoff"

section \<open>Filling the gap\<close>

text \<open>The rows of a query arrive one by one, each scanned or failing to scan, with an error at the end
  or none.\<close>

type_synonym gap_rows = "string + (string + int) list \<times> string option"

text \<open>The loop over the rows: how many were sent, and whether the loop ran to the end.\<close>

fun fill_rows :: "(nat \<Rightarrow> bool) \<Rightarrow> string \<Rightarrow> (string + int) list \<Rightarrow> nat \<Rightarrow> listener \<Rightarrow> nat \<times> bool \<times> listener" where
  "fill_rows ctxDone channel [] count l = (count, True, l)"
| "fill_rows ctxDone channel (Inl err # rows) count l = (count, False, l)"
| "fill_rows ctxDone channel (Inr i # rows) count l =
     (if ctxDone (length (li_out l)) then (count, False, l)
      else fill_rows ctxDone channel rows (count + 1) (emit channel i l))"

definition fillGapForChannel ::
  "(string \<Rightarrow> int \<Rightarrow> nat \<Rightarrow> gap_rows) \<Rightarrow> (nat \<Rightarrow> bool) \<Rightarrow> string \<Rightarrow> listener \<Rightarrow> listener" where
  "fillGapForChannel query ctxDone channel l =
     (let lastID = lastSeenIDForChannel channel l in
      if lastID = 0 then l
      else (case channelTable channel of
              None \<Rightarrow> l
            | Some table \<Rightarrow>
                (case query table lastID gapFillLimit of
                   Inl err \<Rightarrow> l
                 | Inr (rows, err) \<Rightarrow>
                     (case fill_rows ctxDone channel rows 0 l of
                        (count, complete, l1) \<Rightarrow>
                          if \<not> complete \<or> err \<noteq> None then l1
                          else (let l2 = (if count > 0
                                          then l1\<lparr>li_gapFillEvents := (li_gapFillEvents l1)(channel := li_gapFillEvents l1 channel + count)\<rparr>
                                          else l1) in
                                if count = gapFillLimit
                                then l2\<lparr>li_gapFillTruncated := (li_gapFillTruncated l2)(channel := li_gapFillTruncated l2 channel + 1)\<rparr>
                                else l2)))))"

definition fillGap ::
  "(string \<Rightarrow> int \<Rightarrow> nat \<Rightarrow> gap_rows) \<Rightarrow> (nat \<Rightarrow> bool) \<Rightarrow> listener \<Rightarrow> listener" where
  "fillGap query ctxDone l = fold (fillGapForChannel query ctxDone) (li_channels l) l"

section \<open>Backoff\<close>

lemma next_backoff_range:
  assumes "second \<le> backoff"
  shows "second \<le> next_backoff backoff draw" "next_backoff backoff draw < 45 * second"
proof -
  let ?b = "if backoff * 2 > reconnectMaxBackoff then reconnectMaxBackoff else backoff * 2"
  have b: "2 * second \<le> ?b" "?b \<le> 30 * second" "0 < ?b div 2"
    using assms by (auto simp: reconnectMaxBackoff_def duration_units)
  have "0 \<le> draw mod (?b div 2)" "draw mod (?b div 2) < ?b div 2"
    using pos_mod_sign [OF b(3)] pos_mod_bound [OF b(3)] by blast+
  then show "second \<le> next_backoff backoff draw" "next_backoff backoff draw < 45 * second"
    using b unfolding next_backoff_def Let_def duration_units by linarith+
qed

lemma reconnect_loop_range:
  assumes "reconnect_loop backoff as l = (ds, r, l')" "second \<le> backoff" "backoff < 45 * second"
  shows "(\<forall>d \<in> set ds. second \<le> d \<and> d < 45 * second) \<and> li_reconnects l' = li_reconnects l + length ds"
  using assms
proof (induction backoff as l arbitrary: ds r l' rule: reconnect_loop.induct)
  case (4 backoff draw as l)
  obtain ds' r' l1 where rec: "reconnect_loop (next_backoff backoff draw) as (l\<lparr>li_reconnects := li_reconnects l + 1\<rparr>) = (ds', r', l1)"
    by (metis prod_cases3)
  then show ?case using "4.IH" [OF rec] "4.prems" next_backoff_range [OF "4.prems"(2)] by auto
qed auto

text \<open>The first reconnection attempt comes after one second; every delay is at least one second
  and under 45 seconds, half as much again as the nominal maximum of 30, because the jitter is added
  after the cap; the attempts counted are the delays waited for.\<close>

lemma reconnect_delays_are_bounded:
  assumes "reconnect as l = (ds, r, l')"
  shows "(\<forall>d \<in> set ds. second \<le> d \<and> d < 45 * second) \<and> (ds \<noteq> [] \<longrightarrow> hd ds = second) \<and>
    li_reconnects l' = li_reconnects l + length ds"
proof -
  have "ds \<noteq> [] \<longrightarrow> hd ds = second"
    using assms unfolding reconnect_def reconnectInitialBackoff_def
    by (cases as rule: list.exhaust; cases "hd as") (auto split: prod.splits)
  then show ?thesis
    using reconnect_loop_range [of reconnectInitialBackoff as l ds r l'] assms
    by (simp add: reconnect_def reconnectInitialBackoff_def duration_units)
qed


section \<open>Rows, outages and gap fills\<close>

text \<open>The tables, the queue of the listening connection (None while it is down), and whether a gap fill
  is due. Rows become visible in the order of their ids.\<close>

record listen_feed =
  fd_l :: listener
  fd_rows :: "string \<Rightarrow> int list"
  fd_conn :: "(string \<times> string) list option"
  fd_filling :: bool

definition select_ids :: "(string \<Rightarrow> int list) \<Rightarrow> string \<Rightarrow> int \<Rightarrow> nat \<Rightarrow> gap_rows" where
  "select_ids rows table lastID limit = Inr (map Inr (take limit (sort (filter (\<lambda>i. i > lastID) (rows table)))), None)"

definition table_of :: "string \<Rightarrow> string" where "table_of c = the (channelTable c)"

definition missing :: "listen_feed \<Rightarrow> string \<Rightarrow> int list" where
  "missing fd c = filter (\<lambda>i. i > lastSeenIDForChannel c (fd_l fd)) (fd_rows fd (table_of c))"

inductive feed_step :: "listen_feed \<Rightarrow> listen_feed \<Rightarrow> bool" where
  insert_row: "c \<in> set (li_channels (fd_l fd)) \<Longrightarrow> channelTable c = Some t \<Longrightarrow> \<forall>j \<in> set (fd_rows fd t). j < i \<Longrightarrow> 0 < i \<Longrightarrow> in64 i \<Longrightarrow>
    feed_step fd (fd\<lparr>fd_rows := (fd_rows fd)(t := fd_rows fd t @ [i]),
                     fd_conn := map_option (\<lambda>q. q @ [(c, fmt_int i)]) (fd_conn fd)\<rparr>)"
| deliver: "fd_conn fd = Some ((c, p) # q) \<Longrightarrow> \<not> fd_filling fd \<Longrightarrow>
    recv (\<lambda>_. False) [Notified c p] (fd_l fd) = (None, [], l) \<Longrightarrow>
    feed_step fd (fd\<lparr>fd_l := l, fd_conn := Some q\<rparr>)"
| lose: "feed_step fd (fd\<lparr>fd_conn := None\<rparr>)"
| reconnected: "fd_conn fd = None \<Longrightarrow> \<not> fd_filling fd \<Longrightarrow> reconnect as (fd_l fd) = (ds, Some True, l) \<Longrightarrow>
    feed_step fd (fd\<lparr>fd_l := l, fd_conn := Some [], fd_filling := True\<rparr>)"
| fill: "fd_filling fd \<Longrightarrow> \<forall>c \<in> set (li_channels (fd_l fd)). length (missing fd c) \<le> gapFillLimit \<Longrightarrow>
    feed_step fd (fd\<lparr>fd_l := fillGap (select_ids (fd_rows fd)) (\<lambda>_. False) (fd_l fd), fd_filling := False\<rparr>)"

definition out_of :: "listener \<Rightarrow> string \<Rightarrow> int list" where
  "out_of l c = map no_ID (filter (\<lambda>n. no_Channel n = c) (li_out l))"

definition sent :: "listen_feed \<Rightarrow> string \<Rightarrow> int list" where "sent fd c = out_of (fd_l fd) c"

fun queue_of :: "string \<Rightarrow> (string \<times> string) list \<Rightarrow> int list" where
  "queue_of c [] = []"
| "queue_of c ((d, p) # q) =
     (if d = c then (case parse_int64 p of None \<Rightarrow> queue_of c q | Some i \<Rightarrow> i # queue_of c q) else queue_of c q)"

lemma queue_of_append: "queue_of c (q @ q') = queue_of c q @ queue_of c q'"
  by (induction c q rule: queue_of.induct) (auto split: option.split)

definition queued :: "listen_feed \<Rightarrow> string \<Rightarrow> int list" where
  "queued fd c = (case fd_conn fd of None \<Rightarrow> [] | Some q \<Rightarrow> queue_of c q)"

subsection \<open>What a send and a gap fill do to each channel\<close>

lemma known_channel: "channelTable c = Some t \<Longrightarrow> c = ''srvlog_ingest'' \<or> c = ''netlog_ingest''"
  by (auto simp: channelTable_def split: if_splits)

lemma table_of_inj: "channelTable c = Some t \<Longrightarrow> channelTable d = Some u \<Longrightarrow> t = u \<longleftrightarrow> c = d"
  by (auto simp: channelTable_def split: if_splits)

lemma emit_simps [simp]:
  "li_channels (emit d i l) = li_channels l"
  "li_out (emit d i l) = li_out l @ [\<lparr>no_Channel = d, no_ID = i\<rparr>]"
  by (simp_all add: emit_def storeLastSeenID_def)

lemma out_of_emit [simp]: "out_of (emit d i l) c = (if d = c then out_of l c @ [i] else out_of l c)"
  by (simp add: out_of_def)

lemma lastSeen_emit:
  "channelTable c = Some t \<Longrightarrow> lastSeenIDForChannel c (emit d i l) = (if d = c then i else lastSeenIDForChannel c l)"
  by (drule known_channel) (auto simp: emit_def storeLastSeenID_def lastSeenIDForChannel_def)

lemma fill_rows_emits: "fill_rows (\<lambda>_. False) c (map Inr is) n l = (n + length is, True, fold (emit c) is l)"
  by (induction "is" arbitrary: n l) simp_all

lemma fold_emit:
  "out_of (fold (emit d) is l) c = (if d = c then out_of l c @ is else out_of l c)"
  "li_channels (fold (emit d) is l) = li_channels l"
  "channelTable c = Some t \<Longrightarrow>
     lastSeenIDForChannel c (fold (emit d) is l) = (if d = c \<and> is \<noteq> [] then last is else lastSeenIDForChannel c l)"
  by (induction "is" arbitrary: l) (auto simp: lastSeen_emit)

text \<open>The rows of a channel a gap fill has to recover.\<close>

definition gap :: "(string \<Rightarrow> int list) \<Rightarrow> listener \<Rightarrow> string \<Rightarrow> int list" where
  "gap rows l c = (if lastSeenIDForChannel c l = 0 then [] else filter (\<lambda>i. i > lastSeenIDForChannel c l) (rows (table_of c)))"

lemma fillGapForChannel_recovers:
  assumes d: "channelTable d = Some u" and rows: "sorted (rows (table_of d))" "length (gap rows l d) \<le> gapFillLimit"
  shows "out_of (fillGapForChannel (select_ids rows) (\<lambda>_. False) d l) c = (if d = c then out_of l c @ gap rows l c else out_of l c)"
    and "li_channels (fillGapForChannel (select_ids rows) (\<lambda>_. False) d l) = li_channels l"
    and "channelTable c = Some t \<Longrightarrow> lastSeenIDForChannel c (fillGapForChannel (select_ids rows) (\<lambda>_. False) d l)
      = (if d = c \<and> gap rows l c \<noteq> [] then last (gap rows l c) else lastSeenIDForChannel c l)"
proof -
  let ?l = "fillGapForChannel (select_ids rows) (\<lambda>_. False) d l"
  have "li_out ?l = li_out (fold (emit d) (gap rows l d) l) \<and> li_channels ?l = li_channels l \<and>
      li_lastSeenSrvlogID ?l = li_lastSeenSrvlogID (fold (emit d) (gap rows l d) l) \<and>
      li_lastSeenNetlogID ?l = li_lastSeenNetlogID (fold (emit d) (gap rows l d) l)"
  proof (cases "lastSeenIDForChannel d l = 0")
    case False
    have "sort (filter (\<lambda>i. i > lastSeenIDForChannel d l) (rows u)) = gap rows l d"
      using sorted_filter [of "\<lambda>i. i" "rows u"] rows(1) d False by (simp add: gap_def table_of_def sorted_sort_id)
    then have "take gapFillLimit (sort (filter (\<lambda>i. i > lastSeenIDForChannel d l) (rows u))) = gap rows l d"
      using rows(2) by simp
    then show ?thesis
      using False d by (simp add: fillGapForChannel_def select_ids_def fill_rows_emits fold_emit(2) Let_def)
  qed (simp add: fillGapForChannel_def gap_def)
  then have same: "out_of ?l c = out_of (fold (emit d) (gap rows l d) l) c" "li_channels ?l = li_channels l"
    "lastSeenIDForChannel c ?l = lastSeenIDForChannel c (fold (emit d) (gap rows l d) l)" for c
    by (simp_all add: out_of_def lastSeenIDForChannel_def)
  show "out_of ?l c = (if d = c then out_of l c @ gap rows l c else out_of l c)"
    and "li_channels ?l = li_channels l" by (simp_all add: same fold_emit)
  show "channelTable c = Some t \<Longrightarrow> lastSeenIDForChannel c ?l
      = (if d = c \<and> gap rows l c \<noteq> [] then last (gap rows l c) else lastSeenIDForChannel c l)"
    by (auto simp: same fold_emit)
qed

lemma fill_channels_recover:
  assumes "distinct cs" "\<forall>d \<in> set cs. channelTable d \<noteq> None \<and> sorted (rows (table_of d)) \<and> length (gap rows l d) \<le> gapFillLimit"
    and c: "channelTable c = Some t"
  shows "out_of (fold (fillGapForChannel (select_ids rows) (\<lambda>_. False)) cs l) c
      = (if c \<in> set cs then out_of l c @ gap rows l c else out_of l c)"
    and "lastSeenIDForChannel c (fold (fillGapForChannel (select_ids rows) (\<lambda>_. False)) cs l)
      = (if c \<in> set cs \<and> gap rows l c \<noteq> [] then last (gap rows l c) else lastSeenIDForChannel c l)"
    and "li_channels (fold (fillGapForChannel (select_ids rows) (\<lambda>_. False)) cs l) = li_channels l"
proof -
  have "out_of (fold (fillGapForChannel (select_ids rows) (\<lambda>_. False)) cs l) c = (if c \<in> set cs then out_of l c @ gap rows l c else out_of l c) \<and>
    lastSeenIDForChannel c (fold (fillGapForChannel (select_ids rows) (\<lambda>_. False)) cs l)
      = (if c \<in> set cs \<and> gap rows l c \<noteq> [] then last (gap rows l c) else lastSeenIDForChannel c l) \<and>
    li_channels (fold (fillGapForChannel (select_ids rows) (\<lambda>_. False)) cs l) = li_channels l"
    using assms(1,2)
  proof (induction cs arbitrary: l)
    case (Cons d cs)
    let ?l = "fillGapForChannel (select_ids rows) (\<lambda>_. False) d l"
    obtain u where d: "channelTable d = Some u" using Cons.prems by auto
    note fill = fillGapForChannel_recovers [OF d, of rows l]
    have rows: "sorted (rows (table_of d))" "length (gap rows l d) \<le> gapFillLimit" using Cons.prems by auto
    have other: "gap rows ?l e = gap rows l e" if e: "e \<in> set cs" for e
    proof -
      obtain v where "channelTable e = Some v" "d \<noteq> e" using e Cons.prems by auto
      then show ?thesis using fill(3) [OF rows, of e v] by (simp add: gap_def)
    qed
    have IH: "\<forall>e \<in> set cs. channelTable e \<noteq> None \<and> sorted (rows (table_of e)) \<and> length (gap rows ?l e) \<le> gapFillLimit"
      using Cons.prems other by auto
    show ?case
    proof (cases "c = d")
      case True
      then show ?thesis using Cons.IH [OF _ IH] Cons.prems fill [OF rows] c by simp
    next
      case False
      then show ?thesis using Cons.IH [OF _ IH] Cons.prems fill [OF rows] c other by auto
    qed
  qed simp
  then show "out_of (fold (fillGapForChannel (select_ids rows) (\<lambda>_. False)) cs l) c
      = (if c \<in> set cs then out_of l c @ gap rows l c else out_of l c)"
    and "lastSeenIDForChannel c (fold (fillGapForChannel (select_ids rows) (\<lambda>_. False)) cs l)
      = (if c \<in> set cs \<and> gap rows l c \<noteq> [] then last (gap rows l c) else lastSeenIDForChannel c l)"
    and "li_channels (fold (fillGapForChannel (select_ids rows) (\<lambda>_. False)) cs l) = li_channels l"
    by blast+
qed

subsection \<open>Nothing is lost\<close>

text \<open>Per channel, for its rows \<^verbatim>\<open>R\<close>, what was sent \<^verbatim>\<open>S\<close>, the connection's queue \<^verbatim>\<open>P\<close> and the last seen id \<^verbatim>\<open>L\<close>:
  ids grow, what was sent ends with the last seen id, the queue is a suffix of the rows, and every row
  from the first sent one on is sent, queued, or above the last seen id while a gap fill is still to come.\<close>

definition chan_ok :: "int list \<Rightarrow> int list \<Rightarrow> int list \<Rightarrow> int \<Rightarrow> bool \<Rightarrow> bool \<Rightarrow> bool" where
  "chan_ok R S P L down filling \<longleftrightarrow>
     sorted_wrt (<) R \<and> (\<forall>i \<in> set R. 0 < i) \<and> (S = [] \<longrightarrow> L = 0) \<and> (S \<noteq> [] \<longrightarrow> L = last S) \<and> set S \<subseteq> set R \<and>
     sorted_wrt (<) P \<and> set P \<subseteq> set R \<and> (filling \<longrightarrow> (\<forall>p \<in> set P. L < p)) \<and>
     (\<forall>p \<in> set P. p \<in> set S \<or> L < p) \<and> (\<forall>p \<in> set P. \<forall>i \<in> set R. p < i \<longrightarrow> i \<in> set P) \<and>
     (S \<noteq> [] \<longrightarrow> (\<forall>i \<in> set R. hd S \<le> i \<longrightarrow> i \<in> set S \<or> i \<in> set P \<or> L < i \<and> (down \<or> filling)))"

lemma ok_bound: "chan_ok R S P L down filling \<Longrightarrow> L = 0 \<or> L \<in> set R"
  unfolding chan_ok_def by (metis last_in_set subset_iff)

lemma chan_okD:
  assumes "chan_ok R S P L down filling"
  shows "sorted_wrt (<) R" "\<And>i. i \<in> set R \<Longrightarrow> 0 < i" "S = [] \<Longrightarrow> L = 0" "S \<noteq> [] \<Longrightarrow> L = last S" "set S \<subseteq> set R"
    "sorted_wrt (<) P" "set P \<subseteq> set R" "\<And>p. filling \<Longrightarrow> p \<in> set P \<Longrightarrow> L < p"
    "\<And>p. p \<in> set P \<Longrightarrow> p \<in> set S \<or> L < p" "\<And>p i. p \<in> set P \<Longrightarrow> i \<in> set R \<Longrightarrow> p < i \<Longrightarrow> i \<in> set P"
    "\<And>i. S \<noteq> [] \<Longrightarrow> i \<in> set R \<Longrightarrow> hd S \<le> i \<Longrightarrow> i \<in> set S \<or> i \<in> set P \<or> L < i \<and> (down \<or> filling)"
  using assms unfolding chan_ok_def by blast+

lemma chan_okI:
  assumes "sorted_wrt (<) R" "\<And>i. i \<in> set R \<Longrightarrow> 0 < i" "S = [] \<Longrightarrow> L = 0" "S \<noteq> [] \<Longrightarrow> L = last S" "set S \<subseteq> set R"
    "sorted_wrt (<) P" "set P \<subseteq> set R" "\<And>p. filling \<Longrightarrow> p \<in> set P \<Longrightarrow> L < p"
    "\<And>p. p \<in> set P \<Longrightarrow> p \<in> set S \<or> L < p" "\<And>p i. p \<in> set P \<Longrightarrow> i \<in> set R \<Longrightarrow> p < i \<Longrightarrow> i \<in> set P"
    "\<And>i. S \<noteq> [] \<Longrightarrow> i \<in> set R \<Longrightarrow> hd S \<le> i \<Longrightarrow> i \<in> set S \<or> i \<in> set P \<or> L < i \<and> (down \<or> filling)"
  shows "chan_ok R S P L down filling"
  unfolding chan_ok_def using assms by blast

lemma ok_insert_up:
  assumes ok: "chan_ok R S P L down filling" and i: "\<forall>j \<in> set R. j < i" "0 < i"
  shows "chan_ok (R @ [i]) S (P @ [i]) L down filling"
proof -
  note d = chan_okD [OF ok]
  have "L < i" using ok_bound [OF ok] i by auto
  moreover have "j \<in> set (P @ [i])" if "p \<in> set (P @ [i])" "j \<in> set (R @ [i])" "p < j" for p j
    using that d(7) d(10) [of p j] i by (auto dest: less_asym)
  ultimately show ?thesis
  proof (intro chan_okI)
    fix j
    assume "S \<noteq> []" "j \<in> set (R @ [i])" "hd S \<le> j"
    then show "j \<in> set S \<or> j \<in> set (P @ [i]) \<or> L < j \<and> (down \<or> filling)" using d(11) [of j] by auto
  qed (use d(1-9) i in \<open>auto simp: sorted_wrt_append\<close>)
qed

lemma ok_insert_down:
  assumes ok: "chan_ok R S [] L True filling" and i: "\<forall>j \<in> set R. j < i" "0 < i"
  shows "chan_ok (R @ [i]) S [] L True filling"
proof -
  note d = chan_okD [OF ok]
  have "L < i" using ok_bound [OF ok] i by auto
  then show ?thesis by (intro chan_okI) (use d i in \<open>auto simp: sorted_wrt_append\<close>)
qed

lemma ok_lose: "chan_ok R S P L down filling \<Longrightarrow> chan_ok R S [] L True filling"
  unfolding chan_ok_def by (auto split: if_splits)

lemma ok_reconnect: "chan_ok R S [] L True False \<Longrightarrow> chan_ok R S [] L down True"
  unfolding chan_ok_def by (auto split: if_splits)

lemma ok_deliver:
  assumes ok: "chan_ok R S (i # P) L False False"
  shows "chan_ok R (S @ [i]) P i False False"
proof -
  note d = chan_okD [OF ok]
  have suffix: "j = i \<or> j \<in> set P" if "j \<in> set R" "i \<le> j" for j using d(10) [of i j] that by (cases "i = j") auto
  show ?thesis
  proof (intro chan_okI)
    fix j
    assume "S @ [i] \<noteq> []" "j \<in> set R" "hd (S @ [i]) \<le> j"
    then show "j \<in> set (S @ [i]) \<or> j \<in> set P \<or> i < j \<and> (False \<or> False)"
      using suffix [of j] d(11) [of j] by (cases S) auto
  next
    fix p j
    assume "p \<in> set P" "j \<in> set R" "p < j"
    then show "j \<in> set P" using d(6) d(10) [of p j] by auto
  qed (use d(1,2,5-7) in auto)
qed

lemma ok_fill:
  assumes ok: "chan_ok R S P L down True"
  defines "M \<equiv> if L = 0 then [] else filter (\<lambda>i. i > L) R"
  shows "chan_ok R (S @ M) P (if M = [] then L else last M) down False"
proof (cases "S = []")
  case True
  note d = chan_okD [OF ok]
  have "L = 0" "M = []" using True d(3) by (simp_all add: M_def)
  then show ?thesis unfolding True by (intro chan_okI) (use d True in auto)
next
  case False
  note d = chan_okD [OF ok]
  have "L \<in> set R" using d(4,5) False last_in_set by blast
  then have "L \<noteq> 0" using d(2) by force
  then have M: "set M = {i \<in> set R. L < i}" by (auto simp: M_def)
  show ?thesis
  proof (intro chan_okI)
    fix j
    assume "j \<in> set R" "hd (S @ M) \<le> j"
    then show "j \<in> set (S @ M) \<or> j \<in> set P \<or> (if M = [] then L else last M) < j \<and> (down \<or> False)"
      using d(11) [of j] False M by auto
  next
    fix p
    assume "p \<in> set P"
    then show "p \<in> set (S @ M) \<or> (if M = [] then L else last M) < p" using d(7) d(8) [of p] M by auto
  qed (use d False M in auto)
qed

definition chan_inv :: "listen_feed \<Rightarrow> string \<Rightarrow> bool" where
  "chan_inv fd c \<longleftrightarrow> chan_ok (fd_rows fd (table_of c)) (sent fd c) (queued fd c) (lastSeenIDForChannel c (fd_l fd))
     (fd_conn fd = None) (fd_filling fd)"

definition feed_inv :: "listen_feed \<Rightarrow> bool" where
  "feed_inv fd \<longleftrightarrow> distinct (li_channels (fd_l fd)) \<and>
     (\<forall>c \<in> set (li_channels (fd_l fd)). channelTable c \<noteq> None \<and> chan_inv fd c)"

lemma queued_down: "fd_conn fd = None \<Longrightarrow> queued fd c = []"
  by (simp add: queued_def)

lemma chan_inv_insert:
  assumes inv: "chan_inv fd c" and c: "channelTable c = Some t'" and d: "channelTable d = Some t"
    and i: "\<forall>j \<in> set (fd_rows fd t). j < i" "0 < i" "in64 i"
  shows "chan_inv (fd\<lparr>fd_rows := (fd_rows fd)(t := fd_rows fd t @ [i]), fd_conn := map_option (\<lambda>q. q @ [(d, fmt_int i)]) (fd_conn fd)\<rparr>) c"
    (is "chan_inv ?fd c")
proof (cases "c = d")
  case False
  then have "table_of c \<noteq> t" using table_of_inj [OF c d] c by (simp add: table_of_def)
  moreover have "queued ?fd c = queued fd c" using False by (simp add: queued_def queue_of_append split: option.split)
  ultimately show ?thesis using inv by (simp add: chan_inv_def sent_def)
next
  case True
  then have t: "table_of c = t" using d by (simp add: table_of_def)
  show ?thesis
  proof (cases "fd_conn fd")
    case None
    then show ?thesis using inv ok_insert_down [of "fd_rows fd t"] i by (simp add: chan_inv_def sent_def t queued_down)
  next
    case (Some q)
    then have "queued ?fd c = queued fd c @ [i]"
      using True parse_fmt_int [OF i(3)] by (simp add: queued_def queue_of_append)
    then show ?thesis using Some inv ok_insert_up [of "fd_rows fd t"] i by (simp add: chan_inv_def sent_def t)
  qed
qed

lemma recv_one:
  "recv (\<lambda>_. False) [Notified d p] l = (None, [], l') \<Longrightarrow>
   (case parse_int64 p of
      None \<Rightarrow> l' = l\<lparr>li_parseErrors := (li_parseErrors l)(d := li_parseErrors l d + 1)\<rparr> | Some i \<Rightarrow> l' = emit d i l)"
  by (auto split: option.splits)

lemma chan_inv_deliver:
  assumes inv: "chan_inv fd c" and c: "channelTable c = Some t"
    and q: "fd_conn fd = Some ((d, p) # q)" "\<not> fd_filling fd" and r: "recv (\<lambda>_. False) [Notified d p] (fd_l fd) = (None, [], l)"
  shows "chan_inv (fd\<lparr>fd_l := l, fd_conn := Some q\<rparr>) c"
proof (cases "parse_int64 p")
  case None
  then have "l = (fd_l fd)\<lparr>li_parseErrors := (li_parseErrors (fd_l fd))(d := li_parseErrors (fd_l fd) d + 1)\<rparr>"
    using recv_one [OF r] by simp
  then have "out_of l c = out_of (fd_l fd) c" "lastSeenIDForChannel c l = lastSeenIDForChannel c (fd_l fd)"
    by (simp_all add: out_of_def lastSeenIDForChannel_def)
  then show ?thesis using inv q None by (simp add: chan_inv_def sent_def queued_def split: if_splits)
next
  case (Some i)
  then have l: "l = emit d i (fd_l fd)" using recv_one [OF r] by simp
  show ?thesis
  proof (cases "d = c")
    case True
    then have "queued fd c = i # queued (fd\<lparr>fd_l := l, fd_conn := Some q\<rparr>) c"
      using q Some by (simp add: queued_def)
    then show ?thesis using inv q True ok_deliver by (simp add: chan_inv_def sent_def l lastSeen_emit [OF c])
  next
    case False
    then show ?thesis using inv q by (simp add: chan_inv_def sent_def l lastSeen_emit [OF c] queued_def)
  qed
qed

lemma reconnect_frame:
  assumes "reconnect as l = (ds, r, l')"
  shows "out_of l' c = out_of l c" "lastSeenIDForChannel c l' = lastSeenIDForChannel c l" "li_channels l' = li_channels l"
proof -
  have "out_of l' c = out_of l c \<and> lastSeenIDForChannel c l' = lastSeenIDForChannel c l \<and> li_channels l' = li_channels l"
    if "reconnect_loop b as l = (ds, r, l')" for b
    using that by (induction b as l arbitrary: ds rule: reconnect_loop.induct)
      (auto simp: out_of_def lastSeenIDForChannel_def split: prod.splits)
  then show "out_of l' c = out_of l c" "lastSeenIDForChannel c l' = lastSeenIDForChannel c l" "li_channels l' = li_channels l"
    using assms unfolding reconnect_def by blast+
qed

lemma chan_inv_fill:
  assumes inv: "feed_inv fd" and c: "c \<in> set (li_channels (fd_l fd))" and f: "fd_filling fd"
    and cap: "\<forall>c \<in> set (li_channels (fd_l fd)). length (missing fd c) \<le> gapFillLimit"
  shows "chan_inv (fd\<lparr>fd_l := fillGap (select_ids (fd_rows fd)) (\<lambda>_. False) (fd_l fd), fd_filling := False\<rparr>) c"
    and "li_channels (fillGap (select_ids (fd_rows fd)) (\<lambda>_. False) (fd_l fd)) = li_channels (fd_l fd)"
proof -
  let ?l = "fillGap (select_ids (fd_rows fd)) (\<lambda>_. False) (fd_l fd)"
  obtain t where t: "channelTable c = Some t" using inv c by (auto simp: feed_inv_def)
  have "sorted (fd_rows fd (table_of d))" if "d \<in> set (li_channels (fd_l fd))" for d
    using inv that chan_okD(1) [of "fd_rows fd (table_of d)"] unfolding feed_inv_def chan_inv_def
    by (blast intro: strict_sorted_imp_sorted)
  moreover have "length (gap (fd_rows fd) (fd_l fd) d) \<le> gapFillLimit" if "d \<in> set (li_channels (fd_l fd))" for d
    using cap that by (simp add: gap_def missing_def)
  ultimately have each: "\<forall>d \<in> set (li_channels (fd_l fd)). channelTable d \<noteq> None \<and> sorted (fd_rows fd (table_of d)) \<and>
      length (gap (fd_rows fd) (fd_l fd) d) \<le> gapFillLimit" using inv by (simp add: feed_inv_def)
  have dist: "distinct (li_channels (fd_l fd))" using inv by (simp add: feed_inv_def)
  note filled = fill_channels_recover [OF dist each t, folded fillGap_def]
  have "chan_ok (fd_rows fd (table_of c)) (out_of ?l c) (queued fd c) (lastSeenIDForChannel c ?l) (fd_conn fd = None) False"
    using ok_fill [of "fd_rows fd (table_of c)" "sent fd c" "queued fd c" "lastSeenIDForChannel c (fd_l fd)" "fd_conn fd = None"] inv c f
    unfolding filled(1,2) gap_def [symmetric] by (auto simp: feed_inv_def chan_inv_def sent_def gap_def)
  then show "chan_inv (fd\<lparr>fd_l := ?l, fd_filling := False\<rparr>) c" by (simp add: chan_inv_def sent_def queued_def)
  show "li_channels ?l = li_channels (fd_l fd)" by (rule filled(3))
qed

lemma feed_step_inv: "feed_step fd fd' \<Longrightarrow> feed_inv fd \<Longrightarrow> feed_inv fd'"
proof (induction rule: feed_step.induct)
  case (insert_row c fd t i)
  then show ?case unfolding feed_inv_def by (simp, metis chan_inv_insert)
next
  case (deliver fd c p q l)
  have "li_channels l = li_channels (fd_l fd)" using recv_one [OF deliver(3)] by (auto split: option.splits)
  then show ?case using deliver chan_inv_deliver [OF _ _ deliver(1-3)] unfolding feed_inv_def by fastforce
next
  case (lose fd)
  then show ?case by (auto simp: feed_inv_def chan_inv_def sent_def queued_down intro: ok_lose)
next
  case (reconnected fd as ds l)
  then show ?case using reconnect_frame [OF reconnected(3)]
    by (auto simp: feed_inv_def chan_inv_def sent_def queued_def intro: ok_reconnect)
next
  case (fill fd)
  have inv: "feed_inv fd" by fact
  have "li_channels (fillGap (select_ids (fd_rows fd)) (\<lambda>_. False) (fd_l fd)) = li_channels (fd_l fd)"
  proof (cases "li_channels (fd_l fd)")
    case Nil
    then show ?thesis by (simp add: fillGap_def)
  next
    case (Cons c cs)
    then show ?thesis using chan_inv_fill(2) [OF inv _ fill(1,2), of c] by simp
  qed
  then show ?case using inv chan_inv_fill(1) [OF inv _ fill(1,2)] by (simp add: feed_inv_def)
qed

text \<open>A listener that has just connected, on tables whose ids are positive and ascending.\<close>

definition fresh_feed :: "string list \<Rightarrow> (string \<Rightarrow> int list) \<Rightarrow> listen_feed" where
  "fresh_feed channels rows = \<lparr>fd_l = NewListener channels, fd_rows = rows, fd_conn = Some [], fd_filling = False\<rparr>"

lemma fresh_feed_inv:
  assumes "distinct channels" "set channels \<subseteq> dom channelTable" "\<forall>t. sorted_wrt (<) (rows t) \<and> (\<forall>i \<in> set (rows t). 0 < i)"
  shows "feed_inv (fresh_feed channels rows)"
  using assms by (auto simp: feed_inv_def fresh_feed_def chan_inv_def sent_def out_of_def queued_def NewListener_def
      lastSeenIDForChannel_def intro!: chan_okI)

text \<open>C2: no row is lost across outages. Let rows be inserted in the order of their ids, notifications
  be delivered or die with the connection, the connection be lost and made again any number of times,
  and each gap fill run with its query answered and at most 10000 rows to recover. Then every row of a
  channel from the first one it sent on has been sent, or is queued on the connection, or lies above
  the last seen id while a gap fill is still due; once the connection is up, drained and filled, all of
  them have been sent.\<close>

theorem no_row_is_lost_across_outages:
  assumes steps: "feed_step\<^sup>*\<^sup>* (fresh_feed channels rows) fd"
    and start: "distinct channels" "set channels \<subseteq> dom channelTable" "\<forall>t. sorted_wrt (<) (rows t) \<and> (\<forall>i \<in> set (rows t). 0 < i)"
    and c: "c \<in> set (li_channels (fd_l fd))"
    and i: "i \<in> set (fd_rows fd (table_of c))" "sent fd c \<noteq> []" "hd (sent fd c) \<le> i"
  shows "(i \<in> set (sent fd c) \<or> i \<in> set (queued fd c) \<or>
            lastSeenIDForChannel c (fd_l fd) < i \<and> (fd_conn fd = None \<or> fd_filling fd)) \<and>
         (fd_conn fd = Some [] \<and> \<not> fd_filling fd \<longrightarrow> i \<in> set (sent fd c))"
proof -
  have "feed_inv fd" using steps
    by (induction rule: rtranclp_induct) (use fresh_feed_inv [OF start] feed_step_inv in blast)+
  then have ok: "chan_ok (fd_rows fd (table_of c)) (sent fd c) (queued fd c) (lastSeenIDForChannel c (fd_l fd))
      (fd_conn fd = None) (fd_filling fd)" using c by (simp add: feed_inv_def chan_inv_def)
  show ?thesis using chan_okD(11) [OF ok i(2,1,3)] by (auto simp: queued_def)
qed

text \<open>An outage: row 1 is delivered, the connection drops, row 2 arrives, and the gap fill after the
  reconnection recovers it.\<close>

definition outage_feed :: listen_feed where
  "outage_feed =
     (let l = (emit ''srvlog_ingest'' 1 (NewListener [''srvlog_ingest'']))\<lparr>li_reconnects := 1\<rparr> in
      \<lparr>fd_l = fillGap (select_ids ((\<lambda>_. [])(''srvlog_events'' := [1, 2]))) (\<lambda>_. False) l,
       fd_rows = (\<lambda>_. [])(''srvlog_events'' := [1, 2]), fd_conn = Some [], fd_filling = False\<rparr>)"

lemma outage_steps: "feed_step\<^sup>*\<^sup>* (fresh_feed [''srvlog_ingest''] (\<lambda>_. [])) outage_feed"
proof -
  let ?c = "''srvlog_ingest''" and ?t = "''srvlog_events''"
  let ?l0 = "NewListener [?c]"
  let ?l1 = "emit ?c 1 ?l0"
  let ?l2 = "?l1\<lparr>li_reconnects := 1\<rparr>"
  have t: "channelTable ?c = Some ?t" by (simp add: channelTable_def)
  have p: "parse_int64 (fmt_int 1) = Some 1" by (rule parse_fmt_int) (simp add: in64_def)
  let ?f1 = "\<lparr>fd_l = ?l0, fd_rows = (\<lambda>_. [])(?t := [1]), fd_conn = Some [(?c, fmt_int 1)], fd_filling = False\<rparr>"
  let ?f2 = "\<lparr>fd_l = ?l1, fd_rows = (\<lambda>_. [])(?t := [1]), fd_conn = Some [], fd_filling = False\<rparr>"
  let ?f3 = "?f2\<lparr>fd_conn := None\<rparr>"
  let ?f4 = "\<lparr>fd_l = ?l1, fd_rows = (\<lambda>_. [])(?t := [1, 2]), fd_conn = None, fd_filling = False\<rparr>"
  let ?f5 = "\<lparr>fd_l = ?l2, fd_rows = (\<lambda>_. [])(?t := [1, 2]), fd_conn = Some [], fd_filling = True\<rparr>"
  have "feed_step (fresh_feed [?c] (\<lambda>_. [])) ?f1"
    using insert_row [of ?c "fresh_feed [?c] (\<lambda>_. [])" ?t 1] t by (simp add: fresh_feed_def NewListener_def in64_def)
  moreover have "feed_step ?f1 ?f2" using deliver [of ?f1 ?c "fmt_int 1" "[]" ?l1] p by simp
  moreover have "feed_step ?f2 ?f3" by (rule lose)
  moreover have "feed_step ?f3 ?f4"
    using insert_row [of ?c ?f3 ?t 2] t by (simp add: NewListener_def in64_def)
  moreover have "feed_step ?f4 ?f5"
    using reconnected [of ?f4 "[Connected]" "[second]" ?l2]
    by (simp add: reconnect_def reconnectInitialBackoff_def emit_def storeLastSeenID_def NewListener_def)
  moreover have "feed_step ?f5 outage_feed"
    using fill [of ?f5] by (simp add: outage_feed_def Let_def missing_def NewListener_def gapFillLimit_def table_of_def t)
  ultimately show ?thesis by (meson converse_rtranclp_into_rtranclp rtranclp.rtrancl_refl)
qed

theorem no_row_is_lost_across_outages_witness:
  "feed_step\<^sup>*\<^sup>* (fresh_feed [''srvlog_ingest''] (\<lambda>_. [])) outage_feed \<and> 2 \<in> set (sent outage_feed ''srvlog_ingest'')"
proof -
  let ?c = "''srvlog_ingest''"
  let ?l = "(emit ?c 1 (NewListener [?c]))\<lparr>li_reconnects := 1\<rparr>"
  define rows :: "string \<Rightarrow> int list" where "rows = (\<lambda>_. [])(''srvlog_events'' := [1, 2])"
  have t: "channelTable ?c = Some ''srvlog_events''" by (simp add: channelTable_def)
  have rt: "rows (table_of ?c) = [1, 2]" by (simp add: rows_def table_of_def t)
  have l: "lastSeenIDForChannel ?c ?l = 1" "out_of ?l ?c = [1]" "li_channels ?l = [?c]"
    by (simp_all add: lastSeenIDForChannel_def emit_def storeLastSeenID_def out_of_def NewListener_def)
  have g: "gap rows ?l ?c = [2]" unfolding gap_def rt l by simp
  have out: "out_of (fillGap (select_ids rows) (\<lambda>_. False) ?l) ?c = [1, 2]" "li_channels (fillGap (select_ids rows) (\<lambda>_. False) ?l) = [?c]"
    using fillGapForChannel_recovers(1) [OF t, where rows = rows and l = ?l and c = ?c]
      fillGapForChannel_recovers(2) [OF t, where rows = rows and l = ?l]
    unfolding fillGap_def l g rt by (simp_all add: gapFillLimit_def)
  have o: "sent outage_feed ?c = [1, 2]" "li_channels (fd_l outage_feed) = [?c]" "fd_rows outage_feed (table_of ?c) = [1, 2]"
    "fd_conn outage_feed = Some []" "\<not> fd_filling outage_feed"
    using out rt by (simp_all add: outage_feed_def sent_def Let_def rows_def)
  have "2 \<in> set (sent outage_feed ?c)"
    using no_row_is_lost_across_outages [OF outage_steps, of ?c 2] o by (simp add: t dom_def)
  then show ?thesis using outage_steps by blast
qed

text \<open>The order of ids matters: a row whose id is below the last seen one when it becomes visible, as a
  transaction that took its id early and committed late, is not recovered.\<close>

lemma late_commit_is_not_recovered:
  defines "l \<equiv> emit ''srvlog_ingest'' 3 (emit ''srvlog_ingest'' 1 (NewListener [''srvlog_ingest'']))"
    and "rows \<equiv> (\<lambda>_. [])(''srvlog_events'' := [1, 3, 2 :: int])"
  shows "2 \<in> set (rows ''srvlog_events'') \<and> out_of (fillGap (select_ids rows) (\<lambda>_. False) l) ''srvlog_ingest'' = [1, 3]"
  by (simp add: l_def rows_def fillGap_def fillGapForChannel_def channelTable_def select_ids_def lastSeenIDForChannel_def
      emit_def storeLastSeenID_def NewListener_def out_of_def gapFillLimit_def Let_def)

end
