(* ===== verification/Secrets.thy ===== *)
theory Secrets
  imports Json Notification
begin

text \<open>
  The credentials of notification channels: \<^verbatim>\<open>internal/notification/secrets.go\<close>. A channel is answered with its
  secrets masked, and an edit that sends a mask back keeps the stored value. The lemmas show that the masked form
  does not depend on the secrets, that masking and restoring gives the stored configuration back, and when a mask
  is left over.
\<close>

section \<open>Masks\<close>

definition RedactedSecret :: string where "RedactedSecret = ''********''"

definition secretKeys :: "channel_type \<Rightarrow> string list" where
  "secretKeys t =
     (if t = ChannelTypeSlack then [''webhook_url'']
      else if t = ChannelTypeWebhook then [''url'', ''headers'']
      else if t = ChannelTypeNtfy then [''token''] else [])"

definition isMasked :: "json \<Rightarrow> bool" where
  "isMasked raw \<longleftrightarrow> as_string raw = Some RedactedSecret"

definition isEmptyJSON :: "json \<Rightarrow> bool" where
  "isEmptyJSON raw \<longleftrightarrow> raw = JNull \<or> raw = JStr [] \<or> raw = JObj [] \<or> raw = JArr []"

definition masked_value :: json where "masked_value = of_string RedactedSecret"

definition maskJSONValue :: "json \<Rightarrow> json" where
  "maskJSONValue raw =
     (case raw of
        JObj ms \<Rightarrow>
          (case as_map raw of
             None \<Rightarrow> masked_value
           | Some obj \<Rightarrow> of_map (map (\<lambda>(k, v). (k, masked_value)) obj))
      | _ \<Rightarrow> masked_value)"

text \<open>The stored value is \<^const>\<open>None\<close> when the stored configuration has no such member.\<close>

definition restoreJSONValue :: "json \<Rightarrow> json option \<Rightarrow> json" where
  "restoreJSONValue raw stored =
     (if isMasked raw then (case stored of None \<Rightarrow> raw | Some old \<Rightarrow> old)
      else case raw of
        JObj ms \<Rightarrow>
          (case (as_map raw, Option.bind stored as_map) of
             (Some obj, Some oldObj) \<Rightarrow>
               of_map (map (\<lambda>(k, v). (k, case map_of oldObj k of Some old \<Rightarrow> if isMasked v then old else v | None \<Rightarrow> v)) obj)
           | _ \<Rightarrow> raw)
      | _ \<Rightarrow> raw)"

section \<open>Channels\<close>

text \<open>A decoded map that is changed and encoded again; the nil map of \<^verbatim>\<open>null\<close> is written as \<^verbatim>\<open>null\<close>.\<close>

definition rewrite_map :: "((string \<times> json) list \<Rightarrow> (string \<times> json) list) \<Rightarrow> string \<Rightarrow> string option" where
  "rewrite_map f s =
     (case json_decode s of
        None \<Rightarrow> None
      | Some v \<Rightarrow> if v = JNull then Some ''null'' else map_option (\<lambda>cfg. marshal_map (f cfg)) (as_map v))"

definition redact_key :: "string \<Rightarrow> (string \<times> json) list \<Rightarrow> (string \<times> json) list" where
  "redact_key k cfg =
     (case map_of cfg k of
        None \<Rightarrow> cfg
      | Some raw \<Rightarrow> if isEmptyJSON raw then cfg else AList.update k (maskJSONValue raw) cfg)"

definition Redacted :: "channel \<Rightarrow> channel" where
  "Redacted ch =
     (let keys = secretKeys (ch_Type ch) in
      if keys = [] \<or> ch_Config ch = [] then ch
      else ch\<lparr>ch_Config := (case rewrite_map (fold redact_key keys) (ch_Config ch) of None \<Rightarrow> ''{}'' | Some redacted \<Rightarrow> redacted)\<rparr>)"

definition restore_key :: "(string \<times> json) list \<Rightarrow> string \<Rightarrow> (string \<times> json) list \<Rightarrow> (string \<times> json) list" where
  "restore_key old k cfg =
     (case map_of cfg k of
        None \<Rightarrow> cfg
      | Some raw \<Rightarrow> AList.update k (restoreJSONValue raw (map_of old k)) cfg)"

definition WithSecretsFrom :: "channel \<Rightarrow> channel \<Rightarrow> channel" where
  "WithSecretsFrom ch stored =
     (let keys = secretKeys (ch_Type ch) in
      if keys = [] \<or> ch_Type ch \<noteq> ch_Type stored \<or> ch_Config ch = [] then ch
      else case unmarshal_map (ch_Config stored) of
        None \<Rightarrow> ch
      | Some old \<Rightarrow>
          (case rewrite_map (fold (restore_key old) keys) (ch_Config ch) of
             None \<Rightarrow> ch
           | Some merged \<Rightarrow> ch\<lparr>ch_Config := merged\<rparr>))"

definition masked_somewhere :: "json \<Rightarrow> bool" where
  "masked_somewhere raw \<longleftrightarrow>
     isMasked raw \<or>
     (case raw of JObj ms \<Rightarrow> (case as_map raw of None \<Rightarrow> False | Some obj \<Rightarrow> list_ex (\<lambda>kv. isMasked (snd kv)) obj) | _ \<Rightarrow> False)"

definition HasRedactedSecret :: "channel \<Rightarrow> bool" where
  "HasRedactedSecret ch =
     (case unmarshal_map (ch_Config ch) of
        None \<Rightarrow> False
      | Some cfg \<Rightarrow> list_ex (\<lambda>k. case map_of cfg k of None \<Rightarrow> False | Some raw \<Rightarrow> masked_somewhere raw) (secretKeys (ch_Type ch)))"

section \<open>Values that stay well-formed\<close>

lemma RedactedSecret_valid: "valid_utf8 RedactedSecret"
  by (rule valid_utf8_ascii) (simp add: RedactedSecret_def ascii_def)

lemma masked_value_props [simp]: "isMasked masked_value" "wf_json d masked_value"
  using as_string_of_string [OF RedactedSecret_valid]
  by (simp_all add: isMasked_def masked_value_def of_string_def lit_ok_json_quote)

text \<open>A map as decoding gives it: names that are valid and different, values that nest no deeper than allowed.\<close>

definition good_map :: "nat \<Rightarrow> (string \<times> json) list \<Rightarrow> bool" where
  "good_map d al \<longleftrightarrow> distinct (map fst al) \<and> (\<forall>k \<in> fst ` set al. valid_utf8 k) \<and> list_all (\<lambda>(k, v). wf_json d v) al"

lemma good_as_map: "as_map v = Some al \<Longrightarrow> wf_json d v \<Longrightarrow> good_map (d - 1) al"
  using as_map_members wf_as_map by (auto simp: good_map_def)

lemma good_of_map: "good_map (d - 1) al \<Longrightarrow> 0 < d \<Longrightarrow> wf_json d (of_map al)"
  by (simp add: good_map_def wf_of_map)

lemma as_map_of_good: "good_map d al \<Longrightarrow> as_map (of_map al) = Some (sort_key fst al)"
  unfolding good_map_def by (intro as_map_of_map) auto

lemma good_update: "good_map d al \<Longrightarrow> map_of al k \<noteq> None \<Longrightarrow> wf_json d v \<Longrightarrow> good_map d (AList.update k v al)"
proof -
  have "list_all (\<lambda>(k, v). wf_json d v) (AList.update k v al)" if "list_all (\<lambda>(k, v). wf_json d v) al" "wf_json d v"
    using that by (induction al) auto
  then show "good_map d al \<Longrightarrow> map_of al k \<noteq> None \<Longrightarrow> wf_json d v \<Longrightarrow> good_map d (AList.update k v al)"
    by (auto simp: good_map_def distinct_update dom_update map_of_eq_None_iff)
qed

lemma good_map_lookup: "good_map d al \<Longrightarrow> map_of al k = Some v \<Longrightarrow> wf_json d v"
  by (auto simp: good_map_def list_all_iff dest!: map_of_SomeD)

lemma good_map_values:
  "good_map d al \<Longrightarrow> (\<And>k v. (k, v) \<in> set al \<Longrightarrow> wf_json e (f k v)) \<Longrightarrow> good_map e (map (\<lambda>(k, v). (k, f k v)) al)"
  by (auto simp: good_map_def list_all_iff comp_def case_prod_beta' image_image)

lemma map_of_values: "map_of (map (\<lambda>(k, v). (k, f k v)) al) k = map_option (f k) (map_of al k)"
  by (induction al) auto

lemma map_of_sort_good: "good_map d al \<Longrightarrow> map_of (sort_key fst al) = map_of al"
  by (simp add: good_map_def map_of_sort_key)

lemma unmarshal_good:
  assumes "unmarshal_map s = Some al"
  shows "good_map (maxNestingDepth - 1) al"
  using assms json_decode_wf good_as_map by (auto simp: unmarshal_map_def split: option.splits)

lemma unmarshal_marshal_good: "good_map (maxNestingDepth - 1) al \<Longrightarrow> unmarshal_map (marshal_map al) = Some (sort_key fst al)"
  unfolding good_map_def by (intro unmarshal_marshal_map) auto

lemma good_sort: "good_map d al \<Longrightarrow> good_map d (sort_key fst al)"
  by (auto simp: good_map_def distinct_map list_all_iff)

lemma of_map_cong:
  assumes "good_map d al" "good_map e bl" "map_of al = map_of bl"
  shows "of_map al = of_map bl"
proof -
  have d: "distinct (map fst al)" "distinct (map fst bl)" using assms(1, 2) by (auto simp: good_map_def)
  then have eq: "set al = set bl" using assms(3) by (simp add: map_of_inject_set)
  have "inj_on fst (set (sort_key fst al) \<union> set (sort_key fst bl))" using d(1) eq by (simp add: distinct_map)
  moreover have "distinct (map fst (sort_key fst al))" "distinct (map fst (sort_key fst bl))"
    using d by (simp_all add: distinct_map)
  ultimately have "sort_key fst al = sort_key fst bl"
    using eq by (intro map_sorted_distinct_set_unique [of fst]) simp_all
  then show ?thesis by (simp add: of_map_def)
qed

section \<open>Changing the secret members\<close>

definition redacted_value :: "json \<Rightarrow> json" where
  "redacted_value raw = (if isEmptyJSON raw then raw else maskJSONValue raw)"

text \<open>A loop over different keys that changes the value of each acts on every member once.\<close>

lemma fold_members:
  assumes "\<And>k cfg. map_of (step k cfg) = (map_of cfg)(k := map_option (f k) (map_of cfg k))" "distinct keys"
  shows "map_of (fold step keys cfg) j = (if j \<in> set keys then map_option (f j) (map_of cfg j) else map_of cfg j)"
  using assms(2) by (induction keys arbitrary: cfg) (auto simp: assms(1))

lemma fold_good:
  assumes "\<And>k cfg. good_map d cfg \<Longrightarrow> good_map d (step k cfg)"
  shows "good_map d cfg \<Longrightarrow> good_map d (fold step keys cfg)"
  using assms by (induction keys arbitrary: cfg) auto

lemma redact_key_map_of: "map_of (redact_key k cfg) = (map_of cfg)(k := map_option redacted_value (map_of cfg k))"
  by (auto simp: redact_key_def redacted_value_def update_conv' split: option.split)

lemma restore_key_map_of:
  "map_of (restore_key old k cfg) = (map_of cfg)(k := map_option (\<lambda>raw. restoreJSONValue raw (map_of old k)) (map_of cfg k))"
  by (auto simp: restore_key_def update_conv' split: option.split)

lemma secretKeys_distinct: "distinct (secretKeys t)"
  by (simp add: secretKeys_def)

lemmas redacted_member = fold_members [OF redact_key_map_of secretKeys_distinct]
lemmas restored_member = fold_members [OF restore_key_map_of secretKeys_distinct]

lemma masked_members: "good_map d obj \<Longrightarrow> good_map e (map (\<lambda>(k, v). (k, masked_value)) obj)"
  by (rule good_map_values) simp_all

lemma mask_wf: "wf_json d raw \<Longrightarrow> wf_json d (maskJSONValue raw)"
  using good_as_map [of raw _ d] masked_members good_of_map
  by (auto simp: maskJSONValue_def split: json.split option.split)

lemma redact_key_good: "good_map d cfg \<Longrightarrow> good_map d (redact_key k cfg)"
  by (auto simp: redact_key_def split: option.split intro!: good_update mask_wf dest: good_map_lookup)

lemma restore_wf:
  assumes "wf_json d raw" "\<And>old. stored = Some old \<Longrightarrow> wf_json d old"
  shows "wf_json d (restoreJSONValue raw stored)"
proof (cases "isMasked raw \<or> (\<forall>ms. raw \<noteq> JObj ms) \<or> as_map raw = None \<or> Option.bind stored as_map = None")
  case True
  then show ?thesis using assms by (auto simp: restoreJSONValue_def split: option.split json.split)
next
  case False
  then obtain ms obj old oldObj where r: "raw = JObj ms" "as_map raw = Some obj" "stored = Some old" "as_map old = Some oldObj" "\<not> isMasked raw"
    by (auto simp: bind_eq_Some_conv)
  have g: "good_map (d - 1) obj" "good_map (d - 1) oldObj" "0 < d"
    using good_as_map r assms by auto
  have "good_map (d - 1) (map (\<lambda>(k, v). (k, case map_of oldObj k of Some old \<Rightarrow> if isMasked v then old else v | None \<Rightarrow> v)) obj)"
    by (rule good_map_values [OF g(1)]) (use g in \<open>auto simp: good_map_def list_all_iff split: option.split dest!: map_of_SomeD\<close>)
  then show ?thesis using r g(3) good_of_map by (simp add: restoreJSONValue_def)
qed

lemma restore_key_good: "good_map d old \<Longrightarrow> good_map d cfg \<Longrightarrow> good_map d (restore_key old k cfg)"
  by (auto simp: restore_key_def split: option.split intro!: good_update restore_wf dest: good_map_lookup)

lemma json_decode_Nil: "json_decode [] = None"
  by (simp add: json_decode_def)

lemma rewrite_map_null: "json_decode s = Some JNull \<Longrightarrow> rewrite_map f s = Some ''null''"
  by (simp add: rewrite_map_def)

lemma rewrite_map_object:
  "json_decode s = Some v \<Longrightarrow> v \<noteq> JNull \<Longrightarrow> rewrite_map f s = map_option (\<lambda>cfg. marshal_map (f cfg)) (as_map v)"
  by (simp add: rewrite_map_def)

lemma marshal_not_null: "good_map (maxNestingDepth - 1) al \<Longrightarrow> \<exists>v. json_decode (marshal_map al) = Some v \<and> v \<noteq> JNull \<and> as_map v = Some (sort_key fst al)"
  using good_of_map [of maxNestingDepth al] json_decode_text [of "of_map al"] as_map_of_good
  by (simp add: marshal_map_def of_map_def maxNestingDepth_def)

section \<open>The masked form does not depend on the secrets\<close>

text \<open>What a mask shows of a value: that it is empty, the member names of an object, nothing else.\<close>

definition same_shape :: "json \<Rightarrow> json \<Rightarrow> bool" where
  "same_shape v w =
     (if isEmptyJSON v \<or> isEmptyJSON w then v = w
      else case (v, w) of
        (JObj _, JObj _) \<Rightarrow> rel_option (\<lambda>a b. fst ` set a = fst ` set b) (as_map v) (as_map w)
      | (JObj _, _) \<Rightarrow> False
      | (_, JObj _) \<Rightarrow> False
      | _ \<Rightarrow> True)"

definition same_public :: "channel_type \<Rightarrow> json \<Rightarrow> json \<Rightarrow> bool" where
  "same_public t v w \<longleftrightarrow>
     (v = JNull) = (w = JNull) \<and>
     rel_option (\<lambda>a b. \<forall>k. if k \<in> set (secretKeys t) then rel_option same_shape (map_of a k) (map_of b k) else map_of a k = map_of b k)
       (as_map v) (as_map w)"

lemma masked_object:
  assumes "good_map d a" "good_map e b" "fst ` set a = fst ` set b"
  shows "of_map (map (\<lambda>(k, v). (k, masked_value)) a) = of_map (map (\<lambda>(k, v). (k, masked_value)) b)"
proof (rule of_map_cong [OF masked_members [OF assms(1)] masked_members [OF assms(2)]])
  show "map_of (map (\<lambda>(k, v). (k, masked_value)) a) = map_of (map (\<lambda>(k, v). (k, masked_value)) b)"
  proof
    fix k
    have "(map_of a k = None) = (map_of b k = None)" using assms(3) by (simp add: map_of_eq_None_iff)
    then show "map_of (map (\<lambda>(k, v). (k, masked_value)) a) k = map_of (map (\<lambda>(k, v). (k, masked_value)) b) k"
      using map_of_values [of "\<lambda>k v. masked_value" a k] map_of_values [of "\<lambda>k v. masked_value" b k] by (auto simp: option.map_sel)
  qed
qed

lemma masked_objects_same:
  assumes "v = JObj ms" "w = JObj ns" "rel_option (\<lambda>a b. fst ` set a = fst ` set b) (as_map v) (as_map w)" "wf_json d v" "wf_json d w"
  shows "maskJSONValue v = maskJSONValue w"
proof -
  obtain a b where ab: "as_map v = Some a" "as_map w = Some b" using assms(1, 2) by (auto simp: as_map_def)
  then show ?thesis using masked_object [OF good_as_map [OF ab(1) assms(4)] good_as_map [OF ab(2) assms(5)]] assms(1 - 3)
    by (simp add: maskJSONValue_def)
qed

lemma redacted_value_same: "same_shape v w \<Longrightarrow> wf_json d v \<Longrightarrow> wf_json d w \<Longrightarrow> redacted_value v = redacted_value w"
proof -
  assume h: "same_shape v w" "wf_json d v" "wf_json d w"
  show ?thesis
  proof (cases "isEmptyJSON v \<or> isEmptyJSON w")
    case True
    then show ?thesis using h(1) by (auto simp: same_shape_def)
  next
    case False
    show ?thesis
    proof (cases "\<exists>ms ns. v = JObj ms \<and> w = JObj ns")
      case True
      then obtain ms ns where "v = JObj ms" "w = JObj ns" by blast
      then show ?thesis using masked_objects_same [OF _ _ _ h(2, 3)] h(1) False by (simp add: same_shape_def redacted_value_def)
    next
      case no: False
      then show ?thesis using h(1) False
        by (cases v; cases w; simp add: same_shape_def redacted_value_def maskJSONValue_def)
    qed
  qed
qed

lemma redacted_maps_same:
  assumes "same_public t v w" "as_map v = Some a" "as_map w = Some b" "wf_json maxNestingDepth v" "wf_json maxNestingDepth w"
  shows "marshal_map (fold redact_key (secretKeys t) a) = marshal_map (fold redact_key (secretKeys t) b)"
proof -
  let ?f = "fold redact_key (secretKeys t)"
  have g: "good_map (maxNestingDepth - 1) a" "good_map (maxNestingDepth - 1) b"
    using good_as_map assms(2 - 5) by blast+
  have "map_of (?f a) k = map_of (?f b) k" for k
  proof (cases "k \<in> set (secretKeys t)")
    case True
    then have r: "rel_option same_shape (map_of a k) (map_of b k)" using assms(1 - 3) by (auto simp: same_public_def)
    then have "map_option redacted_value (map_of a k) = map_option redacted_value (map_of b k)"
      using redacted_value_same [OF _ good_map_lookup [OF g(1)] good_map_lookup [OF g(2)]]
      by (cases "map_of a k"; cases "map_of b k") auto
    then show ?thesis using True by (simp add: redacted_member)
  next
    case False
    then show ?thesis using assms(1 - 3) by (auto simp: same_public_def redacted_member)
  qed
  then have "of_map (?f a) = of_map (?f b)"
    by (intro of_map_cong [OF fold_good fold_good]) (auto intro: redact_key_good g)
  then show ?thesis by (simp add: marshal_map_def)
qed

text \<open>C27: Redaction is noninterference: two channels that differ only in the values of their secrets, with
  configurations that agree on every other member and on which secrets are set, are answered alike.\<close>

theorem redaction_hides_secrets:
  assumes "json_decode (ch_Config ch) = Some v" "json_decode config = Some w"
    and "same_public (ch_Type ch) v w" "secretKeys (ch_Type ch) \<noteq> []"
  shows "Redacted (ch\<lparr>ch_Config := config\<rparr>) = Redacted ch"
proof -
  have ne: "ch_Config ch \<noteq> []" "config \<noteq> []" using assms(1, 2) json_decode_Nil by auto
  have wf: "wf_json maxNestingDepth v" "wf_json maxNestingDepth w" using assms(1, 2) json_decode_wf by blast+
  have "rewrite_map (fold redact_key (secretKeys (ch_Type ch))) config = rewrite_map (fold redact_key (secretKeys (ch_Type ch))) (ch_Config ch)"
  proof (cases "v = JNull")
    case True
    then show ?thesis using assms(1 - 3) by (simp add: same_public_def rewrite_map_null)
  next
    case False
    then have "w \<noteq> JNull" using assms(3) by (simp add: same_public_def)
    moreover have "map_option (\<lambda>cfg. marshal_map (fold redact_key (secretKeys (ch_Type ch)) cfg)) (as_map w) =
        map_option (\<lambda>cfg. marshal_map (fold redact_key (secretKeys (ch_Type ch)) cfg)) (as_map v)"
    proof (cases "as_map v")
      case None
      then show ?thesis using assms(3) by (simp add: same_public_def)
    next
      case (Some a)
      moreover obtain b where "as_map w = Some b" using assms(3) Some by (cases "as_map w") (simp_all add: same_public_def)
      ultimately show ?thesis using redacted_maps_same [OF assms(3) _ _ wf] by simp
    qed
    ultimately show ?thesis using rewrite_map_object [OF assms(1) False] rewrite_map_object [OF assms(2)] by simp
  qed
  then show ?thesis using ne assms(4) by (simp add: Redacted_def Let_def)
qed

section \<open>Masked values in answers\<close>

definition hidden :: "json \<Rightarrow> bool" where
  "hidden v \<longleftrightarrow> isEmptyJSON v \<or> isMasked v \<or> (case as_map v of None \<Rightarrow> False | Some obj \<Rightarrow> list_all (\<lambda>kv. isMasked (snd kv)) obj)"

definition secrets_hidden :: "channel \<Rightarrow> bool" where
  "secrets_hidden ch \<longleftrightarrow>
     (case unmarshal_map (ch_Config ch) of
        None \<Rightarrow> secretKeys (ch_Type ch) = [] \<or> ch_Config ch = []
      | Some cfg \<Rightarrow> list_all (\<lambda>k. case map_of cfg k of None \<Rightarrow> True | Some v \<Rightarrow> hidden v) (secretKeys (ch_Type ch)))"

lemma redacted_value_hidden: "wf_json d v \<Longrightarrow> hidden (redacted_value v)"
proof (cases "isEmptyJSON v")
  case False
  assume wf: "wf_json d v"
  show ?thesis
  proof (cases "\<exists>ms. v = JObj ms")
    case True
    then obtain obj where obj: "as_map v = Some obj" by (auto simp: as_map_def)
    have "as_map (redacted_value v) = Some (sort_key fst (map (\<lambda>(k, v). (k, masked_value)) obj))"
      using as_map_of_good [OF masked_members [OF good_as_map [OF obj wf]]] True False obj
      by (auto simp: redacted_value_def maskJSONValue_def)
    then show ?thesis by (auto simp: hidden_def list_all_iff)
  next
    case no: False
    then have "redacted_value v = masked_value" using False by (cases v) (simp_all add: redacted_value_def maskJSONValue_def)
    then show ?thesis by (simp add: hidden_def)
  qed
qed (simp add: hidden_def redacted_value_def)

lemma Redacted_config:
  assumes "secretKeys (ch_Type ch) \<noteq> []" "json_decode (ch_Config ch) = Some v" "v \<noteq> JNull" "as_map v = Some cfg"
  defines "red \<equiv> fold redact_key (secretKeys (ch_Type ch)) cfg"
  shows "ch_Config (Redacted ch) = marshal_map red" "good_map (maxNestingDepth - 1) red"
proof -
  show "ch_Config (Redacted ch) = marshal_map red"
    using assms json_decode_Nil rewrite_map_object [OF assms(2, 3)] by (auto simp: Redacted_def Let_def)
  have "good_map (maxNestingDepth - 1) cfg" using good_as_map [OF assms(4) json_decode_wf [OF assms(2)]] .
  then show "good_map (maxNestingDepth - 1) red" unfolding red_def by (intro fold_good redact_key_good)
qed

lemma null_text: "json_decode ''null'' = Some JNull" and empty_object_text: "json_decode ''{}'' = Some (JObj [])"
  using json_decode_text [of JNull] json_decode_text [of "JObj []"] by (simp_all add: maxNestingDepth_def)

lemma Redacted_hidden: "secrets_hidden (Redacted ch)"
proof (cases "secretKeys (ch_Type ch) = [] \<or> ch_Config ch = []")
  case True
  then show ?thesis using json_decode_Nil by (auto simp: Redacted_def secrets_hidden_def unmarshal_map_def split: option.split)
next
  case False
  have t: "ch_Type (Redacted ch) = ch_Type ch" by (simp add: Redacted_def Let_def)
  show ?thesis
  proof (cases "\<exists>v cfg. json_decode (ch_Config ch) = Some v \<and> v \<noteq> JNull \<and> as_map v = Some cfg")
    case True
    then obtain v cfg where v: "json_decode (ch_Config ch) = Some v" "v \<noteq> JNull" "as_map v = Some cfg" by blast
    let ?red = "fold redact_key (secretKeys (ch_Type ch)) cfg"
    note r = Redacted_config [OF _ v]
    have u: "unmarshal_map (ch_Config (Redacted ch)) = Some (sort_key fst ?red)"
      using r False unmarshal_marshal_good by simp
    have "hidden w" if h: "k \<in> set (secretKeys (ch_Type ch))" "map_of ?red k = Some w" for k w
    proof -
      obtain x where x: "map_of cfg k = Some x" "w = redacted_value x" using h by (auto simp: redacted_member)
      then show ?thesis using redacted_value_hidden good_map_lookup [OF good_as_map [OF v(3) json_decode_wf [OF v(1)]]] by blast
    qed
    then show ?thesis using u t r(2) False by (auto simp: secrets_hidden_def list_all_iff map_of_sort_good split: option.split)
  next
    case no: False
    then have "rewrite_map f (ch_Config ch) \<in> {None, Some ''null''}" for f
      by (auto simp: rewrite_map_def split: option.split)
    from this [of "fold redact_key (secretKeys (ch_Type ch))"] have "ch_Config (Redacted ch) \<in> {''null'', ''{}''}"
      using False by (auto simp: Redacted_def Let_def split: option.splits)
    then show ?thesis using null_text empty_object_text t
      by (auto simp: secrets_hidden_def unmarshal_map_def as_map_def list_all_iff)
  qed
qed

section \<open>Masking and restoring\<close>

text \<open>Objects are the same when their members are; the order of members is not kept.\<close>

definition json_same :: "json \<Rightarrow> json \<Rightarrow> bool" where
  "json_same v w \<longleftrightarrow> v = w \<or> (\<exists>ms ns. v = JObj ms \<and> w = JObj ns \<and> rel_option (\<lambda>a b. map_of a = map_of b) (as_map v) (as_map w))"

definition same_config :: "string \<Rightarrow> string \<Rightarrow> bool" where
  "same_config s t \<longleftrightarrow> (\<exists>a b. unmarshal_map s = Some a \<and> unmarshal_map t = Some b \<and> (\<forall>k. rel_option json_same (map_of a k) (map_of b k)))"

lemma restore_masked_object:
  assumes "as_map v = Some obj" "v = JObj ms" "wf_json d v"
  shows "json_same (restoreJSONValue (maskJSONValue v) (Some v)) v"
proof -
  let ?m = "map (\<lambda>(k, v). (k, masked_value)) obj"
  let ?r = "\<lambda>k v. case map_of obj k of Some old \<Rightarrow> if isMasked v then old else v | None \<Rightarrow> v"
  let ?new = "map (\<lambda>(k, v). (k, ?r k v)) (sort_key fst ?m)"
  have g: "good_map (d - 1) obj" "0 < d" using good_as_map [OF assms(1, 3)] assms(2, 3) by auto
  have m: "good_map (d - 1) ?m" using masked_members [OF g(1)] .
  have mask: "maskJSONValue v = of_map ?m" using assms(1, 2) by (simp add: maskJSONValue_def)
  have nm: "\<not> isMasked (of_map ?m)" by (simp add: isMasked_def as_string_def of_map_def)
  have look: "map_of (sort_key fst ?m) k = map_option (\<lambda>_. masked_value) (map_of obj k)" for k
    using map_of_values [of "\<lambda>k v. masked_value" obj k] map_of_sort_good [OF m] by simp
  have new: "good_map (d - 1) ?new"
  proof (rule good_map_values [OF good_sort [OF m]])
    fix k v assume "(k, v) \<in> set (sort_key fst ?m)"
    then show "wf_json (d - 1) (?r k v)" using g(1) by (auto split: option.split dest: good_map_lookup)
  qed
  have "map_of ?new k = map_of obj k" for k
    by (cases "map_of obj k") (simp_all add: map_of_values look)
  then have "map_of (sort_key fst ?new) = map_of obj" using map_of_sort_good [OF new] by auto
  moreover have "restoreJSONValue (maskJSONValue v) (Some v) = of_map ?new"
    using mask nm as_map_of_good [OF m] assms(1) by (simp add: restoreJSONValue_def) (simp add: of_map_def)
  ultimately show ?thesis using as_map_of_good [OF new] assms(1, 2)
    by (simp add: json_same_def) (simp add: of_map_def)
qed

lemma empty_not_masked: "isEmptyJSON v \<Longrightarrow> \<not> isMasked v"
  by (auto simp: isEmptyJSON_def isMasked_def as_string_def unquote_def runes_def utf8_encode_def RedactedSecret_def)

lemma restore_redacted_value: "wf_json d v \<Longrightarrow> json_same (restoreJSONValue (redacted_value v) (Some v)) v"
proof -
  assume wf: "wf_json d v"
  consider (empty) "isEmptyJSON v" | (obj) ms obj where "\<not> isEmptyJSON v" "v = JObj ms" "as_map v = Some obj" | (other) "\<not> isEmptyJSON v" "\<And>ms. v \<noteq> JObj ms"
    by (cases v) (auto simp: as_map_def)
  then show ?thesis
  proof cases
    case empty
    then show ?thesis using empty_not_masked [OF empty]
      by (auto simp: isEmptyJSON_def redacted_value_def restoreJSONValue_def json_same_def as_map_def of_map_def)
  next
    case obj
    then show ?thesis using restore_masked_object [OF _ _ wf] by (simp add: redacted_value_def)
  next
    case other
    then have "redacted_value v = masked_value" by (cases v) (auto simp: redacted_value_def maskJSONValue_def)
    then show ?thesis by (simp add: restoreJSONValue_def json_same_def)
  qed
qed

lemma json_same_refl [simp]: "json_same v v"
  by (simp add: json_same_def)

lemma object_edit_keeps_secrets:
  assumes "unmarshal_map (ch_Config ch) = Some cfg" "ch_Config edited = ch_Config (Redacted ch)" "ch_Type edited = ch_Type ch"
    and "secretKeys (ch_Type ch) \<noteq> []" "json_decode (ch_Config ch) \<noteq> Some JNull"
  shows "same_config (ch_Config (WithSecretsFrom edited ch)) (ch_Config ch)"
proof -
  let ?keys = "secretKeys (ch_Type ch)"
  let ?red = "fold redact_key ?keys cfg"
  obtain v where v: "json_decode (ch_Config ch) = Some v" "v \<noteq> JNull" "as_map v = Some cfg"
    using assms(1, 5) by (auto simp: unmarshal_map_def split: option.splits)
  have g: "good_map (maxNestingDepth - 1) cfg" using unmarshal_good [OF assms(1)] .
  have r: "ch_Config (Redacted ch) = marshal_map ?red" "good_map (maxNestingDepth - 1) ?red"
    using Redacted_config [OF assms(4) v] by auto
  obtain w where w: "json_decode (ch_Config edited) = Some w" "w \<noteq> JNull" "as_map w = Some (sort_key fst ?red)"
    using marshal_not_null [OF r(2)] r(1) assms(2) by auto
  let ?new = "fold (restore_key cfg) ?keys (sort_key fst ?red)"
  have gs: "good_map (maxNestingDepth - 1) (sort_key fst ?red)" using good_as_map [OF w(3) json_decode_wf [OF w(1)]] .
  have new: "good_map (maxNestingDepth - 1) ?new" by (intro fold_good restore_key_good g gs)
  have conf: "ch_Config (WithSecretsFrom edited ch) = marshal_map ?new"
    using rewrite_map_object [OF w(1, 2)] w(3) assms w(1) json_decode_Nil by (auto simp: WithSecretsFrom_def Let_def)
  have "rel_option json_same (map_of ?new k) (map_of cfg k)" for k
  proof (cases "k \<in> set ?keys")
    case True
    then show ?thesis using restore_redacted_value [OF good_map_lookup [OF g]]
      by (cases "map_of cfg k") (simp_all add: restored_member redacted_member map_of_sort_good [OF r(2)])
  next
    case False
    then show ?thesis by (simp add: restored_member redacted_member map_of_sort_good [OF r(2)] option.rel_refl)
  qed
  then show ?thesis using unmarshal_marshal_good [OF new] conf assms(1) map_of_sort_good [OF new] by (simp add: same_config_def)
qed

text \<open>C28: Redaction and restoring are inverse: an edit whose configuration is the one a read answered keeps every
  member of the stored configuration, secrets included.\<close>

theorem unchanged_edit_keeps_secrets:
  assumes "unmarshal_map (ch_Config ch) = Some cfg" "ch_Config edited = ch_Config (Redacted ch)" "ch_Type edited = ch_Type ch"
  shows "same_config (ch_Config (WithSecretsFrom edited ch)) (ch_Config ch)"
proof -
  consider (nokeys) "secretKeys (ch_Type ch) = []" | (null) "secretKeys (ch_Type ch) \<noteq> []" "json_decode (ch_Config ch) = Some JNull"
    | (object) "secretKeys (ch_Type ch) \<noteq> []" "json_decode (ch_Config ch) \<noteq> Some JNull" by blast
  then show ?thesis
  proof cases
    case nokeys
    then have "ch_Config (WithSecretsFrom edited ch) = ch_Config ch" using assms(2, 3) by (simp add: WithSecretsFrom_def Redacted_def Let_def)
    then show ?thesis using assms(1) by (simp add: same_config_def option.rel_refl)
  next
    case null
    have "ch_Config ch \<noteq> []" using null(2) json_decode_Nil by auto
    then have "ch_Config edited = ''null''" using null assms(2) by (simp add: Redacted_def Let_def rewrite_map_null)
    then have "ch_Config (WithSecretsFrom edited ch) = ''null''"
      using null assms rewrite_map_null [OF null_text] by (simp add: WithSecretsFrom_def Let_def)
    then show ?thesis using assms(1) null(2) null_text by (simp add: same_config_def unmarshal_map_def as_map_def)
  next
    case object
    show ?thesis by (rule object_edit_keeps_secrets [OF assms object])
  qed
qed

section \<open>Where a mask can be\<close>

fun string_at :: "string list \<Rightarrow> json \<Rightarrow> string option" where
  "string_at [] v = (case v of JStr l \<Rightarrow> unquote l | _ \<Rightarrow> None)"
| "string_at (k # ks) v =
     (case v of JObj _ \<Rightarrow> (case as_map v of None \<Rightarrow> None | Some al \<Rightarrow> (case map_of al k of None \<Rightarrow> None | Some w \<Rightarrow> string_at ks w)) | _ \<Rightarrow> None)"

definition text_string_at :: "string list \<Rightarrow> string \<Rightarrow> string option" where
  "text_string_at p s = (case json_decode s of None \<Rightarrow> None | Some v \<Rightarrow> string_at p v)"

lemma isMasked_string: "isMasked v \<longleftrightarrow> string_at [] v = Some RedactedSecret"
  by (cases v) (simp_all add: isMasked_def as_string_def RedactedSecret_def)

lemma masked_somewhere_string: "masked_somewhere v \<longleftrightarrow> string_at [] v = Some RedactedSecret \<or> (\<exists>j. string_at [j] v = Some RedactedSecret)"
proof (cases "\<exists>ms. v = JObj ms")
  case True
  then obtain ms obj where v: "v = JObj ms" "as_map v = Some obj" by (auto simp: as_map_def)
  have d: "distinct (map fst obj)" using as_map_members [OF v(2)] by simp
  have "list_ex (\<lambda>kv. isMasked (snd kv)) obj \<longleftrightarrow> (\<exists>j w. map_of obj j = Some w \<and> isMasked w)"
    using d by (force simp: list_ex_iff map_of_eq_Some_iff)
  then show ?thesis using v by (auto simp: masked_somewhere_def isMasked_string simp del: string_at.simps(1) split: option.splits)
next
  case False
  then show ?thesis by (cases v) (simp_all add: masked_somewhere_def isMasked_string)
qed

lemma string_at_member: "as_map v = Some cfg \<Longrightarrow> string_at (k # ks) v = (case map_of cfg k of None \<Rightarrow> None | Some w \<Rightarrow> string_at ks w)"
  by (cases v) (auto simp: as_map_def)

lemma HasRedactedSecret_iff:
  "HasRedactedSecret ch \<longleftrightarrow>
     (\<exists>k \<in> set (secretKeys (ch_Type ch)). text_string_at [k] (ch_Config ch) = Some RedactedSecret \<or> (\<exists>j. text_string_at [k, j] (ch_Config ch) = Some RedactedSecret))"
proof -
  have k: "(case map_of cfg k of None \<Rightarrow> False | Some raw \<Rightarrow> masked_somewhere raw) \<longleftrightarrow>
      text_string_at [k] (ch_Config ch) = Some RedactedSecret \<or> (\<exists>j. text_string_at [k, j] (ch_Config ch) = Some RedactedSecret)"
    if h: "unmarshal_map (ch_Config ch) = Some cfg" for k cfg
  proof -
    obtain v where v: "json_decode (ch_Config ch) = Some v" "as_map v = Some cfg" using h by (auto simp: unmarshal_map_def split: option.splits)
    then show ?thesis
      by (cases "map_of cfg k") (simp_all add: text_string_at_def string_at_member [OF v(2)] masked_somewhere_string del: string_at.simps)
  qed
  show ?thesis
  proof (cases "unmarshal_map (ch_Config ch)")
    case None
    then show ?thesis by (auto simp: HasRedactedSecret_def text_string_at_def unmarshal_map_def split: option.splits json.splits)
  next
    case (Some cfg)
    then show ?thesis using k [OF Some] by (simp add: HasRedactedSecret_def list_ex_iff)
  qed
qed

section \<open>A sample channel\<close>

definition hook_config :: "string \<Rightarrow> json" where
  "hook_config secret = JObj [(''url'', JStr secret), (''method'', JStr ''PUT'')]"

definition sample_hook :: channel where
  "sample_hook = \<lparr>ch_ID = 1, ch_Name = ''hook'', ch_Type = ChannelTypeWebhook, ch_Config = json_text (hook_config ''https://a''),
     ch_Enabled = True, ch_CreatedAt = 0, ch_UpdatedAt = 0\<rparr>"

lemma sample_lits: "lit_ok ''url'' \<and> lit_ok ''method'' \<and> lit_ok ''PUT'' \<and> lit_ok ''https://a'' \<and> lit_ok ''https://b''"
  by code_simp

lemma sample_names: "member_name ''url'' = ''url'' \<and> member_name ''method'' = ''method''"
  using unquote_plain [of "''url''"] unquote_plain [of "''method''"] by (simp add: member_name_def ascii_def backslash_def)

lemma sample_decode: "lit_ok secret \<Longrightarrow> json_decode (json_text (hook_config secret)) = Some (hook_config secret)"
  using sample_lits by (intro json_decode_text) (simp add: hook_config_def maxNestingDepth_def)

lemma sample_map: "as_map (hook_config secret) = Some [(''url'', JStr secret), (''method'', JStr ''PUT'')]"
  using sample_names by (simp add: hook_config_def as_map_def)

lemma webhook_keys: "secretKeys ChannelTypeWebhook = [''url'', ''headers'']"
  by (simp add: secretKeys_def channel_types)

theorem redaction_hides_secrets_witness:
  "Redacted (sample_hook\<lparr>ch_Config := json_text (hook_config ''https://b'')\<rparr>) = Redacted sample_hook \<and>
   ch_Config sample_hook \<noteq> json_text (hook_config ''https://b'')"
proof -
  have p: "same_public ChannelTypeWebhook (hook_config ''https://a'') (hook_config ''https://b'')"
    unfolding same_public_def sample_map webhook_keys by (auto simp: hook_config_def same_shape_def isEmptyJSON_def)
  have "Redacted (sample_hook\<lparr>ch_Config := json_text (hook_config ''https://b'')\<rparr>) = Redacted sample_hook"
    by (rule redaction_hides_secrets [OF _ sample_decode, of _ "hook_config ''https://a''"])
      (use p sample_decode sample_lits webhook_keys in \<open>simp_all add: sample_hook_def\<close>)
  then show ?thesis by (simp add: sample_hook_def hook_config_def quoted_def)
qed

theorem unchanged_edit_keeps_secrets_witness:
  "same_config (ch_Config (WithSecretsFrom ((Redacted sample_hook)\<lparr>ch_Name := ''renamed''\<rparr>) sample_hook)) (ch_Config sample_hook)"
proof (rule unchanged_edit_keeps_secrets)
  show "unmarshal_map (ch_Config sample_hook) = Some [(''url'', JStr ''https://a''), (''method'', JStr ''PUT'')]"
    using sample_decode sample_lits sample_map by (simp add: sample_hook_def unmarshal_map_def)
qed (simp_all add: Redacted_def Let_def)

end
