(* ===== verification/Analysis.thy ===== *)
theory Analysis
  imports Mute Notification "HOL-Library.Char_ord" "HOL-Library.List_Lexorder"
begin

text \<open>
  Analysis reports: the feeds and modes of \<^verbatim>\<open>api/internal/model/analysis.go\<close>, the report rows of
  \<^verbatim>\<open>api/internal/postgres/analysis_report_store.go\<close> and the queued worker of
  \<^verbatim>\<open>api/internal/worker/analysis.go\<close>. A statement may fail, and rows may be deleted by others just before
  it; the analyzer run is a parameter. The lemmas show that a scope has one canonical form, that at most
  one report is active per key, that a finished report stays finished and is mailed at most once.
\<close>

section \<open>Feeds and modes\<close>

record feed_spec =
  fs_Name :: string
  fs_Modes :: "string list"
  fs_ScopeKind :: string
  fs_PromptFamily :: string

definition analysisFeedSpecs :: "feed_spec list" where
  "analysisFeedSpecs =
     [\<lparr>fs_Name = ''netlog'', fs_Modes = [''daily'', ''weekly'', ''incident''], fs_ScopeKind = ''hosts'', fs_PromptFamily = []\<rparr>,
      \<lparr>fs_Name = ''srvlog'', fs_Modes = [''daily'', ''weekly'', ''incident''], fs_ScopeKind = ''hosts'', fs_PromptFamily = []\<rparr>,
      \<lparr>fs_Name = ''applog'', fs_Modes = [''daily'', ''incident''], fs_ScopeKind = ''services'', fs_PromptFamily = ''applog''\<rparr>]"

definition AnalysisFeedSpecFor :: "string \<Rightarrow> feed_spec option" where
  "AnalysisFeedSpecFor feed = find (\<lambda>s. fs_Name s = feed) analysisFeedSpecs"

definition AnalysisFeeds :: "string list" where "AnalysisFeeds = map fs_Name analysisFeedSpecs"

definition IsValidAnalysisFeed :: "string \<Rightarrow> bool" where
  "IsValidAnalysisFeed s \<longleftrightarrow> AnalysisFeedSpecFor s \<noteq> None"

definition IsValidAnalysisMode :: "string \<Rightarrow> bool" where
  "IsValidAnalysisMode s \<longleftrightarrow> s \<in> {''daily'', ''weekly'', ''incident''}"

definition IsValidAnalysisModeForFeed :: "string \<Rightarrow> string \<Rightarrow> bool" where
  "IsValidAnalysisModeForFeed feed mode \<longleftrightarrow>
     (case AnalysisFeedSpecFor feed of None \<Rightarrow> False | Some spec \<Rightarrow> mode \<in> set (fs_Modes spec))"

definition AnalysisFrequencies :: "string list" where "AnalysisFrequencies = [''daily'', ''weekly'', ''monthly'']"

definition AnalysisModeForFrequency :: "string \<Rightarrow> string" where
  "AnalysisModeForFrequency frequency = (if frequency = ''weekly'' \<or> frequency = ''monthly'' then ''weekly'' else ''daily'')"

definition IsValidAnalysisFrequencyForFeed :: "string \<Rightarrow> string \<Rightarrow> bool" where
  "IsValidAnalysisFrequencyForFeed feed frequency \<longleftrightarrow> IsValidAnalysisModeForFeed feed (AnalysisModeForFrequency frequency)"

definition AnalysisFrequenciesForFeed :: "string \<Rightarrow> string list" where
  "AnalysisFrequenciesForFeed feed = filter (IsValidAnalysisFrequencyForFeed feed) AnalysisFrequencies"

section \<open>Reports\<close>

text \<open>A row of \<^verbatim>\<open>analysis_reports\<close>: the report and the column that the compare-and-swap sets.\<close>

record report_row = analysis_report +
  rr_NotifiedAt :: "instant option"

definition the_report :: "report_row \<Rightarrow> analysis_report" where "the_report r = analysis_report.truncate r"

text \<open>The loop of \<^verbatim>\<open>NormalizeHosts\<close>: trimmed names, the first of each kept.\<close>

fun normalize_loop :: "string list \<Rightarrow> string list \<Rightarrow> string list" where
  "normalize_loop seen [] = []"
| "normalize_loop seen (h # hosts) =
     (let t = trim_space h in
      if t = [] \<or> t \<in> set seen then normalize_loop seen hosts
      else t # normalize_loop (t # seen) hosts)"

definition NormalizeHosts :: "string list \<Rightarrow> string list" where
  "NormalizeHosts hosts = sort (normalize_loop [] hosts)"

section \<open>The report store\<close>

text \<open>Before the n-th statement the rows \<^verbatim>\<open>rw_deletes n\<close> are deleted by other requests; the statement then
  fails with \<^verbatim>\<open>rw_fail n\<close> or runs. When an insert violates both unique indexes, \<^verbatim>\<open>rw_slugFirst\<close> says which one
  the database reports.\<close>

record report_world =
  rw_rows :: "report_row list"
  rw_nextID :: int
  rw_now :: instant
  rw_calls :: nat
  rw_fail :: "nat \<Rightarrow> string option"
  rw_deletes :: "nat \<Rightarrow> int list"
  rw_slugFirst :: bool
  rw_work :: "int list"
  rw_mailed :: "analysis_report list"

datatype report_error = ErrDuplicateActiveReport | ErrQueueFull | ReportFailed store_error

definition run_report ::
  "(report_world \<Rightarrow> (store_error + 'a) \<times> report_world) \<Rightarrow> report_world \<Rightarrow> (store_error + 'a) \<times> report_world" where
  "run_report stmt w =
     (let w1 = w\<lparr>rw_rows := filter (\<lambda>r. ar_ID r \<notin> set (rw_deletes w (rw_calls w))) (rw_rows w), rw_calls := rw_calls w + 1\<rparr> in
      case rw_fail w (rw_calls w) of
        Some err \<Rightarrow> (Inl (StoreFailed err), w1)
      | None \<Rightarrow> stmt w1)"

text \<open>The day and the time of day of a slug, as \<^verbatim>\<open>Time.Format\<close> prints them in UTC.\<close>

record slug_format =
  sf_date :: "instant \<Rightarrow> string"
  sf_time :: "instant \<Rightarrow> string"

definition Truncate :: "duration \<Rightarrow> instant \<Rightarrow> instant" where "Truncate d t = t - t mod d"

definition BuildAnalysisSlug :: "slug_format \<Rightarrow> string \<Rightarrow> string \<Rightarrow> instant \<Rightarrow> string" where
  "BuildAnalysisSlug sf feed mode periodEnd =
     (let mode = (if mode = [] then ''daily'' else mode); t = Truncate minute periodEnd in
      feed @ ''-'' @ mode @ ''-'' @ sf_date sf t @ ''-'' @ sf_time sf t)"

definition report_active :: "('a analysis_report_scheme) \<Rightarrow> bool" where
  "report_active r \<longleftrightarrow> ar_Status r = ''pending'' \<or> ar_Status r = ''running''"

definition report_key :: "('a analysis_report_scheme) \<Rightarrow> string \<times> instant \<times> string \<times> string list \<times> string list" where
  "report_key r = (ar_Feed r, ar_PeriodEnd r, ar_PromptMode r, ar_Hosts r, ar_Services r)"

text \<open>The columns the INSERT does not name take their defaults.\<close>

definition column_defaults :: "analysis_report \<Rightarrow> analysis_report" where
  "column_defaults r =
     r\<lparr>ar_Report := [], ar_PromptTokens := 0, ar_CompletionTokens := 0, ar_Error := [], ar_StartedAt := None, ar_CompletedAt := None\<rparr>"

datatype insert_result = Inserted analysis_report | ActiveTaken | SlugTaken

definition insert_stmt :: "analysis_report \<Rightarrow> report_world \<Rightarrow> (store_error + insert_result) \<times> report_world" where
  "insert_stmt r w =
     (let stored = r\<lparr>ar_ID := rw_nextID w, ar_CreatedAt := rw_now w\<rparr>;
          row = analysis_report.extend (column_defaults stored) (report_row.fields None);
          slugTaken = list_ex (\<lambda>x. ar_Slug x = ar_Slug r) (rw_rows w);
          activeTaken = list_ex (\<lambda>x. report_active x \<and> report_key x = report_key r) (rw_rows w);
          w1 = w\<lparr>rw_nextID := rw_nextID w + 1\<rparr> in
      if slugTaken \<and> (rw_slugFirst w \<or> \<not> activeTaken) then (Inr SlugTaken, w1)
      else if activeTaken then (Inr ActiveTaken, w1)
      else (Inr (Inserted stored), w1\<lparr>rw_rows := rw_rows w @ [row]\<rparr>))"

definition insert_report :: "analysis_report \<Rightarrow> report_world \<Rightarrow> (store_error + insert_result) \<times> report_world" where
  "insert_report r = run_report (insert_stmt r)"

fun insert_attempts ::
  "string \<Rightarrow> analysis_report \<Rightarrow> nat \<Rightarrow> nat \<Rightarrow> report_world \<Rightarrow> (report_error + analysis_report) \<times> report_world" where
  "insert_attempts base r attempt 0 w =
     (Inl (ReportFailed (StoreFailed ''insert pending report: exhausted slug suffix attempts'')), w)"
| "insert_attempts base r attempt (Suc n) w =
     (let slug = (if attempt > 1 then base @ ''-'' @ fmt_int (int attempt) else base) in
      case insert_report (r\<lparr>ar_Slug := slug\<rparr>) w of
        (Inr (Inserted row), w1) \<Rightarrow> (Inr row, w1)
      | (Inr ActiveTaken, w1) \<Rightarrow> (Inl ErrDuplicateActiveReport, w1)
      | (Inr SlugTaken, w1) \<Rightarrow> insert_attempts base r (attempt + 1) n w1
      | (Inl err, w1) \<Rightarrow> (Inl (ReportFailed err), w1))"

definition InsertPendingReport ::
  "slug_format \<Rightarrow> analysis_report \<Rightarrow> report_world \<Rightarrow> (report_error + analysis_report) \<times> report_world" where
  "InsertPendingReport sf r w =
     (let r1 = (if ar_PromptMode r = [] then r\<lparr>ar_PromptMode := ''daily''\<rparr> else r);
          r2 = (if ar_Slug r1 = [] then r1\<lparr>ar_Slug := BuildAnalysisSlug sf (ar_Feed r1) (ar_PromptMode r1) (ar_PeriodEnd r1)\<rparr> else r1);
          r3 = r2\<lparr>ar_Status := ''pending'', ar_Hosts := NormalizeHosts (ar_Hosts r2), ar_Services := NormalizeHosts (ar_Services r2)\<rparr> in
      insert_attempts (ar_Slug r3) r3 1 10 w)"

text \<open>An UPDATE of the row with an id, with the number of rows it changed.\<close>

definition update_report ::
  "(report_row \<Rightarrow> bool) \<Rightarrow> (instant \<Rightarrow> report_row \<Rightarrow> report_row) \<Rightarrow> report_world \<Rightarrow> (store_error + nat) \<times> report_world" where
  "update_report p g =
     run_report (\<lambda>w. (Inr (length (filter p (rw_rows w))),
                      w\<lparr>rw_rows := map (\<lambda>r. if p r then g (rw_now w) r else r) (rw_rows w)\<rparr>))"

definition affected :: "(store_error + nat) \<times> report_world \<Rightarrow> (store_error + unit) \<times> report_world" where
  "affected res = (case res of (Inl err, w) \<Rightarrow> (Inl err, w) | (Inr n, w) \<Rightarrow> if n = 0 then (Inl ErrNoRows, w) else (Inr (), w))"

definition MarkReportRunning :: "int \<Rightarrow> report_world \<Rightarrow> (store_error + unit) \<times> report_world" where
  "MarkReportRunning i w =
     affected (update_report (\<lambda>r. ar_ID r = i \<and> ar_Status r = ''pending'')
       (\<lambda>now r. r\<lparr>ar_Status := ''running'', ar_StartedAt := Some now\<rparr>) w)"

definition MarkReportCompleted ::
  "int \<Rightarrow> string \<Rightarrow> int \<Rightarrow> int \<Rightarrow> report_world \<Rightarrow> (store_error + nat) \<times> report_world" where
  "MarkReportCompleted i body promptTokens completionTokens =
     update_report (\<lambda>r. ar_ID r = i)
       (\<lambda>now r. r\<lparr>ar_Status := ''completed'', ar_Report := body, ar_PromptTokens := promptTokens,
                  ar_CompletionTokens := completionTokens, ar_CompletedAt := Some now\<rparr>)"

definition MarkReportFailed :: "int \<Rightarrow> string \<Rightarrow> report_world \<Rightarrow> (store_error + nat) \<times> report_world" where
  "MarkReportFailed i msg =
     update_report (\<lambda>r. ar_ID r = i) (\<lambda>now r. r\<lparr>ar_Status := ''failed'', ar_Error := msg, ar_CompletedAt := Some now\<rparr>)"

text \<open>The compare-and-swap on \<^verbatim>\<open>notified_at\<close>: true for the call that set it.\<close>

definition MarkReportNotified :: "int \<Rightarrow> report_world \<Rightarrow> (store_error + bool) \<times> report_world" where
  "MarkReportNotified i w =
     (case update_report (\<lambda>r. ar_ID r = i \<and> rr_NotifiedAt r = None) (\<lambda>now r. r\<lparr>rr_NotifiedAt := Some now\<rparr>) w of
        (Inl err, w1) \<Rightarrow> (Inl err, w1)
      | (Inr n, w1) \<Rightarrow> (Inr (n \<noteq> 0), w1))"

definition ReconcileOrphanedReports :: "report_world \<Rightarrow> (store_error + nat) \<times> report_world" where
  "ReconcileOrphanedReports =
     update_report report_active
       (\<lambda>now r. r\<lparr>ar_Status := ''failed'', ar_Error := ''abandoned: server restarted'', ar_CompletedAt := Some now\<rparr>)"

definition GetReport :: "int \<Rightarrow> report_world \<Rightarrow> (store_error + analysis_report) \<times> report_world" where
  "GetReport i =
     run_report (\<lambda>w. (case find (\<lambda>r. ar_ID r = i) (rw_rows w) of None \<Rightarrow> Inl ErrNoRows | Some r \<Rightarrow> Inr (the_report r), w))"

definition GetReportBySlug :: "string \<Rightarrow> report_world \<Rightarrow> (store_error + analysis_report) \<times> report_world" where
  "GetReportBySlug slug =
     run_report (\<lambda>w. (case find (\<lambda>r. ar_Slug r = slug) (rw_rows w) of None \<Rightarrow> Inl ErrNoRows | Some r \<Rightarrow> Inr (the_report r), w))"

definition DeleteReport :: "int \<Rightarrow> report_world \<Rightarrow> (store_error + unit) \<times> report_world" where
  "DeleteReport i =
     run_report (\<lambda>w. (if list_ex (\<lambda>r. ar_ID r = i) (rw_rows w) then Inr () else Inl ErrNoRows,
                      w\<lparr>rw_rows := filter (\<lambda>r. ar_ID r \<noteq> i) (rw_rows w)\<rparr>))"

text \<open>A list read selects the summary columns only.\<close>

record analysis_report_summary =
  as_ID :: int
  as_Slug :: string
  as_Feed :: string
  as_PromptMode :: string
  as_Hosts :: "string list"
  as_Services :: "string list"
  as_Model :: string
  as_PeriodStart :: instant
  as_PeriodEnd :: instant
  as_PromptTokens :: int
  as_CompletionTokens :: int
  as_Status :: string
  as_CreatedAt :: instant
  as_StartedAt :: "instant option"
  as_CompletedAt :: "instant option"

definition report_summary :: "report_row \<Rightarrow> analysis_report_summary" where
  "report_summary r =
     \<lparr>as_ID = ar_ID r, as_Slug = ar_Slug r, as_Feed = ar_Feed r, as_PromptMode = ar_PromptMode r, as_Hosts = ar_Hosts r,
      as_Services = ar_Services r, as_Model = ar_Model r, as_PeriodStart = ar_PeriodStart r, as_PeriodEnd = ar_PeriodEnd r,
      as_PromptTokens = ar_PromptTokens r, as_CompletionTokens = ar_CompletionTokens r, as_Status = ar_Status r,
      as_CreatedAt = ar_CreatedAt r, as_StartedAt = ar_StartedAt r, as_CompletedAt = ar_CompletedAt r\<rparr>"

definition ListReports :: "nat \<Rightarrow> report_world \<Rightarrow> (store_error + analysis_report_summary list) \<times> report_world" where
  "ListReports limit =
     run_report (\<lambda>w. (Inr (map report_summary (take limit (sort_key (\<lambda>r. - ar_CreatedAt r) (rw_rows w)))), w))"

section \<open>The worker\<close>

definition QueueDepth :: nat where "QueueDepth = 5"

datatype run_error = DeadlineExceeded | ErrContextExceeded | BackendStatus string | BackendURL string | RunFailed string

record run_result =
  rs_Report :: string
  rs_PromptTokens :: int
  rs_CompletionTokens :: int

text \<open>The runner: the model it stamps on pending rows, and a run for a feed, a scope, a period and a mode.\<close>

record runner =
  rn_Model :: string
  rn_Run :: "string \<Rightarrow> string list \<Rightarrow> string list \<Rightarrow> duration \<Rightarrow> string \<Rightarrow> nat \<Rightarrow> run_error + run_result"

definition Enqueue ::
  "slug_format \<Rightarrow> runner \<Rightarrow> analysis_report \<Rightarrow> report_world \<Rightarrow> (report_error + analysis_report) \<times> report_world" where
  "Enqueue sf rn req w =
     (let req = (if ar_Model req = [] then req\<lparr>ar_Model := rn_Model rn\<rparr> else req) in
      case InsertPendingReport sf req w of
        (Inl err, w1) \<Rightarrow> (Inl err, w1)
      | (Inr report, w1) \<Rightarrow>
          if length (rw_work w1) < QueueDepth then (Inr report, w1\<lparr>rw_work := rw_work w1 @ [ar_ID report]\<rparr>)
          else (Inl ErrQueueFull, snd (DeleteReport (ar_ID report) w1)))"

text \<open>Cutting a message at a rune boundary; the ellipsis is the three bytes of U+2026.\<close>

fun err_cut :: "string \<Rightarrow> nat \<Rightarrow> nat" where
  "err_cut s 0 = 0"
| "err_cut s (Suc n) =
     (if is_cont (s ! Suc n) then err_cut s n else Suc n)"

definition truncateErr :: "string \<Rightarrow> nat \<Rightarrow> string" where
  "truncateErr s n = (if length s \<le> n then s else take (err_cut s n) s @ [CHR 0xE2, CHR 0x80, CHR 0xA6])"

definition sanitizeRunErr :: "run_error \<Rightarrow> string" where
  "sanitizeRunErr err =
     (case err of
        DeadlineExceeded \<Rightarrow> ''analysis timeout''
      | ErrContextExceeded \<Rightarrow> ''report does not fit the model context window; narrow the report or raise analysis.num_ctx''
      | BackendStatus m \<Rightarrow> ''analysis backend error''
      | BackendURL m \<Rightarrow> ''analysis backend unavailable''
      | RunFailed m \<Rightarrow> truncateErr m 200)"

definition fireCompletion ::
  "bool \<Rightarrow> int \<Rightarrow> analysis_report \<Rightarrow> run_result \<Rightarrow> report_world \<Rightarrow> report_world" where
  "fireCompletion notify i report res w =
     (if \<not> notify then w
      else (case MarkReportNotified i w of
              (Inl err, w1) \<Rightarrow> w1
            | (Inr won, w1) \<Rightarrow>
                if \<not> won then w1
                else w1\<lparr>rw_mailed := rw_mailed w1 @
                  [report\<lparr>ar_Status := ''completed'', ar_Report := rs_Report res, ar_PromptTokens := rs_PromptTokens res,
                          ar_CompletionTokens := rs_CompletionTokens res, ar_CompletedAt := Some (rw_now w1)\<rparr>]\<rparr>))"

text \<open>\<^verbatim>\<open>notify\<close> says whether a completion callback is configured.\<close>

definition process :: "runner \<Rightarrow> bool \<Rightarrow> int \<Rightarrow> report_world \<Rightarrow> report_world" where
  "process rn notify i w =
     (case GetReport i w of
        (Inl err, w1) \<Rightarrow> w1
      | (Inr report, w1) \<Rightarrow>
          (case MarkReportRunning i w1 of
             (Inl err, w2) \<Rightarrow> w2
           | (Inr _, w2) \<Rightarrow>
               (case rn_Run rn (ar_Feed report) (ar_Hosts report) (ar_Services report)
                       (time_sub (ar_PeriodEnd report) (ar_PeriodStart report)) (ar_PromptMode report) (rw_calls w2) of
                  Inl runErr \<Rightarrow> snd (MarkReportFailed i (sanitizeRunErr runErr) w2)
                | Inr res \<Rightarrow>
                    (case MarkReportCompleted i (rs_Report res) (rs_PromptTokens res) (rs_CompletionTokens res) w2 of
                       (Inl err, w3) \<Rightarrow> w3
                     | (Inr _, w3) \<Rightarrow> fireCompletion notify i report res w3))))"

text \<open>One round of the worker's loop.\<close>

definition worker_step :: "runner \<Rightarrow> bool \<Rightarrow> report_world \<Rightarrow> report_world" where
  "worker_step rn notify w =
     (case rw_work w of [] \<Rightarrow> w | i # rest \<Rightarrow> process rn notify i (w\<lparr>rw_work := rest\<rparr>))"

section \<open>One form for a scope\<close>

lemma set_normalize_loop: "set (normalize_loop seen hosts) = trim_space ` set hosts - {[]} - set seen"
  by (induction seen hosts rule: normalize_loop.induct) (auto simp: Let_def)

lemma distinct_normalize_loop: "distinct (normalize_loop seen hosts)"
  by (induction seen hosts rule: normalize_loop.induct) (auto simp: Let_def set_normalize_loop)

text \<open>Two lists of names have the same normal form exactly when they name the same things.\<close>

lemma NormalizeHosts_canonical:
  "NormalizeHosts hs = NormalizeHosts hs' \<longleftrightarrow> trim_space ` set hs - {[]} = trim_space ` set hs' - {[]}"
proof
  assume "NormalizeHosts hs = NormalizeHosts hs'"
  then have "set (NormalizeHosts hs) = set (NormalizeHosts hs')" by simp
  then show "trim_space ` set hs - {[]} = trim_space ` set hs' - {[]}" by (simp add: NormalizeHosts_def set_normalize_loop)
next
  assume "trim_space ` set hs - {[]} = trim_space ` set hs' - {[]}"
  then show "NormalizeHosts hs = NormalizeHosts hs'"
    unfolding NormalizeHosts_def
    by (intro sorted_distinct_set_unique) (simp_all add: set_normalize_loop distinct_normalize_loop)
qed

section \<open>The tables and the queue\<close>

definition report_inv :: "report_world \<Rightarrow> bool" where
  "report_inv w \<longleftrightarrow>
     distinct (map ar_ID (rw_rows w)) \<and> (\<forall>r \<in> set (rw_rows w). ar_ID r < rw_nextID w) \<and>
     distinct (map ar_Slug (rw_rows w)) \<and> distinct (map report_key (filter report_active (rw_rows w))) \<and>
     length (rw_work w) \<le> QueueDepth \<and> distinct (map ar_ID (rw_mailed w)) \<and>
     (\<forall>m \<in> set (rw_mailed w). ar_ID m < rw_nextID w \<and> ar_Status m = ''completed'' \<and>
        (\<forall>r \<in> set (rw_rows w). ar_ID r = ar_ID m \<longrightarrow> rr_NotifiedAt r \<noteq> None))"

lemma distinct_map_filter_twice: "distinct (map f (filter p xs)) \<Longrightarrow> distinct (map f (filter p (filter q xs)))"
  by (induction xs) auto

lemma filter_rows_inv: "report_inv w \<Longrightarrow> report_inv (w\<lparr>rw_rows := filter p (rw_rows w)\<rparr>)"
  unfolding report_inv_def by (auto intro: distinct_map_filter distinct_map_filter_twice simp del: filter_filter)

lemma run_report_inv:
  assumes "report_inv w" "\<And>w. report_inv w \<Longrightarrow> report_inv (snd (stmt w))"
  shows "report_inv (snd (run_report stmt w))"
proof -
  let ?w = "w\<lparr>rw_rows := filter (\<lambda>r. ar_ID r \<notin> set (rw_deletes w (rw_calls w))) (rw_rows w), rw_calls := rw_calls w + 1\<rparr>"
  have "report_inv ?w" using filter_rows_inv [OF assms(1)] by (simp add: report_inv_def)
  then show ?thesis using assms(2) [of ?w] by (auto simp: run_report_def Let_def split: option.split)
qed

definition surviving :: "report_world \<Rightarrow> report_row list" where
  "surviving w = filter (\<lambda>r. ar_ID r \<notin> set (rw_deletes w (rw_calls w))) (rw_rows w)"

lemma run_report_Inr:
  assumes "run_report stmt w = (Inr x, w1)"
  shows "stmt (w\<lparr>rw_rows := surviving w, rw_calls := rw_calls w + 1\<rparr>) = (Inr x, w1)"
  using assms by (simp add: run_report_def Let_def surviving_def split: option.split_asm)

lemma update_report_Inr:
  assumes "update_report p g w = (Inr n, w1)"
  shows "n = length (filter p (surviving w))"
    "w1 = w\<lparr>rw_rows := map (\<lambda>r. if p r then g (rw_now w) r else r) (surviving w), rw_calls := rw_calls w + 1\<rparr>"
  using run_report_Inr [OF assms [unfolded update_report_def]] by auto

text \<open>An update that keeps ids, slugs and keys, activates no row and clears no notification.\<close>

lemma update_rows_inv:
  assumes inv: "report_inv w"
    and keep: "\<And>r. ar_ID (g r) = ar_ID r" "\<And>r. ar_Slug (g r) = ar_Slug r" "\<And>r. report_key (g r) = report_key r"
      "\<And>r. report_active (g r) \<Longrightarrow> report_active r" "\<And>r. rr_NotifiedAt (g r) = None \<Longrightarrow> rr_NotifiedAt r = None"
  shows "report_inv (w\<lparr>rw_rows := map g (rw_rows w)\<rparr>)"
proof -
  have "distinct (map report_key (filter report_active (map g rs)))" if "distinct (map report_key (filter report_active rs))" for rs
    using that by (induction rs) (auto simp: keep(3) dest!: keep(4) split: if_splits)
  moreover have "ar_ID \<circ> g = ar_ID" "ar_Slug \<circ> g = ar_Slug" by (auto simp: keep)
  moreover have "rr_NotifiedAt (g r) \<noteq> None" if "rr_NotifiedAt r \<noteq> None" for r using that by (metis keep(5))
  ultimately show ?thesis using inv unfolding report_inv_def
    by (auto simp: keep(1,2) simp del: filter_map not_None_eq)
qed

lemma update_report_inv:
  assumes "report_inv w"
    and "\<And>t r. ar_ID (g t r) = ar_ID r" "\<And>t r. ar_Slug (g t r) = ar_Slug r" "\<And>t r. report_key (g t r) = report_key r"
      "\<And>t r. p r \<Longrightarrow> report_active (g t r) \<Longrightarrow> report_active r" "\<And>t r. rr_NotifiedAt (g t r) = None \<Longrightarrow> rr_NotifiedAt r = None"
  shows "report_inv (snd (update_report p g w))"
  unfolding update_report_def
  by (rule run_report_inv [OF assms(1)]) (auto intro!: update_rows_inv simp: assms(2-4) intro: assms(5,6) split: if_splits)

lemma insert_report_inv: "report_inv w \<Longrightarrow> report_inv (snd (insert_report r w))"
  unfolding insert_report_def
proof (rule run_report_inv, assumption)
  fix w
  assume inv: "report_inv w"
  let ?stored = "r\<lparr>ar_ID := rw_nextID w, ar_CreatedAt := rw_now w\<rparr>"
  let ?row = "analysis_report.extend (column_defaults ?stored) (report_row.fields None)"
  have row: "ar_ID ?row = rw_nextID w" "ar_Slug ?row = ar_Slug r" "report_key ?row = report_key r"
    by (simp_all add: analysis_report.extend_def report_row.fields_def report_key_def column_defaults_def)
  let ?w1 = "w\<lparr>rw_nextID := rw_nextID w + 1\<rparr>"
  have w1: "report_inv ?w1" using inv unfolding report_inv_def by fastforce
  have "report_inv (?w1\<lparr>rw_rows := rw_rows w @ [?row]\<rparr>)"
    if "\<not> list_ex (\<lambda>x. ar_Slug x = ar_Slug r) (rw_rows w)" "\<not> list_ex (\<lambda>x. report_active x \<and> report_key x = report_key r) (rw_rows w)"
    using inv that unfolding report_inv_def list_ex_iff by (fastforce simp: row image_iff)
  then show "report_inv (snd (insert_stmt r w))" using w1 by (simp add: insert_stmt_def Let_def)
qed

lemma insert_attempts_inv: "report_inv w \<Longrightarrow> report_inv (snd (insert_attempts base r k n w))"
proof (induction n arbitrary: k w)
  case (Suc n)
  obtain res w1 where i: "insert_report (r\<lparr>ar_Slug := if k > 1 then base @ ''-'' @ fmt_int (int k) else base\<rparr>) w = (res, w1)" by fastforce
  have w1: "report_inv w1" using insert_report_inv [OF Suc.prems] i by (metis snd_conv)
  then show ?case using Suc.IH [OF w1, of "Suc k"] i by (auto simp: Let_def split: sum.split insert_result.split)
qed simp

lemma DeleteReport_inv: "report_inv w \<Longrightarrow> report_inv (snd (DeleteReport i w))"
  unfolding DeleteReport_def by (rule run_report_inv) (simp_all add: filter_rows_inv)

lemma report_reads_inv:
  "report_inv w \<Longrightarrow> report_inv (snd (GetReport i w))"
  "report_inv w \<Longrightarrow> report_inv (snd (GetReportBySlug slug w))"
  "report_inv w \<Longrightarrow> report_inv (snd (ListReports limit w))"
  unfolding GetReport_def GetReportBySlug_def ListReports_def by (rule run_report_inv; simp)+

lemma affected_snd [simp]: "snd (affected res) = snd res"
  by (auto simp: affected_def split: prod.split sum.split)

lemma MarkReport_inv:
  assumes "report_inv w"
  shows "report_inv (snd (MarkReportRunning i w))" "report_inv (snd (MarkReportCompleted i body a b w))"
    "report_inv (snd (MarkReportFailed i msg w))" "report_inv (snd (ReconcileOrphanedReports w))"
  unfolding MarkReportRunning_def MarkReportCompleted_def MarkReportFailed_def ReconcileOrphanedReports_def affected_snd
  by (rule update_report_inv [OF assms]; simp add: report_key_def report_active_def)+

lemma Enqueue_inv:
  assumes "report_inv w"
  shows "report_inv (snd (Enqueue sf rn req w))"
proof -
  let ?req = "if ar_Model req = [] then req\<lparr>ar_Model := rn_Model rn\<rparr> else req"
  obtain res w1 where i: "InsertPendingReport sf ?req w = (res, w1)" by fastforce
  have w1: "report_inv w1" using insert_attempts_inv [OF assms] i unfolding InsertPendingReport_def Let_def by (metis snd_conv)
  then have "report_inv (w1\<lparr>rw_work := rw_work w1 @ [j]\<rparr>)" if "length (rw_work w1) < QueueDepth" for j
    using that by (simp add: report_inv_def)
  then show ?thesis using i w1 DeleteReport_inv [OF w1] by (auto simp: Enqueue_def Let_def split: sum.split)
qed

text \<open>The compare-and-swap wins only on a row that no mail was sent for.\<close>

lemma fireCompletion_inv:
  assumes inv: "report_inv w" and i: "ar_ID report = i"
  shows "report_inv (fireCompletion notify i report res w)"
proof (cases notify)
  case True
  let ?p = "\<lambda>r. ar_ID r = i \<and> rr_NotifiedAt r = None" and ?g = "\<lambda>now r. r\<lparr>rr_NotifiedAt := Some now\<rparr>"
  obtain n w1 where u: "update_report ?p ?g w = (n, w1)" by fastforce
  have w1: "report_inv w1"
    using update_report_inv [OF inv, of ?g ?p] u by (simp add: report_key_def report_active_def)
  show ?thesis
  proof (cases "\<exists>k. n = Inr k \<and> k \<noteq> 0")
    case False
    then show ?thesis using True w1 u by (auto simp: fireCompletion_def MarkReportNotified_def split: sum.split)
  next
    case True
    then obtain k where k: "n = Inr k" "k \<noteq> 0" by blast
    have rows: "k = length (filter ?p (surviving w))" "rw_rows w1 = map (\<lambda>r. if ?p r then ?g (rw_now w) r else r) (surviving w)"
      "rw_mailed w1 = rw_mailed w" "rw_nextID w1 = rw_nextID w"
      using update_report_Inr [OF u [unfolded k(1)]] by simp_all
    then obtain r where r: "r \<in> set (surviving w)" "ar_ID r = i" "rr_NotifiedAt r = None" using k(2) by (auto simp: filter_empty_conv)
    have "r \<in> set (rw_rows w)" using r(1) by (simp add: surviving_def)
    then have fresh: "i < rw_nextID w" "i \<notin> ar_ID ` set (rw_mailed w)" using inv r(2,3) unfolding report_inv_def by fastforce+
    have noted: "rr_NotifiedAt x \<noteq> None" if x: "x \<in> set (rw_rows w1)" "ar_ID x = i" for x
    proof -
      obtain y where "x = (if ?p y then ?g (rw_now w) y else y)" using x(1) [unfolded rows(2) set_map] by (rule imageE)
      then show ?thesis using x(2) by (cases "?p y") (simp_all del: not_None_eq)
    qed
    let ?m = "report\<lparr>ar_Status := ''completed'', ar_Report := rs_Report res, ar_PromptTokens := rs_PromptTokens res,
        ar_CompletionTokens := rs_CompletionTokens res, ar_CompletedAt := Some (rw_now w1)\<rparr>"
    have "report_inv (w1\<lparr>rw_mailed := rw_mailed w1 @ [?m]\<rparr>)"
      using w1 fresh noted i rows(3,4) unfolding report_inv_def by (auto simp del: not_None_eq)
    moreover have "fireCompletion notify i report res w = w1\<lparr>rw_mailed := rw_mailed w1 @ [?m]\<rparr>"
      using \<open>notify\<close> u k by (simp add: fireCompletion_def MarkReportNotified_def)
    ultimately show ?thesis by simp
  qed
qed (simp add: fireCompletion_def inv)

lemma GetReport_ID: "GetReport i w = (Inr r, w1) \<Longrightarrow> ar_ID r = i"
  by (auto simp: GetReport_def run_report_def Let_def the_report_def analysis_report.truncate_def find_Some_iff split: option.splits)

lemma process_inv:
  assumes "report_inv w"
  shows "report_inv (process rn notify i w)"
proof -
  obtain g w1 where g: "GetReport i w = (g, w1)" by fastforce
  have w1: "report_inv w1" using report_reads_inv(1) [OF assms] g by (metis snd_conv)
  obtain m w2 where m: "MarkReportRunning i w1 = (m, w2)" by fastforce
  have w2: "report_inv w2" using MarkReport_inv(1) [OF w1] m by (metis snd_conv)
  have c: "report_inv w3" if "MarkReportCompleted i b x y w2 = (n, w3)" for b x y n w3
    using MarkReport_inv(2) [OF w2] that by (metis snd_conv)
  show ?thesis
    using w1 w2 g m c GetReport_ID [of i w] MarkReport_inv(3) [OF w2]
    by (auto simp: process_def intro!: fireCompletion_inv split: sum.split prod.split)
qed

lemma worker_step_inv: "report_inv w \<Longrightarrow> report_inv (worker_step rn notify w)"
  by (auto simp: worker_step_def report_inv_def [of "_\<lparr>rw_work := _\<rparr>"] report_inv_def [of w] split: list.split intro!: process_inv)

section \<open>Histories\<close>

text \<open>Requests, the worker, deletions, restarts (which lose the queue and reconcile the rows) and the clock.\<close>

inductive report_step :: "slug_format \<Rightarrow> runner \<Rightarrow> bool \<Rightarrow> report_world \<Rightarrow> report_world \<Rightarrow> bool" for sf rn notify where
  enqueue: "report_step sf rn notify w (snd (Enqueue sf rn req w))"
| work: "report_step sf rn notify w (worker_step rn notify w)"
| remove: "report_step sf rn notify w (snd (DeleteReport i w))"
| restart: "report_step sf rn notify w (snd (ReconcileOrphanedReports (w\<lparr>rw_work := []\<rparr>)))"
| clock: "report_step sf rn notify w (w\<lparr>rw_now := t\<rparr>)"

definition report_init :: "report_world \<Rightarrow> bool" where
  "report_init w \<longleftrightarrow> rw_rows w = [] \<and> rw_work w = [] \<and> rw_mailed w = []"

lemma report_step_inv: "report_step sf rn notify w w' \<Longrightarrow> report_inv w \<Longrightarrow> report_inv w'"
proof (induction rule: report_step.induct)
  case (restart w)
  then show ?case by (intro MarkReport_inv(4)) (simp add: report_inv_def)
next
  case (clock w t)
  then show ?case by (simp add: report_inv_def)
qed (simp_all add: Enqueue_inv worker_step_inv DeleteReport_inv)

lemma report_steps_inv: "(report_step sf rn notify)\<^sup>*\<^sup>* w w' \<Longrightarrow> report_inv w \<Longrightarrow> report_inv w'"
  by (induction rule: rtranclp_induct) (auto intro: report_step_inv)

lemma report_init_inv: "report_init w \<Longrightarrow> report_inv w"
  by (simp add: report_init_def report_inv_def)

subsection \<open>A finished report is final\<close>

definition report_finished :: "('a analysis_report_scheme) \<Rightarrow> bool" where
  "report_finished r \<longleftrightarrow> ar_Status r = ''completed'' \<or> ar_Status r = ''failed''"

definition same_outcome :: "('a analysis_report_scheme) \<Rightarrow> ('b analysis_report_scheme) \<Rightarrow> bool" where
  "same_outcome r r' \<longleftrightarrow> ar_Status r' = ar_Status r \<and> ar_Report r' = ar_Report r \<and> ar_Error r' = ar_Error r \<and>
     ar_PromptTokens r' = ar_PromptTokens r \<and> ar_CompletionTokens r' = ar_CompletionTokens r"

definition report_later :: "report_row \<Rightarrow> report_row \<Rightarrow> bool" where
  "report_later r r' \<longleftrightarrow> ar_ID r' = ar_ID r \<and> (report_finished r \<longrightarrow> same_outcome r r')"

definition reports_evolve :: "report_world \<Rightarrow> report_world \<Rightarrow> bool" where
  "reports_evolve w w' \<longleftrightarrow> rw_nextID w \<le> rw_nextID w' \<and>
     (\<forall>r' \<in> set (rw_rows w'). rw_nextID w \<le> ar_ID r' \<or> (\<exists>r \<in> set (rw_rows w). report_later r r'))"

lemma report_later_refl [simp]: "report_later r r"
  by (simp add: report_later_def same_outcome_def)

lemma report_later_trans: "report_later r r' \<Longrightarrow> report_later r' r'' \<Longrightarrow> report_later r r''"
  by (auto simp: report_later_def same_outcome_def report_finished_def)

lemma reports_evolve_subset:
  assumes "set (rw_rows w') \<subseteq> set (rw_rows w)" "rw_nextID w \<le> rw_nextID w'"
  shows "reports_evolve w w'"
  using assms report_later_refl unfolding reports_evolve_def by blast

lemma reports_evolve_refl [simp]: "reports_evolve w w"
  by (simp add: reports_evolve_subset)

lemma reports_evolve_trans: "reports_evolve w w' \<Longrightarrow> reports_evolve w' w'' \<Longrightarrow> reports_evolve w w''"
proof -
  assume a: "reports_evolve w w'" "reports_evolve w' w''"
  have "rw_nextID w \<le> ar_ID r \<or> (\<exists>x \<in> set (rw_rows w). report_later x r)" if r: "r \<in> set (rw_rows w'')" for r
  proof -
    consider "rw_nextID w' \<le> ar_ID r" | y where "y \<in> set (rw_rows w')" "report_later y r"
      using a(2) r unfolding reports_evolve_def by blast
    then show ?thesis
    proof cases
      case 1
      then show ?thesis using a(1) unfolding reports_evolve_def by simp
    next
      case 2
      then consider "rw_nextID w \<le> ar_ID y" | x where "x \<in> set (rw_rows w)" "report_later x y"
        using a(1) unfolding reports_evolve_def by blast
      then show ?thesis using 2(2) report_later_trans by cases (auto simp: report_later_def)
    qed
  qed
  then show ?thesis using a unfolding reports_evolve_def by (meson order_trans)
qed

lemma run_report_evolves:
  assumes "\<And>w. reports_evolve w (snd (stmt w))"
  shows "reports_evolve w (snd (run_report stmt w))"
proof -
  let ?w = "w\<lparr>rw_rows := surviving w, rw_calls := rw_calls w + 1\<rparr>"
  have "reports_evolve w ?w" by (rule reports_evolve_subset) (auto simp: surviving_def)
  then show ?thesis using reports_evolve_trans [OF _ assms [of ?w]]
    by (simp add: run_report_def Let_def surviving_def split: option.split)
qed

lemma update_report_evolves:
  assumes "\<And>r. r \<in> set (rw_rows w) \<Longrightarrow> p r \<Longrightarrow> report_later r (g (rw_now w) r)"
  shows "reports_evolve w (snd (update_report p g w))"
proof -
  let ?w = "w\<lparr>rw_rows := surviving w, rw_calls := rw_calls w + 1\<rparr>"
  let ?f = "\<lambda>r. if p r then g (rw_now w) r else r"
  have "report_later r (?f r)" if "r \<in> set (surviving w)" for r using assms that by (simp add: surviving_def)
  moreover have "set (surviving w) \<subseteq> set (rw_rows w)" by (auto simp: surviving_def)
  ultimately have "\<exists>r \<in> set (rw_rows w). report_later r r'" if "r' \<in> ?f ` set (surviving w)" for r' using that by blast
  then have "reports_evolve w (?w\<lparr>rw_rows := map ?f (surviving w)\<rparr>)" by (simp add: reports_evolve_def)
  moreover have "reports_evolve w ?w" by (rule reports_evolve_subset) (auto simp: surviving_def)
  ultimately show ?thesis by (simp add: update_report_def run_report_def Let_def surviving_def cong: if_cong split: option.split)
qed

lemma insert_report_evolves: "reports_evolve w (snd (insert_report r w))"
  unfolding insert_report_def
proof (rule run_report_evolves)
  fix w :: report_world
  have "analysis_report.extend (column_defaults (r\<lparr>ar_ID := rw_nextID w, ar_CreatedAt := rw_now w\<rparr>)) (report_row.fields None) \<noteq> x
      \<or> rw_nextID w \<le> ar_ID x" for x
    by (auto simp: analysis_report.extend_def report_row.fields_def column_defaults_def)
  moreover have "reports_evolve w (w\<lparr>rw_nextID := rw_nextID w + 1\<rparr>)" by (rule reports_evolve_subset) simp_all
  ultimately show "reports_evolve w (snd (insert_stmt r w))"
    by (auto simp: insert_stmt_def Let_def reports_evolve_def intro: report_later_refl)
qed

lemma insert_attempts_evolves: "reports_evolve w (snd (insert_attempts base r k n w))"
proof (induction n arbitrary: k w)
  case (Suc n)
  obtain res w1 where i: "insert_report (r\<lparr>ar_Slug := if k > 1 then base @ ''-'' @ fmt_int (int k) else base\<rparr>) w = (res, w1)" by fastforce
  then have w1: "reports_evolve w w1" using insert_report_evolves by (metis snd_conv)
  show ?case using reports_evolve_trans [OF w1 Suc.IH [of w1 "Suc k"]] w1 i by (auto simp: Let_def split: sum.split insert_result.split)
qed simp

lemma DeleteReport_evolves: "reports_evolve w (snd (DeleteReport i w))"
  unfolding DeleteReport_def by (rule run_report_evolves) (auto intro: reports_evolve_subset)

lemma Enqueue_evolves: "reports_evolve w (snd (Enqueue sf rn req w))"
proof -
  let ?req = "if ar_Model req = [] then req\<lparr>ar_Model := rn_Model rn\<rparr> else req"
  obtain res w1 where i: "InsertPendingReport sf ?req w = (res, w1)" by fastforce
  then have w1: "reports_evolve w w1" using insert_attempts_evolves unfolding InsertPendingReport_def Let_def by (metis snd_conv)
  have "reports_evolve w1 (w1\<lparr>rw_work := q\<rparr>)" for q by (rule reports_evolve_subset) simp_all
  then show ?thesis using i w1 reports_evolve_trans [OF w1] DeleteReport_evolves [of w1]
    by (auto simp: Enqueue_def Let_def split: sum.split)
qed

text \<open>After a successful claim the report is running, so completing it changes no finished report.\<close>

lemma MarkReportRunning_running:
  assumes "MarkReportRunning i w = (Inr u, w1)" "report_inv w" "r \<in> set (rw_rows w1)" "ar_ID r = i"
  shows "ar_Status r = ''running''"
proof -
  let ?p = "\<lambda>r. ar_ID r = i \<and> ar_Status r = ''pending''" and ?g = "\<lambda>now r. r\<lparr>ar_Status := ''running'', ar_StartedAt := Some now\<rparr>"
  obtain n where n: "update_report ?p ?g w = (Inr n, w1)" "n \<noteq> 0"
    using assms(1) by (auto simp: MarkReportRunning_def affected_def split: prod.splits sum.splits if_splits)
  note u = update_report_Inr [OF n(1)]
  obtain x where x: "x \<in> set (surviving w)" "?p x" using u(1) n(2) by (auto simp: filter_empty_conv)
  obtain y where y: "y \<in> set (surviving w)" "r = (if ?p y then ?g (rw_now w) y else y)" using assms(3) u(2) by auto
  have "ar_ID y = ar_ID x" using y(2) x(2) assms(4) by (cases "?p y") auto
  then have "y = x" using assms(2) x(1) y(1) unfolding report_inv_def surviving_def by (auto dest: inj_onD simp: distinct_map)
  then show ?thesis using y(2) x(2) by simp
qed

lemma fireCompletion_evolves: "reports_evolve w (fireCompletion notify i report res w)"
proof -
  obtain won w1 where n: "MarkReportNotified i w = (won, w1)" by fastforce
  have "reports_evolve w (snd (MarkReportNotified i w))"
    using update_report_evolves [of w "\<lambda>r. ar_ID r = i \<and> rr_NotifiedAt r = None" "\<lambda>now r. r\<lparr>rr_NotifiedAt := Some now\<rparr>"]
    by (auto simp: MarkReportNotified_def report_later_def same_outcome_def split: prod.split sum.split)
  then have w1: "reports_evolve w w1" using n by simp
  have "reports_evolve w1 (w1\<lparr>rw_mailed := q\<rparr>)" for q by (rule reports_evolve_subset) simp_all
  then show ?thesis using n w1 reports_evolve_trans [OF w1] by (auto simp: fireCompletion_def split: sum.split)
qed

lemma process_evolves:
  assumes inv: "report_inv w"
  shows "reports_evolve w (process rn notify i w)"
proof -
  obtain g w1 where g: "GetReport i w = (g, w1)" by fastforce
  have "reports_evolve w (snd (GetReport i w))" unfolding GetReport_def by (rule run_report_evolves) simp
  then have w1: "report_inv w1" "reports_evolve w w1" using report_reads_inv(1) [OF inv] g by (metis snd_conv)+
  obtain m w2 where m: "MarkReportRunning i w1 = (m, w2)" by fastforce
  have "reports_evolve w1 (snd (MarkReportRunning i w1))" unfolding MarkReportRunning_def affected_snd
    by (rule update_report_evolves) (auto simp: report_later_def report_finished_def)
  then have w2: "reports_evolve w w2" using m reports_evolve_trans [OF w1(2)] by (metis snd_conv)
  show ?thesis
  proof (cases m)
    case (Inl err)
    then show ?thesis using g m w1 w2 by (auto simp: process_def split: sum.split)
  next
    case (Inr u)
    then have running: "\<And>r. r \<in> set (rw_rows w2) \<Longrightarrow> ar_ID r = i \<Longrightarrow> \<not> report_finished r"
      using MarkReportRunning_running [OF _ w1(1)] m by (fastforce simp: report_finished_def)
    have f: "reports_evolve w2 (snd (MarkReportFailed i msg w2))" for msg unfolding MarkReportFailed_def
      by (rule update_report_evolves) (auto simp: report_later_def dest: running)
    have c: "reports_evolve w2 w3" if "MarkReportCompleted i b x y w2 = (n, w3)" for b x y n w3
    proof -
      have "reports_evolve w2 (snd (MarkReportCompleted i b x y w2))" unfolding MarkReportCompleted_def
        by (rule update_report_evolves) (auto simp: report_later_def dest: running)
      then show ?thesis using that by simp
    qed
    show ?thesis
      using g m Inr w1 w2 f fireCompletion_evolves reports_evolve_trans [OF reports_evolve_trans [OF w2 c]] reports_evolve_trans [OF w2]
      by (auto simp: process_def split: sum.split prod.split)
  qed
qed

lemma worker_step_evolves:
  assumes "report_inv w"
  shows "reports_evolve w (worker_step rn notify w)"
proof (cases "rw_work w")
  case (Cons i rest)
  have "report_inv (w\<lparr>rw_work := rest\<rparr>)" using assms Cons by (simp add: report_inv_def)
  then have "reports_evolve (w\<lparr>rw_work := rest\<rparr>) (worker_step rn notify w)" using Cons by (simp add: worker_step_def process_evolves)
  moreover have "reports_evolve w (w\<lparr>rw_work := rest\<rparr>)" by (rule reports_evolve_subset) simp_all
  ultimately show ?thesis by (rule reports_evolve_trans [rotated])
qed (simp add: worker_step_def)

lemma report_step_evolves: "report_step sf rn notify w w' \<Longrightarrow> report_inv w \<Longrightarrow> reports_evolve w w'"
proof (induction rule: report_step.induct)
  case (restart w)
  have "reports_evolve w (w\<lparr>rw_work := []\<rparr>)" by (rule reports_evolve_subset) simp_all
  moreover have "reports_evolve (w\<lparr>rw_work := []\<rparr>) (snd (ReconcileOrphanedReports (w\<lparr>rw_work := []\<rparr>)))"
    unfolding ReconcileOrphanedReports_def
    by (rule update_report_evolves) (auto simp: report_later_def report_finished_def report_active_def)
  ultimately show ?case by (rule reports_evolve_trans)
next
  case (clock w t)
  show ?case by (rule reports_evolve_subset) simp_all
qed (simp_all add: Enqueue_evolves worker_step_evolves DeleteReport_evolves)

lemma report_steps_evolve:
  "(report_step sf rn notify)\<^sup>*\<^sup>* w w' \<Longrightarrow> report_inv w \<Longrightarrow> reports_evolve w w'"
  by (induction rule: rtranclp_induct) (auto intro: reports_evolve_trans report_step_evolves report_steps_inv)


text \<open>C24: Once a report is completed or failed, nothing that happens later, short of its deletion, changes its
  status, text, error or token counts: no restart, worker round or request reopens it, and its id is not reused.\<close>

theorem finished_report_is_final:
  assumes "(report_step sf rn notify)\<^sup>*\<^sup>* w0 w" "report_init w0" "(report_step sf rn notify)\<^sup>*\<^sup>* w w'"
    and "r \<in> set (rw_rows w)" "report_finished r" "r' \<in> set (rw_rows w')" "ar_ID r' = ar_ID r"
  shows "same_outcome r r'"
proof -
  have inv: "report_inv w" by (rule report_steps_inv [OF assms(1) report_init_inv [OF assms(2)]])
  have "ar_ID r < rw_nextID w" using inv assms(4) by (simp add: report_inv_def)
  then obtain x where x: "x \<in> set (rw_rows w)" "report_later x r'"
    using report_steps_evolve [OF assms(3) inv] assms(6,7) unfolding reports_evolve_def by auto
  then have "x = r" using inv assms(4,7) by (auto simp: report_later_def report_inv_def distinct_map dest: inj_onD)
  then show ?thesis using x(2) assms(5) by (simp add: report_later_def)
qed

lemma the_report_simps [simp]:
  "ar_ID (the_report r) = ar_ID r" "ar_Feed (the_report r) = ar_Feed r" "ar_Hosts (the_report r) = ar_Hosts r"
  "ar_Services (the_report r) = ar_Services r" "ar_PromptMode (the_report r) = ar_PromptMode r"
  "ar_PeriodStart (the_report r) = ar_PeriodStart r" "ar_PeriodEnd (the_report r) = ar_PeriodEnd r"
  by (simp_all add: the_report_def analysis_report.truncate_def)

section \<open>What the worker does to a report\<close>

definition report_quiet :: "report_world \<Rightarrow> bool" where
  "report_quiet w \<longleftrightarrow> (\<forall>n. rw_fail w n = None \<and> rw_deletes w n = [])"

lemma run_report_quiet: "report_quiet w \<Longrightarrow> run_report stmt w = stmt (w\<lparr>rw_calls := rw_calls w + 1\<rparr>)"
  by (simp add: run_report_def Let_def report_quiet_def)

lemma report_quiet_upd [simp]:
  "report_quiet (w\<lparr>rw_rows := rs\<rparr>) = report_quiet w" "report_quiet (w\<lparr>rw_calls := n\<rparr>) = report_quiet w"
  "report_quiet (w\<lparr>rw_work := q\<rparr>) = report_quiet w" "report_quiet (w\<lparr>rw_mailed := m\<rparr>) = report_quiet w"
  by (simp_all add: report_quiet_def)

text \<open>An update that finds its row.\<close>

lemma update_report_hit:
  assumes "report_quiet w" "r \<in> set (rw_rows w)" "p r"
  obtains n w1 where "update_report p g w = (Inr n, w1)" "n \<noteq> 0" "g (rw_now w) r \<in> set (rw_rows w1)" "report_quiet w1"
    "rw_work w1 = rw_work w" "rw_mailed w1 = rw_mailed w" "rw_calls w1 = rw_calls w + 1" "rw_now w1 = rw_now w"
proof (rule that)
  let ?f = "\<lambda>r. if p r then g (rw_now w) r else r"
  show "update_report p g w = (Inr (length (filter p (rw_rows w))), w\<lparr>rw_rows := map ?f (rw_rows w), rw_calls := rw_calls w + 1\<rparr>)"
    by (simp add: update_report_def run_report_quiet [OF assms(1)] cong: if_cong)
  show "length (filter p (rw_rows w)) \<noteq> 0" using assms(2,3) by (auto simp: filter_empty_conv)
  show "g (rw_now w) r \<in> set (rw_rows (w\<lparr>rw_rows := map ?f (rw_rows w), rw_calls := rw_calls w + 1\<rparr>))"
    using assms(2,3) by force
qed (simp_all add: assms(1))

lemma report_inv_unique: "report_inv w \<Longrightarrow> r \<in> set (rw_rows w) \<Longrightarrow> x \<in> set (rw_rows w) \<Longrightarrow> ar_ID x = ar_ID r \<Longrightarrow> x = r"
  by (auto simp: report_inv_def distinct_map dest: inj_onD)

lemma GetReport_quiet:
  assumes "report_quiet w" "report_inv w" "r \<in> set (rw_rows w)"
  shows "GetReport (ar_ID r) w = (Inr (the_report r), w\<lparr>rw_calls := rw_calls w + 1\<rparr>)"
proof -
  obtain x where x: "find (\<lambda>x. ar_ID x = ar_ID r) (rw_rows w) = Some x"
    using assms(3) by (cases "find (\<lambda>x. ar_ID x = ar_ID r) (rw_rows w)") (auto simp: find_None_iff)
  then have "x \<in> set (rw_rows w)" "ar_ID x = ar_ID r" by (auto simp: find_Some_iff)
  then have "x = r" using report_inv_unique assms(2,3) by blast
  then show ?thesis using x by (simp add: GetReport_def run_report_quiet [OF assms(1)])
qed

lemma fireCompletion_row:
  assumes quiet: "report_quiet w" and inv: "report_inv w" and r: "r \<in> set (rw_rows w)" and i: "ar_ID report = ar_ID r"
  shows "rw_work (fireCompletion notify (ar_ID r) report res w) = rw_work w"
    and "\<exists>r' \<in> set (rw_rows (fireCompletion notify (ar_ID r) report res w)). ar_ID r' = ar_ID r \<and> same_outcome r r'"
    and "map ar_ID (rw_mailed (fireCompletion notify (ar_ID r) report res w)) =
      map ar_ID (rw_mailed w) @ (if notify \<and> rr_NotifiedAt r = None then [ar_ID r] else [])"
proof -
  let ?p = "\<lambda>x. ar_ID x = ar_ID r \<and> rr_NotifiedAt x = None" and ?g = "\<lambda>now r. r\<lparr>rr_NotifiedAt := Some now\<rparr>"
  let ?w = "fireCompletion notify (ar_ID r) report res w"
  have "rw_work ?w = rw_work w \<and> (\<exists>r' \<in> set (rw_rows ?w). ar_ID r' = ar_ID r \<and> same_outcome r r') \<and>
    map ar_ID (rw_mailed ?w) = map ar_ID (rw_mailed w) @ (if notify \<and> rr_NotifiedAt r = None then [ar_ID r] else [])"
  proof (cases "notify \<and> rr_NotifiedAt r = None")
    case True
    obtain n w1 where u: "update_report ?p ?g w = (Inr n, w1)" "n \<noteq> 0"
      and w1: "r\<lparr>rr_NotifiedAt := Some (rw_now w)\<rparr> \<in> set (rw_rows w1)" "rw_work w1 = rw_work w" "rw_mailed w1 = rw_mailed w"
      by (rule update_report_hit [OF quiet r, of ?p ?g]) (use True in auto)
    then have "\<exists>r' \<in> set (rw_rows w1). ar_ID r' = ar_ID r \<and> same_outcome r r'" by (intro bexI [OF _ w1(1)]) (simp add: same_outcome_def)
    then show ?thesis using True u w1(2,3) i by (simp add: fireCompletion_def MarkReportNotified_def)
  next
    case False
    have none: "\<not> ?p x" if "x \<in> set (rw_rows w)" "notify" for x using that report_inv_unique [OF inv r] False by blast
    have "filter ?p (rw_rows w) = []" if notify using none that by (simp add: filter_empty_conv)
    moreover have "map (\<lambda>x. if ?p x then ?g (rw_now w) x else x) (rw_rows w) = rw_rows w" if notify
      using none that by (intro map_idI) metis
    ultimately have "?w = w \<or> ?w = w\<lparr>rw_calls := rw_calls w + 1\<rparr>"
      by (auto simp: fireCompletion_def MarkReportNotified_def update_report_def run_report_quiet [OF quiet] cong: if_cong)
    then show ?thesis using r False by (auto simp: same_outcome_def)
  qed
  then show "rw_work ?w = rw_work w" "\<exists>r' \<in> set (rw_rows ?w). ar_ID r' = ar_ID r \<and> same_outcome r r'"
    "map ar_ID (rw_mailed ?w) = map ar_ID (rw_mailed w) @ (if notify \<and> rr_NotifiedAt r = None then [ar_ID r] else [])"
    by blast+
qed

definition report_done :: "run_error + run_result \<Rightarrow> report_row \<Rightarrow> bool" where
  "report_done outcome r \<longleftrightarrow>
     (case outcome of
        Inl err \<Rightarrow> ar_Status r = ''failed'' \<and> ar_Error r = sanitizeRunErr err
      | Inr res \<Rightarrow> ar_Status r = ''completed'' \<and> ar_Report r = rs_Report res \<and>
          ar_PromptTokens r = rs_PromptTokens res \<and> ar_CompletionTokens r = rs_CompletionTokens res)"

text \<open>With a working database and no deletion, a worker round on a queued pending report takes it off the queue
  and finishes it: failed with the sanitised message of the run's error, or completed with the run's text and
  token counts and, when a callback is configured and the report was not announced before, announced.\<close>

lemma worker_finishes_report:
  assumes quiet: "report_quiet w" and inv: "report_inv w" and q: "rw_work w = ar_ID r # rest"
    and r: "r \<in> set (rw_rows w)" "ar_Status r = ''pending''"
    and run: "outcome = rn_Run rn (ar_Feed r) (ar_Hosts r) (ar_Services r) (time_sub (ar_PeriodEnd r) (ar_PeriodStart r))
      (ar_PromptMode r) (rw_calls w + 2)"
  shows "rw_work (worker_step rn notify w) = rest \<and>
    (\<exists>r' \<in> set (rw_rows (worker_step rn notify w)). ar_ID r' = ar_ID r \<and> report_done outcome r') \<and>
    map ar_ID (rw_mailed (worker_step rn notify w)) = map ar_ID (rw_mailed w) @
      (if notify \<and> (\<exists>res. outcome = Inr res) \<and> rr_NotifiedAt r = None then [ar_ID r] else [])"
proof -
  let ?i = "ar_ID r"
  let ?w0 = "w\<lparr>rw_work := rest\<rparr>"
  let ?w1 = "?w0\<lparr>rw_calls := rw_calls w + 1\<rparr>"
  have get: "GetReport ?i ?w0 = (Inr (the_report r), ?w1)"
    using GetReport_quiet [of ?w0 r] quiet inv q r by (simp add: report_inv_def)
  obtain n w2 where u: "update_report (\<lambda>x. ar_ID x = ?i \<and> ar_Status x = ''pending'')
        (\<lambda>now r. r\<lparr>ar_Status := ''running'', ar_StartedAt := Some now\<rparr>) ?w1 = (Inr n, w2)" "n \<noteq> 0"
    and w2: "r\<lparr>ar_Status := ''running'', ar_StartedAt := Some (rw_now w)\<rparr> \<in> set (rw_rows w2)" "report_quiet w2"
      "rw_work w2 = rest" "rw_mailed w2 = rw_mailed w" "rw_calls w2 = rw_calls w + 2" "rw_now w2 = rw_now w"
    by (rule update_report_hit [of ?w1 r "\<lambda>x. ar_ID x = ?i \<and> ar_Status x = ''pending''"
        "\<lambda>now r. r\<lparr>ar_Status := ''running'', ar_StartedAt := Some now\<rparr>"]) (use quiet r in auto)
  have mark: "MarkReportRunning ?i ?w1 = (Inr (), w2)" using u by (simp add: MarkReportRunning_def affected_def)
  have step: "worker_step rn notify w = (case outcome of Inl err \<Rightarrow> snd (MarkReportFailed ?i (sanitizeRunErr err) w2)
      | Inr res \<Rightarrow> (case MarkReportCompleted ?i (rs_Report res) (rs_PromptTokens res) (rs_CompletionTokens res) w2 of
           (Inl err, w3) \<Rightarrow> w3 | (Inr _, w3) \<Rightarrow> fireCompletion notify ?i (the_report r) res w3))"
    using q w2(5) by (simp add: worker_step_def process_def get [simplified] mark [simplified] run)
  show ?thesis
  proof (cases outcome)
    case (Inl err)
    obtain n w3 where f: "MarkReportFailed ?i (sanitizeRunErr err) w2 = (Inr n, w3)" "rw_work w3 = rest" "rw_mailed w3 = rw_mailed w"
      "r\<lparr>ar_StartedAt := Some (rw_now w), ar_Status := ''failed'', ar_Error := sanitizeRunErr err, ar_CompletedAt := Some (rw_now w)\<rparr> \<in> set (rw_rows w3)"
      unfolding MarkReportFailed_def
      by (rule update_report_hit [OF w2(2,1), of "\<lambda>r. ar_ID r = ?i" "\<lambda>now r. r\<lparr>ar_Status := ''failed'',
        ar_Error := sanitizeRunErr err, ar_CompletedAt := Some now\<rparr>"]) (use w2 in auto)
    have "\<exists>r' \<in> set (rw_rows w3). ar_ID r' = ?i \<and> report_done outcome r'"
      by (rule bexI [OF _ f(4)]) (simp add: Inl report_done_def)
    then show ?thesis using Inl f by (simp add: step)
  next
    case (Inr res)
    let ?row = "r\<lparr>ar_StartedAt := Some (rw_now w), ar_Status := ''completed'', ar_Report := rs_Report res,
      ar_PromptTokens := rs_PromptTokens res, ar_CompletionTokens := rs_CompletionTokens res, ar_CompletedAt := Some (rw_now w)\<rparr>"
    obtain n w3 where c: "MarkReportCompleted ?i (rs_Report res) (rs_PromptTokens res) (rs_CompletionTokens res) w2 = (Inr n, w3)"
      "rw_work w3 = rest" "rw_mailed w3 = rw_mailed w" "report_quiet w3" "?row \<in> set (rw_rows w3)"
      unfolding MarkReportCompleted_def
      by (rule update_report_hit [OF w2(2,1), of "\<lambda>r. ar_ID r = ?i" "\<lambda>now r. r\<lparr>ar_Status := ''completed'', ar_Report := rs_Report res,
        ar_PromptTokens := rs_PromptTokens res, ar_CompletionTokens := rs_CompletionTokens res, ar_CompletedAt := Some now\<rparr>"])
        (use w2 in auto)
    have "report_inv w2" using MarkReport_inv(1) [of ?w1 ?i] inv q mark by (simp add: report_inv_def)
    then have "report_inv w3" using MarkReport_inv(2) c(1) by (metis snd_conv)
    note fire = fireCompletion_row [OF c(4) this c(5), of "the_report r" notify res, simplified]
    obtain r' where r': "r' \<in> set (rw_rows (fireCompletion notify ?i (the_report r) res w3))" "ar_ID r' = ?i" "same_outcome ?row r'"
      using fire(2) by blast
    have "report_done outcome r'" using r'(3) by (simp add: Inr report_done_def same_outcome_def)
    then show ?thesis using c fire(1,3) r'(1,2) Inr by (auto simp: step)
  qed
qed

section \<open>No second report for an active scope\<close>

definition same_scope :: "analysis_report \<Rightarrow> ('a analysis_report_scheme) \<Rightarrow> bool" where
  "same_scope req r \<longleftrightarrow>
     ar_Feed r = ar_Feed req \<and> ar_PeriodEnd r = ar_PeriodEnd req \<and>
     ar_PromptMode r = (if ar_PromptMode req = [] then ''daily'' else ar_PromptMode req) \<and>
     ar_Hosts r = NormalizeHosts (ar_Hosts req) \<and> ar_Services r = NormalizeHosts (ar_Services req)"

text \<open>A row that stays, active and with the key of the insert.\<close>

lemma insert_report_blocked:
  assumes "\<And>k. ar_ID x \<notin> set (rw_deletes w k)" "x \<in> set (rw_rows w)" "report_active x" "report_key x = report_key r"
    and "insert_report r w = (res, w1)"
  shows "x \<in> set (rw_rows w1)" "set (rw_rows w1) \<subseteq> set (rw_rows w)" "rw_deletes w1 = rw_deletes w" "rw_work w1 = rw_work w"
    "\<not> (\<exists>row. res = Inr (Inserted row))"
proof -
  have "list_ex (\<lambda>x. report_active x \<and> report_key x = report_key r) (surviving w)"
    using assms(1-4) by (auto simp: surviving_def list_ex_iff)
  then show "x \<in> set (rw_rows w1)" "set (rw_rows w1) \<subseteq> set (rw_rows w)" "rw_deletes w1 = rw_deletes w" "rw_work w1 = rw_work w"
    "\<not> (\<exists>row. res = Inr (Inserted row))"
    using assms(1,2,5) by (auto simp: insert_report_def run_report_def insert_stmt_def Let_def surviving_def split: option.splits if_splits)
qed

lemma insert_attempts_blocked:
  assumes "\<And>k. ar_ID x \<notin> set (rw_deletes w k)" "x \<in> set (rw_rows w)" "report_active x" "report_key x = report_key r"
  shows "(\<exists>err. fst (insert_attempts base r k n w) = Inl err) \<and> set (rw_rows (snd (insert_attempts base r k n w))) \<subseteq> set (rw_rows w)
    \<and> x \<in> set (rw_rows (snd (insert_attempts base r k n w))) \<and> rw_work (snd (insert_attempts base r k n w)) = rw_work w \<and> rw_deletes (snd (insert_attempts base r k n w)) = rw_deletes w"
  using assms(1,2)
proof (induction n arbitrary: k w)
  case (Suc n)
  let ?r = "r\<lparr>ar_Slug := if k > 1 then base @ ''-'' @ fmt_int (int k) else base\<rparr>"
  obtain res w1 where i: "insert_report ?r w = (res, w1)" by fastforce
  have "report_key x = report_key ?r" using assms(4) by (simp add: report_key_def)
  note b = insert_report_blocked [OF Suc.prems assms(3) this i]
  show ?case
  proof (cases res)
    case (Inr t)
    then show ?thesis using b i Suc.IH [of w1 "Suc k"] Suc.prems(1) by (cases t) (auto simp: Let_def)
  qed (use b i in \<open>auto simp: Let_def\<close>)
qed simp

lemma Enqueue_blocked:
  assumes "\<And>k. ar_ID x \<notin> set (rw_deletes w k)" "x \<in> set (rw_rows w)" "report_active x" "same_scope req x"
  shows "(\<exists>err. fst (Enqueue sf rn req w) = Inl err) \<and> set (rw_rows (snd (Enqueue sf rn req w))) \<subseteq> set (rw_rows w) \<and>
    x \<in> set (rw_rows (snd (Enqueue sf rn req w))) \<and> rw_work (snd (Enqueue sf rn req w)) = rw_work w \<and>
    rw_deletes (snd (Enqueue sf rn req w)) = rw_deletes w"
proof -
  let ?req = "if ar_Model req = [] then req\<lparr>ar_Model := rn_Model rn\<rparr> else req"
  obtain base r where r: "InsertPendingReport sf ?req w = insert_attempts base r 1 10 w" "report_key r = report_key x"
    using assms(4) by (auto simp: InsertPendingReport_def Let_def report_key_def same_scope_def split: if_splits)
  show ?thesis using insert_attempts_blocked [OF assms(1-3) r(2) [symmetric], of base 1 10] r(1)
    by (auto simp: Enqueue_def Let_def split: prod.split)
qed

text \<open>While a report for a scope is pending or running and is not deleted, a request for the same feed, period
  end and mode and for the same hosts and services, in any order and spelling of the lists, is refused: no row is
  added, the active report stays and nothing is queued.\<close>

lemma same_scope_refused:
  assumes "\<And>k. ar_ID x \<notin> set (rw_deletes w k)" "x \<in> set (rw_rows w)" "report_active x" "same_scope req x"
    and "trim_space ` set (ar_Hosts req') - {[]} = trim_space ` set (ar_Hosts req) - {[]}"
      "trim_space ` set (ar_Services req') - {[]} = trim_space ` set (ar_Services req) - {[]}"
      "ar_Feed req' = ar_Feed req" "ar_PeriodEnd req' = ar_PeriodEnd req" "ar_PromptMode req' = ar_PromptMode req"
  shows "(\<exists>err. fst (Enqueue sf rn req' w) = Inl err) \<and> set (rw_rows (snd (Enqueue sf rn req' w))) \<subseteq> set (rw_rows w) \<and>
    x \<in> set (rw_rows (snd (Enqueue sf rn req' w))) \<and> rw_work (snd (Enqueue sf rn req' w)) = rw_work w"
proof -
  have "NormalizeHosts (ar_Hosts req') = NormalizeHosts (ar_Hosts req)" "NormalizeHosts (ar_Services req') = NormalizeHosts (ar_Services req)"
    using assms(5,6) by (simp_all add: NormalizeHosts_canonical)
  then have "same_scope req' x" using assms(4,7-9) by (simp add: same_scope_def)
  then show ?thesis using Enqueue_blocked [OF assms(1-3)] by blast
qed

section \<open>What an error message reveals\<close>

lemma err_cut_le: "err_cut s n \<le> n"
  by (induction s n rule: err_cut.induct) auto

lemma err_cut_start: "err_cut s n = 0 \<or> runeStart (s ! err_cut s n)"
  by (induction s n rule: err_cut.induct) (auto simp: runeStart_def)

lemma truncateErr_valid:
  assumes "valid_utf8 s"
  shows "valid_utf8 (truncateErr s n)"
proof (cases "length s \<le> n \<or> err_cut s n = 0")
  case False
  then have "err_cut s n < length s" "runeStart (s ! err_cut s n)" using err_cut_le [of s n] err_cut_start [of s n] by auto
  then have "valid_utf8 (take (err_cut s n) s)" by (rule valid_utf8_cut(1) [OF assms])
  then show ?thesis using False unfolding truncateErr_def by (simp add: valid_utf8_append [OF _ valid_ellipsis])
qed (use assms valid_ellipsis in \<open>auto simp: truncateErr_def\<close>)

text \<open>A stored message has at most 203 bytes, is cut between runes, and shows nothing of a backend's response or URL.\<close>

lemma sanitizeRunErr_bounds:
  "length (sanitizeRunErr err) \<le> 203"
  "valid_utf8 (case err of RunFailed m \<Rightarrow> m | _ \<Rightarrow> []) \<Longrightarrow> valid_utf8 (sanitizeRunErr err)"
  "sanitizeRunErr (BackendStatus m) = sanitizeRunErr (BackendStatus m')" "sanitizeRunErr (BackendURL m) = sanitizeRunErr (BackendURL m')"
proof -
  show "length (sanitizeRunErr err) \<le> 203"
    using err_cut_le [of _ 200] by (auto simp: sanitizeRunErr_def truncateErr_def min_def split: run_error.split intro: le_trans)
  show "valid_utf8 (case err of RunFailed m \<Rightarrow> m | _ \<Rightarrow> []) \<Longrightarrow> valid_utf8 (sanitizeRunErr err)"
    by (cases err) (simp_all add: sanitizeRunErr_def truncateErr_valid valid_utf8_ascii ascii_def)
qed (simp_all add: sanitizeRunErr_def)

section \<open>A sample history\<close>

definition sample_slugs :: slug_format where "sample_slugs = \<lparr>sf_date = \<lambda>t. ''2026-01-02'', sf_time = \<lambda>t. ''0300''\<rparr>"

definition sample_runner :: runner where
  "sample_runner = \<lparr>rn_Model = ''m'', rn_Run = \<lambda>feed hosts services period mode n.
     if hosts = [] then Inl (BackendURL ''http://10.0.0.1'') else Inr \<lparr>rs_Report = ''ok'', rs_PromptTokens = 7, rs_CompletionTokens = 3\<rparr>\<rparr>"

definition sample_request :: "string list \<Rightarrow> analysis_report" where
  "sample_request hosts = \<lparr>ar_ID = 0, ar_Slug = [], ar_Feed = ''netlog'', ar_PromptMode = [], ar_Hosts = hosts, ar_Services = [],
     ar_Model = [], ar_PeriodStart = 0, ar_PeriodEnd = 60000000000, ar_Report = [], ar_PromptTokens = 0, ar_CompletionTokens = 0,
     ar_Status = [], ar_Error = [], ar_CreatedAt = 0, ar_StartedAt = None, ar_CompletedAt = None, ar_NotifyChannelIDs = []\<rparr>"

definition sample_world :: report_world where
  "sample_world = \<lparr>rw_rows = [], rw_nextID = 1, rw_now = 5, rw_calls = 0, rw_fail = \<lambda>n. None, rw_deletes = \<lambda>n. [],
     rw_slugFirst = False, rw_work = [], rw_mailed = []\<rparr>"

definition sample_queued :: report_world where
  "sample_queued = snd (Enqueue sample_slugs sample_runner (sample_request [''b'', ''a'', ''b'']) sample_world)"

definition sample_finished :: report_world where "sample_finished = worker_step sample_runner True sample_queued"

lemma sample_init: "report_init sample_world"
  by (simp add: report_init_def sample_world_def)

lemma sample_steps:
  "(report_step sample_slugs sample_runner True)\<^sup>*\<^sup>* sample_world sample_queued"
  "(report_step sample_slugs sample_runner True)\<^sup>*\<^sup>* sample_queued sample_finished"
  unfolding sample_finished_def by (auto simp: sample_queued_def intro: report_step.intros)

lemma sample_hosts: "NormalizeHosts [''b'', ''a'', ''b''] = [''a'', ''b'']" "NormalizeHosts [] = []"
  by (simp_all add: NormalizeHosts_def trim_space_ascii ascii_def isSpace_def)

definition sample_report_row :: report_row where
  "sample_report_row = analysis_report.extend ((sample_request [''a'', ''b''])\<lparr>ar_ID := 1, ar_Slug := ''netlog-daily-2026-01-02-0300'',
     ar_PromptMode := ''daily'', ar_Model := ''m'', ar_Status := ''pending'', ar_CreatedAt := 5\<rparr>) (report_row.fields None)"

lemmas sample_defs = sample_world_def sample_request_def sample_runner_def sample_slugs_def sample_report_row_def
  analysis_report.extend_def report_row.fields_def

lemmas report_ops = Enqueue_def InsertPendingReport_def insert_report_def insert_stmt_def run_report_def column_defaults_def
  BuildAnalysisSlug_def Truncate_def worker_step_def process_def GetReport_def MarkReportRunning_def MarkReportCompleted_def
  MarkReportNotified_def fireCompletion_def update_report_def affected_def the_report_def analysis_report.truncate_def

lemma sample_queued_eq: "sample_queued = sample_world\<lparr>rw_rows := [sample_report_row], rw_nextID := 2, rw_calls := 1, rw_work := [1]\<rparr>"
  by (simp add: sample_queued_def report_ops sample_defs sample_hosts numeral_nat QueueDepth_def)

lemma sample_finished_eval:
  "map ar_Status (rw_rows sample_finished) = [''completed'']" "map ar_ID (rw_mailed sample_finished) = [1]"
  "map ar_Report (rw_rows sample_finished) = [''ok'']" "rw_nextID sample_finished = 2"
  by (simp_all add: sample_finished_def sample_queued_eq report_ops sample_defs time_sub_def)

lemma sample_finished_quiet: "report_quiet sample_finished"
  by (simp add: sample_finished_def sample_queued_eq report_ops sample_defs time_sub_def report_quiet_def)


text \<open>The completed report after a restart.\<close>

theorem finished_report_is_final_witness:
  "rw_rows sample_finished \<noteq> [] \<and>
   list_all2 same_outcome (rw_rows sample_finished) (rw_rows (snd (ReconcileOrphanedReports (sample_finished\<lparr>rw_work := []\<rparr>))))"
proof -
  let ?w = "snd (ReconcileOrphanedReports (sample_finished\<lparr>rw_work := []\<rparr>))"
  obtain r where r: "rw_rows sample_finished = [r]" "ar_Status r = ''completed''" using sample_finished_eval(1) by auto
  have w: "rw_rows ?w = [r]"
    using r by (simp add: ReconcileOrphanedReports_def update_report_def run_report_quiet sample_finished_quiet report_active_def)
  have h: "(report_step sample_slugs sample_runner True)\<^sup>*\<^sup>* sample_world sample_finished" using sample_steps by (rule rtranclp_trans)
  have "same_outcome r r"
    by (rule finished_report_is_final [OF h sample_init r_into_rtranclp [of "report_step sample_slugs sample_runner True", OF report_step.restart]])
      (use r w in \<open>simp_all add: report_finished_def\<close>)
  then show ?thesis using r(1) w by simp
qed

text \<open>The queued report of the sample is run.\<close>


text \<open>The same hosts in another order are refused while the first report waits.\<close>


end
