(* ===== verification/Schedule.thy ===== *)
theory Schedule
  imports Analysis Query
begin

text \<open>
  Recurring work: \<^verbatim>\<open>api/internal/model/schedule.go\<close>, the schedulers \<^verbatim>\<open>api/internal/scheduler/{analysis,summary}.go\<close>,
  the schedule table of \<^verbatim>\<open>postgres/analysis_schedule_store.go\<close> and the handlers of \<^verbatim>\<open>handler/analysis.go\<close>,
  \<^verbatim>\<open>handler/analysis_schedule.go\<close> and \<^verbatim>\<open>handler/summary.go\<close>. A time zone is the offset it has at each instant; the
  zone database and the clock are parameters. The lemmas show that a validated schedule is well-formed, that
  its guard against firing twice never swallows the next occurrence, and that a tick and "run now" collide.
\<close>

section \<open>Civil time\<close>

text \<open>A location is its offset from UTC; \<^verbatim>\<open>time.Date\<close> looks the offset up at the local reading taken as UTC and,
  with that offset, once more. Days are counted from 1970-01-01, a Thursday.\<close>

type_synonym zone = "instant \<Rightarrow> duration"

definition day :: duration where "day = 24 * hour"

definition local_time :: "zone \<Rightarrow> instant \<Rightarrow> int" where "local_time z t = t + z t"

definition local_day :: "zone \<Rightarrow> instant \<Rightarrow> int" where "local_day z t = local_time z t div day"

definition from_local :: "zone \<Rightarrow> int \<Rightarrow> instant" where "from_local z u = u - z (u - z u)"

definition weekday :: "int \<Rightarrow> int" where "weekday d = (d + 4) mod 7"

text \<open>\<^verbatim>\<open>Time.Hour\<close> and \<^verbatim>\<open>Time.Minute\<close> of a local reading.\<close>

definition hour_of :: "int \<Rightarrow> int" where "hour_of u = u mod day div hour"
definition minute_of :: "int \<Rightarrow> int" where "minute_of u = u mod hour div minute"

text \<open>The day of the month, with years that begin in March so that the leap day comes last: whole cycles of
  400, 100, 4 and 1 years are taken off, and months follow the 153-day pattern.\<close>

definition march_yday :: "int \<Rightarrow> int" where
  "march_yday d =
     (let r400 = (d + 719468) mod 146097; c100 = min 3 (r400 div 36524); r100 = r400 - 36524 * c100;
          r4 = r100 mod 1461; c1 = min 3 (r4 div 365) in
      r4 - 365 * c1)"

definition month_index :: "int \<Rightarrow> int" where "month_index y = (5 * y + 2) div 153"

definition day_in_march_year :: "int \<Rightarrow> int" where
  "day_in_march_year y = y - (153 * month_index y + 2) div 5 + 1"

definition month_day :: "int \<Rightarrow> int" where "month_day d = day_in_march_year (march_yday d)"

section \<open>Cadences\<close>

definition MaxScheduleDayOfMonth :: int where "MaxScheduleDayOfMonth = 28"

definition SchedulePeriod :: "string \<Rightarrow> duration" where
  "SchedulePeriod frequency =
     (if frequency = ''weekly'' then 7 * 24 * hour
      else if frequency = ''monthly'' then 30 * 24 * hour
      else 24 * hour)"

text \<open>\<^verbatim>\<open>time.Parse("15:04", s)\<close>: one or two digits of the hour, a colon, two digits of the minute, in range.\<close>

definition digit_value :: "char \<Rightarrow> int" where "digit_value c = of_char c - 48"

definition parse_minute :: "int \<Rightarrow> string \<Rightarrow> (int \<times> int) option" where
  "parse_minute h s =
     (case s of
        [c, a, b] \<Rightarrow>
          if c = CHR '':'' \<and> is_digit a \<and> is_digit b \<and> h < 24 \<and> 10 * digit_value a + digit_value b < 60
          then Some (h, 10 * digit_value a + digit_value b) else None
      | _ \<Rightarrow> None)"

definition ParseTimeOfDay :: "string \<Rightarrow> (int \<times> int) option" where
  "ParseTimeOfDay s =
     (case s of
        a # b # rest \<Rightarrow>
          if \<not> is_digit a then None
          else if is_digit b then parse_minute (10 * digit_value a + digit_value b) rest
          else parse_minute (digit_value a) (b # rest)
      | _ \<Rightarrow> None)"

text \<open>\<^verbatim>\<open>Time.Format("15:04")\<close> of a TIME column.\<close>

definition two_digits :: "int \<Rightarrow> string" where
  "two_digits n = [digit_char (nat n div 10), digit_char (nat n mod 10)]"

definition format_time :: "int \<times> int \<Rightarrow> string" where
  "format_time hm = two_digits (fst hm) @ '':'' @ two_digits (snd hm)"

section \<open>The schedule table\<close>

record analysis_schedule =
  sd_ID :: int
  sd_Name :: string
  sd_Enabled :: bool
  sd_Feed :: string
  sd_Frequency :: string
  sd_DayOfWeek :: "int option"
  sd_DayOfMonth :: "int option"
  sd_TimeOfDay :: string
  sd_Timezone :: string
  sd_NotifyChannelIDs :: "int list"
  sd_LastRunAt :: "instant option"
  sd_CreatedAt :: instant
  sd_UpdatedAt :: instant

text \<open>\<^verbatim>\<open>sw_clock\<close> is what the n-th reading of the process clock gives, \<^verbatim>\<open>sw_reports\<close> the state behind the enqueuer.\<close>

record 'r sched_world =
  sw_schedules :: "analysis_schedule list"
  sw_nextID :: int
  sw_calls :: nat
  sw_fail :: "nat \<Rightarrow> string option"
  sw_dbNow :: instant
  sw_clock :: "nat \<Rightarrow> instant"
  sw_reads :: nat
  sw_channels :: "channel list"
  sw_reports :: 'r

record sched_env =
  se_zones :: "string \<Rightarrow> zone option"
  se_pgTime :: "string \<Rightarrow> (int \<times> int) option"

definition LoadLocation :: "sched_env \<Rightarrow> string \<Rightarrow> zone option" where
  "LoadLocation env name = (if name = [] \<or> name = ''UTC'' then Some (\<lambda>t. 0) else se_zones env name)"

definition read_clock :: "'r sched_world \<Rightarrow> instant \<times> 'r sched_world" where
  "read_clock w = (sw_clock w (sw_reads w), w\<lparr>sw_reads := sw_reads w + 1\<rparr>)"

definition run_sched ::
  "('r sched_world \<Rightarrow> (store_error + 'a) \<times> 'r sched_world) \<Rightarrow> 'r sched_world \<Rightarrow> (store_error + 'a) \<times> 'r sched_world" where
  "run_sched stmt w =
     (let w1 = w\<lparr>sw_calls := sw_calls w + 1\<rparr> in
      case sw_fail w (sw_calls w) of Some err \<Rightarrow> (Inl (StoreFailed err), w1) | None \<Rightarrow> stmt w1)"

definition ListAnalysisSchedules :: "'r sched_world \<Rightarrow> (store_error + analysis_schedule list) \<times> 'r sched_world" where
  "ListAnalysisSchedules = run_sched (\<lambda>w. (Inr (sort_key sd_ID (sw_schedules w)), w))"

definition GetAnalysisSchedule :: "int \<Rightarrow> 'r sched_world \<Rightarrow> (store_error + analysis_schedule) \<times> 'r sched_world" where
  "GetAnalysisSchedule i =
     run_sched (\<lambda>w. (case find (\<lambda>r. sd_ID r = i) (sw_schedules w) of None \<Rightarrow> Inl ErrNoRows | Some r \<Rightarrow> Inr r, w))"

text \<open>The constraints of the table: the checks of the columns, the unique name and the type of the time column.\<close>

definition schedule_columns_ok :: "sched_env \<Rightarrow> analysis_schedule \<Rightarrow> bool" where
  "schedule_columns_ok env s \<longleftrightarrow>
     sd_Feed s \<in> {''netlog'', ''srvlog'', ''applog''} \<and> sd_Frequency s \<in> {''daily'', ''weekly'', ''monthly''} \<and>
     (case sd_DayOfWeek s of None \<Rightarrow> True | Some d \<Rightarrow> 0 \<le> d \<and> d \<le> 6) \<and>
     (case sd_DayOfMonth s of None \<Rightarrow> True | Some d \<Rightarrow> 1 \<le> d \<and> d \<le> 28) \<and> se_pgTime env (sd_TimeOfDay s) \<noteq> None"

definition stored_time :: "sched_env \<Rightarrow> string \<Rightarrow> string" where
  "stored_time env s = (case se_pgTime env s of None \<Rightarrow> [] | Some hm \<Rightarrow> format_time hm)"

definition CreateAnalysisSchedule ::
  "sched_env \<Rightarrow> analysis_schedule \<Rightarrow> 'r sched_world \<Rightarrow> (store_error + analysis_schedule) \<times> 'r sched_world" where
  "CreateAnalysisSchedule env sched =
     run_sched (\<lambda>w.
       let created = sched\<lparr>sd_ID := sw_nextID w, sd_CreatedAt := sw_dbNow w, sd_UpdatedAt := sw_dbNow w\<rparr>;
           row = created\<lparr>sd_TimeOfDay := stored_time env (sd_TimeOfDay sched), sd_LastRunAt := None\<rparr> in
       if \<not> schedule_columns_ok env sched \<or> list_ex (\<lambda>r. sd_Name r = sd_Name sched) (sw_schedules w)
       then (Inl (StoreFailed ''insert analysis schedule''), w\<lparr>sw_nextID := sw_nextID w + 1\<rparr>)
       else (Inr created, w\<lparr>sw_nextID := sw_nextID w + 1, sw_schedules := sw_schedules w @ [row]\<rparr>))"

definition set_schedule :: "sched_env \<Rightarrow> analysis_schedule \<Rightarrow> instant \<Rightarrow> analysis_schedule \<Rightarrow> analysis_schedule" where
  "set_schedule env sched now r =
     r\<lparr>sd_Name := sd_Name sched, sd_Enabled := sd_Enabled sched, sd_Feed := sd_Feed sched, sd_Frequency := sd_Frequency sched,
       sd_DayOfWeek := sd_DayOfWeek sched, sd_DayOfMonth := sd_DayOfMonth sched,
       sd_TimeOfDay := stored_time env (sd_TimeOfDay sched), sd_Timezone := sd_Timezone sched,
       sd_NotifyChannelIDs := sd_NotifyChannelIDs sched, sd_UpdatedAt := now\<rparr>"

definition UpdateAnalysisSchedule ::
  "sched_env \<Rightarrow> int \<Rightarrow> analysis_schedule \<Rightarrow> 'r sched_world \<Rightarrow> (store_error + analysis_schedule) \<times> 'r sched_world" where
  "UpdateAnalysisSchedule env i sched w0 =
     (case read_clock w0 of (now, w1) \<Rightarrow>
      run_sched (\<lambda>w.
        case find (\<lambda>r. sd_ID r = i) (sw_schedules w) of
          None \<Rightarrow> (Inl ErrNoRows, w)
        | Some r \<Rightarrow>
            if \<not> schedule_columns_ok env sched \<or> list_ex (\<lambda>x. sd_Name x = sd_Name sched \<and> sd_ID x \<noteq> i) (sw_schedules w)
            then (Inl (StoreFailed ''update analysis schedule''), w)
            else (Inr (set_schedule env sched now r),
                  w\<lparr>sw_schedules := map (\<lambda>x. if sd_ID x = i then set_schedule env sched now x else x) (sw_schedules w)\<rparr>)) w1)"

definition DeleteAnalysisSchedule :: "int \<Rightarrow> 'r sched_world \<Rightarrow> (store_error + unit) \<times> 'r sched_world" where
  "DeleteAnalysisSchedule i =
     run_sched (\<lambda>w. (if list_ex (\<lambda>r. sd_ID r = i) (sw_schedules w) then Inr () else Inl ErrNoRows,
                      w\<lparr>sw_schedules := filter (\<lambda>r. sd_ID r \<noteq> i) (sw_schedules w)\<rparr>))"

definition UpdateAnalysisScheduleLastRun :: "int \<Rightarrow> instant \<Rightarrow> 'r sched_world \<Rightarrow> (store_error + unit) \<times> 'r sched_world" where
  "UpdateAnalysisScheduleLastRun i t =
     run_sched (\<lambda>w. (Inr (), w\<lparr>sw_schedules := map (\<lambda>r. if sd_ID r = i then r\<lparr>sd_LastRunAt := Some t\<rparr> else r) (sw_schedules w)\<rparr>))"

section \<open>The analysis scheduler\<close>

definition analysisFiringWindow :: duration where "analysisFiringWindow = 5 * minute"

text \<open>The day conditions and the guard against firing twice, which the two schedulers share.\<close>

definition day_matches :: "string \<Rightarrow> int option \<Rightarrow> int option \<Rightarrow> int \<Rightarrow> bool" where
  "day_matches frequency dow mday d \<longleftrightarrow>
     (if frequency = ''weekly'' then (case dow of None \<Rightarrow> False | Some x \<Rightarrow> weekday d = x)
      else if frequency = ''monthly'' then (case mday of None \<Rightarrow> False | Some x \<Rightarrow> month_day d = x)
      else True)"

definition past_interval :: "string \<Rightarrow> instant option \<Rightarrow> instant \<Rightarrow> bool" where
  "past_interval frequency lastRun now \<longleftrightarrow>
     (case lastRun of None \<Rightarrow> True | Some t \<Rightarrow> \<not> time_sub now t < SchedulePeriod frequency div 2)"

definition scheduled_at :: "zone \<Rightarrow> int \<times> int \<Rightarrow> instant \<Rightarrow> instant" where
  "scheduled_at z hm now = from_local z (local_day z now * day + fst hm * hour + snd hm * minute)"

definition analysis_isDue :: "sched_env \<Rightarrow> analysis_schedule \<Rightarrow> instant \<Rightarrow> bool" where
  "analysis_isDue env sched now =
     (case LoadLocation env (sd_Timezone sched) of
        None \<Rightarrow> False
      | Some z \<Rightarrow>
          (case ParseTimeOfDay (sd_TimeOfDay sched) of
             None \<Rightarrow> False
           | Some hm \<Rightarrow>
               (let scheduled = scheduled_at z hm now in
                if now < scheduled \<or> time_sub now scheduled > analysisFiringWindow then False
                else if \<not> day_matches (sd_Frequency sched) (sd_DayOfWeek sched) (sd_DayOfMonth sched) (local_day z now) then False
                else past_interval (sd_Frequency sched) (sd_LastRunAt sched) now)))"

datatype sched_error = BadTimezone | BadTimeOfDay

definition scheduledPeriodEnd :: "sched_env \<Rightarrow> analysis_schedule \<Rightarrow> instant \<Rightarrow> sched_error + instant" where
  "scheduledPeriodEnd env sched now =
     (case LoadLocation env (sd_Timezone sched) of
        None \<Rightarrow> Inl BadTimezone
      | Some z \<Rightarrow>
          (case ParseTimeOfDay (sd_TimeOfDay sched) of
             None \<Rightarrow> Inl BadTimeOfDay
           | Some hm \<Rightarrow> Inr (Truncate minute (scheduled_at z hm now))))"

definition zero_report :: analysis_report where
  "zero_report = \<lparr>ar_ID = 0, ar_Slug = [], ar_Feed = [], ar_PromptMode = [], ar_Hosts = [], ar_Services = [], ar_Model = [],
     ar_PeriodStart = 0, ar_PeriodEnd = 0, ar_Report = [], ar_PromptTokens = 0, ar_CompletionTokens = 0, ar_Status = [],
     ar_Error = [], ar_CreatedAt = 0, ar_StartedAt = None, ar_CompletedAt = None, ar_NotifyChannelIDs = []\<rparr>"

definition scheduledReport :: "sched_env \<Rightarrow> analysis_schedule \<Rightarrow> instant \<Rightarrow> sched_error + analysis_report" where
  "scheduledReport env sched now =
     (case scheduledPeriodEnd env sched now of
        Inl err \<Rightarrow> Inl err
      | Inr periodEnd \<Rightarrow>
          Inr (zero_report\<lparr>ar_Feed := sd_Feed sched, ar_PromptMode := AnalysisModeForFrequency (sd_Frequency sched),
                 ar_PeriodStart := periodEnd - SchedulePeriod (sd_Frequency sched), ar_PeriodEnd := periodEnd,
                 ar_NotifyChannelIDs := sd_NotifyChannelIDs sched\<rparr>))"

type_synonym 'r enqueuer = "analysis_report \<Rightarrow> 'r \<Rightarrow> (report_error + analysis_report) \<times> 'r"

definition run_enqueue :: "'r enqueuer \<Rightarrow> analysis_report \<Rightarrow> 'r sched_world \<Rightarrow> (report_error + analysis_report) \<times> 'r sched_world" where
  "run_enqueue enq req w = (case enq req (sw_reports w) of (res, rw) \<Rightarrow> (res, w\<lparr>sw_reports := rw\<rparr>))"

definition analysis_runSchedule :: "sched_env \<Rightarrow> 'r enqueuer \<Rightarrow> analysis_schedule \<Rightarrow> 'r sched_world \<Rightarrow> 'r sched_world" where
  "analysis_runSchedule env enq sched w =
     (case read_clock w of (now, w1) \<Rightarrow>
        case scheduledReport env sched now of
          Inl err \<Rightarrow> w1
        | Inr req \<Rightarrow>
            (case run_enqueue enq req w1 of
               (Inl err, w2) \<Rightarrow> w2
             | (Inr _, w2) \<Rightarrow> (case read_clock w2 of (t, w3) \<Rightarrow> snd (UpdateAnalysisScheduleLastRun (sd_ID sched) t w3))))"

fun analysis_tick_loop :: "sched_env \<Rightarrow> 'r enqueuer \<Rightarrow> analysis_schedule list \<Rightarrow> 'r sched_world \<Rightarrow> 'r sched_world" where
  "analysis_tick_loop env enq [] w = w"
| "analysis_tick_loop env enq (sched # rest) w =
     (if \<not> sd_Enabled sched then analysis_tick_loop env enq rest w
      else (case read_clock w of (now, w1) \<Rightarrow>
              if \<not> analysis_isDue env sched now then analysis_tick_loop env enq rest w1
              else analysis_tick_loop env enq rest (analysis_runSchedule env enq sched w1)))"

definition analysis_tick :: "sched_env \<Rightarrow> 'r enqueuer \<Rightarrow> 'r sched_world \<Rightarrow> 'r sched_world" where
  "analysis_tick env enq w =
     (case ListAnalysisSchedules w of (Inl err, w1) \<Rightarrow> w1 | (Inr schedules, w1) \<Rightarrow> analysis_tick_loop env enq schedules w1)"

datatype run_now_error = ScheduleLookup store_error | ScheduleInvalid sched_error | EnqueueFailed report_error

definition RunNow :: "sched_env \<Rightarrow> 'r enqueuer \<Rightarrow> int \<Rightarrow> 'r sched_world \<Rightarrow> run_now_error option \<times> 'r sched_world" where
  "RunNow env enq i w =
     (case GetAnalysisSchedule i w of
        (Inl err, w1) \<Rightarrow> (Some (ScheduleLookup err), w1)
      | (Inr sched, w1) \<Rightarrow>
          (case read_clock w1 of (now, w2) \<Rightarrow>
             case scheduledReport env sched now of
               Inl err \<Rightarrow> (Some (ScheduleInvalid err), w2)
             | Inr req \<Rightarrow>
                 (case run_enqueue enq req w2 of
                    (Inl err, w3) \<Rightarrow> (Some (EnqueueFailed err), w3)
                  | (Inr _, w3) \<Rightarrow> (None, w3))))"

section \<open>The schedule handlers\<close>

definition sched_List :: "'r sched_world \<Rightarrow> analysis_schedule list response \<times> 'r sched_world" where
  "sched_List w =
     (case ListAnalysisSchedules w of
        (Inl err, w1) \<Rightarrow> (RespError 500 ''internal_error'', w1)
      | (Inr schedules, w1) \<Rightarrow> (RespData 200 schedules, w1))"

text \<open>The answer to a store call on one row.\<close>

definition row_answer :: "int \<Rightarrow> (store_error + 'a) \<times> 'w \<Rightarrow> 'a response \<times> 'w" where
  "row_answer status res =
     (case res of
        (Inl ErrNoRows, w1) \<Rightarrow> (RespError 404 ''not_found'', w1)
      | (Inl (StoreFailed err), w1) \<Rightarrow> (RespError 500 ''internal_error'', w1)
      | (Inr x, w1) \<Rightarrow> (RespData status x, w1))"

definition sched_Get :: "string \<Rightarrow> 'r sched_world \<Rightarrow> analysis_schedule response \<times> 'r sched_world" where
  "sched_Get idParam w =
     (case parse_int64 idParam of
        None \<Rightarrow> (RespError 400 ''invalid_id'', w)
      | Some i \<Rightarrow> row_answer 200 (GetAnalysisSchedule i w))"

definition ListNotificationChannels :: "'r sched_world \<Rightarrow> (store_error + channel list) \<times> 'r sched_world" where
  "ListNotificationChannels = run_sched (\<lambda>w. (Inr (sw_channels w), w))"

text \<open>\<^const>\<open>None\<close> when the channels may be used, otherwise the error to answer.\<close>

definition validateNotifyChannels :: "int list \<Rightarrow> 'r sched_world \<Rightarrow> (int \<times> string) option \<times> 'r sched_world" where
  "validateNotifyChannels ids w =
     (if ids = [] then (None, w)
      else (case ListNotificationChannels w of
              (Inl err, w1) \<Rightarrow> (Some (500, ''internal_error''), w1)
            | (Inr channels, w1) \<Rightarrow>
                (let emailChannels = map ch_ID (filter (\<lambda>ch. ch_Type ch = ChannelTypeEmail) channels) in
                 if list_ex (\<lambda>i. i \<notin> set emailChannels) ids then (Some (400, ''validation_failed''), w1) else (None, w1))))"

definition frequency_ok :: "analysis_schedule \<Rightarrow> bool" where
  "frequency_ok sched =
     (if sd_Frequency sched = ''daily'' then True
      else if sd_Frequency sched = ''weekly''
      then (case sd_DayOfWeek sched of None \<Rightarrow> False | Some d \<Rightarrow> \<not> (d < 0 \<or> d > 6))
      else if sd_Frequency sched = ''monthly''
      then (case sd_DayOfMonth sched of None \<Rightarrow> False | Some d \<Rightarrow> \<not> (d < 1 \<or> d > MaxScheduleDayOfMonth))
      else False)"

definition decodeAndValidateSchedule ::
  "sched_env \<Rightarrow> analysis_schedule body \<Rightarrow> 'r sched_world \<Rightarrow> ((int \<times> string) + analysis_schedule) \<times> 'r sched_world" where
  "decodeAndValidateSchedule env body w =
     (case body of
        Inl code \<Rightarrow> (Inl (400, code), w)
      | Inr sched \<Rightarrow>
          if sd_Name sched = [] then (Inl (400, ''validation_failed''), w)
          else if \<not> IsValidAnalysisFeed (sd_Feed sched) then (Inl (400, ''validation_failed''), w)
          else if \<not> frequency_ok sched then (Inl (400, ''validation_failed''), w)
          else if \<not> IsValidAnalysisFrequencyForFeed (sd_Feed sched) (sd_Frequency sched) then (Inl (400, ''validation_failed''), w)
          else if ParseTimeOfDay (sd_TimeOfDay sched) = None then (Inl (400, ''validation_failed''), w)
          else
            (let sched = (if sd_Timezone sched = [] then sched\<lparr>sd_Timezone := ''UTC''\<rparr> else sched) in
             case LoadLocation env (sd_Timezone sched) of
               None \<Rightarrow> (Inl (400, ''validation_failed''), w)
             | Some z \<Rightarrow>
                 (case validateNotifyChannels (sd_NotifyChannelIDs sched) w of
                    (Some err, w1) \<Rightarrow> (Inl err, w1)
                  | (None, w1) \<Rightarrow> (Inr sched, w1))))"

definition sched_Create ::
  "sched_env \<Rightarrow> analysis_schedule body \<Rightarrow> 'r sched_world \<Rightarrow> analysis_schedule response \<times> 'r sched_world" where
  "sched_Create env body w =
     (case decodeAndValidateSchedule env body w of
        (Inl (status, code), w1) \<Rightarrow> (RespError status code, w1)
      | (Inr sched, w1) \<Rightarrow>
          (case CreateAnalysisSchedule env sched w1 of
             (Inl err, w2) \<Rightarrow> (RespError 500 ''internal_error'', w2)
           | (Inr created, w2) \<Rightarrow> (RespData 201 created, w2)))"

definition sched_Update ::
  "sched_env \<Rightarrow> string \<Rightarrow> analysis_schedule body \<Rightarrow> 'r sched_world \<Rightarrow> analysis_schedule response \<times> 'r sched_world" where
  "sched_Update env idParam body w =
     (case parse_int64 idParam of
        None \<Rightarrow> (RespError 400 ''invalid_id'', w)
      | Some i \<Rightarrow>
          (case decodeAndValidateSchedule env body w of
             (Inl (status, code), w1) \<Rightarrow> (RespError status code, w1)
           | (Inr sched, w1) \<Rightarrow> row_answer 200 (UpdateAnalysisSchedule env i sched w1)))"

definition no_content :: "'a response \<times> 'w \<Rightarrow> 'a response \<times> 'w" where
  "no_content res = (case res of (RespData s x, w) \<Rightarrow> (RespNoContent, w) | r \<Rightarrow> r)"

definition sched_Delete :: "string \<Rightarrow> 'r sched_world \<Rightarrow> unit response \<times> 'r sched_world" where
  "sched_Delete idParam w =
     (case parse_int64 idParam of
        None \<Rightarrow> (RespError 400 ''invalid_id'', w)
      | Some i \<Rightarrow> no_content (row_answer 204 (DeleteAnalysisSchedule i w)))"

text \<open>\<^verbatim>\<open>enq\<close> is \<^const>\<open>None\<close> when the scheduler is not configured.\<close>

definition sched_Run :: "sched_env \<Rightarrow> 'r enqueuer option \<Rightarrow> string \<Rightarrow> 'r sched_world \<Rightarrow> unit response \<times> 'r sched_world" where
  "sched_Run env enq idParam w =
     (case enq of
        None \<Rightarrow> (RespError 503 ''scheduler_disabled'', w)
      | Some enq \<Rightarrow>
          (case parse_int64 idParam of
             None \<Rightarrow> (RespError 400 ''invalid_id'', w)
           | Some i \<Rightarrow>
               (case RunNow env enq i w of
                  (Some (EnqueueFailed ErrDuplicateActiveReport), w1) \<Rightarrow> (RespError 409 ''duplicate_report'', w1)
                | (Some (EnqueueFailed ErrQueueFull), w1) \<Rightarrow> (RespError 429 ''queue_full'', w1)
                | (Some err, w1) \<Rightarrow> (RespError 500 ''internal_error'', w1)
                | (None, w1) \<Rightarrow> (RespNoContent, w1))))"

section \<open>The report handlers\<close>

definition analysisDefaultLimit :: int where "analysisDefaultLimit = 30"

text \<open>A handler that writes nothing, because the client has gone, answers \<^const>\<open>None\<close>.\<close>

definition report_List :: "bool \<Rightarrow> query \<Rightarrow> report_world \<Rightarrow> analysis_report_summary list response option \<times> report_world" where
  "report_List clientGone q w =
     (case ListReports (nat (ParseLimit q analysisDefaultLimit 100)) w of
        (Inl err, w1) \<Rightarrow> (if clientGone then None else Some (RespError 500 ''query_failed''), w1)
      | (Inr reports, w1) \<Rightarrow> (Some (RespData 200 reports), w1))"

definition report_Get :: "bool \<Rightarrow> string \<Rightarrow> report_world \<Rightarrow> analysis_report response option \<times> report_world" where
  "report_Get clientGone slug w =
     (if slug = [] then (Some (RespError 400 ''invalid_slug''), w)
      else (case GetReportBySlug slug w of
              (Inl ErrNoRows, w1) \<Rightarrow> (Some (RespError 404 ''not_found''), w1)
            | (Inl (StoreFailed err), w1) \<Rightarrow> (if clientGone then None else Some (RespError 500 ''query_failed''), w1)
            | (Inr report, w1) \<Rightarrow> (Some (RespData 200 report), w1)))"

text \<open>\<^verbatim>\<open>render\<close> is the HTML renderer of package \<^verbatim>\<open>report\<close>.\<close>

definition report_Print ::
  "(analysis_report \<Rightarrow> string) \<Rightarrow> bool \<Rightarrow> string \<Rightarrow> report_world \<Rightarrow> string response option \<times> report_world" where
  "report_Print render clientGone slug w =
     (if slug = [] then (Some (RespError 400 ''invalid_slug''), w)
      else (case GetReportBySlug slug w of
              (Inl ErrNoRows, w1) \<Rightarrow> (Some (RespError 404 ''not_found''), w1)
            | (Inl (StoreFailed err), w1) \<Rightarrow> (if clientGone then None else Some (RespError 500 ''query_failed''), w1)
            | (Inr report, w1) \<Rightarrow>
                if ar_Status report \<noteq> ''completed'' then (Some (RespError 409 ''not_completed''), w1)
                else (Some (RespData 200 (render report)), w1)))"

record create_report_request =
  cr_Feed :: string
  cr_PromptMode :: string
  cr_PeriodMinutes :: int
  cr_Hosts :: "string list"
  cr_Services :: "string list"

definition minPeriodMinutes :: int where "minPeriodMinutes = 5"
definition maxIncidentPeriodMinutes :: int where "maxIncidentPeriodMinutes = 6 * 60"
definition maxPeriodMinutes :: int where "maxPeriodMinutes = SchedulePeriod ''monthly'' div minute"

definition defaultPeriodMinutes :: "string \<Rightarrow> int" where
  "defaultPeriodMinutes mode =
     (if mode = ''weekly'' then 7 * 24 * 60 else if mode = ''incident'' then 60 else 24 * 60)"

definition unknownNames :: "string list \<Rightarrow> string list \<Rightarrow> string list" where
  "unknownNames known candidates = filter (\<lambda>c. c \<notin> set known) candidates"

text \<open>The names the metadata tables know: services, and hosts per feed.\<close>

record known_names =
  kn_services :: "string + string list"
  kn_hosts :: "string \<Rightarrow> string + string list"

text \<open>The code of a 400, the empty code, or a failed lookup.\<close>

definition validateScope :: "known_names \<Rightarrow> string \<Rightarrow> string list \<Rightarrow> string list \<Rightarrow> string + string" where
  "validateScope names feed hosts services =
     (let kind = (case AnalysisFeedSpecFor feed of None \<Rightarrow> [] | Some spec \<Rightarrow> fs_ScopeKind spec) in
      if kind = ''services'' then
        (if hosts \<noteq> [] then Inr ''invalid_scope''
         else if services = [] then Inr []
         else (case kn_services names of
                 Inl err \<Rightarrow> Inl err
               | Inr known \<Rightarrow> if unknownNames known services \<noteq> [] then Inr ''unknown_services'' else Inr []))
      else if services \<noteq> [] then Inr ''invalid_scope''
      else if hosts = [] then Inr []
      else (case kn_hosts names feed of
              Inl err \<Rightarrow> Inl err
            | Inr known \<Rightarrow> if unknownNames known hosts \<noteq> [] then Inr ''unknown_hosts'' else Inr []))"

definition report_Create ::
  "known_names \<Rightarrow> 'r enqueuer option \<Rightarrow> instant \<Rightarrow> create_report_request body \<Rightarrow> 'r \<Rightarrow> analysis_report response \<times> 'r" where
  "report_Create names enq now body w =
     (case enq of
        None \<Rightarrow> (RespError 503 ''not_configured'', w)
      | Some enq \<Rightarrow>
     (case body of
        Inl code \<Rightarrow> (RespError 400 code, w)
      | Inr req \<Rightarrow>
          if \<not> IsValidAnalysisFeed (cr_Feed req) then (RespError 400 ''invalid_feed'', w)
          else
            (let mode = (if cr_PromptMode req = [] then ''daily'' else cr_PromptMode req) in
             if \<not> IsValidAnalysisMode mode then (RespError 400 ''invalid_prompt_mode'', w)
             else if \<not> IsValidAnalysisModeForFeed (cr_Feed req) mode then (RespError 400 ''invalid_prompt_mode'', w)
             else
               (let periodMinutes = (if cr_PeriodMinutes req = 0 then defaultPeriodMinutes mode else cr_PeriodMinutes req) in
                if periodMinutes < minPeriodMinutes \<or> periodMinutes > maxPeriodMinutes then (RespError 400 ''invalid_period'', w)
                else if mode = ''incident'' \<and> periodMinutes > maxIncidentPeriodMinutes then (RespError 400 ''invalid_period'', w)
                else
                  (let hosts = NormalizeHosts (cr_Hosts req); services = NormalizeHosts (cr_Services req) in
                   case validateScope names (cr_Feed req) hosts services of
                     Inl err \<Rightarrow> (RespError 500 ''validate_failed'', w)
                   | Inr code \<Rightarrow>
                       if code \<noteq> [] then (RespError 400 code, w)
                       else
                         (let periodEnd = Truncate minute now; periodStart = periodEnd - periodMinutes * minute in
                          case enq (zero_report\<lparr>ar_Feed := cr_Feed req, ar_PromptMode := mode, ar_Hosts := hosts,
                                      ar_Services := services, ar_PeriodStart := periodStart, ar_PeriodEnd := periodEnd\<rparr>) w of
                            (Inl ErrDuplicateActiveReport, w1) \<Rightarrow> (RespError 409 ''duplicate_report'', w1)
                          | (Inl ErrQueueFull, w1) \<Rightarrow> (RespError 429 ''queue_full'', w1)
                          | (Inl (ReportFailed err), w1) \<Rightarrow> (RespError 500 ''enqueue_failed'', w1)
                          | (Inr report, w1) \<Rightarrow> (RespData 201 report, w1)))))))"

definition report_Delete :: "string \<Rightarrow> report_world \<Rightarrow> unit response \<times> report_world" where
  "report_Delete slug w =
     (if slug = [] then (RespError 400 ''invalid_slug'', w)
      else (case GetReportBySlug slug w of
              (Inl ErrNoRows, w1) \<Rightarrow> (RespError 404 ''not_found'', w1)
            | (Inl (StoreFailed err), w1) \<Rightarrow> (RespError 500 ''query_failed'', w1)
            | (Inr report, w1) \<Rightarrow>
                (case DeleteReport (ar_ID report) w1 of
                   (Inl ErrNoRows, w2) \<Rightarrow> (RespError 404 ''not_found'', w2)
                 | (Inl (StoreFailed err), w2) \<Rightarrow> (RespError 500 ''delete_failed'', w2)
                 | (Inr _, w2) \<Rightarrow> (RespNoContent, w2))))"

section \<open>The calendar\<close>

text \<open>Taking off whole cycles of length \<^verbatim>\<open>l\<close>, at most three, leaves a position that runs through the cycle.\<close>

lemma cycle_step:
  fixes l m r :: int
  assumes "0 < l" "0 \<le> r" "r + 1 < m" "m \<le> 4 * l + 1"
  shows "r + 1 - l * min 3 ((r + 1) div l) = r - l * min 3 (r div l) + 1 \<or>
    (r + 1 - l * min 3 ((r + 1) div l) = 0 \<and> r - l * min 3 (r div l) = l - 1)"
proof (cases "(r + 1) mod l = 0")
  case True
  then obtain k where k: "r + 1 = l * k" by (auto simp: mod_eq_0_iff_dvd dvd_def)
  then have q: "(r + 1) div l = k" using assms(1) by simp
  have r: "r = (l - 1) + (k - 1) * l" using k by (simp add: algebra_simps)
  have d: "r div l = k - 1" unfolding r using assms(1) by (subst div_mult_self1) (auto simp: div_pos_pos_trivial)
  have "k \<le> 4"
  proof (rule ccontr)
    assume "\<not> k \<le> 4"
    then have "l * 5 \<le> l * k" using assms(1) by (intro mult_left_mono) auto
    then show False using k assms by linarith
  qed
  then show ?thesis using q d k assms by (cases "k = 4") (auto simp: min_def algebra_simps)
next
  case False
  define t where "t = r mod l"
  have r: "r = l * (r div l) + t" "0 \<le> t" "t < l" using assms(1) by (simp_all add: t_def)
  have "t + 1 \<noteq> l"
  proof
    assume "t + 1 = l"
    then have "r + 1 = l * (r div l + 1)" using r(1) by (simp add: algebra_simps)
    then show False using False by (metis mod_mult_self1_is_0)
  qed
  then have "(r + 1) div l = r div l" using r by (intro int_div_pos_eq [of _ _ _ "t + 1"]) auto
  then show ?thesis by simp
qed

lemma cycle_range:
  fixes l m r :: int
  assumes "0 < l" "0 \<le> r" "r < m" "m \<le> 4 * l + 1"
  shows "0 \<le> r - l * min 3 (r div l) \<and> r - l * min 3 (r div l) \<le> l"
proof (cases "r div l \<le> 3")
  case True
  then have "r - l * min 3 (r div l) = r mod l" by (simp add: min_def minus_mult_div_eq_mod)
  then show ?thesis using assms(1) by (simp add: order_less_imp_le)
next
  case False
  then have "l * 4 \<le> l * (r div l)" using assms(1) by simp
  moreover have "l * (r div l) \<le> r" using assms(1) by (metis minus_mult_div_eq_mod pos_mod_sign diff_ge_0_iff_ge)
  ultimately have "4 * l \<le> r" by linarith
  then show ?thesis using False assms by (simp add: min_def)
qed

lemma mod_step:
  fixes n x :: int
  assumes "0 < n"
  shows "(x + 1) mod n = x mod n + 1 \<or> ((x + 1) mod n = 0 \<and> x mod n = n - 1)"
proof -
  have t: "0 \<le> x mod n" "x mod n < n" using assms by simp_all
  have "(x + 1) mod n = (x mod n + 1) mod n" by (simp add: mod_add_left_eq)
  then show ?thesis using t by (cases "x mod n + 1 = n") auto
qed

lemma march_yday_step:
  "march_yday (d + 1) = march_yday d + 1 \<or> (march_yday (d + 1) = 0 \<and> 364 \<le> march_yday d)"
  "0 \<le> march_yday d" "march_yday d \<le> 365"
proof -
  define r400 where "r400 x = (x + 719468) mod 146097" for x :: int
  define r100 where "r100 r = r - 36524 * min 3 (r div 36524)" for r :: int
  define r1 where "r1 r = r - 365 * min 3 (r div 365)" for r :: int
  have y: "march_yday x = r1 (r100 (r400 x) mod 1461)" for x
    by (simp add: march_yday_def Let_def r400_def r100_def r1_def)
  have b400: "0 \<le> r400 x" "r400 x < 146097" for x by (simp_all add: r400_def)
  have s400: "r400 (d + 1) = r400 d + 1 \<or> (r400 (d + 1) = 0 \<and> r400 d = 146096)"
    using mod_step [of 146097 "d + 719468"] unfolding r400_def by (simp add: algebra_simps)
  have b100: "0 \<le> r100 r" "r100 r \<le> 36524" if "0 \<le> r" "r < 146097" for r
    using cycle_range [of 36524 r 146097] that unfolding r100_def by auto
  have b1: "0 \<le> r1 r" "r1 r \<le> 365" if "0 \<le> r" "r < 1461" for r
    using cycle_range [of 365 r 1461] that unfolding r1_def by auto
  have m: "0 \<le> r mod 1461" "r mod 1461 < 1461" for r :: int by simp_all
  show "0 \<le> march_yday d" "march_yday d \<le> 365" unfolding y using b1 m by auto
  have s4: "(r + 1) mod 1461 = r mod 1461 + 1 \<or> ((r + 1) mod 1461 = 0 \<and> r mod 1461 = 1460)" for r :: int
    using mod_step [of 1461 r] by simp
  have last: "r1 1460 = 365" "r1 0 = 0" "r100 0 = 0" "r100 146096 = 36524" "(36524 :: int) mod 1461 = 1460" "(36523 :: int) mod 1461 = 1459" "r1 1459 = 364"
    by (simp_all add: r1_def r100_def)
  have c1: "r1 (t + 1) = r1 t + 1 \<or> (r1 (t + 1) = 0 \<and> r1 t = 364)" if "0 \<le> t" "t + 1 < 1461" for t
    using cycle_step [of 365 t 1461] that unfolding r1_def by simp
  have s1: "r1 ((r + 1) mod 1461) = r1 (r mod 1461) + 1 \<or> (r1 ((r + 1) mod 1461) = 0 \<and> 364 \<le> r1 (r mod 1461))" for r
  proof -
    define t where "t = r mod 1461"
    define u where "u = (r + 1) mod 1461"
    have "0 \<le> t" "u < 1461" "u = t + 1 \<or> (u = 0 \<and> t = 1460)" using s4 [of r] m [of r] m [of "r + 1"] by (simp_all only: t_def u_def)
    then show ?thesis using c1 [of t] last(1,2) unfolding t_def [symmetric] u_def [symmetric] by auto
  qed
  have c100: "r100 (t + 1) = r100 t + 1 \<or> (r100 (t + 1) = 0 \<and> r100 t = 36523)" if "0 \<le> t" "t + 1 < 146097" for t
    using cycle_step [of 36524 t 146097] that unfolding r100_def by simp
  show "march_yday (d + 1) = march_yday d + 1 \<or> (march_yday (d + 1) = 0 \<and> 364 \<le> march_yday d)"
  proof (cases "r400 d = 146096")
    case True
    then show ?thesis using s400 b400 [of "d + 1"] by (auto simp: y last)
  next
    case False
    then have r: "r400 (d + 1) = r400 d + 1" using s400 by auto
    have "r100 (r400 d + 1) = r100 (r400 d) + 1 \<or> (r100 (r400 d + 1) = 0 \<and> r100 (r400 d) = 36523)"
      using c100 [of "r400 d"] b400 [of d] False by simp
    then show ?thesis using s1 [of "r100 (r400 d)"] unfolding y r by (elim disjE conjE) (simp_all only: last, auto simp: last)
  qed
qed

lemma day_in_march_year_step:
  assumes "0 \<le> y" "y < 365"
  shows "day_in_march_year (y + 1) = day_in_march_year y + 1 \<or> (day_in_march_year (y + 1) = 1 \<and> 28 \<le> day_in_march_year y)"
proof -
  have "list_all (\<lambda>y. day_in_march_year (y + 1) = day_in_march_year y + 1 \<or>
    (day_in_march_year (y + 1) = 1 \<and> 28 \<le> day_in_march_year y)) [0..364]"
    by code_simp
  then show ?thesis using assms by (simp add: list_all_iff)
qed

lemma month_day_step: "month_day (d + 1) = month_day d + 1 \<or> (month_day (d + 1) = 1 \<and> 28 \<le> month_day d)"
proof (cases "march_yday (d + 1) = march_yday d + 1")
  case True
  then show ?thesis
    using day_in_march_year_step [of "march_yday d"] march_yday_step(2) [of d] march_yday_step(3) [of "d + 1"] by (simp add: month_day_def)
next
  case False
  then have y: "march_yday (d + 1) = 0" "march_yday d = 364 \<or> march_yday d = 365"
    using march_yday_step(1,3) [of d] by auto
  have "day_in_march_year 0 = 1" "day_in_march_year 364 = 28" "day_in_march_year 365 = 29" by code_simp+
  then show ?thesis using y by (auto simp: month_day_def)
qed

text \<open>A day of the month comes back after at least 28 days.\<close>

lemma month_day_later:
  "n < 28 \<Longrightarrow> month_day (d + int n) = month_day d + int n \<or>
     (1 \<le> month_day (d + int n) \<and> month_day (d + int n) + 28 \<le> month_day d + int n)"
proof (induction n)
  case (Suc n)
  then show ?case using month_day_step [of "d + int n"] by (auto simp: algebra_simps)
qed simp

lemma month_day_spacing:
  assumes "d < e" "month_day d = month_day e"
  shows "d + 28 \<le> e"
proof (rule ccontr)
  assume "\<not> d + 28 \<le> e"
  then have n: "e = d + int (nat (e - d))" "nat (e - d) < 28" "0 < nat (e - d)" using assms(1) by auto
  then show False using month_day_later [of "nat (e - d)" d] assms(2) by auto
qed

section \<open>The guard against firing twice\<close>

lemma same_day_of_week:
  assumes "d < e" "weekday d = weekday e"
  shows "d + 7 \<le> e"
  using assms unfolding weekday_def by presburger

lemma matching_days_apart:
  assumes "d < e" "day_matches f dow mday d" "day_matches f dow mday e"
  shows "d * day + 2 * (SchedulePeriod f div 2) - 2 * day * (if f = ''monthly'' then 1 else 0) \<le> e * day"
proof -
  consider "f = ''weekly''" | "f = ''monthly''" | "f \<noteq> ''weekly''" "f \<noteq> ''monthly''" by blast
  then show ?thesis
  proof cases
    case 1
    then have "d + 7 \<le> e" using assms same_day_of_week [of d e] by (simp add: day_matches_def split: option.splits)
    then show ?thesis using 1 by (simp add: SchedulePeriod_def day_def duration_units)
  next
    case 2
    then have "d + 28 \<le> e" using assms month_day_spacing [of d e] by (simp add: day_matches_def split: option.splits)
    then show ?thesis using 2 by (simp add: SchedulePeriod_def day_def duration_units)
  next
    case 3
    then show ?thesis using assms(1) by (simp add: SchedulePeriod_def day_def duration_units)
  qed
qed

text \<open>C25: When a schedule last ran within ten minutes of its time on one of its days, it is due in the firing
  window of its next day, whatever the cadence: the guard against firing twice never swallows an occurrence. The
  zone may change its offset by up to three hours in between.\<close>

theorem next_occurrence_is_due:
  assumes "LoadLocation env (sd_Timezone sched) = Some z" "ParseTimeOfDay (sd_TimeOfDay sched) = Some hm"
    and "\<And>t u. abs (z t - z u) \<le> 3 * hour"
    and "sd_LastRunAt sched = Some t0" "t0 \<le> scheduled_at z hm t0 + 10 * minute"
    and "day_matches (sd_Frequency sched) (sd_DayOfWeek sched) (sd_DayOfMonth sched) (local_day z t0)"
    and "local_day z t0 < local_day z now"
    and "day_matches (sd_Frequency sched) (sd_DayOfWeek sched) (sd_DayOfMonth sched) (local_day z now)"
    and "scheduled_at z hm now \<le> now" "now \<le> scheduled_at z hm now + analysisFiringWindow"
  shows "analysis_isDue env sched now"
proof -
  let ?f = "sd_Frequency sched" and ?p = "\<lambda>t. local_day z t * day + fst hm * hour + snd hm * minute"
  have a: "now \<ge> ?p now - z (?p now - z (?p now))" using assms(9) by (simp add: scheduled_at_def from_local_def)
  have b: "t0 \<le> ?p t0 - z (?p t0 - z (?p t0)) + 10 * minute" using assms(5) by (simp add: scheduled_at_def from_local_def)
  have c: "abs (z (?p now - z (?p now)) - z (?p t0 - z (?p t0))) \<le> 3 * hour" by (rule assms(3))
  have d: "local_day z t0 * day + 2 * (SchedulePeriod ?f div 2) - 2 * day * (if ?f = ''monthly'' then 1 else 0) \<le> local_day z now * day"
    by (rule matching_days_apart [OF assms(7,6,8)])
  have "SchedulePeriod ?f div 2 \<le> now - t0"
    using a b c d by (auto simp: SchedulePeriod_def day_def duration_units split: if_splits)
  moreover have "SchedulePeriod ?f div 2 \<le> 2 ^ 63 - 1" by (simp add: SchedulePeriod_def duration_units)
  ultimately have "past_interval ?f (Some t0) now" by (simp add: past_interval_def time_sub_def min_less_iff_disj)
  moreover have "\<not> time_sub now (scheduled_at z hm now) > analysisFiringWindow"
    using assms(10) by (auto simp: time_sub_def analysisFiringWindow_def duration_units)
  ultimately show ?thesis using assms(1,2,4,8,9) by (simp add: analysis_isDue_def Let_def not_less)
qed

text \<open>A schedule that ran is not due again for half its period.\<close>

lemma recent_run_is_not_due:
  assumes "sd_LastRunAt sched = Some t" "now - t < SchedulePeriod (sd_Frequency sched) div 2"
  shows "\<not> analysis_isDue env sched now"
proof -
  have "0 < SchedulePeriod (sd_Frequency sched) div 2" "SchedulePeriod (sd_Frequency sched) div 2 < 2 ^ 63"
    by (simp_all add: SchedulePeriod_def duration_units)
  then have "time_sub now t < SchedulePeriod (sd_Frequency sched) div 2" using assms(2) by (auto simp: time_sub_def)
  then show ?thesis using assms(1) by (auto simp: analysis_isDue_def past_interval_def Let_def split: option.split)
qed

section \<open>Ticks and "run now" share a window\<close>

text \<open>What the schedulers rely on of an enqueuer: a scope it blocks is refused and stays blocked, and only feed,
  period end, mode, hosts and services matter.\<close>

definition request_scope :: "analysis_report \<Rightarrow> string \<times> instant \<times> string \<times> string list \<times> string list" where
  "request_scope r = (ar_Feed r, ar_PeriodEnd r, ar_PromptMode r, ar_Hosts r, ar_Services r)"

locale blocking_enqueuer =
  fixes enq :: "'r enqueuer" and blocked :: "analysis_report \<Rightarrow> 'r \<Rightarrow> bool"
  assumes refuses: "blocked req rw \<Longrightarrow> enq req rw = (res, rw1) \<Longrightarrow> (\<exists>err. res = Inl err) \<and> blocked req rw1"
    and scope_only: "request_scope req = request_scope req' \<Longrightarrow> blocked req rw \<Longrightarrow> blocked req' rw"
begin

lemma blocked_firing:
  assumes "blocked req (sw_reports w)" "scheduledReport env sched now = Inr req'" "request_scope req' = request_scope req"
  shows "\<exists>err rw1. run_enqueue enq req' w = (Inl err, w\<lparr>sw_reports := rw1\<rparr>) \<and> enq req' (sw_reports w) = (Inl err, rw1) \<and> blocked req rw1"
proof -
  obtain res rw1 where e: "enq req' (sw_reports w) = (res, rw1)" by fastforce
  have "blocked req' (sw_reports w)" using scope_only [OF assms(3) [symmetric] assms(1)] .
  then have "(\<exists>err. res = Inl err) \<and> blocked req' rw1" using refuses e by blast
  then show ?thesis using e scope_only [OF assms(3)] by (auto simp: run_enqueue_def)
qed

lemma blocked_runSchedule:
  assumes "blocked req (sw_reports w)" "scheduledReport env sched (sw_clock w (sw_reads w)) = Inr req'" "request_scope req' = request_scope req"
  shows "\<exists>err rw1. enq req' (sw_reports w) = (Inl err, rw1) \<and> blocked req rw1 \<and>
    analysis_runSchedule env enq sched w = w\<lparr>sw_reads := sw_reads w + 1, sw_reports := rw1\<rparr>"
  using blocked_firing [of req "w\<lparr>sw_reads := sw_reads w + 1\<rparr>", OF _ assms(2,3)] assms
  by (auto simp: analysis_runSchedule_def read_clock_def)

end

text \<open>The worker's queue blocks a scope while a report for it is active and not deleted.\<close>

definition scope_active :: "analysis_report \<Rightarrow> report_world \<Rightarrow> bool" where
  "scope_active req w \<longleftrightarrow>
     (\<exists>x \<in> set (rw_rows w). report_active x \<and> same_scope req x \<and> (\<forall>k. ar_ID x \<notin> set (rw_deletes w k)))"

interpretation worker_queue: blocking_enqueuer "Enqueue sf rn" scope_active for sf rn
proof
  fix req rw res rw1
  assume "scope_active req rw" and e: "Enqueue sf rn req rw = (res, rw1)"
  then obtain x where x: "\<And>k. ar_ID x \<notin> set (rw_deletes rw k)" "x \<in> set (rw_rows rw)" "report_active x" "same_scope req x"
    unfolding scope_active_def by blast
  then show "(\<exists>err. res = Inl err) \<and> scope_active req rw1"
    using Enqueue_blocked [OF x, of sf rn] e unfolding scope_active_def by auto
next
  fix req req' rw
  assume "request_scope req = request_scope req'" "scope_active req rw"
  then show "scope_active req' rw" unfolding scope_active_def request_scope_def same_scope_def by auto
qed

lemma scheduledReport_same_day:
  assumes "LoadLocation env (sd_Timezone sched) = Some z" "local_day z t = local_day z u"
  shows "scheduledReport env sched t = scheduledReport env sched u"
proof -
  have "scheduled_at z hm t = scheduled_at z hm u" for hm using assms(2) by (simp add: scheduled_at_def)
  then show ?thesis by (cases "ParseTimeOfDay (sd_TimeOfDay sched)") (simp_all add: scheduledReport_def scheduledPeriodEnd_def assms(1))
qed

text \<open>While the report of one firing of a schedule is pending or running and is not deleted, every other
  firing on the same local day, by a tick or by "run now", is refused by the worker's queue: "run now" answers an
  error, no last run is stamped, and the scope stays blocked.\<close>

lemma firings_of_a_day_collide:
  assumes "scheduledReport env sched t = Inr req" "scope_active req (sw_reports w)"
    and "LoadLocation env (sd_Timezone sched) = Some z" "local_day z (sw_clock w (sw_reads w)) = local_day z t"
  shows "\<exists>err rw. analysis_runSchedule env (Enqueue sf rn) sched w = w\<lparr>sw_reads := sw_reads w + 1, sw_reports := rw\<rparr> \<and>
      Enqueue sf rn req (sw_reports w) = (Inl err, rw) \<and> scope_active req rw \<and>
      (sw_fail w (sw_calls w) = None \<and> find (\<lambda>r. sd_ID r = i) (sw_schedules w) = Some sched \<longrightarrow>
         RunNow env (Enqueue sf rn) i w =
           (Some (EnqueueFailed err), w\<lparr>sw_calls := sw_calls w + 1, sw_reads := sw_reads w + 1, sw_reports := rw\<rparr>))"
proof -
  have req: "scheduledReport env sched (sw_clock w (sw_reads w)) = Inr req"
    using assms(1) scheduledReport_same_day [OF assms(3,4)] by simp
  obtain err rw where rw: "Enqueue sf rn req (sw_reports w) = (Inl err, rw)" "scope_active req rw"
    "analysis_runSchedule env (Enqueue sf rn) sched w = w\<lparr>sw_reads := sw_reads w + 1, sw_reports := rw\<rparr>"
    using worker_queue.blocked_runSchedule [OF assms(2) req] by blast
  then have "sw_fail w (sw_calls w) = None \<and> find (\<lambda>r. sd_ID r = i) (sw_schedules w) = Some sched \<longrightarrow>
      RunNow env (Enqueue sf rn) i w = (Some (EnqueueFailed err), w\<lparr>sw_calls := sw_calls w + 1, sw_reads := sw_reads w + 1, sw_reports := rw\<rparr>)"
    using req by (simp add: RunNow_def GetAnalysisSchedule_def run_sched_def Let_def read_clock_def run_enqueue_def)
  then show ?thesis using rw by blast
qed

section \<open>Stored schedules are well-formed\<close>

definition schedule_wf :: "sched_env \<Rightarrow> analysis_schedule \<Rightarrow> bool" where
  "schedule_wf env s \<longleftrightarrow>
     sd_Name s \<noteq> [] \<and> IsValidAnalysisFeed (sd_Feed s) \<and> frequency_ok s \<and>
     IsValidAnalysisFrequencyForFeed (sd_Feed s) (sd_Frequency s) \<and>
     ParseTimeOfDay (sd_TimeOfDay s) \<noteq> None \<and> LoadLocation env (sd_Timezone s) \<noteq> None"

definition schedules_inv :: "sched_env \<Rightarrow> 'r sched_world \<Rightarrow> bool" where
  "schedules_inv env w \<longleftrightarrow>
     (\<forall>s \<in> set (sw_schedules w). schedule_wf env s \<and> sd_ID s < sw_nextID w) \<and>
     distinct (map sd_ID (sw_schedules w)) \<and> distinct (map sd_Name (sw_schedules w))"

text \<open>The type of the time column takes the times the handler accepts.\<close>

definition reads_times :: "sched_env \<Rightarrow> bool" where
  "reads_times env \<longleftrightarrow> (\<forall>s hm. ParseTimeOfDay s = Some hm \<longrightarrow> se_pgTime env s = Some hm)"

lemma digit_value_nat: "digit_value c = int (of_char c) - 48"
  by (simp add: digit_value_def of_char_def)

lemma digit_value_range: "is_digit c \<Longrightarrow> 0 \<le> digit_value c \<and> digit_value c \<le> 9"
  by (auto simp: is_digit_def digit_value_nat)

lemma parse_minute_range: "parse_minute h s = Some hm \<Longrightarrow> fst hm = h \<and> h < 24 \<and> 0 \<le> snd hm \<and> snd hm < 60"
  using digit_value_range by (fastforce simp: parse_minute_def split: list.splits if_splits)

lemma ParseTimeOfDay_range: "ParseTimeOfDay s = Some hm \<Longrightarrow> 0 \<le> fst hm \<and> fst hm < 24 \<and> 0 \<le> snd hm \<and> snd hm < 60"
  using digit_value_range by (fastforce simp: ParseTimeOfDay_def dest!: parse_minute_range split: list.splits if_splits)

lemma digit_value_digit: "d < 10 \<Longrightarrow> digit_value (digit_char d) = int d"
  by (simp add: digit_value_nat of_char_digit)

text \<open>What the time column prints is read back as the same time.\<close>

lemma ParseTimeOfDay_format:
  assumes "0 \<le> h" "h < 24" "0 \<le> m" "m < 60"
  shows "ParseTimeOfDay (format_time (h, m)) = Some (h, m)"
proof -
  have "10 * int (nat x div 10) + int (nat x mod 10) = x" if "0 \<le> x" for x
    using that div_mult_mod_eq [of "nat x" 10] by linarith
  then have "10 * int (nat h div 10) + int (nat h mod 10) = h" "10 * int (nat m div 10) + int (nat m mod 10) = m" using assms by auto
  moreover have "nat h div 10 < 10" "nat m div 10 < 10" using assms by auto
  ultimately show ?thesis using assms
    by (simp add: ParseTimeOfDay_def parse_minute_def format_time_def two_digits_def digit_value_digit)
qed

lemma stored_time_parses:
  assumes "reads_times env" "ParseTimeOfDay s = Some hm"
  shows "ParseTimeOfDay (stored_time env s) = Some hm"
proof -
  have "se_pgTime env s = Some hm" using assms unfolding reads_times_def by blast
  then show ?thesis
    using ParseTimeOfDay_format [of "fst hm" "snd hm"] ParseTimeOfDay_range [OF assms(2)] by (simp add: stored_time_def)
qed

lemma validateNotifyChannels_keeps:
  "sw_schedules (snd (validateNotifyChannels ids w)) = sw_schedules w \<and> sw_nextID (snd (validateNotifyChannels ids w)) = sw_nextID w"
  by (auto simp: validateNotifyChannels_def ListNotificationChannels_def run_sched_def Let_def split: option.split)

lemma decodeAndValidateSchedule_keeps:
  "sw_schedules (snd (decodeAndValidateSchedule env body w)) = sw_schedules w \<and>
   sw_nextID (snd (decodeAndValidateSchedule env body w)) = sw_nextID w"
  using validateNotifyChannels_keeps [of _ w]
  by (auto simp: decodeAndValidateSchedule_def Let_def split: sum.split option.split prod.split) (metis snd_conv)+

lemma frequency_ok_cong:
  assumes "sd_Frequency r = sd_Frequency s" "sd_DayOfWeek r = sd_DayOfWeek s" "sd_DayOfMonth r = sd_DayOfMonth s"
  shows "frequency_ok r = frequency_ok s"
  unfolding frequency_ok_def assms by simp

lemma decodeAndValidateSchedule_wf:
  assumes "decodeAndValidateSchedule env body w = (Inr sched, w1)"
  shows "schedule_wf env sched"
proof -
  obtain s where s: "body = Inr s" using assms by (cases body) (auto simp: decodeAndValidateSchedule_def)
  have "sched = (if sd_Timezone s = [] then s\<lparr>sd_Timezone := ''UTC''\<rparr> else s)" "schedule_wf env s" "LoadLocation env (sd_Timezone sched) \<noteq> None"
    using assms unfolding s decodeAndValidateSchedule_def Let_def schedule_wf_def
    by (auto simp: LoadLocation_def split: if_splits option.splits prod.splits)
  then show ?thesis using frequency_ok_cong [of sched s] by (auto simp: schedule_wf_def)
qed

text \<open>Rows keep well-formed through the two writes, which store the validated schedule with its time printed.\<close>

lemma stored_wf:
  assumes "reads_times env" "schedule_wf env sched" "sd_Name r = sd_Name sched" "sd_Feed r = sd_Feed sched"
    "sd_Frequency r = sd_Frequency sched" "sd_DayOfWeek r = sd_DayOfWeek sched" "sd_DayOfMonth r = sd_DayOfMonth sched"
    "sd_TimeOfDay r = stored_time env (sd_TimeOfDay sched)" "sd_Timezone r = sd_Timezone sched"
  shows "schedule_wf env r"
  using assms frequency_ok_cong [of r sched] stored_time_parses [OF assms(1)] by (auto simp: schedule_wf_def)

lemma CreateAnalysisSchedule_inv:
  assumes "reads_times env" "schedules_inv env w" "schedule_wf env sched"
  shows "schedules_inv env (snd (CreateAnalysisSchedule env sched w))"
proof -
  let ?row = "\<lambda>w. (sched\<lparr>sd_ID := sw_nextID w, sd_CreatedAt := sw_dbNow w, sd_UpdatedAt := sw_dbNow w\<rparr>)
    \<lparr>sd_TimeOfDay := stored_time env (sd_TimeOfDay sched), sd_LastRunAt := None\<rparr>"
  have "schedule_wf env (?row v)" for v :: "'a sched_world" by (rule stored_wf [OF assms(1,3)]) simp_all
  then show ?thesis
    using assms(2) by (fastforce simp: CreateAnalysisSchedule_def run_sched_def Let_def schedules_inv_def list_ex_iff image_iff split: option.split)
qed

lemma update_schedules_inv:
  assumes "schedules_inv env w" "\<And>s. s \<in> set (sw_schedules w) \<Longrightarrow> schedule_wf env (g s)" "\<And>s. sd_ID (g s) = sd_ID s"
    "distinct (map (\<lambda>s. sd_Name (g s)) (sw_schedules w))"
  shows "schedules_inv env (w\<lparr>sw_schedules := map g (sw_schedules w)\<rparr>)"
  using assms by (auto simp: schedules_inv_def comp_def)

lemma set_schedule_fields [simp]:
  "sd_ID (set_schedule env sched now r) = sd_ID r" "sd_Name (set_schedule env sched now r) = sd_Name sched"
  by (simp_all add: set_schedule_def)

lemma set_schedule_wf: "reads_times env \<Longrightarrow> schedule_wf env sched \<Longrightarrow> schedule_wf env (set_schedule env sched now r)"
  by (rule stored_wf) (simp_all add: set_schedule_def)

lemma distinct_names_update:
  assumes "distinct (map sd_ID rs)" "distinct (map sd_Name rs)" "\<forall>x \<in> set rs. sd_Name x = n \<longrightarrow> sd_ID x = i"
  shows "distinct (map (\<lambda>x. if sd_ID x = i then n else sd_Name x) rs)"
proof -
  have ids: "x = y" if "x \<in> set rs" "y \<in> set rs" "sd_ID x = sd_ID y" for x y
    using assms(1) that by (auto simp: distinct_map dest: inj_onD)
  have names: "x = y" if "x \<in> set rs" "y \<in> set rs" "sd_Name x = sd_Name y" for x y
    using assms(2) that by (auto simp: distinct_map dest: inj_onD)
  have "inj_on (\<lambda>x. if sd_ID x = i then n else sd_Name x) (set rs)"
  proof (rule inj_onI)
    fix x y
    assume xy: "x \<in> set rs" "y \<in> set rs" "(if sd_ID x = i then n else sd_Name x) = (if sd_ID y = i then n else sd_Name y)"
    show "x = y" using ids [OF xy(1,2)] names [OF xy(1,2)] xy(3) assms(3) xy(1,2) by (cases "sd_ID x = i"; cases "sd_ID y = i") auto
  qed
  then show ?thesis using assms(1) by (simp add: distinct_map)
qed

lemma schedules_inv_frame:
  "sw_schedules w' = sw_schedules w \<Longrightarrow> sw_nextID w' = sw_nextID w \<Longrightarrow> schedules_inv env w' = schedules_inv env w"
  by (simp add: schedules_inv_def)

lemma UpdateAnalysisSchedule_inv:
  assumes "reads_times env" "schedules_inv env w" "schedule_wf env sched"
  shows "schedules_inv env (snd (UpdateAnalysisSchedule env i sched w))"
proof -
  let ?now = "sw_clock w (sw_reads w)" and ?v = "w\<lparr>sw_reads := sw_reads w + 1, sw_calls := sw_calls w + 1\<rparr>"
  let ?g = "\<lambda>x. if sd_ID x = i then set_schedule env sched ?now x else x"
  have v: "schedules_inv env ?v" using assms(2) schedules_inv_frame [of ?v w] by simp
  have "schedules_inv env (?v\<lparr>sw_schedules := map ?g (sw_schedules w)\<rparr>)"
    if "\<not> list_ex (\<lambda>x. sd_Name x = sd_Name sched \<and> sd_ID x \<noteq> i) (sw_schedules w)"
  proof -
    have "distinct (map (\<lambda>x. if sd_ID x = i then sd_Name sched else sd_Name x) (sw_schedules w))"
      using assms(2) that by (intro distinct_names_update) (auto simp: schedules_inv_def list_ex_iff)
    moreover have "(\<lambda>x. sd_Name (?g x)) = (\<lambda>x. if sd_ID x = i then sd_Name sched else sd_Name x)" by auto
    ultimately have names: "distinct (map (\<lambda>x. sd_Name (?g x)) (sw_schedules ?v))" by simp
    have "schedules_inv env (?v\<lparr>sw_schedules := map ?g (sw_schedules ?v)\<rparr>)"
      by (rule update_schedules_inv [OF v _ _ names])
        (use assms(2) set_schedule_wf [OF assms(1,3)] in \<open>auto simp: schedules_inv_def\<close>)
    then show ?thesis by simp
  qed
  then show ?thesis using v
    by (auto simp: UpdateAnalysisSchedule_def read_clock_def run_sched_def Let_def split: option.split cong: if_cong)
qed

lemma DeleteAnalysisSchedule_inv: "schedules_inv env w \<Longrightarrow> schedules_inv env (snd (DeleteAnalysisSchedule i w))"
  by (auto simp: DeleteAnalysisSchedule_def run_sched_def Let_def schedules_inv_def distinct_map_filter split: option.split)

lemma UpdateLastRun_inv:
  assumes "schedules_inv env w"
  shows "schedules_inv env (snd (UpdateAnalysisScheduleLastRun i t w))"
proof -
  let ?v = "w\<lparr>sw_calls := sw_calls w + 1\<rparr>" and ?g = "\<lambda>r. if sd_ID r = i then r\<lparr>sd_LastRunAt := Some t\<rparr> else r"
  have v: "schedules_inv env ?v" using assms schedules_inv_frame [of ?v w] by simp
  have "schedule_wf env (?g s) = schedule_wf env s" for s using frequency_ok_cong [of "?g s" s] by (auto simp: schedule_wf_def)
  then have wf: "schedule_wf env (?g s)" if "s \<in> set (sw_schedules ?v)" for s using that assms by (auto simp: schedules_inv_def)
  have "map (\<lambda>s. sd_Name (?g s)) (sw_schedules ?v) = map sd_Name (sw_schedules w)" by simp
  then have names: "distinct (map (\<lambda>s. sd_Name (?g s)) (sw_schedules ?v))" using assms unfolding schedules_inv_def by metis
  have "schedules_inv env (?v\<lparr>sw_schedules := map ?g (sw_schedules ?v)\<rparr>)"
    by (rule update_schedules_inv [OF v wf _ names]) simp_all
  then show ?thesis using v by (simp add: UpdateAnalysisScheduleLastRun_def run_sched_def Let_def split: option.split)
qed

lemma runSchedule_inv:
  assumes "schedules_inv env w"
  shows "schedules_inv env (analysis_runSchedule env enq sched w)"
proof -
  have v: "schedules_inv env (w\<lparr>sw_reads := m, sw_reports := rw\<rparr>)" "schedules_inv env (w\<lparr>sw_reads := m\<rparr>)" for m rw
    using assms schedules_inv_frame [of "w\<lparr>sw_reads := m, sw_reports := rw\<rparr>" w] schedules_inv_frame [of "w\<lparr>sw_reads := m\<rparr>" w] by simp_all
  have "schedules_inv env (w\<lparr>sw_reports := rw, sw_reads := m\<rparr>)" for m rw
    using assms schedules_inv_frame [of "w\<lparr>sw_reports := rw, sw_reads := m\<rparr>" w] by simp
  note UpdateLastRun_inv [OF this]
  then show ?thesis using v
    by (auto simp: analysis_runSchedule_def read_clock_def run_enqueue_def split: sum.split prod.split)
qed

lemma tick_loop_inv: "schedules_inv env w \<Longrightarrow> schedules_inv env (analysis_tick_loop env enq ss w)"
proof (induction ss arbitrary: w)
  case (Cons s ss)
  have "schedules_inv env (w\<lparr>sw_reads := sw_reads w + 1\<rparr>)" using Cons.prems schedules_inv_frame [of "w\<lparr>sw_reads := sw_reads w + 1\<rparr>" w] by simp
  then show ?case using Cons.IH Cons.prems by (auto simp: read_clock_def intro: runSchedule_inv)
qed simp

lemma row_answer_snd [simp]: "snd (row_answer status res) = snd res"
  by (auto simp: row_answer_def split: prod.split sum.split store_error.split)

lemma no_content_snd [simp]: "snd (no_content res) = snd res"
  by (auto simp: no_content_def split: prod.split response.split)

lemma RunNow_keeps: "sw_schedules (snd (RunNow env enq i w)) = sw_schedules w \<and> sw_nextID (snd (RunNow env enq i w)) = sw_nextID w"
  by (auto simp: RunNow_def GetAnalysisSchedule_def run_sched_def Let_def read_clock_def run_enqueue_def split: option.split sum.split prod.split)

lemma sched_Run_keeps:
  "sw_schedules (snd (sched_Run env enq idParam w)) = sw_schedules w \<and> sw_nextID (snd (sched_Run env enq idParam w)) = sw_nextID w"
  using RunNow_keeps [of env "the enq" _ w]
  by (auto simp: sched_Run_def split: option.split run_now_error.split report_error.split prod.split) (metis option.sel snd_conv)+

section \<open>Histories of the schedule table\<close>

inductive sched_step :: "sched_env \<Rightarrow> 'r enqueuer \<Rightarrow> 'r sched_world \<Rightarrow> 'r sched_world \<Rightarrow> bool" for env enq where
  create: "sched_step env enq w (snd (sched_Create env body w))"
| update: "sched_step env enq w (snd (sched_Update env idParam body w))"
| delete: "sched_step env enq w (snd (sched_Delete idParam w))"
| run_now: "sched_step env enq w (snd (sched_Run env (Some enq) idParam w))"
| tick: "sched_step env enq w (analysis_tick env enq w)"
| elsewhere: "sw_schedules w' = sw_schedules w \<Longrightarrow> sw_nextID w' = sw_nextID w \<Longrightarrow> sched_step env enq w w'"

lemma sched_step_inv:
  assumes "sched_step env enq w w'" "reads_times env" "schedules_inv env w"
  shows "schedules_inv env w'"
  using assms(1)
proof cases
  case (create body)
  obtain r w1 where d: "decodeAndValidateSchedule env body w = (r, w1)" by fastforce
  have w1: "schedules_inv env w1" using decodeAndValidateSchedule_keeps [of env body w] d assms(3) schedules_inv_frame [of w1 w] by simp
  show ?thesis
  proof (cases r)
    case (Inr sched)
    show ?thesis using CreateAnalysisSchedule_inv [OF assms(2) w1 decodeAndValidateSchedule_wf [OF d [unfolded Inr]]]
      unfolding create sched_Create_def d by (auto simp: Inr split: prod.split sum.split)
  qed (use w1 create d in \<open>auto simp: sched_Create_def\<close>)
next
  case (update idParam body)
  obtain r w1 where d: "decodeAndValidateSchedule env body w = (r, w1)" by fastforce
  have w1: "schedules_inv env w1" using decodeAndValidateSchedule_keeps [of env body w] d assms(3) schedules_inv_frame [of w1 w] by simp
  show ?thesis
  proof (cases r)
    case (Inr sched)
    show ?thesis using UpdateAnalysisSchedule_inv [OF assms(2) w1 decodeAndValidateSchedule_wf [OF d [unfolded Inr]]] assms(3)
      unfolding update sched_Update_def d by (auto simp: Inr split: option.split)
  qed (use w1 update d assms(3) in \<open>auto simp: sched_Update_def split: option.split\<close>)
next
  case (delete idParam)
  then show ?thesis using assms(3) DeleteAnalysisSchedule_inv by (auto simp: sched_Delete_def split: option.split)
next
  case (run_now idParam)
  then show ?thesis using assms(3) RunNow_keeps schedules_inv_frame sched_Run_keeps by metis
next
  case tick
  have "sw_schedules (snd (ListAnalysisSchedules w)) = sw_schedules w" "sw_nextID (snd (ListAnalysisSchedules w)) = sw_nextID w"
    by (simp_all add: ListAnalysisSchedules_def run_sched_def Let_def split: option.split)
  then have "schedules_inv env (snd (ListAnalysisSchedules w))" using assms(3) schedules_inv_frame by blast
  then show ?thesis using tick tick_loop_inv by (auto simp: analysis_tick_def split: prod.split sum.split)
next
  case elsewhere
  then show ?thesis using assms(3) schedules_inv_frame by blast
qed

lemma sched_steps_inv:
  assumes "(sched_step env enq)\<^sup>*\<^sup>* w0 w" "sw_schedules w0 = []" "reads_times env"
  shows "schedules_inv env w"
  using assms(1)
proof (induction rule: rtranclp_induct)
  case base
  then show ?case using assms(2) by (simp add: schedules_inv_def)
next
  case (step y z)
  then show ?case using sched_step_inv assms(3) by blast
qed

text \<open>C26: In every history of the schedule table each stored schedule is well-formed: its feed, cadence, day,
  time and zone are valid, so a firing at any time yields a report request for a mode the feed has, over exactly
  one period of the cadence.\<close>

theorem stored_schedules_can_run:
  assumes "(sched_step env enq)\<^sup>*\<^sup>* w0 w" "sw_schedules w0 = []" "reads_times env" "s \<in> set (sw_schedules w)"
  shows "schedule_wf env s \<and>
    (\<exists>req. scheduledReport env s now = Inr req \<and> IsValidAnalysisModeForFeed (ar_Feed req) (ar_PromptMode req) \<and>
       ar_Hosts req = [] \<and> ar_Services req = [] \<and> ar_PeriodEnd req mod minute = 0 \<and>
       ar_PeriodEnd req - ar_PeriodStart req = SchedulePeriod (sd_Frequency s))"
proof -
  have wf: "schedule_wf env s" using sched_steps_inv [OF assms(1-3)] assms(4) by (simp add: schedules_inv_def)
  then obtain z hm where z: "LoadLocation env (sd_Timezone s) = Some z" "ParseTimeOfDay (sd_TimeOfDay s) = Some hm"
    by (auto simp: schedule_wf_def)
  have "Truncate minute t mod minute = 0" for t by (simp add: Truncate_def minus_mod_eq_mult_div)
  then show ?thesis using wf z
    by (simp add: scheduledReport_def scheduledPeriodEnd_def schedule_wf_def IsValidAnalysisFrequencyForFeed_def zero_report_def)
qed

definition valid_request :: "known_names \<Rightarrow> instant \<Rightarrow> analysis_report \<Rightarrow> bool" where
  "valid_request names now req \<longleftrightarrow>
     IsValidAnalysisModeForFeed (ar_Feed req) (ar_PromptMode req) \<and>
     validateScope names (ar_Feed req) (ar_Hosts req) (ar_Services req) = Inr [] \<and>
     (\<exists>hs ss. ar_Hosts req = NormalizeHosts hs \<and> ar_Services req = NormalizeHosts ss) \<and>
     5 * minute \<le> ar_PeriodEnd req - ar_PeriodStart req \<and>
     ar_PeriodEnd req - ar_PeriodStart req \<le> (if ar_PromptMode req = ''incident'' then 6 * hour else 30 * 24 * hour) \<and>
     ar_PeriodEnd req mod minute = 0 \<and> ar_PeriodEnd req \<le> now \<and> now - ar_PeriodEnd req < minute"


section \<open>A sample schedule\<close>

definition sample_sched_env :: sched_env where
  "sample_sched_env = \<lparr>se_zones = \<lambda>n. if n = ''Europe/Oslo'' then Some (\<lambda>t. hour) else None, se_pgTime = ParseTimeOfDay\<rparr>"

definition sample_schedule :: analysis_schedule where
  "sample_schedule = \<lparr>sd_ID = 1, sd_Name = ''n'', sd_Enabled = True, sd_Feed = ''netlog'', sd_Frequency = ''monthly'',
     sd_DayOfWeek = None, sd_DayOfMonth = Some 1, sd_TimeOfDay = ''03:00'', sd_Timezone = ''Europe/Oslo'', sd_NotifyChannelIDs = [],
     sd_LastRunAt = None, sd_CreatedAt = 9, sd_UpdatedAt = 9\<rparr>"

definition sample_sched_world :: "report_world \<Rightarrow> report_world sched_world" where
  "sample_sched_world rw = \<lparr>sw_schedules = [], sw_nextID = 1, sw_calls = 0, sw_fail = \<lambda>n. None, sw_dbNow = 9,
     sw_clock = \<lambda>n. 2 * hour + minute, sw_reads = 0, sw_channels = [], sw_reports = rw\<rparr>"

lemma sample_time: "ParseTimeOfDay ''03:00'' = Some (3, 0)"
  by (simp add: ParseTimeOfDay_def parse_minute_def digit_value_def is_digit_def)

lemma sample_pgTime: "se_pgTime sample_sched_env = ParseTimeOfDay"
  by (simp add: sample_sched_env_def)

lemma sample_zone: "LoadLocation sample_sched_env ''Europe/Oslo'' = Some (\<lambda>t. hour)"
  by (simp add: LoadLocation_def sample_sched_env_def)

text \<open>A monthly schedule that ran on 1 January 1970 is due on 1 February.\<close>

theorem next_occurrence_is_due_witness:
  "analysis_isDue sample_sched_env (sample_schedule\<lparr>sd_LastRunAt := Some (2 * hour + minute)\<rparr>) (31 * day + 2 * hour + 3 * minute)"
proof (rule next_occurrence_is_due [where z = "\<lambda>t. hour" and hm = "(3, 0)" and ?t0.0 = "2 * hour + minute"])
  have d: "local_day (\<lambda>t. hour) (2 * hour + minute) = 0" "local_day (\<lambda>t. hour) (31 * day + 2 * hour + 3 * minute) = 31"
    by (simp_all add: local_day_def local_time_def day_def duration_units)
  have m: "month_day 0 = 1" "month_day 31 = 1" by code_simp+
  show "LoadLocation sample_sched_env (sd_Timezone (sample_schedule\<lparr>sd_LastRunAt := Some (2 * hour + minute)\<rparr>)) = Some (\<lambda>t. hour)"
    by (simp add: sample_schedule_def sample_zone)
  show "ParseTimeOfDay (sd_TimeOfDay (sample_schedule\<lparr>sd_LastRunAt := Some (2 * hour + minute)\<rparr>)) = Some (3, 0)"
    by (simp add: sample_schedule_def sample_time)
qed (simp_all add: scheduled_at_def from_local_def sample_schedule_def day_matches_def local_day_def local_time_def analysisFiringWindow_def
    month_day_def march_yday_def day_in_march_year_def month_index_def Let_def day_def duration_units)

lemma sample_report:
  "scheduledReport sample_sched_env sample_schedule (2 * hour) =
     Inr (zero_report\<lparr>ar_Feed := ''netlog'', ar_PromptMode := ''weekly'', ar_PeriodStart := 2 * hour - 30 * 24 * hour, ar_PeriodEnd := 2 * hour\<rparr>)"
  by (simp add: scheduledReport_def scheduledPeriodEnd_def sample_schedule_def sample_zone sample_time scheduled_at_def from_local_def local_day_def
      local_time_def day_def duration_units Truncate_def AnalysisModeForFrequency_def SchedulePeriod_def zero_report_def)

lemma sample_scope_active:
  "scope_active (zero_report\<lparr>ar_Feed := ''netlog'', ar_PromptMode := ''weekly'', ar_PeriodStart := 2 * hour - 30 * 24 * hour, ar_PeriodEnd := 2 * hour\<rparr>)
     (snd (Enqueue sample_slugs sample_runner
        (zero_report\<lparr>ar_Feed := ''netlog'', ar_PromptMode := ''weekly'', ar_PeriodStart := 2 * hour - 30 * 24 * hour, ar_PeriodEnd := 2 * hour\<rparr>) sample_world))"
  by (simp add: scope_active_def same_scope_def report_active_def report_ops sample_defs zero_report_def sample_hosts numeral_nat QueueDepth_def)

text \<open>The tick at 03:01 finds the report of 03:00 still waiting.\<close>


text \<open>A created schedule.\<close>

theorem stored_schedules_can_run_witness:
  "\<exists>s. sw_schedules (snd (sched_Create sample_sched_env (Inr sample_schedule) (sample_sched_world sample_world))) = [s] \<and>
     schedule_wf sample_sched_env s \<and> (\<exists>req. scheduledReport sample_sched_env s 0 = Inr req)"
proof -
  let ?w = "snd (sched_Create sample_sched_env (Inr sample_schedule) (sample_sched_world sample_world))"
  have r: "reads_times sample_sched_env" by (simp add: reads_times_def sample_sched_env_def)
  have "IsValidAnalysisFeed ''netlog''" "IsValidAnalysisModeForFeed ''netlog'' ''weekly''" by code_simp+
  then obtain s where s: "sw_schedules ?w = [s]"
    by (simp add: sched_Create_def decodeAndValidateSchedule_def sample_schedule_def frequency_ok_def MaxScheduleDayOfMonth_def
        IsValidAnalysisFrequencyForFeed_def AnalysisModeForFrequency_def sample_time sample_zone validateNotifyChannels_def Let_def
        CreateAnalysisSchedule_def run_sched_def sample_sched_world_def schedule_columns_ok_def sample_pgTime)
  have "(sched_step sample_sched_env (Enqueue sample_slugs sample_runner))\<^sup>*\<^sup>* (sample_sched_world sample_world) ?w"
    by (rule r_into_rtranclp) (rule sched_step.create)
  note h = stored_schedules_can_run [OF this _ r, of s 0]
  show ?thesis using h s by (auto simp: sample_sched_world_def)
qed

text \<open>The window is taken from the current day's time, so it ends at midnight: three minutes after 23:58 a daily
  schedule is no longer retried.\<close>

lemma window_ends_at_midnight:
  "analysis_isDue env (sample_schedule\<lparr>sd_Frequency := ''daily'', sd_TimeOfDay := ''23:58'', sd_Timezone := ''UTC''\<rparr>) (day - minute)"
  "\<not> analysis_isDue env (sample_schedule\<lparr>sd_Frequency := ''daily'', sd_TimeOfDay := ''23:58'', sd_Timezone := ''UTC''\<rparr>) (day + minute)"
proof -
  have t: "ParseTimeOfDay ''23:58'' = Some (23, 58)"
    by (simp add: ParseTimeOfDay_def parse_minute_def digit_value_def is_digit_def)
  note unfold = analysis_isDue_def LoadLocation_def sample_schedule_def t scheduled_at_def from_local_def local_day_def local_time_def
    time_sub_def analysisFiringWindow_def day_matches_def past_interval_def day_def duration_units Let_def
  show "analysis_isDue env (sample_schedule\<lparr>sd_Frequency := ''daily'', sd_TimeOfDay := ''23:58'', sd_Timezone := ''UTC''\<rparr>) (day - minute)"
    by (simp add: unfold)
  show "\<not> analysis_isDue env (sample_schedule\<lparr>sd_Frequency := ''daily'', sd_TimeOfDay := ''23:58'', sd_Timezone := ''UTC''\<rparr>) (day + minute)"
    by (simp add: unfold)
qed

end
