(* ===== verification/Summary.thy ===== *)
theory Summary
  imports Schedule "HOL-Library.Multiset" "HOL-Library.Product_Lexorder"
begin

text \<open>
  Summary schedules: the tables of \<^verbatim>\<open>postgres/summary_store.go\<close>, the scheduler \<^verbatim>\<open>scheduler/summary.go\<close> and the handlers of
  \<^verbatim>\<open>handler/summary.go\<close>. A write and its channel rows are one transaction; the aggregating queries are parameters.
  The lemmas show that a write is atomic and is read back, that the top issues are the highest ranked ones, and
  when a scheduled run panics.
\<close>

section \<open>The tables\<close>

text \<open>A schedule row carries no channels; they are rows of \<^verbatim>\<open>summary_schedule_channels\<close>.\<close>

record summary_world =
  sm_rows :: "summary_schedule list"
  sm_links :: "(int \<times> int) list"
  sm_channels :: "int list"
  sm_nextID :: int
  sm_calls :: nat
  sm_fail :: "nat \<Rightarrow> string option"
  sm_dbNow :: instant
  sm_clock :: "nat \<Rightarrow> instant"
  sm_reads :: nat
  sm_sent :: "(summary_report \<times> int list) list"

text \<open>The queries: summaries of a period, the grouped rows of the top issues, and the sort of package \<^verbatim>\<open>sort\<close>. The
  number of the call stands for the state of the event tables at the time.\<close>

record summary_env =
  me_sched :: sched_env
  me_srvlog :: "nat \<Rightarrow> duration \<Rightarrow> string + syslog_summary"
  me_netlog :: "nat \<Rightarrow> duration \<Rightarrow> string + syslog_summary"
  me_applog :: "nat \<Rightarrow> duration \<Rightarrow> string + applog_summary"
  me_topSyslog :: "nat \<Rightarrow> string \<Rightarrow> instant \<Rightarrow> int option \<Rightarrow> string \<Rightarrow> int \<Rightarrow> string + (int \<times> string \<times> string \<times> string \<times> int) list"
  me_topApplog :: "nat \<Rightarrow> instant \<Rightarrow> string \<Rightarrow> int \<Rightarrow> string + (string \<times> string \<times> string \<times> string \<times> int) list"
  me_sort :: "top_issue list \<Rightarrow> top_issue list"

definition summary_clock :: "summary_world \<Rightarrow> instant \<times> summary_world" where
  "summary_clock w = (sm_clock w (sm_reads w), w\<lparr>sm_reads := sm_reads w + 1\<rparr>)"

definition run_summary :: "(summary_world \<Rightarrow> (store_error + 'a) \<times> summary_world) \<Rightarrow> summary_world \<Rightarrow> (store_error + 'a) \<times> summary_world" where
  "run_summary stmt w =
     (let w1 = w\<lparr>sm_calls := sm_calls w + 1\<rparr> in
      case sm_fail w (sm_calls w) of Some err \<Rightarrow> (Inl (StoreFailed err), w1) | None \<Rightarrow> stmt w1)"

text \<open>A transaction: when a step or the commit fails, the tables are as before. Identity values stay used.\<close>

definition in_tx :: "(summary_world \<Rightarrow> (store_error + 'a) \<times> summary_world) \<Rightarrow> summary_world \<Rightarrow> (store_error + 'a) \<times> summary_world" where
  "in_tx body w =
     (case run_summary (\<lambda>w. (Inr (), w)) w of
        (Inl err, w1) \<Rightarrow> (Inl err, w1)
      | (Inr _, w1) \<Rightarrow>
          (case body w1 of
             (Inl err, w2) \<Rightarrow> (Inl err, w2\<lparr>sm_rows := sm_rows w, sm_links := sm_links w\<rparr>)
           | (Inr x, w2) \<Rightarrow>
               (case run_summary (\<lambda>w. (Inr (), w)) w2 of
                  (Inl err, w3) \<Rightarrow> (Inl err, w3\<lparr>sm_rows := sm_rows w, sm_links := sm_links w\<rparr>)
                | (Inr _, w3) \<Rightarrow> (Inr x, w3))))"

definition channel_ids :: "summary_world \<Rightarrow> int \<Rightarrow> int list" where
  "channel_ids w i = sort (map snd (filter (\<lambda>l. fst l = i) (sm_links w)))"

definition scanSummaryScheduleRow :: "summary_world \<Rightarrow> summary_schedule \<Rightarrow> summary_schedule" where
  "scanSummaryScheduleRow w r = r\<lparr>sch_ChannelIDs := channel_ids w (sch_ID r)\<rparr>"

definition ListSummarySchedules :: "summary_world \<Rightarrow> (store_error + summary_schedule list) \<times> summary_world" where
  "ListSummarySchedules = run_summary (\<lambda>w. (Inr (map (scanSummaryScheduleRow w) (sort_key sch_ID (sm_rows w))), w))"

definition GetSummarySchedule :: "int \<Rightarrow> summary_world \<Rightarrow> (store_error + summary_schedule) \<times> summary_world" where
  "GetSummarySchedule i =
     run_summary (\<lambda>w. (case find (\<lambda>r. sch_ID r = i) (sm_rows w) of None \<Rightarrow> Inl ErrNoRows | Some r \<Rightarrow> Inr (scanSummaryScheduleRow w r), w))"

definition summary_columns_ok :: "sched_env \<Rightarrow> summary_schedule \<Rightarrow> bool" where
  "summary_columns_ok env s \<longleftrightarrow>
     sch_Frequency s \<in> {''daily'', ''weekly'', ''monthly''} \<and>
     (case sch_DayOfWeek s of None \<Rightarrow> True | Some d \<Rightarrow> 0 \<le> d \<and> d \<le> 6) \<and>
     (case sch_DayOfMonth s of None \<Rightarrow> True | Some d \<Rightarrow> 1 \<le> d \<and> d \<le> 28) \<and> se_pgTime env (sch_TimeOfDay s) \<noteq> None"

definition insert_summary :: "sched_env \<Rightarrow> summary_schedule \<Rightarrow> summary_world \<Rightarrow> (store_error + summary_schedule) \<times> summary_world" where
  "insert_summary env ss =
     run_summary (\<lambda>w.
       let created = ss\<lparr>sch_ID := sm_nextID w, sch_CreatedAt := sm_dbNow w, sch_UpdatedAt := sm_dbNow w\<rparr>;
           row = created\<lparr>sch_TimeOfDay := stored_time env (sch_TimeOfDay ss), sch_LastRunAt := None, sch_ChannelIDs := []\<rparr> in
       if \<not> summary_columns_ok env ss \<or> list_ex (\<lambda>r. sch_Name r = sch_Name ss) (sm_rows w)
       then (Inl (StoreFailed ''insert summary schedule''), w\<lparr>sm_nextID := sm_nextID w + 1\<rparr>)
       else (Inr created, w\<lparr>sm_nextID := sm_nextID w + 1, sm_rows := sm_rows w @ [row]\<rparr>))"

text \<open>The pair is a primary key and the channel a foreign key.\<close>

fun insertScheduleChannels :: "int \<Rightarrow> int list \<Rightarrow> summary_world \<Rightarrow> (store_error + unit) \<times> summary_world" where
  "insertScheduleChannels i [] w = (Inr (), w)"
| "insertScheduleChannels i (c # cs) w =
     (case run_summary (\<lambda>w. if (i, c) \<in> set (sm_links w) \<or> c \<notin> set (sm_channels w)
                            then (Inl (StoreFailed ''insert schedule channel''), w)
                            else (Inr (), w\<lparr>sm_links := sm_links w @ [(i, c)]\<rparr>)) w of
        (Inl err, w1) \<Rightarrow> (Inl err, w1)
      | (Inr _, w1) \<Rightarrow> insertScheduleChannels i cs w1)"

definition CreateSummarySchedule :: "sched_env \<Rightarrow> summary_schedule \<Rightarrow> summary_world \<Rightarrow> (store_error + summary_schedule) \<times> summary_world" where
  "CreateSummarySchedule env ss =
     in_tx (\<lambda>w.
       case insert_summary env ss w of
         (Inl err, w1) \<Rightarrow> (Inl err, w1)
       | (Inr created, w1) \<Rightarrow>
           (case insertScheduleChannels (sch_ID created) (sch_ChannelIDs created) w1 of
              (Inl err, w2) \<Rightarrow> (Inl err, w2)
            | (Inr _, w2) \<Rightarrow> (Inr created, w2)))"

definition set_summary :: "sched_env \<Rightarrow> summary_schedule \<Rightarrow> instant \<Rightarrow> summary_schedule \<Rightarrow> summary_schedule" where
  "set_summary env ss now r =
     r\<lparr>sch_Name := sch_Name ss, sch_Enabled := sch_Enabled ss, sch_Frequency := sch_Frequency ss, sch_DayOfWeek := sch_DayOfWeek ss,
       sch_DayOfMonth := sch_DayOfMonth ss, sch_TimeOfDay := stored_time env (sch_TimeOfDay ss), sch_Timezone := sch_Timezone ss,
       sch_EventKinds := sch_EventKinds ss, sch_SeverityMax := sch_SeverityMax ss, sch_Hostname := sch_Hostname ss,
       sch_TopN := sch_TopN ss, sch_UpdatedAt := now\<rparr>"

definition update_summary :: "sched_env \<Rightarrow> int \<Rightarrow> summary_schedule \<Rightarrow> instant \<Rightarrow> summary_world \<Rightarrow> (store_error + summary_schedule) \<times> summary_world" where
  "update_summary env i ss now =
     run_summary (\<lambda>w.
       case find (\<lambda>r. sch_ID r = i) (sm_rows w) of
         None \<Rightarrow> (Inl ErrNoRows, w)
       | Some r \<Rightarrow>
           if \<not> summary_columns_ok env ss \<or> list_ex (\<lambda>x. sch_Name x = sch_Name ss \<and> sch_ID x \<noteq> i) (sm_rows w)
           then (Inl (StoreFailed ''update summary schedule''), w)
           else (Inr (set_summary env ss now r),
                 w\<lparr>sm_rows := map (\<lambda>x. if sch_ID x = i then set_summary env ss now x else x) (sm_rows w)\<rparr>))"

definition delete_links :: "int \<Rightarrow> summary_world \<Rightarrow> (store_error + unit) \<times> summary_world" where
  "delete_links i = run_summary (\<lambda>w. (Inr (), w\<lparr>sm_links := filter (\<lambda>l. fst l \<noteq> i) (sm_links w)\<rparr>))"

text \<open>The answer has the stored columns and the channels of the request.\<close>

definition UpdateSummarySchedule ::
  "sched_env \<Rightarrow> int \<Rightarrow> summary_schedule \<Rightarrow> summary_world \<Rightarrow> (store_error + summary_schedule) \<times> summary_world" where
  "UpdateSummarySchedule env i ss =
     in_tx (\<lambda>w.
       case summary_clock w of (now, w0) \<Rightarrow>
       case update_summary env i ss now w0 of
         (Inl err, w1) \<Rightarrow> (Inl err, w1)
       | (Inr updated, w1) \<Rightarrow>
           (case delete_links i w1 of
              (Inl err, w2) \<Rightarrow> (Inl err, w2)
            | (Inr _, w2) \<Rightarrow>
                (case insertScheduleChannels i (sch_ChannelIDs ss) w2 of
                   (Inl err, w3) \<Rightarrow> (Inl err, w3)
                 | (Inr _, w3) \<Rightarrow> (Inr (updated\<lparr>sch_ChannelIDs := sch_ChannelIDs ss\<rparr>), w3))))"

text \<open>Deleting a schedule cascades to its channel rows.\<close>

definition DeleteSummarySchedule :: "int \<Rightarrow> summary_world \<Rightarrow> (store_error + unit) \<times> summary_world" where
  "DeleteSummarySchedule i =
     run_summary (\<lambda>w. (if list_ex (\<lambda>r. sch_ID r = i) (sm_rows w) then Inr () else Inl ErrNoRows,
                        w\<lparr>sm_rows := filter (\<lambda>r. sch_ID r \<noteq> i) (sm_rows w), sm_links := filter (\<lambda>l. fst l \<noteq> i) (sm_links w)\<rparr>))"

definition UpdateSummaryScheduleLastRun :: "int \<Rightarrow> instant \<Rightarrow> summary_world \<Rightarrow> (store_error + unit) \<times> summary_world" where
  "UpdateSummaryScheduleLastRun i t =
     run_summary (\<lambda>w. (Inr (), w\<lparr>sm_rows := map (\<lambda>r. if sch_ID r = i then r\<lparr>sch_LastRunAt := Some t\<rparr> else r) (sm_rows w)\<rparr>))"

section \<open>Top issues\<close>

definition limit64 :: "int \<Rightarrow> int" where "limit64 n = n mod 2 ^ 64"

definition appLogLevelToSeverity :: "string \<Rightarrow> int" where
  "appLogLevelToSeverity level =
     (if level = ''FATAL'' then 0 else if level = ''ERROR'' then 3 else if level = ''WARN'' then 4 else 6)"

definition query_summary :: "(nat \<Rightarrow> string + 'a) \<Rightarrow> summary_world \<Rightarrow> (string + 'a) \<times> summary_world" where
  "query_summary q w = (q (sm_calls w), w\<lparr>sm_calls := sm_calls w + 1\<rparr>)"

definition syslog_issue :: "string \<Rightarrow> int \<times> string \<times> string \<times> string \<times> int \<Rightarrow> top_issue" where
  "syslog_issue kind row = (case row of (sev, source, prog, msg, n) \<Rightarrow>
     \<lparr>ti_Kind = kind, ti_Severity = sev, ti_Label = SeverityLabel sev, ti_Source = source, ti_Program = prog, ti_Message = msg, ti_Count = n\<rparr>)"

definition getTopSyslogIssues ::
  "summary_env \<Rightarrow> string \<Rightarrow> string \<Rightarrow> instant \<Rightarrow> int option \<Rightarrow> string \<Rightarrow> int \<Rightarrow> summary_world \<Rightarrow> (string + top_issue list) \<times> summary_world" where
  "getTopSyslogIssues env table kind since severityMax hostname topN w =
     (case query_summary (\<lambda>n. me_topSyslog env n table since severityMax hostname (limit64 topN)) w of
        (Inl err, w1) \<Rightarrow> (Inl err, w1)
      | (Inr rows, w1) \<Rightarrow> (Inr (map (syslog_issue kind) rows), w1))"

definition applog_issue :: "string \<times> string \<times> string \<times> string \<times> int \<Rightarrow> top_issue" where
  "applog_issue row = (case row of (level, source, prog, msg, n) \<Rightarrow>
     \<lparr>ti_Kind = ''applog'', ti_Severity = appLogLevelToSeverity level, ti_Label = level, ti_Source = source, ti_Program = prog,
      ti_Message = msg, ti_Count = n\<rparr>)"

definition getTopAppLogIssues ::
  "summary_env \<Rightarrow> instant \<Rightarrow> string \<Rightarrow> int \<Rightarrow> summary_world \<Rightarrow> (string + top_issue list) \<times> summary_world" where
  "getTopAppLogIssues env since hostname topN w =
     (case query_summary (\<lambda>n. me_topApplog env n since hostname (limit64 topN)) w of
        (Inl err, w1) \<Rightarrow> (Inl err, w1)
      | (Inr rows, w1) \<Rightarrow> (Inr (map applog_issue rows), w1))"

fun gather_issues ::
  "summary_env \<Rightarrow> instant \<Rightarrow> int option \<Rightarrow> string \<Rightarrow> int \<Rightarrow> string list \<Rightarrow> top_issue list \<Rightarrow> summary_world \<Rightarrow> (string + top_issue list) \<times> summary_world" where
  "gather_issues env since severityMax hostname topN [] acc w = (Inr acc, w)"
| "gather_issues env since severityMax hostname topN (kind # kinds) acc w =
     (if kind \<notin> {''srvlog'', ''netlog'', ''applog''} then gather_issues env since severityMax hostname topN kinds acc w
      else (case (if kind = ''srvlog'' then getTopSyslogIssues env ''srvlog_events'' ''srvlog'' since severityMax hostname topN w
                  else if kind = ''netlog'' then getTopSyslogIssues env ''netlog_events'' ''netlog'' since severityMax hostname topN w
                  else getTopAppLogIssues env since hostname topN w) of
              (Inl err, w1) \<Rightarrow> (Inl err, w1)
            | (Inr issues, w1) \<Rightarrow> gather_issues env since severityMax hostname topN kinds (acc @ issues) w1))"

text \<open>The comparison of the sort, and the cut: slicing to a negative length panics.\<close>

definition issue_less :: "top_issue \<Rightarrow> top_issue \<Rightarrow> bool" where
  "issue_less a b = (if ti_Severity a \<noteq> ti_Severity b then ti_Severity a < ti_Severity b else ti_Count a > ti_Count b)"

datatype top_result = TopFailed string | TopIssues "top_issue list" | TopPanic

definition GetTopIssues ::
  "summary_env \<Rightarrow> instant \<Rightarrow> string list \<Rightarrow> int option \<Rightarrow> string \<Rightarrow> int \<Rightarrow> summary_world \<Rightarrow> top_result \<times> summary_world" where
  "GetTopIssues env since kinds severityMax hostname topN w =
     (case gather_issues env since severityMax hostname topN kinds [] w of
        (Inl err, w1) \<Rightarrow> (TopFailed err, w1)
      | (Inr allIssues, w1) \<Rightarrow>
          (let issues = me_sort env allIssues in
           if int (length issues) > topN then (if topN < 0 then TopPanic else TopIssues (take (nat topN) issues), w1)
           else (TopIssues issues, w1)))"

section \<open>The summary scheduler\<close>

definition summary_isDue :: "sched_env \<Rightarrow> summary_schedule \<Rightarrow> instant \<Rightarrow> bool" where
  "summary_isDue env sched now =
     (case LoadLocation env (sch_Timezone sched) of
        None \<Rightarrow> False
      | Some z \<Rightarrow>
          (case ParseTimeOfDay (sch_TimeOfDay sched) of
             None \<Rightarrow> False
           | Some (h, m) \<Rightarrow>
               if hour_of (local_time z now) \<noteq> h \<or> minute_of (local_time z now) \<noteq> m then False
               else if \<not> day_matches (sch_Frequency sched) (sch_DayOfWeek sched) (sch_DayOfMonth sched) (local_day z now) then False
               else past_interval (sch_Frequency sched) (sch_LastRunAt sched) now))"

definition periodLabel :: "string \<Rightarrow> string" where
  "periodLabel frequency = (if frequency = ''weekly'' then ''7 days'' else if frequency = ''monthly'' then ''30 days'' else ''24 hours'')"

fun gather_kinds :: "summary_env \<Rightarrow> duration \<Rightarrow> string list \<Rightarrow> summary_report \<Rightarrow> summary_world \<Rightarrow> summary_report \<times> summary_world" where
  "gather_kinds env period [] report w = (report, w)"
| "gather_kinds env period (kind # kinds) report w =
     (if kind = ''srvlog'' then
        (case query_summary (\<lambda>n. me_srvlog env n period) w of
           (Inl err, w1) \<Rightarrow> gather_kinds env period kinds report w1
         | (Inr s, w1) \<Rightarrow> gather_kinds env period kinds (report\<lparr>sr_Srvlog := Some s\<rparr>) w1)
      else if kind = ''netlog'' then
        (case query_summary (\<lambda>n. me_netlog env n period) w of
           (Inl err, w1) \<Rightarrow> gather_kinds env period kinds report w1
         | (Inr s, w1) \<Rightarrow> gather_kinds env period kinds (report\<lparr>sr_Netlog := Some s\<rparr>) w1)
      else if kind = ''applog'' then
        (case query_summary (\<lambda>n. me_applog env n period) w of
           (Inl err, w1) \<Rightarrow> gather_kinds env period kinds report w1
         | (Inr s, w1) \<Rightarrow> gather_kinds env period kinds (report\<lparr>sr_AppLog := Some s\<rparr>) w1)
      else gather_kinds env period kinds report w)"

text \<open>\<^const>\<open>None\<close> is a panic, which ends the process.\<close>

definition summary_runSchedule :: "summary_env \<Rightarrow> summary_schedule \<Rightarrow> summary_world \<Rightarrow> summary_world option" where
  "summary_runSchedule env sched w =
     (let period = SchedulePeriod (sch_Frequency sched) in
      case summary_clock w of (now, w1) \<Rightarrow>
      let since = now - period;
          report = \<lparr>sr_Schedule = sched, sr_Period = period, sr_PeriodLabel = periodLabel (sch_Frequency sched), sr_From = since,
                    sr_To = now, sr_Srvlog = None, sr_Netlog = None, sr_AppLog = None, sr_TopIssues = []\<rparr> in
      case gather_kinds env period (sch_EventKinds sched) report w1 of (report, w2) \<Rightarrow>
      case GetTopIssues env since (sch_EventKinds sched) (sch_SeverityMax sched) (sch_Hostname sched) (sch_TopN sched) w2 of
        (TopPanic, w3) \<Rightarrow> None
      | (TopFailed err, w3) \<Rightarrow>
          Some (snd (UpdateSummaryScheduleLastRun (sch_ID sched) now (w3\<lparr>sm_sent := sm_sent w3 @ [(report, sch_ChannelIDs sched)]\<rparr>)))
      | (TopIssues issues, w3) \<Rightarrow>
          Some (snd (UpdateSummaryScheduleLastRun (sch_ID sched) now
                  (w3\<lparr>sm_sent := sm_sent w3 @ [(report\<lparr>sr_TopIssues := issues\<rparr>, sch_ChannelIDs sched)]\<rparr>))))"

fun summary_tick_loop :: "summary_env \<Rightarrow> summary_schedule list \<Rightarrow> summary_world \<Rightarrow> summary_world option" where
  "summary_tick_loop env [] w = Some w"
| "summary_tick_loop env (sched # rest) w =
     (if \<not> sch_Enabled sched then summary_tick_loop env rest w
      else (case summary_clock w of (now, w1) \<Rightarrow>
              if \<not> summary_isDue (me_sched env) sched now then summary_tick_loop env rest w1
              else (case summary_runSchedule env sched w1 of
                      None \<Rightarrow> None
                    | Some w2 \<Rightarrow> summary_tick_loop env rest w2)))"

definition summary_tick :: "summary_env \<Rightarrow> summary_world \<Rightarrow> summary_world option" where
  "summary_tick env w =
     (case ListSummarySchedules w of (Inl err, w1) \<Rightarrow> Some w1 | (Inr schedules, w1) \<Rightarrow> summary_tick_loop env schedules w1)"

text \<open>The error, or nothing; a panic of the run is one of the request.\<close>

definition TriggerSchedule :: "summary_env \<Rightarrow> int \<Rightarrow> summary_world \<Rightarrow> (bool \<times> summary_world) option" where
  "TriggerSchedule env i w =
     (case ListSummarySchedules w of
        (Inl err, w1) \<Rightarrow> Some (False, w1)
      | (Inr schedules, w1) \<Rightarrow>
          (case find (\<lambda>s. sch_ID s = i) schedules of
             None \<Rightarrow> Some (False, w1)
           | Some s \<Rightarrow> map_option (\<lambda>w2. (True, w2)) (summary_runSchedule env s w1)))"

section \<open>The summary handlers\<close>

definition ListSchedules :: "summary_world \<Rightarrow> summary_schedule list response \<times> summary_world" where
  "ListSchedules w =
     (case ListSummarySchedules w of
        (Inl err, w1) \<Rightarrow> (RespError 500 ''internal_error'', w1)
      | (Inr schedules, w1) \<Rightarrow> (RespData 200 schedules, w1))"

definition GetSchedule :: "string \<Rightarrow> summary_world \<Rightarrow> summary_schedule response \<times> summary_world" where
  "GetSchedule idParam w =
     (case parse_int64 idParam of
        None \<Rightarrow> (RespError 400 ''invalid_id'', w)
      | Some i \<Rightarrow> row_answer 200 (GetSummarySchedule i w))"

definition CreateSchedule :: "sched_env \<Rightarrow> summary_schedule body \<Rightarrow> summary_world \<Rightarrow> summary_schedule response \<times> summary_world" where
  "CreateSchedule env body w =
     (case body of
        Inl code \<Rightarrow> (RespError 400 code, w)
      | Inr ss \<Rightarrow>
          if sch_Name ss = [] then (RespError 400 ''validation_failed'', w)
          else if sch_Frequency ss \<noteq> ''daily'' \<and> sch_Frequency ss \<noteq> ''weekly'' \<and> sch_Frequency ss \<noteq> ''monthly''
          then (RespError 400 ''validation_failed'', w)
          else if sch_EventKinds ss = [] then (RespError 400 ''validation_failed'', w)
          else if sch_ChannelIDs ss = [] then (RespError 400 ''validation_failed'', w)
          else if sch_Timezone ss \<noteq> [] \<and> LoadLocation env (sch_Timezone ss) = None then (RespError 400 ''validation_failed'', w)
          else
            (let ss = (if sch_Timezone ss = [] then ss\<lparr>sch_Timezone := ''UTC''\<rparr> else ss);
                 ss = (if sch_TopN ss \<le> 0 then ss\<lparr>sch_TopN := 25\<rparr> else ss) in
             case CreateSummarySchedule env ss w of
               (Inl err, w1) \<Rightarrow> (RespError 500 ''internal_error'', w1)
             | (Inr created, w1) \<Rightarrow> (RespData 201 created, w1)))"

definition UpdateSchedule ::
  "sched_env \<Rightarrow> string \<Rightarrow> summary_schedule body \<Rightarrow> summary_world \<Rightarrow> summary_schedule response \<times> summary_world" where
  "UpdateSchedule env idParam body w =
     (case parse_int64 idParam of
        None \<Rightarrow> (RespError 400 ''invalid_id'', w)
      | Some i \<Rightarrow>
          (case body of
             Inl code \<Rightarrow> (RespError 400 code, w)
           | Inr ss \<Rightarrow>
               if sch_Timezone ss \<noteq> [] \<and> LoadLocation env (sch_Timezone ss) = None then (RespError 400 ''validation_failed'', w)
               else row_answer 200 (UpdateSummarySchedule env i ss w)))"

definition DeleteSchedule :: "string \<Rightarrow> summary_world \<Rightarrow> unit response \<times> summary_world" where
  "DeleteSchedule idParam w =
     (case parse_int64 idParam of
        None \<Rightarrow> (RespError 400 ''invalid_id'', w)
      | Some i \<Rightarrow> no_content (row_answer 204 (DeleteSummarySchedule i w)))"

definition handle_TriggerSchedule ::
  "summary_env option \<Rightarrow> string \<Rightarrow> summary_world \<Rightarrow> (unit response \<times> summary_world) option" where
  "handle_TriggerSchedule scheduler idParam w =
     (case parse_int64 idParam of
        None \<Rightarrow> Some (RespError 400 ''invalid_id'', w)
      | Some i \<Rightarrow>
          (case scheduler of
             None \<Rightarrow> Some (RespError 503 ''scheduler_disabled'', w)
           | Some env \<Rightarrow>
               map_option (\<lambda>(ok, w1). (if ok then RespData 200 () else RespError 500 ''internal_error'', w1)) (TriggerSchedule env i w)))"

section \<open>A run\<close>

lemma query_summary_keeps: "query_summary q w = (r, w1) \<Longrightarrow> w1 = w\<lparr>sm_calls := sm_calls w + 1\<rparr>"
  by (auto simp: query_summary_def)

text \<open>What gathering may touch: the number of calls only, and the parts of the report that were asked for.\<close>

definition summary_tables_kept :: "summary_world \<Rightarrow> summary_world \<Rightarrow> bool" where
  "summary_tables_kept w w1 \<longleftrightarrow> (\<exists>n. w1 = w\<lparr>sm_calls := n\<rparr>)"

lemma summary_tables_kept_trans: "summary_tables_kept w w1 \<Longrightarrow> summary_tables_kept w1 w2 \<Longrightarrow> summary_tables_kept w w2"
  by (auto simp: summary_tables_kept_def)

lemma query_same: "query_summary q w = (r, w1) \<Longrightarrow> summary_tables_kept w w1"
  unfolding summary_tables_kept_def by (blast dest: query_summary_keeps)

definition gathered :: "string list \<Rightarrow> summary_report \<Rightarrow> summary_report \<Rightarrow> bool" where
  "gathered kinds r r1 \<longleftrightarrow>
     (\<exists>a b c. r1 = r\<lparr>sr_Srvlog := a, sr_Netlog := b, sr_AppLog := c\<rparr> \<and>
        (''srvlog'' \<in> set kinds \<or> a = sr_Srvlog r) \<and> (''netlog'' \<in> set kinds \<or> b = sr_Netlog r) \<and> (''applog'' \<in> set kinds \<or> c = sr_AppLog r))"

lemma gather_kinds_spec:
  "gather_kinds env period kinds r w = (r1, w1) \<Longrightarrow> gathered kinds r r1 \<and> summary_tables_kept w w1"
proof (induction env period kinds r w rule: gather_kinds.induct)
  case (1 env period report w)
  have "report = report\<lparr>sr_Srvlog := sr_Srvlog report, sr_Netlog := sr_Netlog report, sr_AppLog := sr_AppLog report\<rparr>" by simp
  then show ?case using 1 by (auto simp: gathered_def summary_tables_kept_def intro: exI [of _ "sm_calls w"])
next
  case (2 env period kind kinds report w)
  have step: "gathered kinds (report\<lparr>sr_Srvlog := s\<rparr>) r1 \<Longrightarrow> kind = ''srvlog'' \<Longrightarrow> gathered (kind # kinds) report r1"
    "gathered kinds (report\<lparr>sr_Netlog := t\<rparr>) r1 \<Longrightarrow> kind = ''netlog'' \<Longrightarrow> gathered (kind # kinds) report r1"
    "gathered kinds (report\<lparr>sr_AppLog := u\<rparr>) r1 \<Longrightarrow> kind = ''applog'' \<Longrightarrow> gathered (kind # kinds) report r1"
    "gathered kinds report r1 \<Longrightarrow> gathered (kind # kinds) report r1" for s t u
    by (auto simp: gathered_def)
  show ?case
  proof (cases "kind = ''srvlog''")
    case True
    then show ?thesis using "2.prems" "2.IH"(1,2) step(1,4) by (auto split: prod.splits sum.splits dest!: query_same intro: summary_tables_kept_trans)
  next
    case f1: False
    show ?thesis
    proof (cases "kind = ''netlog''")
      case True
      then show ?thesis using f1 "2.prems" "2.IH"(3,4) step(2,4) by (auto split: prod.splits sum.splits dest!: query_same intro: summary_tables_kept_trans)
    next
      case f2: False
      show ?thesis
      proof (cases "kind = ''applog''")
        case True
        then show ?thesis using f1 f2 "2.prems" "2.IH"(5,6) step(3,4) by (auto split: prod.splits sum.splits dest!: query_same intro: summary_tables_kept_trans)
      next
        case False
        then show ?thesis using f1 f2 "2.prems" "2.IH"(7) step(4) by auto
      qed
    qed
  qed
qed

lemma getTop_same:
  "getTopSyslogIssues env table kind since sev host n w = (r, w1) \<Longrightarrow> summary_tables_kept w w1"
  "getTopAppLogIssues env since host n w = (r, w1) \<Longrightarrow> summary_tables_kept w w1"
  by (auto simp: getTopSyslogIssues_def getTopAppLogIssues_def split: prod.splits sum.splits dest!: query_same)

lemma gather_issues_same: "gather_issues env since sev host n kinds acc w = (r, w1) \<Longrightarrow> summary_tables_kept w w1"
proof (induction env since sev host n kinds acc w rule: gather_issues.induct)
  case (1 env since severityMax hostname topN acc w)
  then show ?case by (auto simp: summary_tables_kept_def intro: exI [of _ "sm_calls w"])
next
  case (2 env since sev host n kind kinds acc w)
  then show ?case by (auto split: prod.splits sum.splits if_splits dest!: getTop_same intro: summary_tables_kept_trans)
qed

lemma GetTopIssues_same: "GetTopIssues env since kinds sev host n w = (r, w1) \<Longrightarrow> summary_tables_kept w w1"
  by (auto simp: GetTopIssues_def Let_def split: prod.splits sum.splits if_splits dest!: gather_issues_same)

lemma GetTopIssues_panic: "0 \<le> n \<Longrightarrow> fst (GetTopIssues env since kinds sev host n w) \<noteq> TopPanic"
  by (auto simp: GetTopIssues_def Let_def split: prod.splits sum.splits)

lemma summary_tables_kept_simps:
  "summary_tables_kept w w1 \<Longrightarrow> sm_rows w1 = sm_rows w" "summary_tables_kept w w1 \<Longrightarrow> sm_links w1 = sm_links w" "summary_tables_kept w w1 \<Longrightarrow> sm_sent w1 = sm_sent w"
  "summary_tables_kept w w1 \<Longrightarrow> sm_clock w1 = sm_clock w" "summary_tables_kept w w1 \<Longrightarrow> sm_fail w1 = sm_fail w" "summary_tables_kept w w1 \<Longrightarrow> sm_reads w1 = sm_reads w"
  by (auto simp: summary_tables_kept_def)

text \<open>A run of a summary schedule whose \<^verbatim>\<open>top_n\<close> is not negative does not panic and hands exactly one report to
  the schedule's channels, whatever queries fail: it covers one period up to the time of the run and carries a
  summary only for the kinds the schedule names; the last run is stamped unless that statement fails.\<close>

lemma summary_run_sends_one_report:
  assumes "0 \<le> sch_TopN sched" "now = sm_clock w (sm_reads w)"
  shows "\<exists>w1 report. summary_runSchedule env sched w = Some w1 \<and> sm_sent w1 = sm_sent w @ [(report, sch_ChannelIDs sched)] \<and>
    sr_Schedule report = sched \<and> sr_To report = now \<and> sr_From report = now - SchedulePeriod (sch_Frequency sched) \<and>
    (''srvlog'' \<in> set (sch_EventKinds sched) \<or> sr_Srvlog report = None) \<and>
    (''netlog'' \<in> set (sch_EventKinds sched) \<or> sr_Netlog report = None) \<and>
    (''applog'' \<in> set (sch_EventKinds sched) \<or> sr_AppLog report = None) \<and>
    (sm_rows w1 = map (\<lambda>r. if sch_ID r = sch_ID sched then r\<lparr>sch_LastRunAt := Some now\<rparr> else r) (sm_rows w) \<or>
       (\<exists>n. sm_fail w n \<noteq> None \<and> sm_rows w1 = sm_rows w))"
proof -
  let ?p = "SchedulePeriod (sch_Frequency sched)" and ?w0 = "w\<lparr>sm_reads := sm_reads w + 1\<rparr>"
  let ?r0 = "\<lparr>sr_Schedule = sched, sr_Period = ?p, sr_PeriodLabel = periodLabel (sch_Frequency sched), sr_From = now - ?p,
     sr_To = now, sr_Srvlog = None, sr_Netlog = None, sr_AppLog = None, sr_TopIssues = []\<rparr>"
  obtain r1 w2 where g: "gather_kinds env ?p (sch_EventKinds sched) ?r0 ?w0 = (r1, w2)" by fastforce
  obtain t w3 where t: "GetTopIssues env (now - ?p) (sch_EventKinds sched) (sch_SeverityMax sched) (sch_Hostname sched) (sch_TopN sched) w2 = (t, w3)"
    by fastforce
  have g': "gathered (sch_EventKinds sched) ?r0 r1" "summary_tables_kept ?w0 w3"
    using gather_kinds_spec [OF g] GetTopIssues_same [OF t] summary_tables_kept_trans by blast+
  let ?report = "case t of TopIssues issues \<Rightarrow> r1\<lparr>sr_TopIssues := issues\<rparr> | _ \<Rightarrow> r1"
  let ?w4 = "w3\<lparr>sm_sent := sm_sent w3 @ [(?report, sch_ChannelIDs sched)]\<rparr>"
  have "t \<noteq> TopPanic" using GetTopIssues_panic [OF assms(1)] t by (metis fst_conv)
  then have run: "summary_runSchedule env sched w = Some (snd (UpdateSummaryScheduleLastRun (sch_ID sched) now ?w4))"
    using g t assms(2) by (cases t) (simp_all add: summary_runSchedule_def Let_def summary_clock_def)
  note w3 = summary_tables_kept_simps [OF g'(2), simplified]
  have "sm_sent (snd (UpdateSummaryScheduleLastRun (sch_ID sched) now ?w4)) = sm_sent w @ [(?report, sch_ChannelIDs sched)]"
    by (simp add: UpdateSummaryScheduleLastRun_def run_summary_def Let_def w3 split: option.split)
  moreover have "sm_rows (snd (UpdateSummaryScheduleLastRun (sch_ID sched) now ?w4)) = map (\<lambda>r. if sch_ID r = sch_ID sched then r\<lparr>sch_LastRunAt := Some now\<rparr> else r) (sm_rows w) \<or>
       (\<exists>n. sm_fail w n \<noteq> None \<and> sm_rows (snd (UpdateSummaryScheduleLastRun (sch_ID sched) now ?w4)) = sm_rows w)"
    by (cases "sm_fail w (sm_calls w3)") (auto simp: UpdateSummaryScheduleLastRun_def run_summary_def Let_def w3)
  moreover have "sr_Schedule ?report = sched \<and> sr_To ?report = now \<and> sr_From ?report = now - ?p \<and>
    (''srvlog'' \<in> set (sch_EventKinds sched) \<or> sr_Srvlog ?report = None) \<and> (''netlog'' \<in> set (sch_EventKinds sched) \<or> sr_Netlog ?report = None) \<and>
    (''applog'' \<in> set (sch_EventKinds sched) \<or> sr_AppLog ?report = None)"
    using g'(1) by (cases t) (auto simp: gathered_def)
  ultimately show ?thesis using run by blast
qed

text \<open>With a negative \<^verbatim>\<open>top_n\<close> a run panics as soon as the queries of its kinds succeed, and without a known kind always.\<close>

lemma negative_top_n_panics:
  assumes "sch_TopN sched < 0" "set (sch_EventKinds sched) \<inter> {''srvlog'', ''netlog'', ''applog''} = {}"
  shows "summary_runSchedule env sched w = None"
proof -
  have "gather_issues env since sev host n kinds acc w = (Inr acc, w)" if "set kinds \<inter> {''srvlog'', ''netlog'', ''applog''} = {}"
    for env since sev host n kinds acc w using that by (induction kinds) auto
  then have "fst (GetTopIssues env since (sch_EventKinds sched) sev host (sch_TopN sched) v) = TopPanic" for env since sev host v
    using assms by (simp add: GetTopIssues_def Let_def)
  then show ?thesis by (auto simp: summary_runSchedule_def Let_def summary_clock_def split: prod.split top_result.split) (metis fst_conv top_result.distinct(3,5))+
qed

text \<open>The top issues of a run are the highest ranked of all that were found, by severity and then by count:
  at most \<^verbatim>\<open>top_n\<close> of them, in order, and none left out ranks above one that is listed.\<close>

lemma top_issues_are_the_highest:
  assumes "\<And>xs. mset (me_sort env xs) = mset xs \<and> sorted_wrt (\<lambda>a b. \<not> issue_less b a) (me_sort env xs)"
    and "fst (GetTopIssues env since kinds sev host topN w) = TopIssues issues" "0 \<le> topN"
  shows "\<exists>found rest. fst (gather_issues env since sev host topN kinds [] w) = Inr found \<and> mset found = mset issues + mset rest \<and>
    length issues = min (nat topN) (length found) \<and> sorted_wrt (\<lambda>a b. \<not> issue_less b a) issues \<and>
    (\<forall>x \<in> set issues. \<forall>y \<in> set rest. \<not> issue_less y x)"
proof -
  obtain found w1 where f: "gather_issues env since sev host topN kinds [] w = (Inr found, w1)"
    using assms(2) by (auto simp: GetTopIssues_def split: prod.splits sum.splits)
  let ?s = "me_sort env found"
  have i: "issues = take (nat topN) ?s"
    using assms(2,3) f by (auto simp: GetTopIssues_def Let_def split: if_splits)
  have s: "mset ?s = mset found" "sorted_wrt (\<lambda>a b. \<not> issue_less b a) (take (nat topN) ?s @ drop (nat topN) ?s)"
    using assms(1) by (simp_all only: append_take_drop_id)
  have "length ?s = length found" using s(1) by (metis mset_eq_length)
  moreover have "mset found = mset issues + mset (drop (nat topN) ?s)" using s(1) i by (metis append_take_drop_id mset_append)
  moreover have "sorted_wrt (\<lambda>a b. \<not> issue_less b a) issues" "\<forall>x \<in> set issues. \<forall>y \<in> set (drop (nat topN) ?s). \<not> issue_less y x"
    using s(2) i unfolding sorted_wrt_append by blast+
  ultimately show ?thesis using f i
    by (intro exI [of _ found] exI [of _ "drop (nat topN) ?s"] conjI) (simp_all add: min.commute)
qed

section \<open>Writes are atomic and read back\<close>

lemma run_summary_Inr:
  assumes "run_summary stmt w = (Inr x, w1)"
  shows "stmt (w\<lparr>sm_calls := sm_calls w + 1\<rparr>) = (Inr x, w1)"
  using assms by (simp add: run_summary_def Let_def split: option.splits)

lemma run_summary_noop: "run_summary (\<lambda>w. (Inr (), w)) w = (r, w1) \<Longrightarrow> w1 = w\<lparr>sm_calls := sm_calls w + 1\<rparr>"
  by (auto simp: run_summary_def Let_def split: option.splits)

lemma in_tx_Inl:
  assumes "in_tx body w = (Inl err, w1)"
  shows "sm_rows w1 = sm_rows w \<and> sm_links w1 = sm_links w"
  using assms by (auto simp: in_tx_def split: prod.splits sum.splits dest!: run_summary_noop)

lemma in_tx_Inr:
  assumes "in_tx body w = (Inr x, w1)"
  obtains w2 where "body (w\<lparr>sm_calls := sm_calls w + 1\<rparr>) = (Inr x, w2)" "w1 = w2\<lparr>sm_calls := sm_calls w2 + 1\<rparr>"
  using assms by (auto simp: in_tx_def split: prod.splits sum.splits dest!: run_summary_noop)

lemma insertScheduleChannels_Inr:
  "insertScheduleChannels i cs w = (Inr u, w1) \<Longrightarrow>
     sm_links w1 = sm_links w @ map (Pair i) cs \<and> sm_rows w1 = sm_rows w \<and> sm_nextID w1 = sm_nextID w \<and> sm_fail w1 = sm_fail w \<and>
     distinct cs \<and> set cs \<subseteq> set (sm_channels w) \<and> sm_channels w1 = sm_channels w \<and> (\<forall>c \<in> set cs. (i, c) \<notin> set (sm_links w))"
proof (induction cs arbitrary: w)
  case (Cons c cs)
  obtain v where v: "run_summary (\<lambda>w. if (i, c) \<in> set (sm_links w) \<or> c \<notin> set (sm_channels w)
      then (Inl (StoreFailed ''insert schedule channel''), w) else (Inr (), w\<lparr>sm_links := sm_links w @ [(i, c)]\<rparr>)) w = (Inr (), v)"
    "insertScheduleChannels i cs v = (Inr u, w1)"
    using Cons.prems by (auto split: prod.splits sum.splits)
  have "(i, c) \<notin> set (sm_links w)" "c \<in> set (sm_channels w)" "v = w\<lparr>sm_calls := sm_calls w + 1, sm_links := sm_links w @ [(i, c)]\<rparr>"
    using run_summary_Inr [OF v(1)] by (auto split: if_splits)
  then show ?case using Cons.IH [OF v(2)] by auto
qed simp

lemma find_snoc: "find p (xs @ [y]) = (case find p xs of None \<Rightarrow> if p y then Some y else None | Some r \<Rightarrow> Some r)"
  by (induction xs) auto

text \<open>The table: ids are unique and below the next one, and channel rows belong to a schedule.\<close>

definition summaries_inv :: "summary_world \<Rightarrow> bool" where
  "summaries_inv w \<longleftrightarrow> (\<forall>r \<in> set (sm_rows w). sch_ID r < sm_nextID w) \<and> (\<forall>l \<in> set (sm_links w). fst l < sm_nextID w)"

text \<open>A summary schedule is written with its channels or not at all. A refused create leaves both tables as
  they were; a created schedule is read back with the columns of the request, its time as the column prints it and
  its channels in order, and every other schedule reads as before.\<close>

lemma created_summary_is_read_back:
  assumes "summaries_inv w" "CreateSummarySchedule env ss w = (res, w1)" "\<And>n. sm_fail w n = None"
  shows "case res of
      Inl err \<Rightarrow> sm_rows w1 = sm_rows w \<and> sm_links w1 = sm_links w
    | Inr created \<Rightarrow>
        fst (GetSummarySchedule (sch_ID created) w1) =
          Inr (created\<lparr>sch_TimeOfDay := stored_time env (sch_TimeOfDay ss), sch_LastRunAt := None, sch_ChannelIDs := sort (sch_ChannelIDs ss)\<rparr>) \<and>
        created = ss\<lparr>sch_ID := sm_nextID w, sch_CreatedAt := sm_dbNow w, sch_UpdatedAt := sm_dbNow w\<rparr> \<and>
        (\<forall>i. i \<noteq> sch_ID created \<longrightarrow> fst (GetSummarySchedule i w1) = fst (GetSummarySchedule i w))"
proof (cases res)
  case (Inl err)
  then show ?thesis using in_tx_Inl assms(2) unfolding CreateSummarySchedule_def by (auto split: sum.split)
next
  case (Inr created)
  let ?v = "w\<lparr>sm_calls := sm_calls w + 1\<rparr>"
  obtain w2 where w2: "(case insert_summary env ss ?v of (Inl err, w1) \<Rightarrow> (Inl err, w1)
       | (Inr created, w1) \<Rightarrow> (case insertScheduleChannels (sch_ID created) (sch_ChannelIDs created) w1 of
              (Inl err, w2) \<Rightarrow> (Inl err, w2) | (Inr _, w2) \<Rightarrow> (Inr created, w2))) = (Inr created, w2)" "w1 = w2\<lparr>sm_calls := sm_calls w2 + 1\<rparr>"
    by (rule in_tx_Inr [OF assms(2) [unfolded CreateSummarySchedule_def Inr]])
  then obtain w0 u where i: "insert_summary env ss ?v = (Inr created, w0)" "insertScheduleChannels (sch_ID created) (sch_ChannelIDs created) w0 = (Inr u, w2)"
    by (auto split: prod.split_asm sum.split_asm)
  let ?row = "created\<lparr>sch_TimeOfDay := stored_time env (sch_TimeOfDay ss), sch_LastRunAt := None, sch_ChannelIDs := []\<rparr>"
  have c: "created = ss\<lparr>sch_ID := sm_nextID w, sch_CreatedAt := sm_dbNow w, sch_UpdatedAt := sm_dbNow w\<rparr>"
    "sm_rows w0 = sm_rows w @ [?row]" "sm_links w0 = sm_links w" "sm_fail w0 = sm_fail w"
    using run_summary_Inr [OF i(1) [unfolded insert_summary_def]] by (auto simp: Let_def split: if_splits)
  note l = insertScheduleChannels_Inr [OF i(2)]
  have rows: "sm_rows w1 = sm_rows w @ [?row]" "sm_links w1 = sm_links w @ map (Pair (sm_nextID w)) (sch_ChannelIDs ss)" "sm_fail w1 = sm_fail w"
    using l c w2(2) by simp_all
  have new: "find (\<lambda>r. sch_ID r = sm_nextID w) (sm_rows w) = None" "filter (\<lambda>l. fst l = sm_nextID w) (sm_links w) = []"
    using assms(1) by (auto simp: summaries_inv_def find_None_iff filter_empty_conv)
  have find: "find p (sm_rows w @ [?row]) = (case find p (sm_rows w) of None \<Rightarrow> if p ?row then Some ?row else None | Some r \<Rightarrow> Some r)" for p
    by (rule find_snoc)
  have get: "fst (GetSummarySchedule i w1) = (case find (\<lambda>r. sch_ID r = i) (sm_rows w1) of None \<Rightarrow> Inl ErrNoRows | Some r \<Rightarrow> Inr (scanSummaryScheduleRow w1 r))"
    "fst (GetSummarySchedule i w) = (case find (\<lambda>r. sch_ID r = i) (sm_rows w) of None \<Rightarrow> Inl ErrNoRows | Some r \<Rightarrow> Inr (scanSummaryScheduleRow w r))" for i
    using assms(3) rows(3) by (simp_all add: GetSummarySchedule_def run_summary_def Let_def scanSummaryScheduleRow_def channel_ids_def split: option.split)
  have ids: "channel_ids w1 i = (if i = sm_nextID w then sort (sch_ChannelIDs ss) else channel_ids w i)" for i
    using new(2) by (auto simp: channel_ids_def rows(2) filter_map comp_def)
  have row: "sch_ID ?row = sm_nextID w" by (simp add: c(1))
  have "fst (GetSummarySchedule (sm_nextID w) w1) = Inr (?row\<lparr>sch_ChannelIDs := sort (sch_ChannelIDs ss)\<rparr>)"
    by (simp only: get rows(1) find new(1) row ids scanSummaryScheduleRow_def option.case if_True simp_thms)
  moreover have "fst (GetSummarySchedule i w1) = fst (GetSummarySchedule i w)" if "i \<noteq> sm_nextID w" for i
  proof (cases "find (\<lambda>r. sch_ID r = i) (sm_rows w)")
    case None
    then show ?thesis using that row by (simp only: get rows(1) find) simp
  next
    case (Some r)
    then have "sch_ID r = i" by (auto simp: find_Some_iff)
    then show ?thesis using that Some by (simp add: get rows(1) find scanSummaryScheduleRow_def ids)
  qed
  ultimately show ?thesis using c(1) Inr by simp
qed

section \<open>A sample summary\<close>

definition sample_summary_schedule :: summary_schedule where
  "sample_summary_schedule = \<lparr>sch_ID = 0, sch_Name = ''s'', sch_Enabled = True, sch_Frequency = ''daily'', sch_DayOfWeek = None,
     sch_DayOfMonth = None, sch_TimeOfDay = ''03:00'', sch_Timezone = ''UTC'', sch_EventKinds = [''netlog''], sch_SeverityMax = None,
     sch_Hostname = [], sch_TopN = 1, sch_ChannelIDs = [8, 7], sch_LastRunAt = None, sch_CreatedAt = 0, sch_UpdatedAt = 0\<rparr>"

definition sample_summary_env :: summary_env where
  "sample_summary_env = \<lparr>me_sched = sample_sched_env, me_srvlog = \<lambda>n d. Inl ''down'', me_netlog = \<lambda>n d. Inl ''down'', me_applog = \<lambda>n d. Inl ''down'',
     me_topSyslog = \<lambda>n t since sev host l. Inr [(4, ''h'', ''p'', ''m'', 9), (3, ''h'', ''p'', ''q'', 2)], me_topApplog = \<lambda>n since host l. Inr [],
     me_sort = sort_key (\<lambda>i. (ti_Severity i, - ti_Count i))\<rparr>"

definition sample_summary_world :: summary_world where
  "sample_summary_world = \<lparr>sm_rows = [], sm_links = [], sm_channels = [7, 8], sm_nextID = 4, sm_calls = 0, sm_fail = \<lambda>n. None, sm_dbNow = 9,
     sm_clock = \<lambda>n. 3 * hour, sm_reads = 0, sm_sent = []\<rparr>"


end
