(* ===== verification/NotifyAdmin.thy ===== *)
theory NotifyAdmin
  imports Secrets Summary Engine
begin

text \<open>
  The administration of channels and rules: the tables of \<^verbatim>\<open>postgres/notification_store.go\<close> and the handlers of
  \<^verbatim>\<open>handler/notification.go\<close>. The database's \<^verbatim>\<open>jsonb\<close> and the backends' validation are parameters. The lemmas show that
  answers hide secrets, that no mask is ever stored, that rules are written with their channels or not at all and
  are read back, that the listing agrees with single reads and that stored rules are valid and refer to rows that
  exist.
\<close>

section \<open>The tables\<close>

text \<open>A rule row has nullable text columns; its channels are rows of \<^verbatim>\<open>notification_rule_channels\<close>.\<close>

record rule_row =
  rw_base :: rule
  rw_hostname :: "string option"
  rw_programname :: "string option"
  rw_syslogtag :: "string option"
  rw_msgid :: "string option"
  rw_service :: "string option"
  rw_component :: "string option"
  rw_host :: "string option"
  rw_level :: "string option"
  rw_search :: "string option"

record admin_world =
  aw_channels :: "channel list"
  aw_rules :: "rule_row list"
  aw_links :: "(int \<times> int) list"
  aw_log :: "log_entry list"
  aw_nextChannel :: int
  aw_nextRule :: int
  aw_nextLog :: int
  aw_calls :: nat
  aw_fail :: "nat \<Rightarrow> string option"
  aw_dbNow :: "nat \<Rightarrow> instant"
  aw_clock :: "nat \<Rightarrow> instant"
  aw_reads :: nat

text \<open>The text a \<^verbatim>\<open>jsonb\<close> column gives back for a text, and the backends' checks of a configuration; \<^const>\<open>None\<close> when
  the handler has no engine.\<close>

record admin_env =
  ae_jsonb :: "string \<Rightarrow> string option"
  ae_backends :: "(channel_type \<times> (channel \<Rightarrow> string option)) list option"
  ae_parseTime :: "string \<Rightarrow> instant option"

definition run_admin :: "(admin_world \<Rightarrow> (store_error + 'a) \<times> admin_world) \<Rightarrow> admin_world \<Rightarrow> (store_error + 'a) \<times> admin_world" where
  "run_admin stmt w =
     (let w1 = w\<lparr>aw_calls := aw_calls w + 1\<rparr> in
      case aw_fail w (aw_calls w) of Some err \<Rightarrow> (Inl (StoreFailed err), w1) | None \<Rightarrow> stmt w1)"

definition admin_clock :: "admin_world \<Rightarrow> instant \<times> admin_world" where
  "admin_clock w = (aw_clock w (aw_reads w), w\<lparr>aw_reads := aw_reads w + 1\<rparr>)"

definition db_now :: "admin_world \<Rightarrow> instant" where "db_now w = aw_dbNow w (aw_calls w)"

text \<open>A transaction: when a step or the commit fails, the tables are as before. Identity values stay used.\<close>

definition rollback_to :: "admin_world \<Rightarrow> admin_world \<Rightarrow> admin_world" where
  "rollback_to w v = v\<lparr>aw_rules := aw_rules w, aw_links := aw_links w\<rparr>"

definition admin_tx :: "(admin_world \<Rightarrow> (store_error + 'a) \<times> admin_world) \<Rightarrow> admin_world \<Rightarrow> (store_error + 'a) \<times> admin_world" where
  "admin_tx body w =
     (case run_admin (\<lambda>w. (Inr (), w)) w of
        (Inl err, w1) \<Rightarrow> (Inl err, w1)
      | (Inr _, w1) \<Rightarrow>
          (case body w1 of
             (Inl err, w2) \<Rightarrow> (Inl err, rollback_to w w2)
           | (Inr x, w2) \<Rightarrow>
               (case run_admin (\<lambda>w. (Inr (), w)) w2 of
                  (Inl err, w3) \<Rightarrow> (Inl err, rollback_to w w3)
                | (Inr _, w3) \<Rightarrow> (Inr x, w3))))"

section \<open>Channels\<close>

definition store_ListChannels :: "admin_world \<Rightarrow> (store_error + channel list) \<times> admin_world" where
  "store_ListChannels = run_admin (\<lambda>w. (Inr (sort_key ch_ID (aw_channels w)), w))"

definition GetNotificationChannel :: "int \<Rightarrow> admin_world \<Rightarrow> (store_error + channel) \<times> admin_world" where
  "GetNotificationChannel i =
     run_admin (\<lambda>w. (case find (\<lambda>ch. ch_ID ch = i) (aw_channels w) of None \<Rightarrow> Inl ErrNoRows | Some ch \<Rightarrow> Inr ch, w))"

definition channel_type_ok :: "channel \<Rightarrow> bool" where
  "channel_type_ok ch \<longleftrightarrow> ch_Type ch \<in> {ChannelTypeSlack, ChannelTypeWebhook, ChannelTypeEmail, ChannelTypeNtfy}"

text \<open>The answer to a create carries the configuration of the request, the row the one of the column. An absent
  configuration is a null value, which the column refuses.\<close>

definition stored_config :: "admin_env \<Rightarrow> channel \<Rightarrow> string option" where
  "stored_config env ch = (if ch_Config ch = [] then None else ae_jsonb env (ch_Config ch))"

definition CreateNotificationChannel :: "admin_env \<Rightarrow> channel \<Rightarrow> admin_world \<Rightarrow> (store_error + channel) \<times> admin_world" where
  "CreateNotificationChannel env ch =
     run_admin (\<lambda>w.
       let created = ch\<lparr>ch_ID := aw_nextChannel w, ch_CreatedAt := db_now w, ch_UpdatedAt := db_now w\<rparr>;
           w1 = w\<lparr>aw_nextChannel := aw_nextChannel w + 1\<rparr> in
       case stored_config env ch of
         None \<Rightarrow> (Inl (StoreFailed ''create notification channel''), w)
       | Some config \<Rightarrow>
           if \<not> channel_type_ok ch \<or> list_ex (\<lambda>x. ch_Name x = ch_Name ch) (aw_channels w)
           then (Inl (StoreFailed ''create notification channel''), w1)
           else (Inr created, w1\<lparr>aw_channels := aw_channels w @ [created\<lparr>ch_Config := config\<rparr>]\<rparr>))"

definition set_channel :: "channel \<Rightarrow> string \<Rightarrow> instant \<Rightarrow> channel \<Rightarrow> channel" where
  "set_channel ch config now r =
     r\<lparr>ch_Name := ch_Name ch, ch_Type := ch_Type ch, ch_Config := config, ch_Enabled := ch_Enabled ch, ch_UpdatedAt := now\<rparr>"

definition UpdateNotificationChannel :: "admin_env \<Rightarrow> int \<Rightarrow> channel \<Rightarrow> admin_world \<Rightarrow> (store_error + channel) \<times> admin_world" where
  "UpdateNotificationChannel env i ch w0 =
     (case admin_clock w0 of (now, w) \<Rightarrow>
       run_admin (\<lambda>w.
         case stored_config env ch of
           None \<Rightarrow> (Inl (StoreFailed ''update notification channel''), w)
         | Some config \<Rightarrow>
             (case find (\<lambda>r. ch_ID r = i) (aw_channels w) of
                None \<Rightarrow> (Inl ErrNoRows, w)
              | Some r \<Rightarrow>
                  if \<not> channel_type_ok ch \<or> list_ex (\<lambda>x. ch_Name x = ch_Name ch \<and> ch_ID x \<noteq> i) (aw_channels w)
                  then (Inl (StoreFailed ''update notification channel''), w)
                  else (Inr (set_channel ch config now r),
                        w\<lparr>aw_channels := map (\<lambda>x. if ch_ID x = i then set_channel ch config now x else x) (aw_channels w)\<rparr>))) w)"

text \<open>Deleting a channel cascades to the rows that link rules to it.\<close>

definition DeleteNotificationChannel :: "int \<Rightarrow> admin_world \<Rightarrow> (store_error + unit) \<times> admin_world" where
  "DeleteNotificationChannel i =
     run_admin (\<lambda>w. (if list_ex (\<lambda>ch. ch_ID ch = i) (aw_channels w) then Inr () else Inl ErrNoRows,
       w\<lparr>aw_channels := filter (\<lambda>ch. ch_ID ch \<noteq> i) (aw_channels w), aw_links := filter (\<lambda>l. snd l \<noteq> i) (aw_links w)\<rparr>))"

section \<open>Rules\<close>

definition deref :: "string option \<Rightarrow> string" where
  "deref s = (case s of None \<Rightarrow> [] | Some x \<Rightarrow> x)"

definition nullIfEmpty :: "string \<Rightarrow> string option" where
  "nullIfEmpty s = (if s = [] then None else Some s)"

definition columns_of :: "rule \<Rightarrow> rule_row" where
  "columns_of r =
     \<lparr>rw_base = r\<lparr>ru_Hostname := [], ru_Programname := [], ru_SyslogTag := [], ru_MsgID := [], ru_Service := [], ru_Component := [],
        ru_Host := [], ru_Level := [], ru_Search := [], ru_ChannelIDs := []\<rparr>,
      rw_hostname = nullIfEmpty (ru_Hostname r), rw_programname = nullIfEmpty (ru_Programname r),
      rw_syslogtag = nullIfEmpty (ru_SyslogTag r), rw_msgid = nullIfEmpty (ru_MsgID r), rw_service = nullIfEmpty (ru_Service r),
      rw_component = nullIfEmpty (ru_Component r), rw_host = nullIfEmpty (ru_Host r), rw_level = nullIfEmpty (ru_Level r),
      rw_search = nullIfEmpty (ru_Search r)\<rparr>"

definition scan_rule :: "rule_row \<Rightarrow> rule" where
  "scan_rule row =
     (rw_base row)\<lparr>ru_Hostname := deref (rw_hostname row), ru_Programname := deref (rw_programname row),
       ru_SyslogTag := deref (rw_syslogtag row), ru_MsgID := deref (rw_msgid row), ru_Service := deref (rw_service row),
       ru_Component := deref (rw_component row), ru_Host := deref (rw_host row), ru_Level := deref (rw_level row),
       ru_Search := deref (rw_search row)\<rparr>"

definition row_ID :: "rule_row \<Rightarrow> int" where "row_ID row = ru_ID (rw_base row)"

text \<open>The checks and the widths of the columns.\<close>

definition between :: "int \<Rightarrow> int \<Rightarrow> int option \<Rightarrow> bool" where
  "between lo hi v \<longleftrightarrow> (case v of None \<Rightarrow> True | Some n \<Rightarrow> lo \<le> n \<and> n \<le> hi)"

definition int4 :: "int \<Rightarrow> bool" where "int4 n \<longleftrightarrow> - (2 ^ 31) \<le> n \<and> n < 2 ^ 31"

definition rule_columns_ok :: "rule_row \<Rightarrow> bool" where
  "rule_columns_ok row \<longleftrightarrow>
     (let r = rw_base row in
      ru_EventKind r \<in> {EventKindSrvlog, EventKindAppLog, EventKindNetlog} \<and>
      between 0 7 (ru_Severity r) \<and> between 0 7 (ru_SeverityMax r) \<and> between 0 23 (ru_Facility r) \<and>
      (case rw_level row of None \<Rightarrow> True | Some l \<Rightarrow> l \<in> {''DEBUG'', ''INFO'', ''WARN'', ''ERROR'', ''FATAL''}))"

text \<open>A number too wide for its column is refused before the statement runs.\<close>

definition rule_widths_ok :: "rule \<Rightarrow> bool" where
  "rule_widths_ok r \<longleftrightarrow>
     between (- (2 ^ 15)) (2 ^ 15 - 1) (ru_Severity r) \<and> between (- (2 ^ 15)) (2 ^ 15 - 1) (ru_SeverityMax r) \<and>
     between (- (2 ^ 15)) (2 ^ 15 - 1) (ru_Facility r) \<and> int4 (ru_SilenceMS r) \<and> int4 (ru_SilenceMaxMS r) \<and> int4 (ru_CoalesceMS r)"

text \<open>The listing joins each rule with its channel rows and aggregates them; a single read runs a second query.\<close>

definition ListNotificationRules :: "admin_world \<Rightarrow> (store_error + rule list) \<times> admin_world" where
  "ListNotificationRules =
     run_admin (\<lambda>w. (Inr (map (\<lambda>row. (scan_rule row)\<lparr>ru_ChannelIDs := sort [c. (i, c) \<leftarrow> aw_links w, i = row_ID row]\<rparr>)
                            (sort_key row_ID (aw_rules w))), w))"

definition group_channel :: "int \<times> int \<Rightarrow> (int \<times> int list) list \<Rightarrow> (int \<times> int list) list" where
  "group_channel l m = (case map_of m (fst l) of None \<Rightarrow> AList.update (fst l) [snd l] m | Some cs \<Rightarrow> AList.update (fst l) (cs @ [snd l]) m)"

definition loadRuleChannelIDs :: "int list \<Rightarrow> admin_world \<Rightarrow> (store_error + (int \<times> int list) list) \<times> admin_world" where
  "loadRuleChannelIDs ruleIDs =
     run_admin (\<lambda>w. (Inr (fold group_channel (sort_key snd (filter (\<lambda>l. fst l \<in> set ruleIDs) (aw_links w))) []), w))"

definition select_rule :: "int \<Rightarrow> admin_world \<Rightarrow> (store_error + rule) \<times> admin_world" where
  "select_rule i =
     run_admin (\<lambda>w. (case find (\<lambda>row. row_ID row = i) (aw_rules w) of None \<Rightarrow> Inl ErrNoRows | Some row \<Rightarrow> Inr (scan_rule row), w))"

definition GetNotificationRule :: "int \<Rightarrow> admin_world \<Rightarrow> (store_error + rule) \<times> admin_world" where
  "GetNotificationRule i w =
     (case select_rule i w of
        (Inl err, w1) \<Rightarrow> (Inl err, w1)
      | (Inr r, w1) \<Rightarrow>
          (case loadRuleChannelIDs [i] w1 of
             (Inl err, w2) \<Rightarrow> (Inl err, w2)
           | (Inr channelMap, w2) \<Rightarrow>
               (Inr (r\<lparr>ru_ChannelIDs := (case map_of channelMap i of Some ids \<Rightarrow> ids | None \<Rightarrow> [])\<rparr>), w2)))"

definition insert_link :: "int \<Rightarrow> int \<Rightarrow> admin_world \<Rightarrow> (store_error + unit) \<times> admin_world" where
  "insert_link i c =
     run_admin (\<lambda>w. if (i, c) \<in> set (aw_links w) \<or> c \<notin> ch_ID ` set (aw_channels w)
                    then (Inl (StoreFailed ''insert rule channel''), w)
                    else (Inr (), w\<lparr>aw_links := aw_links w @ [(i, c)]\<rparr>))"

fun insertRuleChannels :: "int \<Rightarrow> int list \<Rightarrow> admin_world \<Rightarrow> (store_error + unit) \<times> admin_world" where
  "insertRuleChannels i [] w = (Inr (), w)"
| "insertRuleChannels i (c # cs) w =
     (case insert_link i c w of
        (Inl err, w1) \<Rightarrow> (Inl err, w1)
      | (Inr _, w1) \<Rightarrow> insertRuleChannels i cs w1)"

definition insert_rule :: "rule \<Rightarrow> admin_world \<Rightarrow> (store_error + rule) \<times> admin_world" where
  "insert_rule r =
     run_admin (\<lambda>w.
       let created = r\<lparr>ru_ID := aw_nextRule w, ru_CreatedAt := db_now w, ru_UpdatedAt := db_now w\<rparr>;
           w1 = w\<lparr>aw_nextRule := aw_nextRule w + 1\<rparr> in
       if \<not> rule_widths_ok r then (Inl (StoreFailed ''insert notification rule''), w)
       else if \<not> rule_columns_ok (columns_of created) \<or> list_ex (\<lambda>x. ru_Name (rw_base x) = ru_Name r) (aw_rules w)
       then (Inl (StoreFailed ''insert notification rule''), w1)
       else (Inr created, w1\<lparr>aw_rules := aw_rules w @ [columns_of created]\<rparr>))"

definition CreateNotificationRule :: "rule \<Rightarrow> admin_world \<Rightarrow> (store_error + rule) \<times> admin_world" where
  "CreateNotificationRule r =
     admin_tx (\<lambda>w.
       case insert_rule r w of
         (Inl err, w1) \<Rightarrow> (Inl err, w1)
       | (Inr created, w1) \<Rightarrow>
           (case insertRuleChannels (ru_ID created) (ru_ChannelIDs created) w1 of
              (Inl err, w2) \<Rightarrow> (Inl err, w2)
            | (Inr _, w2) \<Rightarrow> (Inr created, w2)))"

text \<open>The row keeps its id and its creation time.\<close>

definition set_rule :: "rule \<Rightarrow> instant \<Rightarrow> rule_row \<Rightarrow> rule_row" where
  "set_rule r now row = columns_of (r\<lparr>ru_ID := row_ID row, ru_CreatedAt := ru_CreatedAt (rw_base row), ru_UpdatedAt := now\<rparr>)"

definition update_rule :: "int \<Rightarrow> rule \<Rightarrow> instant \<Rightarrow> admin_world \<Rightarrow> (store_error + rule) \<times> admin_world" where
  "update_rule i r now =
     run_admin (\<lambda>w.
       if \<not> rule_widths_ok r then (Inl (StoreFailed ''update notification rule''), w)
       else case find (\<lambda>row. row_ID row = i) (aw_rules w) of
         None \<Rightarrow> (Inl ErrNoRows, w)
       | Some row \<Rightarrow>
           if \<not> rule_columns_ok (set_rule r now row) \<or> list_ex (\<lambda>x. ru_Name (rw_base x) = ru_Name r \<and> row_ID x \<noteq> i) (aw_rules w)
           then (Inl (StoreFailed ''update notification rule''), w)
           else (Inr (r\<lparr>ru_ID := i, ru_CreatedAt := ru_CreatedAt (rw_base row), ru_UpdatedAt := now\<rparr>),
                 w\<lparr>aw_rules := map (\<lambda>x. if row_ID x = i then set_rule r now x else x) (aw_rules w)\<rparr>))"

definition delete_rule_links :: "int \<Rightarrow> admin_world \<Rightarrow> (store_error + unit) \<times> admin_world" where
  "delete_rule_links i = run_admin (\<lambda>w. (Inr (), w\<lparr>aw_links := filter (\<lambda>l. fst l \<noteq> i) (aw_links w)\<rparr>))"

definition UpdateNotificationRule :: "int \<Rightarrow> rule \<Rightarrow> admin_world \<Rightarrow> (store_error + rule) \<times> admin_world" where
  "UpdateNotificationRule i r =
     admin_tx (\<lambda>w.
       case admin_clock w of (now, w0) \<Rightarrow>
       case update_rule i r now w0 of
         (Inl err, w1) \<Rightarrow> (Inl err, w1)
       | (Inr updated, w1) \<Rightarrow>
           (case delete_rule_links i w1 of
              (Inl err, w2) \<Rightarrow> (Inl err, w2)
            | (Inr _, w2) \<Rightarrow>
                (case insertRuleChannels i (ru_ChannelIDs updated) w2 of
                   (Inl err, w3) \<Rightarrow> (Inl err, w3)
                 | (Inr _, w3) \<Rightarrow> (Inr updated, w3))))"

definition DeleteNotificationRule :: "int \<Rightarrow> admin_world \<Rightarrow> (store_error + unit) \<times> admin_world" where
  "DeleteNotificationRule i =
     run_admin (\<lambda>w. (if list_ex (\<lambda>row. row_ID row = i) (aw_rules w) then Inr () else Inl ErrNoRows,
       w\<lparr>aw_rules := filter (\<lambda>row. row_ID row \<noteq> i) (aw_rules w), aw_links := filter (\<lambda>l. fst l \<noteq> i) (aw_links w)\<rparr>))"

section \<open>The log\<close>

record log_filter =
  lf_RuleID :: "int option"
  lf_ChannelID :: "int option"
  lf_Status :: string
  lf_From :: "instant option"
  lf_To :: "instant option"

definition log_row :: "admin_env \<Rightarrow> log_entry \<Rightarrow> admin_world \<Rightarrow> log_entry option" where
  "log_row env entry w =
     (let row = entry\<lparr>le_ID := aw_nextLog w, le_CreatedAt := db_now w\<rparr> in
      if \<not> int4 (le_EventCount entry) \<or> \<not> int4 (le_DurationMS entry) \<or> \<not> between (- (2 ^ 31)) (2 ^ 31 - 1) (le_StatusCode entry)
         \<or> le_Status entry \<notin> {''sent'', ''suppressed'', ''failed''} then None
      else if le_Payload entry = [] then Some row
      else map_option (\<lambda>p. row\<lparr>le_Payload := p\<rparr>) (ae_jsonb env (le_Payload entry)))"

definition InsertNotificationLog :: "admin_env \<Rightarrow> log_entry \<Rightarrow> admin_world \<Rightarrow> (store_error + unit) \<times> admin_world" where
  "InsertNotificationLog env entry =
     run_admin (\<lambda>w.
       case log_row env entry w of
         None \<Rightarrow> (Inl (StoreFailed ''insert notification log''), w)
       | Some row \<Rightarrow> (Inr (), w\<lparr>aw_log := aw_log w @ [row], aw_nextLog := aw_nextLog w + 1\<rparr>))"

definition log_matches :: "log_filter \<Rightarrow> log_entry \<Rightarrow> bool" where
  "log_matches f e \<longleftrightarrow>
     (case lf_RuleID f of None \<Rightarrow> True | Some i \<Rightarrow> le_RuleID e = i) \<and>
     (case lf_ChannelID f of None \<Rightarrow> True | Some i \<Rightarrow> le_ChannelID e = i) \<and>
     (lf_Status f = [] \<or> le_Status e = lf_Status f) \<and>
     (case lf_From f of None \<Rightarrow> True | Some t \<Rightarrow> t \<le> le_CreatedAt e) \<and>
     (case lf_To f of None \<Rightarrow> True | Some t \<Rightarrow> le_CreatedAt e \<le> t)"

text \<open>Newest first; entries of the same instant may come in any order, here in the order they were written.\<close>

definition ListNotificationLog :: "log_filter \<Rightarrow> admin_world \<Rightarrow> (store_error + log_entry list) \<times> admin_world" where
  "ListNotificationLog f =
     run_admin (\<lambda>w. (Inr (take 500 (sort_key (\<lambda>e. - le_CreatedAt e) (filter (log_matches f) (aw_log w)))), w))"

section \<open>Validation by the engine\<close>

definition registeredTypes :: "(channel_type \<times> 'v) list \<Rightarrow> string" where
  "registeredTypes backends = str_join '', '' (sort (map fst backends))"

definition ValidateChannel :: "(channel_type \<times> (channel \<Rightarrow> string option)) list \<Rightarrow> channel \<Rightarrow> string option" where
  "ValidateChannel backends ch =
     (case map_of backends (ch_Type ch) of
        None \<Rightarrow> Some (''unknown channel type '' @ go_quote (ch_Type ch) @ '' (registered types: '' @ registeredTypes backends @ '')'')
      | Some validate \<Rightarrow> validate ch)"

definition config_refused :: "admin_env \<Rightarrow> channel \<Rightarrow> bool" where
  "config_refused env ch = (case ae_backends env of None \<Rightarrow> False | Some backends \<Rightarrow> ValidateChannel backends ch \<noteq> None)"

section \<open>Channel handlers\<close>

definition redactChannels :: "channel list \<Rightarrow> channel list" where
  "redactChannels channels = map Redacted channels"

definition ListChannels :: "admin_world \<Rightarrow> channel list response \<times> admin_world" where
  "ListChannels w =
     (case store_ListChannels w of
        (Inl err, w1) \<Rightarrow> (RespError 500 ''internal_error'', w1)
      | (Inr channels, w1) \<Rightarrow> (RespData 200 (redactChannels channels), w1))"

definition with_data :: "('a \<Rightarrow> 'b) \<Rightarrow> 'a response \<times> 'w \<Rightarrow> 'b response \<times> 'w" where
  "with_data f res = (case res of (RespData s x, w) \<Rightarrow> (RespData s (f x), w) | (RespError s c, w) \<Rightarrow> (RespError s c, w) | (RespNoContent, w) \<Rightarrow> (RespNoContent, w))"

definition GetChannel :: "string \<Rightarrow> admin_world \<Rightarrow> channel response \<times> admin_world" where
  "GetChannel idParam w =
     (case parse_int64 idParam of
        None \<Rightarrow> (RespError 400 ''invalid_id'', w)
      | Some i \<Rightarrow> with_data Redacted (row_answer 200 (GetNotificationChannel i w)))"

definition CreateChannel :: "admin_env \<Rightarrow> channel body \<Rightarrow> admin_world \<Rightarrow> channel response \<times> admin_world" where
  "CreateChannel env body w =
     (case body of
        Inl code \<Rightarrow> (RespError 400 code, w)
      | Inr ch \<Rightarrow>
          if ch_Name ch = [] then (RespError 400 ''validation_failed'', w)
          else if ch_Type ch = [] then (RespError 400 ''validation_failed'', w)
          else if HasRedactedSecret ch then (RespError 400 ''validation_failed'', w)
          else if config_refused env ch then (RespError 400 ''validation_failed'', w)
          else (case CreateNotificationChannel env ch w of
                  (Inl err, w1) \<Rightarrow> (RespError 500 ''internal_error'', w1)
                | (Inr created, w1) \<Rightarrow> (RespData 201 (Redacted created), w1)))"

definition UpdateChannel :: "admin_env \<Rightarrow> string \<Rightarrow> channel body \<Rightarrow> admin_world \<Rightarrow> channel response \<times> admin_world" where
  "UpdateChannel env idParam body w =
     (case parse_int64 idParam of
        None \<Rightarrow> (RespError 400 ''invalid_id'', w)
      | Some i \<Rightarrow>
          (case body of
             Inl code \<Rightarrow> (RespError 400 code, w)
           | Inr req \<Rightarrow>
               (case GetNotificationChannel i w of
                  (Inl err, w1) \<Rightarrow> row_answer 200 (Inl err, w1)
                | (Inr stored, w1) \<Rightarrow>
                    (let ch = WithSecretsFrom req stored in
                     if HasRedactedSecret ch then (RespError 400 ''validation_failed'', w1)
                     else if config_refused env ch then (RespError 400 ''validation_failed'', w1)
                     else with_data Redacted (row_answer 200 (UpdateNotificationChannel env i ch w1))))))"

definition DeleteChannel :: "string \<Rightarrow> admin_world \<Rightarrow> unit response \<times> admin_world" where
  "DeleteChannel idParam w =
     (case parse_int64 idParam of
        None \<Rightarrow> (RespError 400 ''invalid_id'', w)
      | Some i \<Rightarrow> no_content (row_answer 204 (DeleteNotificationChannel i w)))"

text \<open>A test is sent through the engine's backend, which may panic; no answer is written then, nor when the client
  has left.\<close>

record test_reply =
  tr_success :: bool
  tr_status_code :: int
  tr_error :: "string option"
  tr_duration_ms :: int

definition test_answer :: "send_result \<Rightarrow> test_reply" where
  "test_answer result =
     \<lparr>tr_success = res_Success result, tr_status_code = res_StatusCode result,
      tr_error = (if res_Success result then None else Some ''delivery failed''),
      tr_duration_ms = (if res_Duration result < 0 then - (- res_Duration result div millisecond) else res_Duration result div millisecond)\<rparr>"

definition TestChannel ::
  "('s, 'b, 'l) env option \<Rightarrow> bool \<Rightarrow> string \<Rightarrow> 's \<Rightarrow> admin_world \<Rightarrow> test_reply response option \<times> 's \<times> admin_world" where
  "TestChannel engine clientGone idParam s w =
     (case parse_int64 idParam of
        None \<Rightarrow> (Some (RespError 400 ''invalid_id''), s, w)
      | Some i \<Rightarrow>
          (case GetNotificationChannel i w of
             (Inl ErrNoRows, w1) \<Rightarrow> (Some (RespError 404 ''not_found''), s, w1)
           | (Inl (StoreFailed err), w1) \<Rightarrow> (Some (RespError 500 ''internal_error''), s, w1)
           | (Inr ch, w1) \<Rightarrow>
               (case engine of
                  None \<Rightarrow> (Some (RespError 503 ''engine_disabled''), s, w1)
                | Some env \<Rightarrow>
                    (case SendTestNotification env ch s of
                       (Inl err, s1) \<Rightarrow> (if clientGone then None else Some (RespError 400 ''test_failed''), s1, w1)
                     | (Inr None, s1) \<Rightarrow> (None, s1, w1)
                     | (Inr (Some result), s1) \<Rightarrow> (Some (RespData 200 (test_answer result)), s1, w1)))))"

section \<open>Rule and log handlers\<close>

definition ListRules :: "admin_world \<Rightarrow> rule list response \<times> admin_world" where
  "ListRules w =
     (case ListNotificationRules w of
        (Inl err, w1) \<Rightarrow> (RespError 500 ''internal_error'', w1)
      | (Inr rules, w1) \<Rightarrow> (RespData 200 rules, w1))"

definition GetRule :: "string \<Rightarrow> admin_world \<Rightarrow> rule response \<times> admin_world" where
  "GetRule idParam w =
     (case parse_int64 idParam of
        None \<Rightarrow> (RespError 400 ''invalid_id'', w)
      | Some i \<Rightarrow> row_answer 200 (GetNotificationRule i w))"

definition CreateRule :: "rule body \<Rightarrow> admin_world \<Rightarrow> rule response \<times> admin_world" where
  "CreateRule body w =
     (case body of
        Inl code \<Rightarrow> (RespError 400 code, w)
      | Inr r \<Rightarrow>
          if rule_Validate r \<noteq> None then (RespError 400 ''validation_failed'', w)
          else (case CreateNotificationRule r w of
                  (Inl err, w1) \<Rightarrow> (RespError 500 ''internal_error'', w1)
                | (Inr created, w1) \<Rightarrow> (RespData 201 created, w1)))"

definition UpdateRule :: "string \<Rightarrow> rule body \<Rightarrow> admin_world \<Rightarrow> rule response \<times> admin_world" where
  "UpdateRule idParam body w =
     (case parse_int64 idParam of
        None \<Rightarrow> (RespError 400 ''invalid_id'', w)
      | Some i \<Rightarrow>
          (case body of
             Inl code \<Rightarrow> (RespError 400 code, w)
           | Inr r \<Rightarrow>
               if rule_Validate r \<noteq> None then (RespError 400 ''validation_failed'', w)
               else row_answer 200 (UpdateNotificationRule i r w)))"

definition DeleteRule :: "string \<Rightarrow> admin_world \<Rightarrow> unit response \<times> admin_world" where
  "DeleteRule idParam w =
     (case parse_int64 idParam of
        None \<Rightarrow> (RespError 400 ''invalid_id'', w)
      | Some i \<Rightarrow> no_content (row_answer 204 (DeleteNotificationRule i w)))"

text \<open>A parameter that is absent is no filter; one that does not parse is refused.\<close>

definition opt_param :: "(string \<Rightarrow> 'a option) \<Rightarrow> string \<Rightarrow> 'a option option" where
  "opt_param parse v = (if v = [] then Some None else map_option Some (parse v))"

definition ListLog :: "admin_env \<Rightarrow> query \<Rightarrow> admin_world \<Rightarrow> log_entry list response \<times> admin_world" where
  "ListLog env q w =
     (case (opt_param parse_int64 (q ''rule_id''), opt_param parse_int64 (q ''channel_id''),
            opt_param (ae_parseTime env) (q ''from''), opt_param (ae_parseTime env) (q ''to'')) of
        (Some ruleID, Some channelID, Some from, Some to) \<Rightarrow>
          (case ListNotificationLog \<lparr>lf_RuleID = ruleID, lf_ChannelID = channelID, lf_Status = q ''status'', lf_From = from, lf_To = to\<rparr> w of
             (Inl err, w1) \<Rightarrow> (RespError 500 ''internal_error'', w1)
           | (Inr entries, w1) \<Rightarrow> (RespData 200 entries, w1))
      | _ \<Rightarrow> (RespError 400 ''invalid_param'', w))"

section \<open>Statements and transactions\<close>

lemma run_admin_cases:
  assumes "run_admin stmt w = (r, w1)"
  obtains (failed) err where "r = Inl (StoreFailed err)" "w1 = w\<lparr>aw_calls := aw_calls w + 1\<rparr>"
  | (ran) "stmt (w\<lparr>aw_calls := aw_calls w + 1\<rparr>) = (r, w1)"
  using assms by (auto simp: run_admin_def Let_def split: option.splits)

lemma run_admin_Inr: "run_admin stmt w = (Inr x, w1) \<Longrightarrow> stmt (w\<lparr>aw_calls := aw_calls w + 1\<rparr>) = (Inr x, w1)"
  by (erule run_admin_cases) simp_all

lemma run_admin_ok: "aw_fail w (aw_calls w) = None \<Longrightarrow> run_admin stmt w = stmt (w\<lparr>aw_calls := aw_calls w + 1\<rparr>)"
  by (simp add: run_admin_def)

text \<open>What the steps of a rule transaction leave alone.\<close>

definition rule_frame :: "admin_world \<Rightarrow> admin_world \<Rightarrow> bool" where
  "rule_frame w v \<longleftrightarrow>
     aw_channels v = aw_channels w \<and> aw_nextChannel v = aw_nextChannel w \<and> aw_nextRule w \<le> aw_nextRule v \<and> aw_fail v = aw_fail w"

lemma rule_frame_trans: "rule_frame u v \<Longrightarrow> rule_frame v w \<Longrightarrow> rule_frame u w"
  by (auto simp: rule_frame_def)

lemma run_admin_frame:
  assumes "run_admin stmt w = (r, w1)" "\<And>w. rule_frame w (snd (stmt w))"
  shows "rule_frame w w1"
  using assms(1)
proof (cases rule: run_admin_cases)
  case ran
  then show ?thesis using assms(2) [of "w\<lparr>aw_calls := aw_calls w + 1\<rparr>"] by (simp add: rule_frame_def)
qed (simp add: rule_frame_def)

lemma step_frames:
  "insert_rule r w = (x, w1) \<Longrightarrow> rule_frame w w1"
  "update_rule i r now w = (x, w1) \<Longrightarrow> rule_frame w w1"
  "delete_rule_links i w = (y, w1) \<Longrightarrow> rule_frame w w1"
  "insert_link i c w = (y, w1) \<Longrightarrow> rule_frame w w1"
  unfolding insert_rule_def update_rule_def delete_rule_links_def insert_link_def
  by (erule run_admin_frame; auto simp: rule_frame_def Let_def split: option.split)+

lemma insertRuleChannels_frame: "insertRuleChannels i cs w = (y, w1) \<Longrightarrow> rule_frame w w1"
proof (induction cs arbitrary: w)
  case (Cons c cs)
  obtain z v where v: "insert_link i c w = (z, v)" by fastforce
  then show ?case using Cons rule_frame_trans [OF step_frames(4) [OF v]] step_frames(4) [OF v] by (auto split: sum.splits)
qed (simp add: rule_frame_def)

lemma tx_noop: "run_admin (\<lambda>w. (Inr (), w)) w = (r, w1) \<Longrightarrow> w1 = w\<lparr>aw_calls := aw_calls w + 1\<rparr>"
  by (erule run_admin_cases) simp_all

lemma admin_tx_Inr:
  assumes "admin_tx body w = (Inr x, w1)"
  obtains w2 where "body (w\<lparr>aw_calls := aw_calls w + 1\<rparr>) = (Inr x, w2)" "w1 = w2\<lparr>aw_calls := aw_calls w2 + 1\<rparr>"
  using assms by (auto simp: admin_tx_def split: prod.splits sum.splits dest!: tx_noop)

lemma admin_tx_Inl:
  assumes "admin_tx body w = (Inl err, w1)" "\<And>w x w2. body w = (x, w2) \<Longrightarrow> rule_frame w w2"
  shows "rule_frame w w1" "aw_rules w1 = aw_rules w" "aw_links w1 = aw_links w"
proof -
  let ?v = "w\<lparr>aw_calls := aw_calls w + 1\<rparr>"
  obtain x w2 where b: "body ?v = (x, w2)" by fastforce
  have f: "rule_frame w w2" using assms(2) [OF b] by (simp add: rule_frame_def)
  have "w1 = ?v \<or> w1 = rollback_to w w2 \<or> w1 = rollback_to w (w2\<lparr>aw_calls := aw_calls w2 + 1\<rparr>)"
    using assms(1) b by (auto simp: admin_tx_def split: prod.splits sum.splits dest!: tx_noop)
  then show "rule_frame w w1" "aw_rules w1 = aw_rules w" "aw_links w1 = aw_links w"
    using f by (auto simp: rule_frame_def rollback_to_def)
qed

section \<open>Writing and reading rules\<close>

lemma deref_nullIfEmpty [simp]: "deref (nullIfEmpty s) = s"
  by (simp add: deref_def nullIfEmpty_def)

lemma scan_columns: "scan_rule (columns_of r) = r\<lparr>ru_ChannelIDs := []\<rparr>"
  by (simp add: scan_rule_def columns_of_def)

lemma row_ID_columns [simp]: "row_ID (columns_of r) = ru_ID r"
  by (simp add: row_ID_def columns_of_def)

lemma row_ID_set [simp]: "row_ID (set_rule r now row) = row_ID row"
  by (simp add: set_rule_def)

lemma insertRuleChannels_Inr:
  "insertRuleChannels i cs w = (Inr u, w1) \<Longrightarrow>
     aw_links w1 = aw_links w @ map (Pair i) cs \<and> aw_rules w1 = aw_rules w \<and> distinct cs \<and>
     set cs \<subseteq> ch_ID ` set (aw_channels w) \<and> (\<forall>c \<in> set cs. (i, c) \<notin> set (aw_links w))"
proof (induction cs arbitrary: w)
  case (Cons c cs)
  obtain v where v: "insert_link i c w = (Inr (), v)" "insertRuleChannels i cs v = (Inr u, w1)"
    using Cons.prems by (auto split: prod.splits sum.splits)
  have "(i, c) \<notin> set (aw_links w)" "c \<in> ch_ID ` set (aw_channels w)"
    "v = w\<lparr>aw_calls := aw_calls w + 1, aw_links := aw_links w @ [(i, c)]\<rparr>"
    using run_admin_Inr [OF v(1) [unfolded insert_link_def]] by (auto split: if_splits)
  then show ?case using Cons.IH [OF v(2)] by auto
qed simp

lemma insertRuleChannels_nextRule: "insertRuleChannels i cs w = (y, w1) \<Longrightarrow> aw_nextRule w1 = aw_nextRule w"
proof (induction cs arbitrary: w)
  case (Cons c cs)
  obtain z v where v: "insert_link i c w = (z, v)" by fastforce
  have "aw_nextRule v = aw_nextRule w"
    using v [unfolded insert_link_def] by (cases rule: run_admin_cases) (auto split: if_splits)
  then show ?case using Cons v by (auto split: sum.splits)
qed simp

lemma CreateNotificationRule_Inr:
  assumes "CreateNotificationRule r w = (Inr created, w1)"
  shows "created = r\<lparr>ru_ID := aw_nextRule w, ru_CreatedAt := ru_CreatedAt created, ru_UpdatedAt := ru_CreatedAt created\<rparr>"
    and "aw_rules w1 = aw_rules w @ [columns_of created]"
    and "aw_links w1 = aw_links w @ map (Pair (aw_nextRule w)) (ru_ChannelIDs r)"
    and "distinct (ru_ChannelIDs r)" "set (ru_ChannelIDs r) \<subseteq> ch_ID ` set (aw_channels w)"
    and "aw_nextRule w1 = aw_nextRule w + 1" "aw_channels w1 = aw_channels w" "aw_nextChannel w1 = aw_nextChannel w" "aw_fail w1 = aw_fail w"
    and "ru_Name r \<notin> (\<lambda>x. ru_Name (rw_base x)) ` set (aw_rules w)"
proof -
  obtain w2 where w2: "(case insert_rule r (w\<lparr>aw_calls := aw_calls w + 1\<rparr>) of (Inl err, w1) \<Rightarrow> (Inl err, w1)
       | (Inr created, w1) \<Rightarrow> (case insertRuleChannels (ru_ID created) (ru_ChannelIDs created) w1 of
              (Inl err, w2) \<Rightarrow> (Inl err, w2) | (Inr _, w2) \<Rightarrow> (Inr created, w2))) = (Inr created, w2)" "w1 = w2\<lparr>aw_calls := aw_calls w2 + 1\<rparr>"
    by (rule admin_tx_Inr [OF assms [unfolded CreateNotificationRule_def]])
  then obtain w0 u where i: "insert_rule r (w\<lparr>aw_calls := aw_calls w + 1\<rparr>) = (Inr created, w0)"
    "insertRuleChannels (ru_ID created) (ru_ChannelIDs created) w0 = (Inr u, w2)"
    by (auto split: prod.split_asm sum.split_asm)
  let ?v = "w\<lparr>aw_calls := aw_calls w + 1 + 1\<rparr>"
  have c: "created = r\<lparr>ru_ID := aw_nextRule w, ru_CreatedAt := db_now ?v, ru_UpdatedAt := db_now ?v\<rparr>"
    "w0 = ?v\<lparr>aw_nextRule := aw_nextRule w + 1, aw_rules := aw_rules w @ [columns_of created]\<rparr>"
    "ru_Name r \<notin> (\<lambda>x. ru_Name (rw_base x)) ` set (aw_rules w)"
    using run_admin_Inr [OF i(1) [unfolded insert_rule_def]] by (auto simp: Let_def list_ex_iff split: if_splits)
  note l = insertRuleChannels_Inr [OF i(2)]
  have f: "aw_nextRule w2 = aw_nextRule w0" by (rule insertRuleChannels_nextRule [OF i(2)])
  show "created = r\<lparr>ru_ID := aw_nextRule w, ru_CreatedAt := ru_CreatedAt created, ru_UpdatedAt := ru_CreatedAt created\<rparr>" using c(1) by simp
  show "aw_rules w1 = aw_rules w @ [columns_of created]" "aw_links w1 = aw_links w @ map (Pair (aw_nextRule w)) (ru_ChannelIDs r)"
    "distinct (ru_ChannelIDs r)" "set (ru_ChannelIDs r) \<subseteq> ch_ID ` set (aw_channels w)" "aw_nextRule w1 = aw_nextRule w + 1"
    using l c(1, 2) f w2(2) by simp_all
  show "aw_channels w1 = aw_channels w" "aw_nextChannel w1 = aw_nextChannel w" "aw_fail w1 = aw_fail w"
    using insertRuleChannels_frame [OF i(2)] c(2) w2(2) by (simp_all add: rule_frame_def)
  show "ru_Name r \<notin> (\<lambda>x. ru_Name (rw_base x)) ` set (aw_rules w)" by (rule c(3))
qed

lemma CreateNotificationRule_Inl:
  assumes "CreateNotificationRule r w = (Inl err, w1)"
  shows "rule_frame w w1 \<and> aw_rules w1 = aw_rules w \<and> aw_links w1 = aw_links w"
proof -
  have f: "rule_frame v v2" if "(case insert_rule r v of (Inl err, w1) \<Rightarrow> (Inl err, w1)
       | (Inr created, w1) \<Rightarrow> (case insertRuleChannels (ru_ID created) (ru_ChannelIDs created) w1 of
              (Inl err, w2) \<Rightarrow> (Inl err, w2) | (Inr _, w2) \<Rightarrow> (Inr created, w2))) = (x, v2)" for v x v2
    using that by (auto split: prod.split_asm sum.split_asm dest!: step_frames(1) insertRuleChannels_frame intro: rule_frame_trans)
  show ?thesis by (intro conjI; rule admin_tx_Inl [OF assms [unfolded CreateNotificationRule_def]]; erule f)
qed

lemma UpdateNotificationRule_Inl:
  assumes "UpdateNotificationRule i r w = (Inl err, w1)"
  shows "rule_frame w w1 \<and> aw_rules w1 = aw_rules w \<and> aw_links w1 = aw_links w"
proof -
  have clock: "rule_frame v (snd (admin_clock v))" for v by (simp add: admin_clock_def rule_frame_def)
  have f: "rule_frame v v2" if h: "(case admin_clock v of (now, w0) \<Rightarrow> case update_rule i r now w0 of (Inl err, w1) \<Rightarrow> (Inl err, w1)
       | (Inr updated, w1) \<Rightarrow> (case delete_rule_links i w1 of (Inl err, w2) \<Rightarrow> (Inl err, w2)
            | (Inr _, w2) \<Rightarrow> (case insertRuleChannels i (ru_ChannelIDs updated) w2 of (Inl err, w3) \<Rightarrow> (Inl err, w3)
                 | (Inr _, w3) \<Rightarrow> (Inr updated, w3)))) = (x, v2)" for v x v2
  proof -
    obtain now v0 where cl: "admin_clock v = (now, v0)" by fastforce
    have "rule_frame v0 v2" using h cl
      by (auto split: prod.split_asm sum.split_asm dest!: step_frames(2, 3) insertRuleChannels_frame intro: rule_frame_trans)
    then show ?thesis using clock [of v] cl rule_frame_trans by simp
  qed
  show ?thesis by (intro conjI; rule admin_tx_Inl [OF assms [unfolded UpdateNotificationRule_def]]; erule f)
qed

text \<open>What a read of rule \<^term>\<open>i\<close> gives.\<close>

definition linked :: "admin_world \<Rightarrow> int \<Rightarrow> int list" where
  "linked w i = sort [c. (j, c) \<leftarrow> aw_links w, j = i]"

definition rule_at :: "admin_world \<Rightarrow> int \<Rightarrow> rule option" where
  "rule_at w i = map_option (\<lambda>row. (scan_rule row)\<lparr>ru_ChannelIDs := linked w i\<rparr>) (find (\<lambda>row. row_ID row = i) (aw_rules w))"

lemma linked_filter: "linked w i = map snd (sort_key snd (filter (\<lambda>l. fst l = i) (aw_links w)))"
proof -
  have "[c. (j, c) \<leftarrow> ls, j = i] = map snd (filter (\<lambda>l. fst l = i) ls)" for ls :: "(int \<times> int) list"
    by (induction ls) auto
  then have "mset (map snd (sort_key snd (filter (\<lambda>l. fst l = i) (aw_links w)))) = mset [c. (j, c) \<leftarrow> aw_links w, j = i]"
    by simp
  then show ?thesis unfolding linked_def by (intro properties_for_sort) simp_all
qed

lemma group_one:
  assumes "\<And>l. l \<in> set ls \<Longrightarrow> fst l = i"
  shows "(case map_of (fold group_channel ls m) i of Some ids \<Rightarrow> ids | None \<Rightarrow> []) =
    (case map_of m i of Some ids \<Rightarrow> ids | None \<Rightarrow> []) @ map snd ls"
  using assms
proof (induction ls arbitrary: m)
  case (Cons l ls)
  have i: "fst l = i" using Cons.prems by simp
  have "(case map_of (group_channel l m) i of Some ids \<Rightarrow> ids | None \<Rightarrow> []) = (case map_of m i of Some ids \<Rightarrow> ids | None \<Rightarrow> []) @ [snd l]"
    using i by (simp add: group_channel_def update_conv' split: option.split)
  then show ?case using Cons.IH [of "group_channel l m"] Cons.prems by simp
qed simp

lemma GetNotificationRule_eq:
  assumes "\<And>n. aw_fail w n = None"
  shows "fst (GetNotificationRule i w) = (case rule_at w i of None \<Rightarrow> Inl ErrNoRows | Some r \<Rightarrow> Inr r)"
proof -
  let ?v = "w\<lparr>aw_calls := aw_calls w + 1\<rparr>"
  have s: "select_rule i w = (case find (\<lambda>row. row_ID row = i) (aw_rules w) of None \<Rightarrow> Inl ErrNoRows | Some row \<Rightarrow> Inr (scan_rule row), ?v)"
    using assms by (simp add: select_rule_def run_admin_def split: option.split)
  have "(case map_of (fold group_channel (sort_key snd (filter (\<lambda>l. fst l = i) (aw_links w))) []) i of Some ids \<Rightarrow> ids | None \<Rightarrow> []) = linked w i"
    using group_one [of "sort_key snd (filter (\<lambda>l. fst l = i) (aw_links w))" i "[]"] by (simp add: linked_filter)
  then show ?thesis using assms unfolding GetNotificationRule_def s loadRuleChannelIDs_def rule_at_def
    by (simp add: run_admin_def cong: if_cong split: option.split)
qed

lemma find_distinct: "distinct (map f xs) \<Longrightarrow> x \<in> set xs \<Longrightarrow> find (\<lambda>y. f y = f x) xs = Some x"
  by (induction xs) auto

text \<open>C32: The listing of rules, one query with a join and an aggregate, answers in the order of the ids exactly the
  rules that reading them one by one gives, with their channels.\<close>

theorem rule_listing_agrees_with_reads:
  assumes "\<And>n. aw_fail w n = None" "distinct (map row_ID (aw_rules w))" "ListNotificationRules w = (Inr rules, w1)"
  shows "map ru_ID rules = sort (map row_ID (aw_rules w)) \<and> list_all (\<lambda>r. fst (GetNotificationRule (ru_ID r) w) = Inr r) rules"
proof -
  let ?read = "\<lambda>row. (scan_rule row)\<lparr>ru_ChannelIDs := linked w (row_ID row)\<rparr>"
  have r: "rules = map ?read (sort_key row_ID (aw_rules w))"
    using run_admin_Inr [OF assms(3) [unfolded ListNotificationRules_def]] by (auto simp: linked_def)
  have id: "ru_ID (?read row) = row_ID row" for row by (simp add: scan_rule_def row_ID_def)
  have ids: "map ru_ID rules = map row_ID (sort_key row_ID (aw_rules w))" unfolding r map_map by (simp add: comp_def id)
  have "map row_ID (sort_key row_ID (aw_rules w)) = sort (map row_ID (aw_rules w))"
    by (rule sym, rule properties_for_sort) simp_all
  moreover have "fst (GetNotificationRule (row_ID row) w) = Inr (?read row)" if "row \<in> set (aw_rules w)" for row
    using find_distinct [OF assms(2) that] assms(1) by (simp add: GetNotificationRule_eq rule_at_def)
  ultimately show ?thesis using ids id by (simp add: r list_all_iff)
qed

text \<open>The tables as the operations keep them.\<close>

definition admin_inv :: "admin_world \<Rightarrow> bool" where
  "admin_inv w \<longleftrightarrow>
     (\<forall>ch \<in> set (aw_channels w). \<not> HasRedactedSecret ch \<and> channel_type_ok ch \<and> ch_ID ch < aw_nextChannel w) \<and>
     distinct (map ch_ID (aw_channels w)) \<and> distinct (map ch_Name (aw_channels w)) \<and>
     (\<forall>row \<in> set (aw_rules w). rule_Validate (scan_rule row) = None \<and> row_ID row < aw_nextRule w) \<and>
     distinct (map row_ID (aw_rules w)) \<and> distinct (map (\<lambda>row. ru_Name (rw_base row)) (aw_rules w)) \<and>
     distinct (aw_links w) \<and> (\<forall>(i, c) \<in> set (aw_links w). i \<in> row_ID ` set (aw_rules w) \<and> c \<in> ch_ID ` set (aw_channels w))"

text \<open>C31: A rule is written with its channels or not at all. A refused create leaves the rules and their channels as
  they were; a created rule is read back as it was answered, its channels in order, and every other rule reads as
  before.\<close>

theorem created_rule_is_read_back:
  assumes "admin_inv w" "CreateNotificationRule r w = (res, w1)" "\<And>n. aw_fail w n = None"
  shows "case res of
      Inl err \<Rightarrow> aw_rules w1 = aw_rules w \<and> aw_links w1 = aw_links w
    | Inr created \<Rightarrow>
        fst (GetNotificationRule (ru_ID created) w1) = Inr (created\<lparr>ru_ChannelIDs := sort (ru_ChannelIDs r)\<rparr>) \<and>
        created = r\<lparr>ru_ID := aw_nextRule w, ru_CreatedAt := ru_CreatedAt created, ru_UpdatedAt := ru_CreatedAt created\<rparr> \<and>
        (\<forall>i. i \<noteq> ru_ID created \<longrightarrow> fst (GetNotificationRule i w1) = fst (GetNotificationRule i w))"
proof (cases res)
  case (Inl err)
  then show ?thesis using CreateNotificationRule_Inl assms(2) by simp
next
  case (Inr created)
  note c = CreateNotificationRule_Inr [OF assms(2) [unfolded Inr]]
  have id: "ru_ID created = aw_nextRule w" by (subst c(1)) simp
  have chans: "ru_ChannelIDs created = ru_ChannelIDs r" by (subst c(1)) simp
  have new: "find (\<lambda>row. row_ID row = aw_nextRule w) (aw_rules w) = None" "i \<noteq> aw_nextRule w" if "(i, c) \<in> set (aw_links w)" for i c
    using assms(1) that by (fastforce simp: admin_inv_def find_None_iff)+
  have fresh: "find (\<lambda>row. row_ID row = aw_nextRule w) (aw_rules w) = None"
    using assms(1) by (fastforce simp: admin_inv_def find_None_iff)
  have links: "linked w1 i = (if i = aw_nextRule w then sort (ru_ChannelIDs r) else linked w i)" for i
  proof -
    have none: "filter (\<lambda>l. fst l = aw_nextRule w) (aw_links w) = []" using new(2) by (auto simp: filter_empty_conv)
    have "filter (\<lambda>l. fst l = i) (map (Pair (aw_nextRule w)) cs) = (if i = aw_nextRule w then map (Pair i) cs else [])" for cs :: "int list"
      by (induction cs) auto
    moreover have "map snd (sort_key snd (map (Pair i) cs)) = sort cs" for cs :: "int list"
      by (rule sym, rule properties_for_sort) (simp_all add: multiset.map_comp comp_def)
    ultimately show ?thesis using none by (auto simp: linked_filter c(3))
  qed
  have at: "rule_at w1 i = (if i = aw_nextRule w then Some (created\<lparr>ru_ChannelIDs := sort (ru_ChannelIDs r)\<rparr>) else rule_at w i)" for i
    using fresh id by (auto simp: rule_at_def c(2) find_snoc links scan_columns split: option.split)
  have "aw_fail w1 n = None" for n using assms(3) c(9) by simp
  then show ?thesis using at id c(1) assms(3) Inr by (simp add: GetNotificationRule_eq)
qed

section \<open>The invariant\<close>

lemma find_member: "find p xs = Some x \<Longrightarrow> x \<in> set xs \<and> p x"
  by (auto simp: find_Some_iff)

lemma UpdateNotificationRule_Inr:
  assumes "UpdateNotificationRule i r w = (Inr updated, w1)"
  obtains now where "aw_rules w1 = map (\<lambda>x. if row_ID x = i then set_rule r now x else x) (aw_rules w)"
    "aw_links w1 = filter (\<lambda>l. fst l \<noteq> i) (aw_links w) @ map (Pair i) (ru_ChannelIDs r)"
    "distinct (ru_ChannelIDs r)" "set (ru_ChannelIDs r) \<subseteq> ch_ID ` set (aw_channels w)" "i \<in> row_ID ` set (aw_rules w)"
    "\<And>x. x \<in> set (aw_rules w) \<Longrightarrow> ru_Name (rw_base x) = ru_Name r \<Longrightarrow> row_ID x = i" "rule_frame w w1"
proof -
  let ?v = "w\<lparr>aw_calls := aw_calls w + 1\<rparr>"
  obtain w2 where w2: "(case admin_clock ?v of (now, w0) \<Rightarrow> case update_rule i r now w0 of (Inl err, w1) \<Rightarrow> (Inl err, w1)
       | (Inr updated, w1) \<Rightarrow> (case delete_rule_links i w1 of (Inl err, w2) \<Rightarrow> (Inl err, w2)
            | (Inr _, w2) \<Rightarrow> (case insertRuleChannels i (ru_ChannelIDs updated) w2 of (Inl err, w3) \<Rightarrow> (Inl err, w3)
                 | (Inr _, w3) \<Rightarrow> (Inr updated, w3)))) = (Inr updated, w2)" "w1 = w2\<lparr>aw_calls := aw_calls w2 + 1\<rparr>"
    by (rule admin_tx_Inr [OF assms [unfolded UpdateNotificationRule_def]])
  obtain now v0 where cl: "admin_clock ?v = (now, v0)" by fastforce
  then have v0: "aw_rules v0 = aw_rules w" "aw_links v0 = aw_links w" "rule_frame w v0" by (auto simp: admin_clock_def rule_frame_def)
  from w2(1) cl obtain a b u u' where steps: "update_rule i r now v0 = (Inr updated, a)" "delete_rule_links i a = (Inr u, b)"
    "insertRuleChannels i (ru_ChannelIDs updated) b = (Inr u', w2)"
    by (auto split: prod.split_asm sum.split_asm)
  have a: "aw_rules a = map (\<lambda>x. if row_ID x = i then set_rule r now x else x) (aw_rules w)" "aw_links a = aw_links w"
    "ru_ChannelIDs updated = ru_ChannelIDs r" "i \<in> row_ID ` set (aw_rules w)"
    "\<And>x. x \<in> set (aw_rules w) \<Longrightarrow> ru_Name (rw_base x) = ru_Name r \<Longrightarrow> row_ID x = i"
    using run_admin_Inr [OF steps(1) [unfolded update_rule_def]] v0
    by (auto simp: list_ex_iff split: if_splits option.splits dest!: find_member)
  have b: "aw_rules b = aw_rules a" "aw_links b = filter (\<lambda>l. fst l \<noteq> i) (aw_links a)"
    using run_admin_Inr [OF steps(2) [unfolded delete_rule_links_def]] by auto
  have f: "rule_frame w b" "rule_frame w w1"
    using rule_frame_trans v0(3) step_frames(2) [OF steps(1)] step_frames(3) [OF steps(2)] insertRuleChannels_frame [OF steps(3)] w2(2)
    by (blast, auto simp: rule_frame_def)
  note l = insertRuleChannels_Inr [OF steps(3)]
  show ?thesis
  proof (rule that)
    show "aw_rules w1 = map (\<lambda>x. if row_ID x = i then set_rule r now x else x) (aw_rules w)"
      "aw_links w1 = filter (\<lambda>l. fst l \<noteq> i) (aw_links w) @ map (Pair i) (ru_ChannelIDs r)" "distinct (ru_ChannelIDs r)"
      using l a b w2(2) by simp_all
    show "set (ru_ChannelIDs r) \<subseteq> ch_ID ` set (aw_channels w)" using l a(3) f(1) by (simp add: rule_frame_def)
  qed (use a f in auto)
qed

lemma rule_Validate_columns [simp]:
  "rule_Validate (r\<lparr>ru_ID := a\<rparr>) = rule_Validate r" "rule_Validate (r\<lparr>ru_CreatedAt := b\<rparr>) = rule_Validate r"
  "rule_Validate (r\<lparr>ru_UpdatedAt := c\<rparr>) = rule_Validate r" "rule_Validate (r\<lparr>ru_ChannelIDs := d\<rparr>) = rule_Validate r"
  by (simp_all add: rule_Validate_def cong: if_cong option.case_cong)

lemma name_columns [simp]: "ru_Name (rw_base (columns_of r)) = ru_Name r" "ru_Name (rw_base (set_rule r now row)) = ru_Name r"
  by (simp_all add: columns_of_def set_rule_def)

lemma admin_inv_frame:
  "admin_inv w \<Longrightarrow> rule_frame w v \<Longrightarrow> aw_rules v = aw_rules w \<Longrightarrow> aw_links v = aw_links w \<Longrightarrow> admin_inv v"
  by (fastforce simp: admin_inv_def rule_frame_def)

lemma CreateNotificationRule_inv:
  assumes "admin_inv w" "rule_Validate r = None" "CreateNotificationRule r w = (res, w1)"
  shows "admin_inv w1"
proof (cases res)
  case (Inl err)
  then show ?thesis using admin_inv_frame [OF assms(1)] CreateNotificationRule_Inl assms(3) by blast
next
  case (Inr created)
  note c = CreateNotificationRule_Inr [OF assms(3) [unfolded Inr]]
  have k: "ru_ID created = aw_nextRule w" "ru_Name created = ru_Name r" "rule_Validate created = None"
    using assms(2) by (subst c(1), simp)+
  have ids: "row_ID row < aw_nextRule w" if "row \<in> set (aw_rules w)" for row using assms(1) that by (simp add: admin_inv_def)
  have l: "i \<noteq> aw_nextRule w" if "(i, x) \<in> set (aw_links w)" for i x
    using assms(1) that ids by (fastforce simp: admin_inv_def)
  show ?thesis unfolding admin_inv_def c(2, 3, 6 - 8)
  proof (intro conjI ballI)
    show "distinct (aw_links w @ map (Pair (aw_nextRule w)) (ru_ChannelIDs r))"
      using assms(1) l c(4) by (auto simp: admin_inv_def distinct_map inj_on_def)
    show "distinct (map row_ID (aw_rules w @ [columns_of created]))"
      using assms(1) ids k(1) by (fastforce simp: admin_inv_def)
    show "distinct (map (\<lambda>row. ru_Name (rw_base row)) (aw_rules w @ [columns_of created]))"
      using assms(1) c(10) k(2) by (auto simp: admin_inv_def)
    fix row assume "row \<in> set (aw_rules w @ [columns_of created])"
    then show "rule_Validate (scan_rule row) = None" "row_ID row < aw_nextRule w + 1"
      using assms(1) k by (auto simp: admin_inv_def scan_columns)
  next
    fix x assume "x \<in> set (aw_links w @ map (Pair (aw_nextRule w)) (ru_ChannelIDs r))"
    then show "case x of (i, c) \<Rightarrow> i \<in> row_ID ` set (aw_rules w @ [columns_of created]) \<and> c \<in> ch_ID ` set (aw_channels w)"
      using assms(1) c(5) k(1) by (auto simp: admin_inv_def)
  qed (use assms(1) in \<open>auto simp: admin_inv_def\<close>)
qed

lemma UpdateNotificationRule_inv:
  assumes "admin_inv w" "rule_Validate r = None" "UpdateNotificationRule i r w = (res, w1)"
  shows "admin_inv w1"
proof (cases res)
  case (Inl err)
  then show ?thesis using admin_inv_frame [OF assms(1)] UpdateNotificationRule_Inl assms(3) by blast
next
  case (Inr updated)
  obtain now where c: "aw_rules w1 = map (\<lambda>x. if row_ID x = i then set_rule r now x else x) (aw_rules w)"
    "aw_links w1 = filter (\<lambda>l. fst l \<noteq> i) (aw_links w) @ map (Pair i) (ru_ChannelIDs r)"
    "distinct (ru_ChannelIDs r)" "set (ru_ChannelIDs r) \<subseteq> ch_ID ` set (aw_channels w)" "i \<in> row_ID ` set (aw_rules w)"
    "\<And>x. x \<in> set (aw_rules w) \<Longrightarrow> ru_Name (rw_base x) = ru_Name r \<Longrightarrow> row_ID x = i" "rule_frame w w1"
    by (rule UpdateNotificationRule_Inr [OF assms(3) [unfolded Inr]]) blast
  have ids: "map row_ID (aw_rules w1) = map row_ID (aw_rules w)" by (simp add: c(1))
  then have idset: "row_ID ` set (aw_rules w1) = row_ID ` set (aw_rules w)" by (metis list.set_map)
  have one: "x = y" if "x \<in> set (aw_rules w)" "y \<in> set (aw_rules w)" "row_ID x = row_ID y" for x y
    using assms(1) that by (auto simp: admin_inv_def distinct_map dest: inj_onD)
  have names: "distinct (map (\<lambda>row. ru_Name (rw_base row)) (aw_rules w1))"
  proof -
    have "x = y" if h: "x \<in> set (aw_rules w)" "y \<in> set (aw_rules w)"
      "ru_Name (rw_base (if row_ID x = i then set_rule r now x else x)) = ru_Name (rw_base (if row_ID y = i then set_rule r now y else y))" for x y
    proof (cases "row_ID x = i \<or> row_ID y = i")
      case True
      then have "row_ID x = i" "row_ID y = i" using h c(6) [of x] c(6) [of y] by (auto split: if_splits)
      then show ?thesis using one h by simp
    next
      case False
      then have "ru_Name (rw_base x) = ru_Name (rw_base y)" using h(3) by simp
      moreover have "inj_on (\<lambda>row. ru_Name (rw_base row)) (set (aw_rules w))" using assms(1) by (simp add: admin_inv_def distinct_map)
      ultimately show ?thesis using h(1, 2) by (simp add: inj_on_def)
    qed
    then have "inj_on (\<lambda>row. ru_Name (rw_base (if row_ID row = i then set_rule r now row else row))) (set (aw_rules w))"
      by (rule inj_onI)
    moreover have "distinct (aw_rules w)" using assms(1) by (simp add: admin_inv_def distinct_map)
    ultimately show ?thesis by (simp add: c(1) distinct_map comp_def)
  qed
  show ?thesis unfolding admin_inv_def idset
  proof (intro conjI ballI names)
    show "distinct (map row_ID (aw_rules w1))" using assms(1) ids by (simp add: admin_inv_def)
    show "distinct (aw_links w1)" using assms(1) c(3) by (auto simp: c(2) admin_inv_def distinct_map inj_on_def)
    fix row assume "row \<in> set (aw_rules w1)"
    then show "rule_Validate (scan_rule row) = None" "row_ID row < aw_nextRule w1"
      using assms(1, 2) c(7) by (auto simp: c(1) admin_inv_def set_rule_def scan_columns rule_frame_def split: if_splits)
  next
    fix x assume "x \<in> set (aw_links w1)"
    then show "case x of (j, k) \<Rightarrow> j \<in> row_ID ` set (aw_rules w) \<and> k \<in> ch_ID ` set (aw_channels w1)"
      using assms(1) c(4, 5, 7) by (auto simp: c(2) admin_inv_def rule_frame_def)
  qed (use assms(1) c(7) in \<open>auto simp: admin_inv_def rule_frame_def\<close>)
qed

lemma DeleteNotificationRule_inv: "admin_inv w \<Longrightarrow> admin_inv (snd (DeleteNotificationRule i w))"
  by (fastforce simp: DeleteNotificationRule_def run_admin_def Let_def admin_inv_def distinct_map inj_on_def split: option.split)

lemma DeleteNotificationChannel_inv: "admin_inv w \<Longrightarrow> admin_inv (snd (DeleteNotificationChannel i w))"
  by (fastforce simp: DeleteNotificationChannel_def run_admin_def Let_def admin_inv_def distinct_map inj_on_def split: option.split)

text \<open>The documented behaviour of \<^verbatim>\<open>jsonb\<close> the tables rely on: whatever it does to white space, the order of members
  and numbers, a string stays where it is.\<close>

definition jsonb_keeps_strings :: "(string \<Rightarrow> string option) \<Rightarrow> bool" where
  "jsonb_keeps_strings jsonb \<longleftrightarrow> (\<forall>t t' p. jsonb t = Some t' \<longrightarrow> text_string_at p t' = text_string_at p t)"

lemma stored_config_masked:
  assumes "jsonb_keeps_strings (ae_jsonb env)" "stored_config env ch = Some config" "ch_Type row = ch_Type ch" "ch_Config row = config"
  shows "HasRedactedSecret row \<longleftrightarrow> HasRedactedSecret ch"
proof -
  have "ae_jsonb env (ch_Config ch) = Some config" using assms(2) by (simp add: stored_config_def split: if_splits)
  then have "text_string_at p config = text_string_at p (ch_Config ch)" for p
    using assms(1) unfolding jsonb_keeps_strings_def by blast
  then show ?thesis using assms(3, 4) by (simp add: HasRedactedSecret_iff)
qed

lemma CreateNotificationChannel_inv:
  assumes "admin_inv w" "jsonb_keeps_strings (ae_jsonb env)" "\<not> HasRedactedSecret ch" "CreateNotificationChannel env ch w = (res, w1)"
  shows "admin_inv w1"
  using assms(4) [unfolded CreateNotificationChannel_def]
proof (cases rule: run_admin_cases)
  case failed
  then show ?thesis using assms(1) by (simp add: admin_inv_def)
next
  case ran
  let ?v = "w\<lparr>aw_calls := aw_calls w + 1\<rparr>"
  show ?thesis
  proof (cases res)
    case (Inl err)
    then have "w1 = ?v \<or> w1 = ?v\<lparr>aw_nextChannel := aw_nextChannel w + 1\<rparr>"
      using ran by (auto simp: Let_def split: option.splits if_splits)
    then show ?thesis using assms(1) by (fastforce simp: admin_inv_def)
  next
    case (Inr created)
    then obtain config where c: "stored_config env ch = Some config" "channel_type_ok ch" "\<forall>x \<in> set (aw_channels w). ch_Name x \<noteq> ch_Name ch"
      "created = ch\<lparr>ch_ID := aw_nextChannel w, ch_CreatedAt := db_now ?v, ch_UpdatedAt := db_now ?v\<rparr>"
      "w1 = ?v\<lparr>aw_nextChannel := aw_nextChannel w + 1, aw_channels := aw_channels w @ [created\<lparr>ch_Config := config\<rparr>]\<rparr>"
      using ran by (auto simp: Let_def list_ex_iff split: option.splits if_splits)
    let ?row = "created\<lparr>ch_Config := config\<rparr>"
    have row: "\<not> HasRedactedSecret ?row" "channel_type_ok ?row" "ch_ID ?row = aw_nextChannel w" "ch_Name ?row = ch_Name ch"
      using stored_config_masked [OF assms(2) c(1), of ?row] assms(3) c(2, 4) by (simp_all add: channel_type_ok_def)
    have ids: "ch_ID x < aw_nextChannel w" if "x \<in> set (aw_channels w)" for x using assms(1) that by (simp add: admin_inv_def)
    have chans: "aw_channels w1 = aw_channels w @ [?row]" "aw_nextChannel w1 = aw_nextChannel w + 1" "aw_rules w1 = aw_rules w"
      "aw_links w1 = aw_links w" "aw_nextRule w1 = aw_nextRule w"
      using c(5) by simp_all
    show ?thesis unfolding admin_inv_def chans
    proof (intro conjI)
      show "distinct (map ch_ID (aw_channels w @ [?row]))" using assms(1) ids row(3) by (fastforce simp: admin_inv_def)
      show "distinct (map ch_Name (aw_channels w @ [?row]))" using assms(1) row(4) c(3) by (auto simp: admin_inv_def)
      show "\<forall>ch \<in> set (aw_channels w @ [?row]). \<not> HasRedactedSecret ch \<and> channel_type_ok ch \<and> ch_ID ch < aw_nextChannel w + 1"
        using assms(1) row by (fastforce simp: admin_inv_def)
      show "\<forall>(i, c) \<in> set (aw_links w). i \<in> row_ID ` set (aw_rules w) \<and> c \<in> ch_ID ` set (aw_channels w @ [?row])"
        using assms(1) by (fastforce simp: admin_inv_def)
    qed (use assms(1) in \<open>simp_all add: admin_inv_def\<close>)
  qed
qed

lemma UpdateNotificationChannel_inv:
  assumes "admin_inv w" "jsonb_keeps_strings (ae_jsonb env)" "\<not> HasRedactedSecret ch" "UpdateNotificationChannel env i ch w = (res, w1)"
  shows "admin_inv w1"
proof -
  obtain now w0 where cl: "admin_clock w = (now, w0)" "w0 = w\<lparr>aw_reads := aw_reads w + 1\<rparr>" by (simp add: admin_clock_def)
  let ?v = "w0\<lparr>aw_calls := aw_calls w0 + 1\<rparr>"
  have base: "admin_inv ?v" "admin_inv w0" using assms(1) cl(2) by (simp_all add: admin_inv_def)
  show ?thesis
    using assms(4) [unfolded UpdateNotificationChannel_def cl(1) prod.case]
  proof (cases rule: run_admin_cases)
    case failed
    then show ?thesis using base by simp
  next
    case ran
    show ?thesis
    proof (cases res)
      case (Inl err)
      then have "w1 = ?v" using ran by (auto split: option.splits if_splits)
      then show ?thesis using base by simp
    next
      case (Inr updated)
      let ?set = "\<lambda>config x. if ch_ID x = i then set_channel ch config now x else x"
      obtain config where c: "stored_config env ch = Some config" "channel_type_ok ch"
        "\<And>x. x \<in> set (aw_channels w) \<Longrightarrow> ch_Name x = ch_Name ch \<Longrightarrow> ch_ID x = i"
        "w1 = ?v\<lparr>aw_channels := map (?set config) (aw_channels w)\<rparr>"
        using ran Inr cl(2) by (auto simp: list_ex_iff split: option.splits if_splits)
      have chans: "aw_channels w1 = map (?set config) (aw_channels w)" "aw_nextChannel w1 = aw_nextChannel w" "aw_rules w1 = aw_rules w"
        "aw_links w1 = aw_links w" "aw_nextRule w1 = aw_nextRule w"
        using c(4) cl(2) by simp_all
      have id: "ch_ID (?set config x) = ch_ID x" for x by (simp add: set_channel_def)
      have masked: "\<not> HasRedactedSecret (?set config x) \<and> channel_type_ok (?set config x)" if "x \<in> set (aw_channels w)" for x
        using assms(1, 3) that c(2) stored_config_masked [OF assms(2) c(1), of "set_channel ch config now x"]
        by (auto simp: admin_inv_def set_channel_def channel_type_ok_def)
      have one: "x = y" if "x \<in> set (aw_channels w)" "y \<in> set (aw_channels w)" "ch_ID x = ch_ID y" for x y
        using assms(1) that by (auto simp: admin_inv_def distinct_map dest: inj_onD)
      have "x = y" if h: "x \<in> set (aw_channels w)" "y \<in> set (aw_channels w)" "ch_Name (?set config x) = ch_Name (?set config y)" for x y
      proof (cases "ch_ID x = i \<or> ch_ID y = i")
        case True
        then have "ch_ID x = i" "ch_ID y = i" using h c(3) [of x] c(3) [of y] by (auto simp: set_channel_def split: if_splits)
        then show ?thesis using one h by simp
      next
        case False
        then have "ch_Name x = ch_Name y" using h(3) by simp
        moreover have "inj_on ch_Name (set (aw_channels w))" using assms(1) by (simp add: admin_inv_def distinct_map)
        ultimately show ?thesis using h(1, 2) by (simp add: inj_on_def)
      qed
      then have "inj_on (\<lambda>x. ch_Name (?set config x)) (set (aw_channels w))" by (rule inj_onI)
      moreover have "distinct (aw_channels w)" using assms(1) by (simp add: admin_inv_def distinct_map)
      ultimately have names: "distinct (map ch_Name (map (?set config) (aw_channels w)))" by (simp add: distinct_map comp_def)
      have ids: "map ch_ID (map (?set config) (aw_channels w)) = map ch_ID (aw_channels w)" by (simp add: comp_def id)
      then have idset: "ch_ID ` set (map (?set config) (aw_channels w)) = ch_ID ` set (aw_channels w)" by (metis list.set_map)
      have "\<not> HasRedactedSecret y \<and> channel_type_ok y \<and> ch_ID y < aw_nextChannel w" if h: "y \<in> set (map (?set config) (aw_channels w))" for y
      proof -
        obtain x where x: "x \<in> set (aw_channels w)" "y = ?set config x" using h by auto
        then have "ch_ID x < aw_nextChannel w" using assms(1) by (simp add: admin_inv_def)
        then show ?thesis using masked [OF x(1)] id [of x] x(2) by simp
      qed
      then show ?thesis unfolding admin_inv_def chans idset ids
        using assms(1) names by (simp add: admin_inv_def)
    qed
  qed
qed

section \<open>Requests\<close>

datatype admin_request =
    ListChannelsReq
  | GetChannelReq string
  | CreateChannelReq "channel body"
  | UpdateChannelReq string "channel body"
  | DeleteChannelReq string
  | ListRulesReq
  | GetRuleReq string
  | CreateRuleReq "rule body"
  | UpdateRuleReq string "rule body"
  | DeleteRuleReq string
  | ListLogReq query
  | InsertLogReq log_entry

definition serve :: "admin_env \<Rightarrow> admin_request \<Rightarrow> admin_world \<Rightarrow> admin_world" where
  "serve env req w =
     (case req of
        ListChannelsReq \<Rightarrow> snd (ListChannels w)
      | GetChannelReq i \<Rightarrow> snd (GetChannel i w)
      | CreateChannelReq b \<Rightarrow> snd (CreateChannel env b w)
      | UpdateChannelReq i b \<Rightarrow> snd (UpdateChannel env i b w)
      | DeleteChannelReq i \<Rightarrow> snd (DeleteChannel i w)
      | ListRulesReq \<Rightarrow> snd (ListRules w)
      | GetRuleReq i \<Rightarrow> snd (GetRule i w)
      | CreateRuleReq b \<Rightarrow> snd (CreateRule b w)
      | UpdateRuleReq i b \<Rightarrow> snd (UpdateRule i b w)
      | DeleteRuleReq i \<Rightarrow> snd (DeleteRule i w)
      | ListLogReq q \<Rightarrow> snd (ListLog env q w)
      | InsertLogReq e \<Rightarrow> snd (InsertNotificationLog env e w))"

lemma with_data_snd [simp]: "snd (with_data f res) = snd res"
  by (auto simp: with_data_def split: prod.split response.split)

definition only_read :: "admin_world \<Rightarrow> admin_world \<Rightarrow> bool" where
  "only_read w v \<longleftrightarrow> aw_channels v = aw_channels w \<and> aw_rules v = aw_rules w \<and> aw_links v = aw_links w \<and>
     aw_nextChannel v = aw_nextChannel w \<and> aw_nextRule v = aw_nextRule w"

lemma only_read_inv: "admin_inv w \<Longrightarrow> only_read w v \<Longrightarrow> admin_inv v"
  by (simp add: admin_inv_def only_read_def)

lemma only_read_trans: "only_read u v \<Longrightarrow> only_read v w \<Longrightarrow> only_read u w"
  by (simp add: only_read_def)

lemma run_admin_read: "(\<And>w. only_read w (snd (stmt w))) \<Longrightarrow> only_read w (snd (run_admin stmt w))"
proof -
  assume h: "\<And>w. only_read w (snd (stmt w))"
  show ?thesis
  proof (cases "aw_fail w (aw_calls w)")
    case None
    then show ?thesis using h [of "w\<lparr>aw_calls := aw_calls w + 1\<rparr>"] by (simp add: run_admin_def only_read_def)
  qed (simp add: run_admin_def only_read_def)
qed

lemma store_reads:
  "only_read w (snd (store_ListChannels w))" "only_read w (snd (GetNotificationChannel i w))" "only_read w (snd (ListNotificationRules w))"
  "only_read w (snd (select_rule i w))" "only_read w (snd (loadRuleChannelIDs is w))" "only_read w (snd (ListNotificationLog f w))"
  "only_read w (snd (InsertNotificationLog env e w))"
  unfolding store_ListChannels_def GetNotificationChannel_def ListNotificationRules_def select_rule_def loadRuleChannelIDs_def
    ListNotificationLog_def InsertNotificationLog_def
  by (rule run_admin_read; simp add: only_read_def split: option.split)+

lemma GetNotificationRule_read: "only_read w (snd (GetNotificationRule i w))"
proof -
  obtain r w1 where s: "select_rule i w = (r, w1)" by fastforce
  obtain m w2 where l: "loadRuleChannelIDs [i] w1 = (m, w2)" by fastforce
  have "only_read w w1" "only_read w1 w2" using store_reads(4) [of w i] store_reads(5) [of w1 "[i]"] s l by simp_all
  then show ?thesis using s l only_read_trans by (auto simp: GetNotificationRule_def split: sum.split)
qed

lemma row_answer_read [simp]: "snd (row_answer s res) = snd res"
  by (auto simp: row_answer_def split: prod.split sum.split store_error.split)

lemma UpdateChannel_inv:
  assumes "admin_inv w" "jsonb_keeps_strings (ae_jsonb env)"
  shows "admin_inv (snd (UpdateChannel env idParam body w))"
proof (cases "parse_int64 idParam")
  case (Some i)
  show ?thesis
  proof (cases body)
    case (Inr req)
    obtain g w1 where g: "GetNotificationChannel i w = (g, w1)" by fastforce
    have inv: "admin_inv w1" using only_read_inv [OF assms(1) store_reads(2) [of w i]] g by simp
    show ?thesis
    proof (cases g)
      case (Inl err)
      then show ?thesis using inv g Some Inr by (simp add: UpdateChannel_def)
    next
      case stored: (Inr stored)
      let ?ch = "WithSecretsFrom req stored"
      obtain u w2 where u: "UpdateNotificationChannel env i ?ch w1 = (u, w2)" by fastforce
      show ?thesis
      proof (cases "HasRedactedSecret ?ch \<or> config_refused env ?ch")
        case True
        then show ?thesis using inv g Some Inr stored by (auto simp: UpdateChannel_def Let_def)
      next
        case False
        then have "admin_inv w2" using UpdateNotificationChannel_inv [OF inv assms(2) _ u] by simp
        then show ?thesis using False g Some Inr stored u by (simp add: UpdateChannel_def Let_def)
      qed
    qed
  qed (use assms Some in \<open>simp add: UpdateChannel_def\<close>)
qed (use assms in \<open>simp add: UpdateChannel_def\<close>)

lemma CreateChannel_inv:
  assumes "admin_inv w" "jsonb_keeps_strings (ae_jsonb env)"
  shows "admin_inv (snd (CreateChannel env body w))"
  using assms CreateNotificationChannel_inv [OF assms] by (auto simp: CreateChannel_def split: sum.split prod.split)

lemma rule_handlers_inv:
  assumes "admin_inv w"
  shows "admin_inv (snd (CreateRule b w))" "admin_inv (snd (UpdateRule i b w))"
  using assms CreateNotificationRule_inv [OF assms] UpdateNotificationRule_inv [OF assms]
  by (auto simp: CreateRule_def UpdateRule_def split: sum.split prod.split option.split) (metis surjective_pairing)+

lemma snd_sum_case: "snd (case res of (Inl e, w1) \<Rightarrow> (f e, w1) | (Inr x, w1) \<Rightarrow> (g x, w1)) = snd res"
  by (simp split: prod.split sum.split)

lemma serve_inv:
  assumes "admin_inv w" "jsonb_keeps_strings (ae_jsonb env)"
  shows "admin_inv (serve env req w)"
proof -
  note reads = only_read_inv [OF assms(1)] store_reads GetNotificationRule_read
  show ?thesis
  proof (cases req)
    case (CreateChannelReq b)
    then show ?thesis using CreateChannel_inv [OF assms] by (simp add: serve_def)
  next
    case (UpdateChannelReq i b)
    then show ?thesis using UpdateChannel_inv [OF assms] by (simp add: serve_def)
  next
    case (ListLogReq q)
    then show ?thesis using reads assms(1) by (auto simp: serve_def ListLog_def snd_sum_case split: option.split)
  qed (use reads rule_handlers_inv [OF assms(1)] DeleteNotificationRule_inv [OF assms(1)] DeleteNotificationChannel_inv [OF assms(1)] assms(1) in
       \<open>auto simp: serve_def ListChannels_def ListRules_def GetChannel_def GetRule_def DeleteChannel_def DeleteRule_def snd_sum_case split: option.split\<close>)
qed

definition admin_init :: "admin_world \<Rightarrow> bool" where
  "admin_init w \<longleftrightarrow> aw_channels w = [] \<and> aw_rules w = [] \<and> aw_links w = []"

definition admin_step :: "admin_env \<Rightarrow> admin_world \<Rightarrow> admin_world \<Rightarrow> bool" where
  "admin_step env w v \<longleftrightarrow> jsonb_keeps_strings (ae_jsonb env) \<and> (\<exists>req. v = serve env req w)"

interpretation admin: invariant_system admin_init "admin_step env" admin_inv for env
  by unfold_locales (auto simp: admin_init_def admin_step_def serve_inv, simp add: admin_inv_def)

text \<open>C29: In every state that requests lead to from empty tables, no stored channel has the mask as a secret, every
  stored rule is valid, ids and names are unique, and every link joins a rule and a channel that exist.\<close>

theorem channels_and_rules_stay_sound:
  assumes "reach admin_init (admin_step env) w"
  shows "admin_inv w"
  using assms by (rule admin.reach_inv)

definition answered :: "'a response \<Rightarrow> 'a list" where
  "answered res = (case res of RespData s x \<Rightarrow> [x] | _ \<Rightarrow> [])"

lemma answered_redacted: "list_all secrets_hidden (answered (fst (with_data Redacted res)))"
  by (auto simp: answered_def with_data_def Redacted_hidden split: prod.split response.split)

lemma answered_error [simp]: "answered (RespError s c) = []"
  by (simp add: answered_def)

lemma row_answer_error: "answered (fst (row_answer s (Inl err, w))) = []"
  by (simp add: row_answer_def answered_def split: store_error.split)


text \<open>A test answer never carries the text of a backend's error.\<close>

lemma test_reply_is_sanitized:
  "TestChannel engine gone idParam s w = (Some (RespData code reply), s1, w1) \<Longrightarrow> tr_error reply \<in> {None, Some ''delivery failed''}"
  by (auto simp: TestChannel_def test_answer_def split: option.splits prod.splits sum.splits store_error.splits if_splits)

text \<open>A create requires a name, an update does not.\<close>

lemma update_accepts_empty_name:
  assumes "\<And>n. aw_fail w n = None" "ae_backends env = None" "parse_int64 idParam = Some i"
    and "find (\<lambda>ch. ch_ID ch = i) (aw_channels w) = Some stored" "\<And>x. x \<in> set (aw_channels w) \<Longrightarrow> ch_Name x \<noteq> []"
    and "ch_Name req = []" "ch_Type req = ChannelTypeEmail" "stored_config env req = Some config"
  shows "\<exists>x w1. UpdateChannel env idParam (Inr req) w = (RespData 200 x, w1) \<and> ch_Name x = [] \<and> x \<in> set (aw_channels w1)"
proof -
  let ?v = "w\<lparr>aw_calls := aw_calls w + 1\<rparr>"
  let ?now = "aw_clock w (aw_reads w)"
  let ?x = "set_channel req config ?now stored"
  have keys: "secretKeys ChannelTypeEmail = []" by (simp add: secretKeys_def channel_types)
  have get: "GetNotificationChannel i w = (Inr stored, ?v)" using assms(1, 4) by (simp add: GetNotificationChannel_def run_admin_def)
  have same: "WithSecretsFrom req stored = req" "\<not> HasRedactedSecret req"
    using assms(7) keys by (simp_all add: WithSecretsFrom_def HasRedactedSecret_iff)
  have upd: "UpdateNotificationChannel env i req ?v = (Inr ?x, ?v\<lparr>aw_reads := aw_reads w + 1, aw_calls := aw_calls w + 2,
      aw_channels := map (\<lambda>x. if ch_ID x = i then set_channel req config ?now x else x) (aw_channels w)\<rparr>)"
    using assms by (simp add: UpdateNotificationChannel_def admin_clock_def run_admin_def channel_type_ok_def list_ex_iff)
  have "stored \<in> set (aw_channels w)" "ch_ID stored = i" using find_member [OF assms(4)] by auto
  moreover have "Redacted ?x = ?x" using assms(7) keys by (simp add: Redacted_def set_channel_def)
  ultimately show ?thesis using assms(2, 3, 6) get same upd
    by (auto simp: UpdateChannel_def Let_def config_refused_def row_answer_def with_data_def set_channel_def)
qed

section \<open>A sample administration\<close>

definition sample_admin :: admin_world where
  "sample_admin = \<lparr>aw_channels = [], aw_rules = [], aw_links = [], aw_log = [], aw_nextChannel = 7, aw_nextRule = 1, aw_nextLog = 1,
     aw_calls = 0, aw_fail = \<lambda>n. None, aw_dbNow = \<lambda>n. int n, aw_clock = \<lambda>n. int n, aw_reads = 0\<rparr>"

definition sample_admin_env :: admin_env where
  "sample_admin_env = \<lparr>ae_jsonb = Some, ae_backends = None, ae_parseTime = \<lambda>s. None\<rparr>"

definition sample_alert :: rule where
  "sample_alert = zero_rule\<lparr>ru_Name := ''errors'', ru_EventKind := EventKindAppLog, ru_Level := ''ERROR'', ru_ChannelIDs := [7]\<rparr>"

definition sample_created :: admin_world where
  "sample_created = serve sample_admin_env (CreateChannelReq (Inr sample_hook)) sample_admin"

lemma sample_not_masked: "\<not> HasRedactedSecret sample_hook"
proof -
  have plain: "as_string (JStr ''https://a'') = Some ''https://a''"
    using unquote_plain [of "''https://a''"] by (simp add: as_string_def ascii_def backslash_def)
  have "unmarshal_map (ch_Config sample_hook) = Some [(''url'', JStr ''https://a''), (''method'', JStr ''PUT'')]"
    using sample_decode sample_lits sample_map by (simp add: sample_hook_def unmarshal_map_def)
  then show ?thesis using plain webhook_keys
    by (simp add: HasRedactedSecret_def masked_somewhere_def isMasked_def sample_hook_def RedactedSecret_def)
qed

lemma sample_created_eq:
  "sample_created = sample_admin\<lparr>aw_channels := [sample_hook\<lparr>ch_ID := 7, ch_CreatedAt := 1, ch_UpdatedAt := 1\<rparr>], aw_nextChannel := 8, aw_calls := 1\<rparr>"
proof -
  have "ch_Config sample_hook \<noteq> []" "ch_Name sample_hook = ''hook''" "ch_Type sample_hook = ''webhook''"
    by (simp_all add: sample_hook_def hook_config_def channel_types)
  then show ?thesis using sample_not_masked
    by (simp add: sample_created_def serve_def CreateChannel_def CreateNotificationChannel_def run_admin_def config_refused_def stored_config_def
        channel_type_ok_def channel_types db_now_def sample_admin_def sample_admin_env_def Let_def)
qed

lemma sample_reach: "reach admin_init (admin_step sample_admin_env) sample_created"
proof -
  have "admin_init sample_admin" by (simp add: admin_init_def sample_admin_def)
  moreover have "jsonb_keeps_strings (ae_jsonb sample_admin_env)" by (simp add: jsonb_keeps_strings_def sample_admin_env_def)
  ultimately show ?thesis unfolding sample_created_def by (intro reach_step [OF reach_init]) (auto simp: admin_step_def)
qed

theorem channels_and_rules_stay_sound_witness:
  "reach admin_init (admin_step sample_admin_env) sample_created \<and> length (aw_channels sample_created) = 1 \<and> admin_inv sample_created"
  using channels_and_rules_stay_sound [OF sample_reach] sample_reach by (simp add: sample_created_eq)

lemma sample_admin_inv: "admin_inv sample_created"
  using sample_reach by (rule admin.reach_inv)

definition sample_ruled :: admin_world where
  "sample_ruled = snd (CreateNotificationRule sample_alert sample_created)"

lemma sample_rule_created: "CreateNotificationRule sample_alert sample_created = (Inr (sample_alert\<lparr>ru_ID := 1, ru_CreatedAt := 3, ru_UpdatedAt := 3\<rparr>), sample_ruled)"
  by (simp add: sample_ruled_def CreateNotificationRule_def admin_tx_def run_admin_def insert_rule_def insert_link_def rule_widths_ok_def rule_columns_ok_def
      columns_of_def nullIfEmpty_def between_def int4_def db_now_def sample_created_eq sample_admin_def sample_alert_def zero_rule_def event_kinds Let_def)

theorem created_rule_is_read_back_witness:
  "\<exists>created. CreateNotificationRule sample_alert sample_created = (Inr created, sample_ruled) \<and>
     fst (GetNotificationRule 1 sample_ruled) = Inr (created\<lparr>ru_ChannelIDs := [7]\<rparr>)"
  using created_rule_is_read_back [OF sample_admin_inv sample_rule_created] sample_rule_created
  by (simp add: sample_created_eq sample_admin_def) (simp add: sample_alert_def)

theorem rule_listing_agrees_with_reads_witness:
  "\<exists>r w1. ListNotificationRules sample_ruled = (Inr [r], w1) \<and> fst (GetNotificationRule (ru_ID r) sample_ruled) = Inr r"
proof -
  note c = CreateNotificationRule_Inr [OF sample_rule_created]
  have f: "aw_fail sample_ruled n = None" for n using c(9) by (simp add: sample_created_eq sample_admin_def)
  have rows: "aw_rules sample_ruled = [columns_of (sample_alert\<lparr>ru_ID := 1, ru_CreatedAt := 3, ru_UpdatedAt := 3\<rparr>)]"
    using c(2) by (simp add: sample_created_eq sample_admin_def)
  obtain r w1 where l: "ListNotificationRules sample_ruled = (Inr [r], w1)"
    using f by (simp add: ListNotificationRules_def run_admin_def rows)
  have "distinct (map row_ID (aw_rules sample_ruled))" by (simp add: rows)
  from rule_listing_agrees_with_reads [OF f this l] show ?thesis using l by simp
qed

end
