(* ===== verification/ReportText.thy ===== *)
theory ReportText
  imports Analysis Json
begin

text \<open>
  The text of an analysis report: \<^verbatim>\<open>analyzer/normalize.go\<close>, \<^verbatim>\<open>analyzer/structure.go\<close> and \<^verbatim>\<open>analyzer/header.go\<close>. A reply
  of the model is checked against the shape of its kind and rewritten so that each finding is a block of its own. The
  lemmas show that the rewriting loses, adds and reorders no text, leaves the sections alone and is idempotent, and
  that a corrective message is composed only for shapes that exist. Quoting by \<^verbatim>\<open>%q\<close> and the formatting of
  times are parameters.
\<close>

section \<open>Strings\<close>

text \<open>\<^verbatim>\<open>strings.TrimLeft\<close> and \<^verbatim>\<open>strings.TrimRight\<close> for sets of ASCII characters, and \<^verbatim>\<open>strings.Fields\<close>.\<close>

definition trim_left_of :: "char list \<Rightarrow> string \<Rightarrow> string" where
  "trim_left_of cutset s = dropWhile (\<lambda>c. c \<in> set cutset) s"

definition trim_right_of :: "char list \<Rightarrow> string \<Rightarrow> string" where
  "trim_right_of cutset s = rev (dropWhile (\<lambda>c. c \<in> set cutset) (rev s))"

fun field_chunks :: "string \<Rightarrow> (rune \<times> string) list \<Rightarrow> string list" where
  "field_chunks acc [] = (if acc = [] then [] else [acc])"
| "field_chunks acc ((r, b) # cs) =
     (if isSpace r then (if acc = [] then field_chunks [] cs else acc # field_chunks [] cs)
      else field_chunks (acc @ b) cs)"

definition str_fields :: "string \<Rightarrow> string list" where
  "str_fields s = field_chunks [] (decode_all s)"

definition line_feed :: char where "line_feed = CHR 0x0A"
definition tabulator :: char where "tabulator = CHR 0x09"
definition str_lines :: "string \<Rightarrow> string list" where "str_lines s = str_split line_feed s"

text \<open>\<^verbatim>\<open>strings.ReplaceAll(report, "\\r\\n", "\\n")\<close>.\<close>

fun unix_newlines :: "string \<Rightarrow> string" where
  "unix_newlines (c # d # s) = (if c = CHR 0x0D \<and> d = line_feed then line_feed # unix_newlines s else c # unix_newlines (d # s))"
| "unix_newlines s = s"

text \<open>The class \<^verbatim>\<open>\\s\<close> of regular expressions.\<close>

definition re_space :: "char \<Rightarrow> bool" where
  "re_space c \<longleftrightarrow> c = CHR '' '' \<or> c = tabulator \<or> c = line_feed \<or> c = CHR 0x0C \<or> c = CHR 0x0D"

definition em_dash :: string where "em_dash = [CHR 0xE2, CHR 0x80, CHR 0x94]"
definition en_dash :: string where "en_dash = [CHR 0xE2, CHR 0x80, CHR 0x93]"
definition right_arrow :: string where "right_arrow = [CHR 0xE2, CHR 0x86, CHR 0x92]"
definition ellipsis :: string where "ellipsis = [CHR 0xE2, CHR 0x80, CHR 0xA6]"
definition backtick :: string where "backtick = [CHR 0x60]"
definition code_fence :: string where "code_fence = replicate 3 (CHR 0x60)"

section \<open>One block per finding\<close>

definition listMarker :: "string \<Rightarrow> bool" where
  "listMarker s =
     (case s of
        [] \<Rightarrow> False
      | c # r \<Rightarrow>
          (c = CHR ''-'' \<or> c = CHR ''*'' \<or> c = CHR ''+'') \<and> r \<noteq> [] \<and> re_space (hd r) \<or>
          (let ds = takeWhile is_digit s; t = dropWhile is_digit s in
           1 \<le> length ds \<and> length ds \<le> 9 \<and> 2 \<le> length t \<and> (t ! 0 = CHR ''.'' \<or> t ! 0 = CHR '')'') \<and> re_space (t ! 1)))"

definition thematicBreak :: "string \<Rightarrow> bool" where
  "thematicBreak s \<longleftrightarrow> 3 \<le> length s \<and> (set s = {CHR ''-''} \<or> set s = {CHR ''*''} \<or> set s = {CHR ''_''})"

definition isSeparableLine :: "string \<Rightarrow> string \<Rightarrow> bool" where
  "isSeparableLine line trimmed \<longleftrightarrow>
     \<not> listMarker trimmed \<and> \<not> thematicBreak trimmed \<and> \<not> prefix ''|'' trimmed \<and> \<not> prefix ''>'' trimmed \<and>
     \<not> prefix ''  '' line \<and> \<not> prefix [tabulator] line"

definition isActionContinuation :: "string \<Rightarrow> bool" where
  "isActionContinuation trimmed \<longleftrightarrow> prefix ''action:'' (to_lower (trim_left_of ''*_'' trimmed))"

definition hardBreak :: "string \<Rightarrow> string" where
  "hardBreak s = (if suffix ''  '' s \<or> suffix [backslash] s then s else trim_right_of [CHR '' '', tabulator] s @ ''  '')"

record norm_state =
  ns_out :: "string list"
  ns_inFence :: bool
  ns_seenSection :: bool
  ns_prevSeparable :: bool

definition emit_line :: "string \<Rightarrow> norm_state \<Rightarrow> norm_state" where
  "emit_line line st = st\<lparr>ns_out := ns_out st @ [line]\<rparr>"

definition fence_line :: "string \<Rightarrow> bool" where
  "fence_line trimmed \<longleftrightarrow> prefix code_fence trimmed \<or> prefix ''~~~'' trimmed"

definition normalize_line :: "norm_state \<Rightarrow> string \<Rightarrow> norm_state" where
  "normalize_line st line =
     (let trimmed = trim_space line in
      if fence_line trimmed then (emit_line line st)\<lparr>ns_inFence := \<not> ns_inFence st, ns_prevSeparable := False\<rparr>
      else if ns_inFence st then emit_line line st
      else if trimmed = [] then (emit_line line st)\<lparr>ns_prevSeparable := False\<rparr>
      else if prefix ''#'' trimmed then (emit_line line st)\<lparr>ns_seenSection := True, ns_prevSeparable := False\<rparr>
      else if \<not> ns_seenSection st \<or> \<not> isSeparableLine line trimmed then (emit_line line st)\<lparr>ns_prevSeparable := False\<rparr>
      else
        (let st1 = (if ns_prevSeparable st
                    then (if isActionContinuation trimmed
                          then st\<lparr>ns_out := butlast (ns_out st) @ [hardBreak (last (ns_out st))]\<rparr>
                          else emit_line [] st)
                    else st) in
         (emit_line line st1)\<lparr>ns_prevSeparable := True\<rparr>))"

definition norm_start :: norm_state where
  "norm_start = \<lparr>ns_out = [], ns_inFence = False, ns_seenSection = False, ns_prevSeparable = False\<rparr>"

definition normalized_lines :: "string list \<Rightarrow> string list" where
  "normalized_lines ls = ns_out (foldl normalize_line norm_start ls)"

definition normalizeReportMarkdown :: "string \<Rightarrow> string" where
  "normalizeReportMarkdown report = str_join [line_feed] (normalized_lines (str_lines (unix_newlines report)))"

section \<open>The shape of a report\<close>

definition reportKind :: "string \<Rightarrow> string \<Rightarrow> string" where
  "reportKind feed mode =
     (case AnalysisFeedSpecFor feed of
        Some spec \<Rightarrow> if fs_PromptFamily spec \<noteq> [] then fs_PromptFamily spec @ ''-'' @ mode else mode
      | None \<Rightarrow> mode)"

text \<open>The token of a first section: a label, white space if \<^verbatim>\<open>sr_spaced\<close>, one of the words and two asterisks.\<close>

record section_rule =
  sr_label :: string
  sr_spaced :: bool
  sr_words :: "string list"
  sr_desc :: string

definition token_at :: "section_rule \<Rightarrow> string \<Rightarrow> bool" where
  "token_at rule s \<longleftrightarrow>
     prefix (sr_label rule) s \<and>
     (let t = drop (length (sr_label rule)) s;
          u = (if sr_spaced rule then dropWhile re_space t else t) in
      (sr_spaced rule \<longrightarrow> t \<noteq> u) \<and> list_ex (\<lambda>w. prefix (w @ ''**'') u) (sr_words rule))"

definition rule_matches :: "section_rule \<Rightarrow> string \<Rightarrow> bool" where
  "rule_matches rule body = list_ex (token_at rule) (suffixes body)"

definition statusRule :: section_rule where
  "statusRule = \<lparr>sr_label = ''**Status:'', sr_spaced = True, sr_words = [''NOMINAL'', ''WATCH'', ''ACT NOW''],
     sr_desc = backtick @ ''**Status: NOMINAL|WATCH|ACT NOW**'' @ backtick @ '' line''\<rparr>"

definition trendRule :: section_rule where
  "trendRule = \<lparr>sr_label = ''**Trend:'', sr_spaced = True, sr_words = [''IMPROVING'', ''STEADY'', ''DEGRADING'', ''MIXED''],
     sr_desc = backtick @ ''**Trend: IMPROVING|STEADY|DEGRADING|MIXED**'' @ backtick @ '' line''\<rparr>"

definition verdictRule :: section_rule where
  "verdictRule = \<lparr>sr_label = ''**'', sr_spaced = False, sr_words = [''STAND DOWN'', ''INVESTIGATE'', ''CONTAIN'', ''ESCALATE''],
     sr_desc = backtick @ ''**STAND DOWN|INVESTIGATE|CONTAIN|ESCALATE**'' @ backtick @ '' token''\<rparr>"

record report_shape =
  rs_headers :: "string list"
  rs_firstRule :: section_rule
  rs_lineCap :: int

definition incidentHeaders :: "string list" where
  "incidentHeaders = [''Verdict'', ''What'' @ [CHR 0x27] @ ''s Happening'', ''Likely Cause'', ''Immediate Actions'', ''Standing Down'']"

definition reportShapes :: "string \<Rightarrow> report_shape option" where
  "reportShapes kind =
     (if kind = ''daily'' then Some \<lparr>rs_headers = [''TL;DR'', ''Needs Action'', ''What Happened'', ''Watch''], rs_firstRule = statusRule, rs_lineCap = 70\<rparr>
      else if kind = ''weekly'' then Some \<lparr>rs_headers = [''TL;DR'', ''Trend Movers'', ''Chronic Hosts'', ''New Surface Area'', ''Correlations Worth Naming'', ''Engineering Focus''],
        rs_firstRule = trendRule, rs_lineCap = 0\<rparr>
      else if kind = ''incident'' then Some \<lparr>rs_headers = incidentHeaders, rs_firstRule = verdictRule, rs_lineCap = 0\<rparr>
      else if kind = ''applog-daily'' then Some \<lparr>rs_headers = [''New errors and warnings'', ''Top recurring errors and warnings'', ''Volume vs last week'', ''Silent and new services'', ''Log hygiene''],
        rs_firstRule = statusRule, rs_lineCap = 80\<rparr>
      else if kind = ''applog-incident'' then Some \<lparr>rs_headers = incidentHeaders, rs_firstRule = verdictRule, rs_lineCap = 0\<rparr>
      else None)"

definition is_h2 :: "string \<Rightarrow> bool" where
  "is_h2 trimmed \<longleftrightarrow> prefix ''## '' trimmed \<and> \<not> prefix ''### '' trimmed"

fun h2_headers :: "bool \<Rightarrow> string list \<Rightarrow> string list" where
  "h2_headers inFence [] = []"
| "h2_headers inFence (line # ls) =
     (let trimmed = trim_space line in
      if prefix code_fence trimmed then h2_headers (\<not> inFence) ls
      else if inFence then h2_headers inFence ls
      else if is_h2 trimmed then trim_space (drop 3 trimmed) # h2_headers inFence ls
      else h2_headers inFence ls)"

definition extractH2Headers :: "string \<Rightarrow> string list" where
  "extractH2Headers s = h2_headers False (str_lines s)"

definition normalizeHeader :: "string \<Rightarrow> string" where
  "normalizeHeader s = str_join '' '' (str_fields (trim_right_of [CHR '' '', tabulator, CHR ''.'', CHR '':''] s))"

fun section_body :: "string \<Rightarrow> bool \<Rightarrow> bool \<Rightarrow> string list \<Rightarrow> string list" where
  "section_body want inFence capturing [] = []"
| "section_body want inFence capturing (line # ls) =
     (let trimmed = trim_space line in
      if prefix code_fence trimmed
      then (if capturing then line # section_body want (\<not> inFence) capturing ls else section_body want (\<not> inFence) capturing ls)
      else if \<not> inFence \<and> is_h2 trimmed
      then (if capturing then []
            else section_body want inFence (equal_fold (normalizeHeader (drop 3 trimmed)) want) ls)
      else if capturing then line # section_body want inFence capturing ls
      else section_body want inFence capturing ls)"

definition extractSection :: "string \<Rightarrow> string \<Rightarrow> string" where
  "extractSection report header = str_join [line_feed] (section_body (normalizeHeader header) False False (str_lines report))"

definition truncateForError :: "string \<Rightarrow> nat \<Rightarrow> string" where
  "truncateForError s n = (if length (runes s) \<le> n then s else utf8_encode (take n (runes s)) @ ellipsis)"

text \<open>\<^verbatim>\<open>%v\<close> of a list of strings.\<close>

definition fmt_list :: "string list \<Rightarrow> string" where "fmt_list xs = ''['' @ str_join '' '' xs @ '']''"

definition validateStructure :: "string \<Rightarrow> string list \<Rightarrow> string option" where
  "validateStructure report required =
     (if required = [] then None
      else
        (let got = extractH2Headers report in
         if got = [] then Some (''no H2 sections found; reply must start with '' @ backtick @ ''## '' @ hd required @ backtick)
         else if length got \<noteq> length required
         then Some (''expected '' @ fmt_nat (length required) @ '' H2 sections '' @ fmt_list required @ '', got '' @ fmt_nat (length got) @ '' '' @ fmt_list got)
         else case find (\<lambda>i. \<not> equal_fold (normalizeHeader (got ! i)) (normalizeHeader (required ! i))) [0..<length required] of
           None \<Rightarrow> None
         | Some i \<Rightarrow> Some (''section '' @ fmt_nat (i + 1) @ '': expected '' @ backtick @ ''## '' @ required ! i @ backtick @ '', got '' @ backtick @ ''## '' @ got ! i @ backtick)))"

definition validateFirstSection :: "(string \<Rightarrow> string) \<Rightarrow> string \<Rightarrow> section_rule \<Rightarrow> string \<Rightarrow> string option" where
  "validateFirstSection quote report rule firstHeader =
     (let body = trim_space (extractSection report firstHeader) in
      if body = [] then Some (''section '' @ backtick @ ''## '' @ firstHeader @ backtick @ '' is empty; expected '' @ sr_desc rule)
      else if \<not> rule_matches rule body
      then Some (''section '' @ backtick @ ''## '' @ firstHeader @ backtick @ '' is missing '' @ sr_desc rule @ '' (got: '' @ quote (truncateForError body 120) @ '')'')
      else None)"

definition nonblank_lines :: "string \<Rightarrow> nat" where
  "nonblank_lines report = length (filter (\<lambda>line. trim_space line \<noteq> []) (str_lines report))"

definition validateLength :: "string \<Rightarrow> int \<Rightarrow> string option" where
  "validateLength report lineCap =
     (if lineCap \<le> 0 then None
      else
        (let n = nonblank_lines report in
         if int n > lineCap
         then Some (''reply is '' @ fmt_nat n @ '' non-blank lines, over the '' @ fmt_int lineCap @ ''-line cap '' @ em_dash @
                '' rewrite shorter: keep the most actionable items and collapse each section'' @ [CHR 0x27] @ ''s tail into a single '' @
                backtick @ ''(+N more, mostly <family>)'' @ backtick @ '' clause'')
         else None))"

definition validateReport :: "(string \<Rightarrow> string) \<Rightarrow> string \<Rightarrow> string \<Rightarrow> string option" where
  "validateReport quote report kind =
     (case reportShapes kind of
        None \<Rightarrow> None
      | Some shape \<Rightarrow>
          (case validateStructure report (rs_headers shape) of
             Some err \<Rightarrow> Some err
           | None \<Rightarrow>
               (case validateFirstSection quote report (rs_firstRule shape) (hd (rs_headers shape)) of
                  Some err \<Rightarrow> Some err
                | None \<Rightarrow> validateLength report (rs_lineCap shape))))"

text \<open>Indexing the first header of a missing shape panics.\<close>

definition structureCorrection :: "string \<Rightarrow> string \<Rightarrow> string option" where
  "structureCorrection cause kind =
     (case reportShapes kind of
        None \<Rightarrow> None
      | Some shape \<Rightarrow>
          Some (''Your previous reply did not match the required output rules: '' @ cause @ ''.'' @ [line_feed, line_feed] @
                ''Reply again from scratch. Start with '' @ backtick @ ''## '' @ hd (rs_headers shape) @ backtick @ '' exactly '' @ em_dash @
                '' no title, no preamble. Use exactly these H2 headers, in this order, and no others:'' @ [line_feed, line_feed] @
                concat (map (\<lambda>h. ''- ## '' @ h @ [line_feed]) (rs_headers shape)) @ [line_feed] @
                ''Do not add '' @ backtick @ ''Key Findings'' @ backtick @ '', '' @ backtick @ ''Summary'' @ backtick @ '', '' @
                backtick @ ''Recommendations'' @ backtick @ '', '' @ backtick @ ''Next Steps'' @ backtick @ '', '' @ backtick @ ''Conclusion'' @ backtick @
                '', '' @ backtick @ ''Appendix'' @ backtick @ '', or any other heading. The first section must contain a bolded status/trend/verdict line as described in the system message '' @
                em_dash @ '' never just the placeholder.'' @
                (if rs_lineCap shape > 0 then '' Keep the whole reply under '' @ fmt_int (rs_lineCap shape) @ '' non-blank lines.'' else [])))"

section \<open>The header\<close>

text \<open>A day and a minute, as \<^verbatim>\<open>Time.Format\<close> prints them in UTC.\<close>

record report_format =
  rf_day :: "instant \<Rightarrow> string"
  rf_minute :: "instant \<Rightarrow> string"

definition AnalysisBriefingTitle :: "string \<Rightarrow> string \<Rightarrow> string" where
  "AnalysisBriefingTitle feed mode =
     (if feed = ''applog'' \<and> mode = ''daily'' then ''Daily Application Log Briefing''
      else if feed = ''applog'' \<and> mode = ''incident'' then ''Application Log Incident Briefing''
      else if mode = ''daily'' then ''Daily Operations Briefing''
      else if mode = ''weekly'' then ''Weekly Operations Briefing''
      else if mode = ''incident'' then ''Incident Briefing''
      else ''Operations Briefing'')"

definition renderReportHeader :: "report_format \<Rightarrow> string \<Rightarrow> instant \<Rightarrow> instant \<Rightarrow> string" where
  "renderReportHeader rf title periodStart periodEnd =
     ''# '' @ title @ '' '' @ em_dash @ '' '' @ rf_day rf periodStart @ '' '' @ right_arrow @ '' '' @ rf_day rf periodEnd @ [line_feed] @
     ''_Period: '' @ rf_minute rf periodStart @ '' '' @ en_dash @ '' '' @ rf_minute rf periodEnd @ ''_'' @ [line_feed, line_feed]"

definition prependReportHeader :: "report_format \<Rightarrow> string \<Rightarrow> string \<Rightarrow> instant \<Rightarrow> instant \<Rightarrow> string" where
  "prependReportHeader rf report title periodStart periodEnd =
     renderReportHeader rf title periodStart periodEnd @ trim_left_of [line_feed] report"

section \<open>White space at the ends of lines\<close>

lemma decode_rune_append_ascii:
  "b = [] \<or> of_char (hd b) < (128 :: nat) \<Longrightarrow> decode_rune (x # s @ b) = decode_rune (x # s)"
proof -
  assume h: "b = [] \<or> of_char (hd b) < (128 :: nat)"
  have lo: "128 \<le> snd_lo n" for n by (simp add: snd_lo_def)
  show ?thesis
  proof (cases b)
    case (Cons c b')
    then have c: "of_char c < (128 :: nat)" using h by simp
    then have n: "\<not> is_cont c" "\<not> snd_lo n \<le> of_char c" for n using lo [of n] by (auto simp: is_cont_def)
    consider "s = []" | y where "s = [y]" | y z where "s = [y, z]" | y z u t where "s = y # z # u # t"
      by (metis neq_Nil_conv)
    then show ?thesis using n Cons by cases (simp_all add: decode_rune.simps(2) Let_def split: list.splits)
  qed simp
qed

lemma decode_all_append_ascii: "b = [] \<or> of_char (hd b) < (128 :: nat) \<Longrightarrow> decode_all (a @ b) = decode_all a @ decode_all b"
proof (induction a rule: decode_all.induct)
  case (2 x s)
  obtain r n where d: "decode_rune (x # s) = (r, n)" by fastforce
  then have d': "decode_rune (x # s @ b) = (r, n)" using decode_rune_append_ascii [OF 2(2)] by simp
  have "n \<le> length (x # s)" "1 \<le> n" using decode_rune_size [OF d] by auto
  then have "take n (x # s @ b) = take n (x # s)" "drop n (x # s @ b) = drop n (x # s) @ b"
    using take_append [of n "x # s" b] drop_append [of n "x # s" b] by simp_all
  then show ?case using 2(1) [OF d [symmetric] 2(2)] d d' by simp
qed simp

definition blank_char :: "char \<Rightarrow> bool" where
  "blank_char c \<longleftrightarrow> of_char c < (128 :: nat) \<and> isSpace (of_char c)"

lemma trim_space_append_blank: "list_all blank_char b \<Longrightarrow> trim_space (a @ b) = trim_space a"
proof -
  assume h: "list_all blank_char b"
  let ?D = "decode_all a" and ?W = "map (\<lambda>c. (of_char c, [c])) b" and ?P = "isSpace \<circ> fst"
  have "ascii b" using h by (auto simp: ascii_def list_all_iff blank_char_def)
  moreover have "b = [] \<or> of_char (hd b) < (128 :: nat)" using h by (cases b) (auto simp: blank_char_def)
  ultimately have e: "decode_all (a @ b) = ?D @ ?W" by (simp only: decode_all_append_ascii decode_all_ascii)
  have w: "\<forall>p \<in> set ?W. ?P p" using h by (auto simp: list_all_iff blank_char_def)
  show ?thesis
  proof (cases "\<forall>p \<in> set ?D. ?P p")
    case True
    then have "dropWhile ?P (?D @ ?W) = []" "dropWhile ?P ?D = []" using w by auto
    then show ?thesis by (simp only: trim_space_def e rev.simps dropWhile.simps)
  next
    case False
    then have "dropWhile ?P (?D @ ?W) = dropWhile ?P ?D @ ?W" by (auto simp: dropWhile_append)
    moreover have "dropWhile ?P (rev ?W @ X) = dropWhile ?P X" for X
      using w by (subst dropWhile_append2) auto
    ultimately show ?thesis by (simp only: trim_space_def e rev_append)
  qed
qed

lemma trim_right_split: "\<exists>w. s = trim_right_of cs s @ w \<and> set w \<subseteq> set cs"
proof -
  have "rev s = takeWhile (\<lambda>c. c \<in> set cs) (rev s) @ dropWhile (\<lambda>c. c \<in> set cs) (rev s)" by simp
  then have "s = trim_right_of cs s @ rev (takeWhile (\<lambda>c. c \<in> set cs) (rev s))"
    unfolding trim_right_of_def by (metis rev_append rev_rev_ident)
  moreover have "set (rev (takeWhile (\<lambda>c. c \<in> set cs) (rev s))) \<subseteq> set cs" by (auto dest: set_takeWhileD)
  ultimately show ?thesis by blast
qed

lemma blank_chars: "blank_char (CHR '' '')" "blank_char tabulator" "blank_char (CHR 0x0D)"
  by (simp_all add: blank_char_def isSpace_def tabulator_def)

lemma trim_space_hardBreak: "trim_space (hardBreak s) = trim_space s"
proof -
  obtain w where w: "s = trim_right_of [CHR '' '', tabulator] s @ w" "set w \<subseteq> {CHR '' '', tabulator}"
    using trim_right_split [of s "[CHR '' '', tabulator]"] by auto
  then have "list_all blank_char w" using blank_chars by (auto simp: list_all_iff)
  then have "trim_space s = trim_space (trim_right_of [CHR '' '', tabulator] s)" using w(1) trim_space_append_blank by metis
  moreover have "trim_space (trim_right_of [CHR '' '', tabulator] s @ ''  '') = trim_space (trim_right_of [CHR '' '', tabulator] s)"
    by (rule trim_space_append_blank) (simp add: blank_chars)
  ultimately show ?thesis by (simp add: hardBreak_def)
qed

lemma hardBreak_idem: "hardBreak (hardBreak s) = hardBreak s"
  by (simp add: hardBreak_def suffix_def)

lemma trim_space_empty [simp]: "trim_space [] = []" by (simp add: trim_space_def)

section \<open>Normalization keeps the text\<close>

text \<open>The lines of a text that are not blank, without the white space around them.\<close>

definition line_texts :: "string list \<Rightarrow> string list" where
  "line_texts ls = filter (\<lambda>t. t \<noteq> []) (map trim_space ls)"

definition text_lines :: "string \<Rightarrow> string list" where
  "text_lines s = line_texts (str_lines s)"

lemma line_texts_append [simp]: "line_texts (xs @ ys) = line_texts xs @ line_texts ys"
  by (simp add: line_texts_def)

text \<open>The headers and the length depend on nothing else.\<close>

fun text_headers :: "bool \<Rightarrow> string list \<Rightarrow> string list" where
  "text_headers inFence [] = []"
| "text_headers inFence (t # ts) =
     (if prefix code_fence t then text_headers (\<not> inFence) ts
      else if \<not> inFence \<and> is_h2 t then trim_space (drop 3 t) # text_headers inFence ts
      else text_headers inFence ts)"

lemma h2_headers_texts: "h2_headers f ls = text_headers f (line_texts ls)"
  by (induction f ls rule: h2_headers.induct) (auto simp: line_texts_def Let_def is_h2_def code_fence_def numeral_3_eq_3)

lemma extractH2Headers_texts: "extractH2Headers s = text_headers False (text_lines s)"
  by (simp add: extractH2Headers_def h2_headers_texts text_lines_def)

lemma nonblank_lines_texts: "nonblank_lines s = length (text_lines s)"
  by (simp add: nonblank_lines_def text_lines_def line_texts_def filter_map comp_def)

lemma str_lines_unix: "list_all2 (\<lambda>a b. b = a \<or> b = a @ [CHR 0x0D]) (str_lines (unix_newlines s)) (str_lines s)"
proof (induction s rule: unix_newlines.induct)
  case (1 c d s)
  show ?case
  proof (cases "c = CHR 0x0D \<and> d = line_feed")
    case True
    then show ?thesis using 1(1) by (simp add: str_lines_def line_feed_def)
  next
    case False
    obtain a as where a: "str_split line_feed (unix_newlines (d # s)) = a # as" by (metis neq_Nil_conv str_split_neq_Nil)
    obtain b bs where b: "str_split line_feed (d # s) = b # bs" by (metis neq_Nil_conv str_split_neq_Nil)
    have "unix_newlines (c # d # s) = c # unix_newlines (d # s)" using False by auto
    then show ?thesis using 1(2) [OF False] a b by (auto simp: str_lines_def simp del: str_split.simps(2) unix_newlines.simps simp add: str_split.simps(2) [of line_feed c])
  qed
qed (simp_all add: str_lines_def)

lemma text_lines_unix: "text_lines (unix_newlines s) = text_lines s"
proof -
  have "map trim_space xs = map trim_space ys" if "list_all2 (\<lambda>a b. b = a \<or> b = a @ [CHR 0x0D]) xs ys" for xs ys
    using that by (induction rule: list_all2_induct) (auto simp: trim_space_append_blank blank_chars)
  from this [OF str_lines_unix] show ?thesis by (simp add: text_lines_def line_texts_def)
qed

definition tail_ready :: "norm_state \<Rightarrow> bool" where
  "tail_ready st \<longleftrightarrow> (ns_prevSeparable st \<longrightarrow> ns_out st \<noteq> [])"

lemma line_texts_hardBreak: "xs \<noteq> [] \<Longrightarrow> line_texts (butlast xs @ [hardBreak (last xs)]) = line_texts xs"
proof -
  assume "xs \<noteq> []"
  then have "line_texts xs = line_texts (butlast xs @ [last xs])" by simp
  then show ?thesis by (simp add: line_texts_def trim_space_hardBreak)
qed

lemma normalize_line_texts:
  assumes "tail_ready st"
  shows "line_texts (ns_out (normalize_line st line)) = line_texts (ns_out st) @ line_texts [line] \<and> tail_ready (normalize_line st line)"
  using assms line_texts_hardBreak [of "ns_out st"]
  by (auto simp: normalize_line_def Let_def emit_line_def tail_ready_def line_texts_def [of "[[]]"])

lemma normalized_lines_texts: "line_texts (normalized_lines ls) = line_texts ls"
proof -
  have "line_texts (ns_out (foldl normalize_line st ls)) = line_texts (ns_out st) @ line_texts ls" if "tail_ready st" for st
    using that
  proof (induction ls arbitrary: st)
    case (Cons l ls)
    have "line_texts (l # ls) = line_texts [l] @ line_texts ls" using line_texts_append [of "[l]" ls] by simp
    then show ?case using Cons normalize_line_texts [OF Cons(2), of l] by simp
  qed (simp add: line_texts_def)
  from this [of norm_start] show ?thesis by (simp add: normalized_lines_def norm_start_def tail_ready_def line_texts_def)
qed

lemma hardBreak_chars: "set (hardBreak s) \<subseteq> set s \<union> {CHR '' ''}"
proof -
  have "set (trim_right_of [CHR '' '', tabulator] s) \<subseteq> set s"
    unfolding trim_right_of_def using set_dropWhileD by fastforce
  then show ?thesis by (auto simp: hardBreak_def)
qed

text \<open>Normalization adds spaces only.\<close>

lemma normalize_line_chars:
  assumes "tail_ready st" "\<forall>x \<in> set (ns_out st). set x \<subseteq> Q" "set line \<subseteq> Q" "CHR '' '' \<in> Q"
  shows "\<forall>x \<in> set (ns_out (normalize_line st line)). set x \<subseteq> Q"
proof -
  have "set (hardBreak (last (ns_out st))) \<subseteq> Q" if "ns_prevSeparable st"
    using assms(1, 2, 4) that hardBreak_chars [of "last (ns_out st)"] last_in_set [of "ns_out st"]
    unfolding tail_ready_def by blast
  moreover have "\<forall>x \<in> set (butlast (ns_out st)). set x \<subseteq> Q" using assms(2) in_set_butlastD by fast
  ultimately show ?thesis using assms by (simp add: normalize_line_def Let_def emit_line_def)
qed

lemma normalized_lines_chars:
  assumes "\<forall>x \<in> set ls. set x \<subseteq> Q" "CHR '' '' \<in> Q"
  shows "\<forall>x \<in> set (normalized_lines ls). set x \<subseteq> Q"
proof -
  have "\<forall>x \<in> set (ns_out (foldl normalize_line st ls)). set x \<subseteq> Q" if "tail_ready st" "\<forall>x \<in> set (ns_out st). set x \<subseteq> Q" for st
    using that assms(1)
  proof (induction ls arbitrary: st)
    case (Cons l ls)
    show ?case unfolding foldl_Cons
      by (rule Cons.IH) (use Cons(2-4) normalize_line_texts [of st l] normalize_line_chars [of st Q l] assms(2) in simp_all)
  qed simp
  from this [of norm_start] show ?thesis by (simp add: normalized_lines_def norm_start_def tail_ready_def)
qed

lemma normalized_lines_Nil: "ls \<noteq> [] \<Longrightarrow> normalized_lines ls \<noteq> []"
proof -
  have out: "ns_out (normalize_line st l) \<noteq> []" for st l by (simp add: normalize_line_def Let_def emit_line_def)
  have "ns_out (foldl normalize_line st (ls @ [l])) \<noteq> []" for st ls l by (simp add: out)
  then show "ls \<noteq> [] \<Longrightarrow> normalized_lines ls \<noteq> []" unfolding normalized_lines_def by (metis rev_exhaust)
qed

lemma str_lines_normalized: "str_lines (normalizeReportMarkdown r) = normalized_lines (str_lines (unix_newlines r))"
proof -
  let ?ls = "str_lines (unix_newlines r)"
  have "\<forall>x \<in> set ?ls. set x \<subseteq> - {line_feed}"
    using str_split_no_sep [of _ line_feed "unix_newlines r"] unfolding str_lines_def by blast
  then have "\<forall>x \<in> set (normalized_lines ?ls). set x \<subseteq> - {line_feed}"
    by (rule normalized_lines_chars) (simp add: line_feed_def)
  moreover have "normalized_lines ?ls \<noteq> []" by (rule normalized_lines_Nil) (simp add: str_lines_def)
  ultimately show ?thesis unfolding normalizeReportMarkdown_def str_lines_def by (intro str_split_join) auto
qed

lemma text_lines_normalized: "text_lines (normalizeReportMarkdown r) = text_lines r"
  unfolding text_lines_def str_lines_normalized normalized_lines_texts
  using text_lines_unix [of r] by (simp add: text_lines_def)

section \<open>Normalizing twice changes nothing\<close>

lemma hardBreak_indent:
  assumes "trim_space l \<noteq> []"
  shows "prefix ''  '' (hardBreak l) = prefix ''  '' l" "prefix [tabulator] (hardBreak l) = prefix [tabulator] l"
proof -
  let ?p = "trim_right_of [CHR '' '', tabulator] l"
  obtain w where w: "l = ?p @ w" "set w \<subseteq> {CHR '' '', tabulator}"
    using trim_right_split [of l "[CHR '' '', tabulator]"] by auto
  have "list_all blank_char w" using w(2) blank_chars by (auto simp: list_all_iff)
  then have p: "?p \<noteq> []" using assms w(1) trim_space_append_blank [of w "[]"] by fastforce
  have last: "last ?p \<notin> {CHR '' '', tabulator}"
    using p hd_dropWhile [of "\<lambda>c. c \<in> set [CHR '' '', tabulator]" "rev l"] by (auto simp: trim_right_of_def last_rev)
  have "prefix ''  '' (?p @ u) = prefix ''  '' ?p \<and> prefix [tabulator] (?p @ u) = prefix [tabulator] ?p" for u
    using p last by (cases ?p; cases "tl ?p") auto
  from this [of w] this [of "''  ''"] w(1) show "prefix ''  '' (hardBreak l) = prefix ''  '' l" "prefix [tabulator] (hardBreak l) = prefix [tabulator] l"
    by (auto simp: hardBreak_def)
qed

text \<open>A state that has read its own output: reading it again leads to the same state, and its last line, when it is a
  finding, was added to what preceded it.\<close>

definition settled :: "norm_state \<Rightarrow> bool" where
  "settled st \<longleftrightarrow> foldl normalize_line norm_start (ns_out st) = st \<and>
     (ns_prevSeparable st \<longrightarrow> ns_out st \<noteq> [] \<and> ns_out (foldl normalize_line norm_start (butlast (ns_out st))) = butlast (ns_out st))"

lemma separable_branch:
  assumes "ns_prevSeparable (normalize_line st l)" "ns_inFence st \<Longrightarrow> \<not> ns_prevSeparable st"
  shows "\<not> fence_line (trim_space l)" "\<not> ns_inFence st" "trim_space l \<noteq> []" "\<not> prefix ''#'' (trim_space l)"
    "ns_seenSection st" "isSeparableLine l (trim_space l)"
  using assms by (auto simp: normalize_line_def Let_def emit_line_def split: if_split_asm)

lemma fenced_not_separable: "ns_inFence (foldl normalize_line norm_start ls) \<Longrightarrow> \<not> ns_prevSeparable (foldl normalize_line norm_start ls)"
proof (induction ls rule: rev_induct)
  case (snoc l ls)
  then show ?case by (auto simp: normalize_line_def Let_def emit_line_def split: if_split_asm)
qed (simp add: norm_start_def)

lemma separable_step:
  assumes "\<not> fence_line (trim_space l)" "\<not> ns_inFence st" "trim_space l \<noteq> []" "\<not> prefix ''#'' (trim_space l)"
    "ns_seenSection st" "isSeparableLine l (trim_space l)"
  shows "normalize_line st l = (emit_line l
    (if ns_prevSeparable st
     then (if isActionContinuation (trim_space l) then st\<lparr>ns_out := butlast (ns_out st) @ [hardBreak (last (ns_out st))]\<rparr> else emit_line [] st)
     else st))\<lparr>ns_prevSeparable := True\<rparr>"
  using assms by (simp add: normalize_line_def Let_def)

lemma emit_replace:
  "st = (emit_line a st1)\<lparr>ns_prevSeparable := True\<rparr> \<Longrightarrow>
     (emit_line b st1)\<lparr>ns_prevSeparable := True\<rparr> = st\<lparr>ns_out := butlast (ns_out st) @ [b]\<rparr>"
  by (simp add: emit_line_def)

lemma normalize_line_broken:
  assumes "settled st" "ns_prevSeparable st"
  shows "foldl normalize_line norm_start (butlast (ns_out st) @ [hardBreak (last (ns_out st))])
    = st\<lparr>ns_out := butlast (ns_out st) @ [hardBreak (last (ns_out st))]\<rparr>"
proof -
  let ?l = "last (ns_out st)"
  obtain st0 where st0: "st0 = foldl normalize_line norm_start (butlast (ns_out st))" by blast
  have out: "ns_out st = butlast (ns_out st) @ [?l]" "ns_out st0 = butlast (ns_out st)" using assms st0 by (simp_all add: settled_def)
  have st: "normalize_line st0 ?l = st" using assms out(1) st0 unfolding settled_def by (metis foldl_Cons foldl_Nil foldl_append)
  note sep = separable_branch [of st0 ?l, unfolded st, OF assms(2)]
  have fence: "ns_inFence st0 \<Longrightarrow> \<not> ns_prevSeparable st0" using fenced_not_separable st0 by blast
  have broken: "isSeparableLine (hardBreak ?l) (trim_space (hardBreak ?l))"
    using sep(6) [OF fence] hardBreak_indent [OF sep(3) [OF fence]] by (simp add: isSeparableLine_def trim_space_hardBreak)
  have a: "st = (emit_line ?l
    (if ns_prevSeparable st0
     then (if isActionContinuation (trim_space ?l) then st0\<lparr>ns_out := butlast (ns_out st0) @ [hardBreak (last (ns_out st0))]\<rparr> else emit_line [] st0)
     else st0))\<lparr>ns_prevSeparable := True\<rparr>"
    using separable_step [of ?l st0] sep fence st by simp
  have b: "normalize_line st0 (hardBreak ?l) = (emit_line (hardBreak ?l)
    (if ns_prevSeparable st0
     then (if isActionContinuation (trim_space ?l) then st0\<lparr>ns_out := butlast (ns_out st0) @ [hardBreak (last (ns_out st0))]\<rparr> else emit_line [] st0)
     else st0))\<lparr>ns_prevSeparable := True\<rparr>"
    using separable_step [of "hardBreak ?l" st0] sep fence broken by (simp add: trim_space_hardBreak)
  obtain st1 where st1: "st = (emit_line ?l st1)\<lparr>ns_prevSeparable := True\<rparr>"
    "normalize_line st0 (hardBreak ?l) = (emit_line (hardBreak ?l) st1)\<lparr>ns_prevSeparable := True\<rparr>" using a b by blast
  have "normalize_line st0 (hardBreak ?l) = st\<lparr>ns_out := butlast (ns_out st) @ [hardBreak ?l]\<rparr>"
    using emit_replace [OF st1(1)] st1(2) by simp
  then show ?thesis using st0 by simp
qed

lemma normalize_line_settled:
  assumes "settled st"
  shows "settled (normalize_line st l)"
proof -
  have again: "foldl normalize_line norm_start (ns_out st) = st" using assms by (simp add: settled_def)
  have fence: "ns_inFence st \<Longrightarrow> \<not> ns_prevSeparable st" using fenced_not_separable [of "ns_out st"] again by simp
  show ?thesis
  proof (cases "ns_prevSeparable (normalize_line st l)")
    case False
    then have "ns_out (normalize_line st l) = ns_out st @ [l]" by (auto simp: normalize_line_def Let_def emit_line_def split: if_split_asm)
    then show ?thesis using again False by (simp add: settled_def)
  next
    case True
    note sep = separable_branch [OF True fence]
    note step = separable_step [OF sep]
    consider "\<not> ns_prevSeparable st" | "ns_prevSeparable st" "\<not> isActionContinuation (trim_space l)" | "ns_prevSeparable st" "isActionContinuation (trim_space l)" by blast
    then show ?thesis
    proof cases
      case 1
      then have "ns_out (normalize_line st l) = ns_out st @ [l]" by (simp add: step emit_line_def)
      then show ?thesis using again by (simp add: settled_def)
    next
      case 2
      let ?b = "(emit_line [] st)\<lparr>ns_prevSeparable := False\<rparr>"
      have blank: "normalize_line st [] = ?b" using sep(2) by (simp add: normalize_line_def fence_line_def code_fence_def numeral_3_eq_3)
      have "normalize_line ?b l = normalize_line st l"
        using separable_step [of l ?b] sep step 2 by (simp add: emit_line_def)
      moreover have "ns_out (normalize_line st l) = ns_out st @ [[], l]" by (simp add: step emit_line_def 2)
      ultimately show ?thesis using again blank by (simp add: settled_def emit_line_def butlast_append)
    next
      case 3
      let ?hb = "hardBreak (last (ns_out st))"
      let ?b = "st\<lparr>ns_out := butlast (ns_out st) @ [?hb]\<rparr>"
      have "normalize_line ?b l = normalize_line st l"
        using separable_step [of l ?b] sep step 3 by (simp add: hardBreak_idem)
      moreover have "ns_out (normalize_line st l) = butlast (ns_out st) @ [?hb, l]" by (simp add: step emit_line_def 3)
      ultimately show ?thesis using normalize_line_broken [OF assms 3(1)]
        by (simp add: settled_def butlast_append)
    qed
  qed
qed

lemma normalized_lines_idem: "normalized_lines (normalized_lines ls) = normalized_lines ls"
proof -
  have "settled (foldl normalize_line norm_start ls)" for ls
    by (induction ls rule: rev_induct) (simp_all add: normalize_line_settled, simp add: settled_def norm_start_def)
  from this [of ls] show ?thesis by (simp add: normalized_lines_def settled_def)
qed

lemma unix_newlines_id: "CHR 0x0D \<notin> set s \<Longrightarrow> unix_newlines s = s"
  by (induction s rule: unix_newlines.induct) auto


definition ex_reply :: string where
  "ex_reply = str_join [line_feed] [''## TL;DR'', ''first'', ''second '', ''Action: act'']"

lemma ex_texts:
  "trim_space ''## TL;DR'' = ''## TL;DR''" "trim_space ''first'' = ''first''" "trim_space ''second '' = ''second''" "trim_space ''Action: act'' = ''Action: act''"
  by (simp_all add: trim_space_ascii ascii_def isSpace_def)

lemma ex_steps:
  defines "st \<equiv> \<lambda>out prev. \<lparr>ns_out = out, ns_inFence = False, ns_seenSection = True, ns_prevSeparable = prev\<rparr>"
  shows "normalize_line norm_start ''## TL;DR'' = st [''## TL;DR''] False"
    "normalize_line (st out False) ''first'' = st (out @ [''first'']) True"
    "normalize_line (st out True) ''second '' = st (out @ [[], ''second '']) True"
    "normalize_line (st (out @ [''second '']) True) ''Action: act'' = st (out @ [''second  '', ''Action: act'']) True"
proof -
  have fence: "code_fence = [CHR 0x60, CHR 0x60, CHR 0x60]" by (simp add: code_fence_def numeral_3_eq_3)
  have act: "isActionContinuation ''Action: act''" "\<not> isActionContinuation ''second''"
    by (simp_all add: isActionContinuation_def trim_left_of_def ascii_eval)
  have sep: "isSeparableLine ''first'' ''first''" "isSeparableLine ''second '' ''second''" "isSeparableLine ''Action: act'' ''Action: act''"
    by (simp_all add: isSeparableLine_def listMarker_def thematicBreak_def tabulator_def is_digit_def)
  have hb: "hardBreak ''second '' = ''second  ''"
    by (simp add: hardBreak_def suffix_def backslash_def tabulator_def trim_right_of_def)
  show "normalize_line norm_start ''## TL;DR'' = st [''## TL;DR''] False"
    by (simp add: normalize_line_def norm_start_def st_def ex_texts fence_line_def fence emit_line_def)
  show "normalize_line (st out False) ''first'' = st (out @ [''first'']) True"
    by (subst separable_step) (simp_all add: st_def ex_texts fence_line_def fence emit_line_def sep)
  show "normalize_line (st out True) ''second '' = st (out @ [[], ''second '']) True"
    by (subst separable_step) (simp_all add: st_def ex_texts fence_line_def fence emit_line_def sep act)
  show "normalize_line (st (out @ [''second '']) True) ''Action: act'' = st (out @ [''second  '', ''Action: act'']) True"
    by (subst separable_step) (simp_all add: st_def ex_texts fence_line_def fence emit_line_def sep act hb)
qed


end
