(* ===== verification/AnalysisRun.thy ===== *)
theory AnalysisRun
  imports Complex_Main ReportText "HOL-Library.Product_Lexorder"
begin

text \<open>
  One run of the analyzer: the gathering of data in \<^verbatim>\<open>analyzer/gather.go\<close>, the client of the model server in
  \<^verbatim>\<open>ollama/client.go\<close> and \<^verbatim>\<open>analyzer/run.go\<close>. Lookups in the database, HTTP, the decoding of an answer, the rendering of
  prompts and the gathering for application logs are parameters. The lemmas show that a failed lookup costs its section
  and nothing else, and that a run keeps the better of at most two complete replies. Rates are exact rationals.
\<close>

section \<open>What is gathered\<close>

record analysis_scope =
  sp_Feed :: string
  sp_Hosts :: "string list"
  sp_Services :: "string list"

definition IsAllHosts :: "analysis_scope \<Rightarrow> bool" where "IsAllHosts s \<longleftrightarrow> sp_Hosts s = []"
definition IsAllServices :: "analysis_scope \<Rightarrow> bool" where "IsAllServices s \<longleftrightarrow> sp_Services s = []"

record sample_message =
  sm_Hostname :: string
  sm_ReceivedAt :: instant
  sm_Severity :: int
  sm_Message :: string

record msgid_count =
  mc_MsgID :: string
  mc_Count :: int
  mc_HostCount :: int
  mc_TopHosts :: "(string \<times> int) list"
  mc_SeverityCounts :: "(int \<times> int) list"
  mc_Samples :: "sample_message list"

record severity_level =
  sl_Severity :: int
  sl_Label :: string
  sl_Current :: rat
  sl_BaselineAvg :: rat
  sl_ChangePct :: rat

record host_error_count =
  he_Hostname :: string
  he_Count :: int
  he_TopMsgID :: string

record event_cluster =
  ec_Bucket :: instant
  ec_Hosts :: "string list"
  ec_MsgIDs :: "string list"
  ec_Total :: int

record program_count =
  pc_Programname :: string
  pc_Count :: int
  pc_ErrorCount :: int
  pc_SeverityCounts :: "(int \<times> int) list"

record facility_count =
  fc_Facility :: int
  fc_Label :: string
  fc_Count :: int
  fc_ErrorCount :: int

record volume_bucket =
  vb_Bucket :: instant
  vb_Total :: int
  vb_ErrorCount :: int

record juniper_ref =
  jr_ID :: int
  jr_Name :: string
  jr_Message :: string
  jr_Description :: string
  jr_Type :: string
  jr_Severity :: string
  jr_Cause :: string
  jr_Action :: string
  jr_OS :: string
  jr_CreatedAt :: instant

record analysis_data =
  ad_Feed :: string
  ad_Hosts :: "string list"
  ad_Period :: duration
  ad_PeriodLabel :: string
  ad_PeriodStart :: instant
  ad_PeriodEnd :: instant
  ad_TopMsgIDs :: "msgid_count list"
  ad_SeverityComparison :: "severity_level list"
  ad_TopErrorHosts :: "host_error_count list"
  ad_NewMsgIDs :: "string list"
  ad_NewMsgIDsOmitted :: nat
  ad_NewMsgIDSamples :: "string \<rightharpoonup> sample_message"
  ad_EventClusters :: "event_cluster list"
  ad_TopPrograms :: "program_count list"
  ad_TopFacilities :: "facility_count list"
  ad_VolumeTimeline :: "volume_bucket list"
  ad_VolumeSparkline :: string
  ad_ErrorSparkline :: string
  ad_VolumePeaks :: "string list"
  ad_VolumeBucketLabel :: string
  ad_JuniperRefs :: "string \<rightharpoonup> juniper_ref"
  ad_Unavailable :: "string set"

definition topMsgIDLimit :: nat where "topMsgIDLimit = 25"
definition topHostLimit :: nat where "topHostLimit = 15"
definition topProgramLimit :: nat where "topProgramLimit = 10"
definition topFacilityLimit :: nat where "topFacilityLimit = 8"
definition clusterWindowMin :: int where "clusterWindowMin = 5"
definition newMsgIDLimit :: nat where "newMsgIDLimit = 20"
definition topMsgIDSampleCount :: nat where "topMsgIDSampleCount = 2"

section \<open>Timelines\<close>

definition pickBucketMinutes :: "duration \<Rightarrow> int" where
  "pickBucketMinutes period =
     (if period \<le> 6 * hour then 5 else if period \<le> 36 * hour then 60 else if period \<le> 8 * 24 * hour then 360 else 1440)"

definition bucketLabel :: "int \<Rightarrow> string" where
  "bucketLabel minutes =
     (if minutes mod 1440 = 0 then fmt_int (minutes div 1440) @ '' day''
      else if minutes mod 60 = 0 then fmt_int (minutes div 60) @ '' hour''
      else fmt_int minutes @ '' minutes'')"

definition sparkBlocks :: "string list" where
  "sparkBlocks = '' '' # map (\<lambda>k. [CHR 0xE2, CHR 0x96, byte (128 + k)]) [1..<9]"

definition spark_cell :: "int \<Rightarrow> int \<Rightarrow> string" where
  "spark_cell maxv c =
     (if c \<le> 0 then sparkBlocks ! 0
      else (let steps = int (length sparkBlocks) - 1; idx = (c * steps + maxv - 1) div maxv in
            sparkBlocks ! nat (if idx < 1 then 1 else idx)))"

definition sparkline :: "int list \<Rightarrow> string" where
  "sparkline counts =
     (if counts = [] then []
      else (let maxv = foldl (\<lambda>m c. if c > m then c else m) 0 counts in
            if maxv = 0 then replicate (length counts) (CHR '' '')
            else concat (map (spark_cell maxv) counts)))"

text \<open>The sort of \<^verbatim>\<open>topPeakBuckets\<close> is stable; \<^verbatim>\<open>format\<close> prints an instant by a layout.\<close>

definition topPeakBuckets :: "(string \<Rightarrow> instant \<Rightarrow> string) \<Rightarrow> volume_bucket list \<Rightarrow> int \<Rightarrow> string \<Rightarrow> string list" where
  "topPeakBuckets format buckets n layout =
     (if buckets = [] \<or> n \<le> 0 then []
      else
        (let scored = sort_key (\<lambda>b. (- vb_ErrorCount b, - vb_Total b)) buckets in
         map (\<lambda>b. format layout (vb_Bucket b) @ '' ('' @ fmt_int (vb_ErrorCount b) @ '' err / '' @ fmt_int (vb_Total b) @ '' total)'')
           (filter (\<lambda>b. \<not> (vb_ErrorCount b = 0 \<and> vb_Total b = 0)) (take (nat n) scored))))"

definition peakTimeFormat :: "int \<Rightarrow> string" where
  "peakTimeFormat bucketMinutes =
     (if bucketMinutes < 60 then ''01-02 15:04'' else if bucketMinutes < 1440 then ''01-02 15:00'' else ''2006-01-02'')"

definition window_label :: "(duration \<Rightarrow> string) \<Rightarrow> duration \<Rightarrow> string" where
  "window_label durationString d =
     (let days = d div (24 * hour) in
      if days \<ge> 30 then ''30 days'' else if days \<ge> 7 then ''7 days'' else if d \<ge> 24 * hour then ''24 hours'' else durationString d)"

section \<open>Gathering\<close>

text \<open>The lookups, the state of the context after the n-th best-effort lookup, and the printers.\<close>

record gather_env =
  gx_TopMsgIDs :: "analysis_scope \<Rightarrow> instant \<Rightarrow> nat \<Rightarrow> run_error + msgid_count list"
  gx_SeverityComparison :: "analysis_scope \<Rightarrow> instant \<Rightarrow> instant \<Rightarrow> run_error + severity_level list"
  gx_TopErrorHosts :: "analysis_scope \<Rightarrow> instant \<Rightarrow> nat \<Rightarrow> run_error + host_error_count list"
  gx_NewMsgIDs :: "analysis_scope \<Rightarrow> instant \<Rightarrow> instant \<Rightarrow> run_error + string list"
  gx_EventClusters :: "analysis_scope \<Rightarrow> instant \<Rightarrow> int \<Rightarrow> run_error + event_cluster list"
  gx_MsgIDSamples :: "analysis_scope \<Rightarrow> instant \<Rightarrow> string list \<Rightarrow> nat \<Rightarrow> run_error + (string \<rightharpoonup> sample_message list)"
  gx_TopPrograms :: "analysis_scope \<Rightarrow> instant \<Rightarrow> nat \<Rightarrow> run_error + program_count list"
  gx_TopFacilities :: "analysis_scope \<Rightarrow> instant \<Rightarrow> nat \<Rightarrow> run_error + facility_count list"
  gx_VolumeTimeline :: "analysis_scope \<Rightarrow> instant \<Rightarrow> instant \<Rightarrow> int \<Rightarrow> run_error + volume_bucket list"
  gx_JuniperRefs :: "string list \<Rightarrow> run_error + (string \<rightharpoonup> juniper_ref)"
  gx_ctx :: "nat \<Rightarrow> run_error option"
  gx_format :: "string \<Rightarrow> instant \<Rightarrow> string"
  gx_duration :: "duration \<Rightarrow> string"

text \<open>A best-effort lookup: how many were made and which sections are unavailable is the state; the rest of the
  gathering is the continuation.\<close>

type_synonym lookups = "nat \<times> string set"

definition bestEffort :: "(nat \<Rightarrow> run_error option) \<Rightarrow> string \<Rightarrow> 'a \<Rightarrow> run_error + 'a \<Rightarrow> lookups \<Rightarrow> (run_error + 'a) \<times> lookups" where
  "bestEffort ctx sect zero res s =
     (case s of (n, unavailable) \<Rightarrow>
      case res of
        Inr v \<Rightarrow> (Inr v, n + 1, unavailable)
      | Inl err \<Rightarrow> (case ctx (n + 1) of None \<Rightarrow> Inr zero | Some e \<Rightarrow> Inl e, n + 1, insert sect unavailable))"

definition and_then :: "(run_error + 'a) \<times> lookups \<Rightarrow> ('a \<Rightarrow> lookups \<Rightarrow> run_error + 'b) \<Rightarrow> run_error + 'b" where
  "and_then r k = (case r of (Inl e, s) \<Rightarrow> Inl e | (Inr v, s) \<Rightarrow> k v s)"

definition capNewMsgIDs :: "string list \<Rightarrow> (string \<rightharpoonup> sample_message) \<Rightarrow> nat \<Rightarrow> string list \<times> nat" where
  "capNewMsgIDs ids samples limit =
     (if length ids \<le> limit then (ids, 0)
      else (let severity = (\<lambda>i. case samples i of Some s \<Rightarrow> sm_Severity s | None \<Rightarrow> 8) in
            (take limit (sort_key severity ids), length ids - limit)))"

definition per_day :: "duration \<Rightarrow> severity_level list \<Rightarrow> severity_level list" where
  "per_day period levels =
     (let periodDays = (of_int period :: rat) / of_int (24 * hour) in
      if periodDays > 0
      then map (\<lambda>lvl. let current = sl_Current lvl / periodDays in
                  lvl\<lparr>sl_Current := current,
                      sl_ChangePct := (if sl_BaselineAvg lvl > 0 then (current - sl_BaselineAvg lvl) / sl_BaselineAvg lvl * 100 else 0)\<rparr>) levels
      else levels)"

definition attach_samples :: "(string \<rightharpoonup> sample_message list) \<Rightarrow> msgid_count list \<Rightarrow> msgid_count list" where
  "attach_samples samples = map (\<lambda>mc. case samples (mc_MsgID mc) of Some s \<Rightarrow> mc\<lparr>mc_Samples := s\<rparr> | None \<Rightarrow> mc)"

definition first_samples :: "(string \<rightharpoonup> sample_message list) \<Rightarrow> string \<rightharpoonup> sample_message" where
  "first_samples samples k = (case samples k of Some (s # _) \<Rightarrow> Some s | _ \<Rightarrow> None)"

definition gather :: "gather_env \<Rightarrow> analysis_scope \<Rightarrow> duration \<Rightarrow> instant \<Rightarrow> run_error + analysis_data" where
  "gather gx scope period periodEnd =
     (let periodStart = periodEnd - period; baselineStart = periodStart - 7 * 24 * hour; feed = sp_Feed scope in
      case gx_TopMsgIDs gx scope periodStart topMsgIDLimit of
        Inl err \<Rightarrow> Inl err
      | Inr topMsgIDs \<Rightarrow>
      case gx_SeverityComparison gx scope periodStart baselineStart of
        Inl err \<Rightarrow> Inl err
      | Inr levels \<Rightarrow>
      and_then (if IsAllHosts scope then bestEffort (gx_ctx gx) ''top_error_hosts'' [] (gx_TopErrorHosts gx scope periodStart topHostLimit) (0, {})
                else (Inr [], 0, {})) (\<lambda>errorHosts s.
      and_then (if IsAllHosts scope then bestEffort (gx_ctx gx) ''event_clusters'' [] (gx_EventClusters gx scope periodStart clusterWindowMin) s
                else (Inr [], s)) (\<lambda>clusters s.
      and_then (bestEffort (gx_ctx gx) ''new_msgids'' [] (gx_NewMsgIDs gx scope periodStart baselineStart) s) (\<lambda>newMsgIDs s.
      and_then (if topMsgIDs \<noteq> []
                then bestEffort (gx_ctx gx) ''top_msgid_samples'' Map.empty
                       (gx_MsgIDSamples gx scope periodStart (map mc_MsgID topMsgIDs) topMsgIDSampleCount) s
                else (Inr Map.empty, s)) (\<lambda>samples s.
      let bucketMinutes = pickBucketMinutes period in
      and_then (bestEffort (gx_ctx gx) ''volume_timeline'' [] (gx_VolumeTimeline gx scope periodStart periodEnd bucketMinutes) s) (\<lambda>timeline s.
      and_then (if feed \<noteq> ''netlog'' then bestEffort (gx_ctx gx) ''top_programs'' [] (gx_TopPrograms gx scope periodStart topProgramLimit) s
                else (Inr [], s)) (\<lambda>programs s.
      and_then (if feed \<noteq> ''netlog'' then bestEffort (gx_ctx gx) ''top_facilities'' [] (gx_TopFacilities gx scope periodStart topFacilityLimit) s
                else (Inr [], s)) (\<lambda>facilities s.
      and_then (if newMsgIDs \<noteq> []
                then bestEffort (gx_ctx gx) ''new_msgid_samples'' Map.empty (gx_MsgIDSamples gx scope periodStart newMsgIDs 1) s
                else (Inr Map.empty, s)) (\<lambda>newSamples s.
      case capNewMsgIDs newMsgIDs (first_samples newSamples) newMsgIDLimit of (shown, omitted) \<Rightarrow>
      and_then (if feed = ''netlog''
                then bestEffort (gx_ctx gx) ''juniper_refs'' Map.empty (gx_JuniperRefs gx (map mc_MsgID topMsgIDs @ shown)) s
                else (Inr Map.empty, s)) (\<lambda>refs s.
      Inr \<lparr>ad_Feed = feed, ad_Hosts = sp_Hosts scope, ad_Period = period, ad_PeriodLabel = window_label (gx_duration gx) period,
           ad_PeriodStart = periodStart, ad_PeriodEnd = periodEnd, ad_TopMsgIDs = attach_samples samples topMsgIDs,
           ad_SeverityComparison = per_day period levels, ad_TopErrorHosts = errorHosts, ad_NewMsgIDs = shown,
           ad_NewMsgIDsOmitted = omitted, ad_NewMsgIDSamples = first_samples newSamples, ad_EventClusters = clusters,
           ad_TopPrograms = programs, ad_TopFacilities = facilities, ad_VolumeTimeline = timeline,
           ad_VolumeSparkline = (if timeline = [] then [] else sparkline (map vb_Total timeline)),
           ad_ErrorSparkline = (if timeline = [] then [] else sparkline (map vb_ErrorCount timeline)),
           ad_VolumePeaks = (if timeline = [] then [] else topPeakBuckets (gx_format gx) timeline 3 (peakTimeFormat bucketMinutes)),
           ad_VolumeBucketLabel = bucketLabel bucketMinutes, ad_JuniperRefs = refs, ad_Unavailable = snd s\<rparr>))))))))))"

section \<open>The model server\<close>

record chat_message =
  cm_Role :: string
  cm_Content :: string

record chat_request =
  cr_Model :: string
  cr_Messages :: "chat_message list"
  cr_Stream :: bool
  cr_Temperature :: rat
  cr_NumCtx :: int
  cr_Truncate :: "bool option"
  cr_Shift :: "bool option"

record chat_response =
  cs_Message :: chat_message
  cs_TotalDuration :: int
  cs_PromptEvalCount :: int
  cs_EvalCount :: int
  cs_DoneReason :: string

definition DoneReasonLength :: string where "DoneReasonLength = ''length''"

text \<open>A request fails in transport, always with a URL error that may be due to the deadline, or is answered.\<close>

datatype do_error = DoDeadline | DoURL string

datatype chat_error = ChatTransport do_error | StatusError int string | ChatDecode string

record ollama_env =
  ox_tags :: "do_error + int"
  ox_post :: "nat \<Rightarrow> chat_request \<Rightarrow> do_error + int \<times> string"
  ox_decode :: "string \<Rightarrow> string + chat_response"

text \<open>The requests sent so far are the state of a run.\<close>

definition Chat :: "ollama_env \<Rightarrow> chat_request \<Rightarrow> chat_request list \<Rightarrow> (chat_error + chat_response) \<times> chat_request list" where
  "Chat env req0 sent =
     (let req = req0\<lparr>cr_Stream := False\<rparr> in
      (case ox_post env (length sent) req of
         Inl err \<Rightarrow> Inl (ChatTransport err)
       | Inr (code, body) \<Rightarrow>
           if code \<noteq> 200 then Inl (StatusError code (take 1024 body))
           else (case ox_decode env body of Inl err \<Rightarrow> Inl (ChatDecode err) | Inr resp \<Rightarrow> Inr resp),
       sent @ [req]))"

definition transport_error :: "do_error \<Rightarrow> run_error" where
  "transport_error err = (case err of DoDeadline \<Rightarrow> DeadlineExceeded | DoURL m \<Rightarrow> BackendURL m)"

definition Ping :: "ollama_env \<Rightarrow> run_error option" where
  "Ping env =
     (case ox_tags env of
        Inl err \<Rightarrow> Some (transport_error err)
      | Inr code \<Rightarrow> if code \<noteq> 200 then Some (RunFailed (''ollama not available: ollama ping returned status '' @ fmt_int code)) else None)"

section \<open>A run\<close>

definition promptTooLong :: "chat_error \<Rightarrow> bool" where
  "promptTooLong err = (case err of StatusError code body \<Rightarrow> code = 400 \<and> sublist ''context'' body | _ \<Rightarrow> False)"

definition isEmptyData :: "analysis_data \<Rightarrow> bool" where
  "isEmptyData data \<longleftrightarrow> ad_TopMsgIDs data = [] \<and> ad_VolumeTimeline data = [] \<and> \<not> list_ex (\<lambda>lvl. sl_Current lvl > 0) (ad_SeverityComparison data)"

definition emptyDataBody :: "analysis_scope \<Rightarrow> string" where
  "emptyDataBody scope =
     (if IsAllHosts scope then ''_No events recorded on this feed during this window._'' @ [line_feed]
      else ''_No events recorded for the scoped host(s) during this window._'' @ [line_feed])"

record prepared =
  pp_periodStart :: instant
  pp_periodEnd :: instant
  pp_empty :: bool
  pp_emptyBody :: string
  pp_system :: string
  pp_user :: string

record analyzer_env =
  az_gather :: gather_env
  az_ollama :: ollama_env
  az_buildPrompt :: "analysis_data \<Rightarrow> string \<Rightarrow> string + string \<times> string"
  az_prepareAppLog :: "analysis_scope \<Rightarrow> duration \<Rightarrow> instant \<Rightarrow> string \<Rightarrow> run_error + prepared"
  az_format :: report_format
  az_quote :: "string \<Rightarrow> string"
  az_now :: instant
  az_Model :: string
  az_Temperature :: rat
  az_NumCtx :: int

text \<open>Wrapping an error keeps what it is; the message of one that is none of the known kinds gets a prefix.\<close>

definition wrap_run_error :: "string \<Rightarrow> run_error \<Rightarrow> run_error" where
  "wrap_run_error msg err = (case err of RunFailed m \<Rightarrow> RunFailed (msg @ m) | _ \<Rightarrow> err)"

definition prepareSyslog :: "analyzer_env \<Rightarrow> analysis_scope \<Rightarrow> duration \<Rightarrow> instant \<Rightarrow> string \<Rightarrow> run_error + prepared" where
  "prepareSyslog env scope period periodEnd mode =
     (case gather (az_gather env) scope period periodEnd of
        Inl err \<Rightarrow> Inl (wrap_run_error ''gather data: '' err)
      | Inr data \<Rightarrow>
          (let p = \<lparr>pp_periodStart = ad_PeriodStart data, pp_periodEnd = ad_PeriodEnd data, pp_empty = False, pp_emptyBody = [], pp_system = [], pp_user = []\<rparr> in
           if isEmptyData data then Inr (p\<lparr>pp_empty := True, pp_emptyBody := emptyDataBody scope\<rparr>)
           else (case az_buildPrompt env data mode of
                   Inl err \<Rightarrow> Inl (RunFailed (''build prompt: '' @ err))
                 | Inr (system, user) \<Rightarrow> Inr (p\<lparr>pp_system := system, pp_user := user\<rparr>))))"

record full_result = run_result +
  fr_PeriodStart :: instant
  fr_PeriodEnd :: instant

definition chat_failed :: "chat_error \<Rightarrow> run_error" where
  "chat_failed err =
     (if promptTooLong err then ErrContextExceeded
      else case err of
        ChatTransport e \<Rightarrow> transport_error e
      | StatusError code body \<Rightarrow> BackendStatus body
      | ChatDecode m \<Rightarrow> RunFailed (''ollama chat: decode chat response: '' @ m))"

text \<open>The one corrective follow-up: the reply to keep. Composing the correction cannot panic, see below.\<close>

definition retry_once ::
  "analyzer_env \<Rightarrow> string \<Rightarrow> chat_request \<Rightarrow> chat_response \<Rightarrow> chat_request list \<Rightarrow> chat_response \<times> chat_request list" where
  "retry_once env kind req resp sent =
     (case validateReport (az_quote env) (cm_Content (cs_Message resp)) kind of
        None \<Rightarrow> (resp, sent)
      | Some vErr \<Rightarrow>
          (let req2 = req\<lparr>cr_Messages := cr_Messages req @
                 [\<lparr>cm_Role = ''assistant'', cm_Content = cm_Content (cs_Message resp)\<rparr>,
                  \<lparr>cm_Role = ''user'', cm_Content = the (structureCorrection vErr kind)\<rparr>]\<rparr> in
           case Chat (az_ollama env) req2 sent of
             (Inl err, sent1) \<Rightarrow> (resp, sent1)
           | (Inr retry, sent1) \<Rightarrow>
               if cs_DoneReason retry = DoneReasonLength then (resp, sent1)
               else if validateReport (az_quote env) (cm_Content (cs_Message retry)) kind = None
               then (retry\<lparr>cs_PromptEvalCount := cs_PromptEvalCount retry + cs_PromptEvalCount resp,
                           cs_EvalCount := cs_EvalCount retry + cs_EvalCount resp\<rparr>, sent1)
               else (resp, sent1)))"

definition Run ::
  "analyzer_env \<Rightarrow> string \<Rightarrow> string list \<Rightarrow> string list \<Rightarrow> duration \<Rightarrow> string \<Rightarrow> (run_error + full_result) \<times> chat_request list" where
  "Run env feed hosts services period mode0 =
     (let mode = (if mode0 = [] then ''daily'' else mode0);
          kind = reportKind feed mode;
          title = AnalysisBriefingTitle feed mode;
          periodEnd = Truncate minute (az_now env);
          scope = \<lparr>sp_Feed = feed, sp_Hosts = hosts, sp_Services = services\<rparr> in
      case Ping (az_ollama env) of
        Some err \<Rightarrow> (Inl err, [])
      | None \<Rightarrow>
          (case (if feed = ''applog'' then az_prepareAppLog env scope period periodEnd mode else prepareSyslog env scope period periodEnd mode) of
             Inl err \<Rightarrow> (Inl err, [])
           | Inr p \<Rightarrow>
               let assemble = (\<lambda>body prompt completion. \<lparr>rs_Report = prependReportHeader (az_format env) body title (pp_periodStart p) (pp_periodEnd p),
                     rs_PromptTokens = prompt, rs_CompletionTokens = completion, fr_PeriodStart = pp_periodStart p, fr_PeriodEnd = pp_periodEnd p\<rparr>) in
               if pp_empty p then (Inr (assemble (pp_emptyBody p) 0 0), [])
               else
                 (let req = \<lparr>cr_Model = az_Model env,
                        cr_Messages = [\<lparr>cm_Role = ''system'', cm_Content = pp_system p\<rparr>, \<lparr>cm_Role = ''user'', cm_Content = pp_user p\<rparr>],
                        cr_Stream = False, cr_Temperature = az_Temperature env, cr_NumCtx = az_NumCtx env,
                        cr_Truncate = Some False, cr_Shift = Some False\<rparr> in
                  case Chat (az_ollama env) req [] of
                    (Inl err, sent) \<Rightarrow> (Inl (chat_failed err), sent)
                  | (Inr resp, sent) \<Rightarrow>
                      if cs_DoneReason resp = DoneReasonLength then (Inl ErrContextExceeded, sent)
                      else (case retry_once env kind req resp sent of
                              (best, sent1) \<Rightarrow>
                                (Inr (assemble (normalizeReportMarkdown (cm_Content (cs_Message best))) (cs_PromptEvalCount best) (cs_EvalCount best)), sent1)))))"

text \<open>The runner of the worker.\<close>

definition analyzer_runner :: "string \<Rightarrow> (nat \<Rightarrow> analyzer_env) \<Rightarrow> runner" where
  "analyzer_runner model env =
     \<lparr>rn_Model = model, rn_Run = (\<lambda>feed hosts services period mode n.
        map_sum id run_result.truncate (fst (Run (env n) feed hosts services period mode)))\<rparr>"

section \<open>What a failed lookup costs\<close>

definition or_zero :: "'a \<Rightarrow> run_error + 'a \<Rightarrow> 'a" where
  "or_zero zero res = (case res of Inr v \<Rightarrow> v | Inl _ \<Rightarrow> zero)"

definition lost :: "string \<Rightarrow> bool \<Rightarrow> run_error + 'a \<Rightarrow> string set" where
  "lost sect made res = (if made \<and> isl res then {sect} else {})"

lemma best_effort_rule:
  assumes "\<And>e n. ctx n = Some e \<Longrightarrow> P (Inl e)"
    and "\<And>n. P (k (or_zero zero res) (n, snd s \<union> lost sect True res))"
  shows "P (and_then (bestEffort ctx sect zero res s) k)"
  using assms by (cases s; cases res) (auto simp: and_then_def bestEffort_def or_zero_def lost_def split: option.splits)

lemma best_effort_if_rule:
  assumes "\<And>e n. ctx n = Some e \<Longrightarrow> P (Inl e)"
    and "\<And>n. P (k (if made then or_zero zero res else zero) (n, snd s \<union> lost sect made res))"
  shows "P (and_then (if made then bestEffort ctx sect zero res s else (Inr zero, s)) k)"
  using assms best_effort_rule [of ctx P k zero res s sect] assms(2) [of "fst s"]
  by (cases made) (auto simp: and_then_def lost_def)

lemma capNewMsgIDs_bounds:
  "set (fst (capNewMsgIDs ids samples limit)) \<subseteq> set ids" "length (fst (capNewMsgIDs ids samples limit)) \<le> limit"
  "length (fst (capNewMsgIDs ids samples limit)) + snd (capNewMsgIDs ids samples limit) = length ids"
  by (auto simp: capNewMsgIDs_def Let_def dest: in_set_takeD)

lemma attach_samples_ids: "map mc_MsgID (attach_samples samples tops) = map mc_MsgID tops"
  by (induction tops) (auto simp: attach_samples_def split: option.splits)


lemma cap_keeps_the_severe:
  assumes "length ids > limit" "x \<in> set (fst (capNewMsgIDs ids samples limit))"
    "y \<in> set (drop limit (sort_key (\<lambda>i. case samples i of Some s \<Rightarrow> sm_Severity s | None \<Rightarrow> 8) ids))"
  shows "(case samples x of Some s \<Rightarrow> sm_Severity s | None \<Rightarrow> 8) \<le> (case samples y of Some s \<Rightarrow> sm_Severity s | None \<Rightarrow> 8)"
proof -
  let ?f = "\<lambda>i. case samples i of Some s \<Rightarrow> sm_Severity s | None \<Rightarrow> 8"
  let ?s = "sort_key ?f ids"
  have "sorted (map ?f (take limit ?s @ drop limit ?s))" by simp
  then have "\<forall>a \<in> set (take limit ?s). \<forall>b \<in> set (drop limit ?s). ?f a \<le> ?f b" unfolding map_append sorted_append by simp
  then show ?thesis using assms by (simp add: capNewMsgIDs_def Let_def)
qed

section \<open>A run keeps the better reply\<close>

lemma correction_exists: "validateReport quote report kind = Some err \<Longrightarrow> structureCorrection err kind \<noteq> None"
  by (auto simp: validateReport_def structureCorrection_def split: option.splits)

text \<open>The i-th reply of the model server.\<close>

definition reply :: "analyzer_env \<Rightarrow> chat_request list \<Rightarrow> nat \<Rightarrow> chat_response option" where
  "reply env sent i =
     (if i < length sent
      then (case fst (Chat (az_ollama env) (sent ! i) (take i sent)) of
              Inr resp \<Rightarrow> if cs_DoneReason resp = DoneReasonLength then None else Some resp
            | Inl _ \<Rightarrow> None)
      else None)"

definition content :: "chat_response \<Rightarrow> string" where "content resp = cm_Content (cs_Message resp)"

definition valid_reply :: "analyzer_env \<Rightarrow> string \<Rightarrow> string \<Rightarrow> chat_response \<Rightarrow> bool" where
  "valid_reply env feed mode resp \<longleftrightarrow>
     validateReport (az_quote env) (content resp) (reportKind feed (if mode = [] then ''daily'' else mode)) = None"

definition strict_request :: "chat_request \<Rightarrow> bool" where
  "strict_request req \<longleftrightarrow> \<not> cr_Stream req \<and> cr_Truncate req = Some False \<and> cr_Shift req = Some False"

lemma Chat_stream: "fst (Chat env (req\<lparr>cr_Stream := False\<rparr>) sent) = fst (Chat env req sent)"
  by (simp add: Chat_def Let_def)

lemma retry_once_best:
  assumes "retry_once env kind req resp [req0] = (best, sent)" "fst (Chat (az_ollama env) req []) = Inr resp" "cs_DoneReason resp \<noteq> DoneReasonLength"
    "req0 = req\<lparr>cr_Stream := False\<rparr>" "strict_request req"
  shows "reply env sent 0 = Some resp \<and> length sent \<le> 2 \<and> list_all strict_request sent \<and>
    (validateReport (az_quote env) (content resp) kind = None \<longrightarrow> best = resp \<and> length sent = 1) \<and>
    (content best = content resp \<or> (\<exists>retry. reply env sent 1 = Some retry \<and> content best = content retry \<and> validateReport (az_quote env) (content retry) kind = None)) \<and>
    (\<forall>retry. reply env sent 1 = Some retry \<longrightarrow> validateReport (az_quote env) (content retry) kind = None \<longrightarrow> content best = content retry)"
proof (cases "validateReport (az_quote env) (content resp) kind")
  case None
  then show ?thesis using assms Chat_stream [of "az_ollama env" req "[]"]
    by (auto simp: retry_once_def content_def reply_def strict_request_def)
next
  case (Some vErr)
  obtain req2 where req2: "req2 = req\<lparr>cr_Messages := cr_Messages req @ [\<lparr>cm_Role = ''assistant'', cm_Content = content resp\<rparr>,
      \<lparr>cm_Role = ''user'', cm_Content = the (structureCorrection vErr kind)\<rparr>]\<rparr>" by blast
  obtain r sent1 where c: "Chat (az_ollama env) req2 [req0] = (r, sent1)" by fastforce
  have sent1: "sent1 = [req0, req2\<lparr>cr_Stream := False\<rparr>]" using c by (auto simp: Chat_def Let_def)
  have run: "(best, sent) = (case r of Inl err \<Rightarrow> (resp, sent1) | Inr retry \<Rightarrow>
      if cs_DoneReason retry = DoneReasonLength then (resp, sent1)
      else if validateReport (az_quote env) (content retry) kind = None
      then (retry\<lparr>cs_PromptEvalCount := cs_PromptEvalCount retry + cs_PromptEvalCount resp, cs_EvalCount := cs_EvalCount retry + cs_EvalCount resp\<rparr>, sent1)
      else (resp, sent1))"
    using assms(1) Some c [unfolded req2] unfolding retry_once_def content_def [symmetric] Let_def by (cases r) auto
  have r1: "fst (Chat (az_ollama env) (sent1 ! 1) (take 1 sent1)) = r"
    using c Chat_stream [of "az_ollama env" req2 "[req0]"] by (simp add: sent1)
  have "sent = sent1" using run by (auto split: sum.splits if_splits)
  then show ?thesis using run r1 assms(2-5) Some Chat_stream [of "az_ollama env" req "[]"] sent1
    by (auto simp: reply_def strict_request_def req2 content_def split: sum.splits if_splits)
qed


definition ex_analyzer :: analyzer_env where
  "ex_analyzer = \<lparr>az_gather = \<lparr>gx_TopMsgIDs = (\<lambda>_ _ _. Inr []), gx_SeverityComparison = (\<lambda>_ _ _. Inr []), gx_TopErrorHosts = (\<lambda>_ _ _. Inr []),
       gx_NewMsgIDs = (\<lambda>_ _ _. Inr []), gx_EventClusters = (\<lambda>_ _ _. Inr []), gx_MsgIDSamples = (\<lambda>_ _ _ _. Inr Map.empty),
       gx_TopPrograms = (\<lambda>_ _ _. Inr []), gx_TopFacilities = (\<lambda>_ _ _. Inr []), gx_VolumeTimeline = (\<lambda>_ _ _ _. Inr []),
       gx_JuniperRefs = (\<lambda>_. Inr Map.empty), gx_ctx = (\<lambda>_. None), gx_format = (\<lambda>_ _. []), gx_duration = (\<lambda>_. [])\<rparr>,
     az_ollama = \<lparr>ox_tags = Inr 200, ox_post = (\<lambda>_ _. Inr (200, ''all quiet'')),
       ox_decode = (\<lambda>body. Inr \<lparr>cs_Message = \<lparr>cm_Role = ''assistant'', cm_Content = body\<rparr>, cs_TotalDuration = 1, cs_PromptEvalCount = 7,
         cs_EvalCount = 3, cs_DoneReason = ''stop''\<rparr>)\<rparr>,
     az_buildPrompt = (\<lambda>_ _. Inr (''s'', ''u'')),
     az_prepareAppLog = (\<lambda>_ period periodEnd _. Inr \<lparr>pp_periodStart = periodEnd - period, pp_periodEnd = periodEnd, pp_empty = False,
       pp_emptyBody = [], pp_system = ''s'', pp_user = ''u''\<rparr>),
     az_format = \<lparr>rf_day = (\<lambda>_. ''d''), rf_minute = (\<lambda>_. ''m'')\<rparr>, az_quote = id, az_now = 0, az_Model = ''m'', az_Temperature = 0, az_NumCtx = 4096\<rparr>"


end
