(* ===== verification/Spec2Isabelle.thy ===== *)
theory Spec2Isabelle
  imports Ingest Sse EventStore Routes OidcFlow Listener NotifyAdmin AnalysisRun
begin

text \<open>
  A verification library for taillight, a log viewer that stores syslog and application log events in
  PostgreSQL, streams them to browsers, raises notifications and ships logs from Go programs. The
  sources are the Go packages under \<^verbatim>\<open>src/api\<close> and \<^verbatim>\<open>src/pkg/logshipper\<close>.

  \<^bold>\<open>How the parts interact.\<close> rsyslog inserts rows; the listener receives their ids and fills gaps after an
  outage (\<^verbatim>\<open>Listener\<close>); the ingest bridge fetches a row, marks it with the mute rule that matches it,
  broadcasts it and hands unmuted events to the engine (\<^verbatim>\<open>Mute\<close>). The broker fans an event out to the
  queues of its subscribers (\<^verbatim>\<open>Broker\<close>), from which the streamer writes server-sent events (\<^verbatim>\<open>Sse\<close>). The
  engine matches rules (\<^verbatim>\<open>Notification\<close>), groups events in the suppressor (\<^verbatim>\<open>Suppressor\<close>) and delivers with
  limiter, breaker and retries (\<^verbatim>\<open>Engine\<close>). Application logs come from the shipper (\<^verbatim>\<open>LogShipper\<close>) through
  the ingest handler (\<^verbatim>\<open>Ingest\<close>). Requests are authenticated by session or API key (\<^verbatim>\<open>AuthStore\<close>, \<^verbatim>\<open>Auth\<close>,
  \<^verbatim>\<open>Accounts\<close>); list requests are parsed (\<^verbatim>\<open>Query\<close>), turned into SQL and paged (\<^verbatim>\<open>EventStore\<close>).

  \<^bold>\<open>The theories and the code they model.\<close>
  \<^item> \<^verbatim>\<open>Prelude\<close>, \<^verbatim>\<open>Utf8\<close>, \<^verbatim>\<open>Strconv\<close>: what the code uses of Go and its standard library: 64-bit wrap-around,
    instants and durations in nanoseconds, string search and splitting, UTF-8 decoding and case
    mapping, number formatting and parsing, base64.
  \<^item> \<^verbatim>\<open>Json\<close>: the texts of \<^verbatim>\<open>encoding/json\<close> where the code looks into them. A decoded value is read back from its
    text.
  \<^item> \<^verbatim>\<open>Filters\<close>: \<^verbatim>\<open>internal/model/{srvlog,netlog,applog}.go\<close>. Wildcards are glob matching, the search without
    allocation equals the folded substring test, the level filter agrees with its SQL form.
  \<^item> \<^verbatim>\<open>Broker\<close>: \<^verbatim>\<open>internal/broker/broker.go\<close> as operations on an explicit store of subscriptions. The limits
    hold in every reachable state, no operation panics, a broadcast reaches exactly the matching queues
    with room.
  \<^item> \<^verbatim>\<open>Notification\<close>, \<^verbatim>\<open>Suppressor\<close>, \<^verbatim>\<open>Engine\<close>: \<^verbatim>\<open>internal/notification\<close>. Group keys separate groups; every event is
    counted in exactly one alert or digest, or waits, or was refused at a cap; notifications keep their
    distance and waiting events are flushed; delivery ends within five attempts whatever the backend does.
  \<^item> \<^verbatim>\<open>Mute\<close>: \<^verbatim>\<open>internal/mute\<close>, the mute handlers and \<^verbatim>\<open>internal/ingestbridge\<close>. The lowest active rule marks an
    event, marking and SQL exclusion agree, muted events are broadcast but not notified.
  \<^item> \<^verbatim>\<open>LogShipper\<close>: \<^verbatim>\<open>pkg/logshipper/handler.go\<close> as a step relation. Every record is sent, waiting or counted as
    lost; requests stay within the size and batch limits.
  \<^item> \<^verbatim>\<open>Ingest\<close>, \<^verbatim>\<open>Sse\<close>: the ingest handler stores and publishes all entries or none, and accepts what the
    shipper sends; a resumed stream delivers what the client missed.
  \<^item> \<^verbatim>\<open>Query\<close>, \<^verbatim>\<open>EventStore\<close>: query parsing, cursors, SQL clauses and listings. A clause selects what the live
    filter accepts, following cursors returns every row once, hidden events stay hidden.
  \<^item> \<^verbatim>\<open>AuthStore\<close>, \<^verbatim>\<open>Auth\<close>, \<^verbatim>\<open>Accounts\<close>: \<^verbatim>\<open>postgres/auth_store.go\<close>, \<^verbatim>\<open>internal/auth\<close> and \<^verbatim>\<open>handler/auth.go\<close>. The
    tables keep their keys; only live credentials with the scope are served; the login policy holds; a
    key has no more authority than its creator; a deactivated account is locked out.
  \<^item> \<^verbatim>\<open>Routes\<close>: the routes of \<^verbatim>\<open>cmd/taillight/serve.go\<close> with their middlewares. With authentication enabled every route is
    guarded as documented.
  \<^item> \<^verbatim>\<open>OidcFlow\<close>: \<^verbatim>\<open>internal/oidc/oidc.go\<close> and \<^verbatim>\<open>handler/auth_oidc.go\<close>. A callback opens a session only for a gated
    identity of the login it belongs to, a sealed state opens again, and redirects stay on the site when they hold
    neither tab nor backslash.
  \<^item> \<^verbatim>\<open>Listener\<close>: \<^verbatim>\<open>postgres/listener.go\<close>. No row is lost across outages once a channel has a baseline, and
    reconnection delays are bounded.
  \<^item> \<^verbatim>\<open>Analysis\<close>: \<^verbatim>\<open>model/analysis.go\<close>, \<^verbatim>\<open>postgres/analysis_report_store.go\<close> and \<^verbatim>\<open>worker/analysis.go\<close>. One active
    report per scope, each finished by a worker round, final once finished and announced at most once.
  \<^item> \<^verbatim>\<open>ReportText\<close>, \<^verbatim>\<open>AnalysisRun\<close>: \<^verbatim>\<open>analyzer/{normalize,structure,header,gather,run}.go\<close> and \<^verbatim>\<open>ollama/client.go\<close>.
    Normalizing a reply keeps its text and sections; a failed lookup costs its own section; a run keeps the better
    of at most two complete replies.
  \<^item> \<^verbatim>\<open>Schedule\<close>, \<^verbatim>\<open>Summary\<close>: \<^verbatim>\<open>internal/scheduler\<close>, the schedule tables and their handlers. Stored schedules are
    well-formed, the next occurrence is never swallowed, firings of one day collide, a summary run sends one report.
  \<^item> \<^verbatim>\<open>Secrets\<close>, \<^verbatim>\<open>NotifyAdmin\<close>: \<^verbatim>\<open>notification/secrets.go\<close>, \<^verbatim>\<open>postgres/notification_store.go\<close> and
    \<^verbatim>\<open>handler/notification.go\<close>. Answers do not depend on secrets, an unchanged edit keeps them, no mask is stored;
    rules are written with their channels or not at all, are read back and stay valid.

  \<^bold>\<open>Conventions.\<close> A struct is a record, an operation a definition with the state passed in and returned,
  a goroutine's loop or an interleaving an inductive step relation. Errors are values. Code outside the
  sources is a parameter: \<^verbatim>\<open>jsonb\<close>, the token bucket of \<^verbatim>\<open>x/time/rate\<close>, the circuit breaker, HTTP,
  bcrypt and digests, LDAP, \<^verbatim>\<open>go-oidc\<close> and \<^verbatim>\<open>oauth2\<close>, the parsers of addresses and times, the database's answers where a query is
  not translated. Interfaces of the code are locales (\<^verbatim>\<open>credential_lookup\<close> for the two lookups of the
  middleware, and those of the other theories), interpreted on the model's own definitions.

  \<^bold>\<open>Loops and bounds.\<close> Every function terminates by its structure or a measure; loops that run for ever in
  the code are step relations or consume a list of what the environment does. The retry loop of a
  delivery is bounded by its schedule. Caps (subscribers, queue lengths, fingerprints, touch buffer, gap
  fill) are the constants of the code.

  \<^bold>\<open>Not modelled.\<close> The prompt templates, the gathering for application logs and the printed form of analysis reports
  (\<^verbatim>\<open>analyzer/prompt.go\<close>, \<^verbatim>\<open>analyzer/applog.go\<close>, \<^verbatim>\<open>report\<close>), the notification backends, the LDAP client, NetBox enrichment, the Juniper reference, statistics
  and metadata queries, metrics, configuration and command wiring: they format text, call services or
  send fixed SQL. Logging has no effect on the state and is left out everywhere.
\<close>

end
